(* ===== verification/Prelude.thy ===== *)
theory Prelude
  imports Main "HOL-Library.Word"
begin

text \<open>
  Shared vocabulary of the development: machine integers, the fault-or-result sum that every
  stateful operation returns, event-driven runs of a transition function with the locale
  \<open>step_invariant\<close> that lifts a one-step invariant to whole runs, the retry combinator that the
  do/while retry loops of the source are instances of, and generic lemmas on lists and words.
\<close>

named_theorems ret_defs \<open>numeric values of the return codes\<close>
named_theorems sys_defs \<open>definitions of the system calls of the operating-system model\<close>
named_theorems frame \<open>what an operation leaves unchanged\<close>

type_synonym u8 = "8 word"
type_synonym u32 = "32 word"
type_synonym u64 = "64 word"

section \<open>Undefined behaviour as values\<close>

text \<open>
  C code does not raise: it crashes or continues with undefined behaviour. Every operation that
  dereferences a pointer returns a sum, whose left side says what went wrong.
\<close>

datatype fault =
    NullDeref        \<comment> \<open>a load or store through \<open>NULL\<close>\<close>
  | BadPointer       \<comment> \<open>a load or store through \<open>MAP_FAILED\<close>\<close>
  | UseAfterFree     \<comment> \<open>an access to a block that is not allocated\<close>
  | OutOfBounds      \<comment> \<open>an access past the end of a block\<close>
  | Uninit           \<comment> \<open>a load of an array slot that was never stored\<close>
  | InvalidFree      \<comment> \<open>\<open>free\<close> of something that is not an allocated block\<close>
  | ReadOnly         \<comment> \<open>a store into a \<open>PROT_READ\<close> mapping\<close>
  | BusError         \<comment> \<open>an access to a mapped page beyond the end of the file\<close>
  | NullCall         \<comment> \<open>a call through a null function pointer\<close>
  | BadJoin          \<comment> \<open>\<open>pthread_join\<close> of a thread that was not created or was joined before\<close>
  | CondNotLocked    \<comment> \<open>\<open>pthread_cond_wait\<close> without holding the mutex\<close>

definition and_then :: "fault + 'a \<Rightarrow> ('a \<Rightarrow> fault + 'b) \<Rightarrow> fault + 'b" where
  "and_then m k = (case m of Inl f \<Rightarrow> Inl f | Inr x \<Rightarrow> k x)"

lemma and_then_simps [simp]:
  "and_then (Inl f) k = Inl f"
  "and_then (Inr x) k = k x"
  by (simp_all add: and_then_def)

lemma and_then_Inr_iff [simp]:
  "and_then m k = Inr y \<longleftrightarrow> (\<exists>x. m = Inr x \<and> k x = Inr y)"
  by (cases m) auto

lemma and_then_assoc: "and_then (and_then m f) g = and_then m (\<lambda>x. and_then (f x) g)"
  by (cases m) simp_all

lemma and_then_Inl_iff:
  "and_then m k = Inl f \<longleftrightarrow> m = Inl f \<or> (\<exists>x. m = Inr x \<and> k x = Inl f)"
  by (cases m) auto

section \<open>Runs of an event-driven machine\<close>

text \<open>
  \<open>exec e s\<close> is \<open>None\<close> where the event is not enabled in \<open>s\<close> (a blocked thread),
  \<open>Some (Inl f)\<close> where it faults and \<open>Some (Inr s')\<close> where it leads to \<open>s'\<close>. A run is a list of
  events, each enabled and without fault.
\<close>

fun run :: "('e \<Rightarrow> 's \<Rightarrow> (fault + 's) option) \<Rightarrow> 'e list \<Rightarrow> 's \<Rightarrow> 's option" where
  "run exec [] s = Some s"
| "run exec (e # es) s =
     (case exec e s of Some (Inr s') \<Rightarrow> run exec es s' | _ \<Rightarrow> None)"

lemma run_append:
  "run exec (xs @ ys) s = (case run exec xs s of None \<Rightarrow> None | Some s' \<Rightarrow> run exec ys s')"
  by (induction xs arbitrary: s) (auto split: option.splits sum.splits)

lemma run_Cons_Some:
  "run exec (e # es) s = Some t \<longleftrightarrow> (\<exists>u. exec e s = Some (Inr u) \<and> run exec es u = Some t)"
  by (auto split: option.splits sum.splits)

text \<open>
  An invariant indexed by the number of steps taken: the index carries the budget that keeps
  32-bit counters from wrapping.
\<close>

locale step_invariant =
  fixes exec :: "'e \<Rightarrow> 's \<Rightarrow> (fault + 's) option"
    and inv :: "nat \<Rightarrow> 's \<Rightarrow> bool"
    and ok :: "'e \<Rightarrow> bool"
    and bound :: nat
  assumes inv_step: "inv n s \<Longrightarrow> n < bound \<Longrightarrow> ok e \<Longrightarrow> exec e s = Some (Inr s') \<Longrightarrow> inv (Suc n) s'"
begin

lemma inv_run:
  "inv n s \<Longrightarrow> n + length es \<le> bound \<Longrightarrow> list_all ok es \<Longrightarrow> run exec es s = Some t \<Longrightarrow>
   inv (n + length es) t"
proof (induction es arbitrary: n s)
  case Nil
  then show ?case by simp
next
  case (Cons e es)
  from Cons.prems obtain u where u: "exec e s = Some (Inr u)" "run exec es u = Some t"
    by (auto simp: run_Cons_Some simp del: run.simps)
  from Cons.prems have "inv (Suc n) u"
    by (intro inv_step [OF Cons.prems(1) _ _ u(1)]) auto
  from Cons.IH [OF this _ _ u(2)] Cons.prems show ?case by simp
qed

end

text \<open>
  A relation between the first and the last state of a run, whose single steps may rely on an
  invariant.
\<close>

locale step_preorder = step_invariant exec inv ok bound
  for exec :: "'e \<Rightarrow> 's \<Rightarrow> (fault + 's) option"
    and inv :: "nat \<Rightarrow> 's \<Rightarrow> bool"
    and ok :: "'e \<Rightarrow> bool"
    and bound :: nat +
  fixes le :: "'s \<Rightarrow> 's \<Rightarrow> bool"
  assumes le_refl: "le s s"
    and le_trans: "le s t \<Longrightarrow> le t u \<Longrightarrow> le s u"
    and le_step: "inv n s \<Longrightarrow> n < bound \<Longrightarrow> ok e \<Longrightarrow> exec e s = Some (Inr s') \<Longrightarrow> le s s'"
begin

lemma le_run:
  "inv n s \<Longrightarrow> n + length es \<le> bound \<Longrightarrow> list_all ok es \<Longrightarrow> run exec es s = Some t \<Longrightarrow> le s t"
proof (induction es arbitrary: n s)
  case Nil
  then show ?case by (simp add: le_refl)
next
  case (Cons e es)
  then obtain u where u: "exec e s = Some (Inr u)" "run exec es u = Some t"
    by (auto simp: run_Cons_Some simp del: run.simps)
  with Cons.prems have "inv (Suc n) u" "le s u"
    by (auto intro: inv_step [OF Cons.prems(1) _ _ u(1)] le_step [OF Cons.prems(1) _ _ u(1)])
  with Cons.IH [OF _ _ _ u(2)] Cons.prems have "le u t" by simp
  with \<open>le s u\<close> show ?case by (rule le_trans)
qed

end

section \<open>Retry loops\<close>

text \<open>
  \<open>do { x = f(); } while (bad(x) && retry_times++ < limit)\<close>: the body runs once, then again
  while it fails and the counter (before its increment) is below the limit.
\<close>

function retry_do ::
  "('w \<Rightarrow> 'a \<times> 'w) \<Rightarrow> ('a \<Rightarrow> bool) \<Rightarrow> nat \<Rightarrow> nat \<Rightarrow> 'w \<Rightarrow> 'a \<times> 'w" where
  "retry_do f bad limit n w =
     (let (x, w') = f w
      in if bad x \<and> n < limit then retry_do f bad limit (Suc n) w' else (x, w'))"
  by pat_completeness auto
termination
  by (relation "measure (\<lambda>(f, bad, limit, n, w). limit - n)") auto

declare retry_do.simps [simp del]

text \<open>
  \<open>x = f(); for (i = 0; bad(x) && i < limit; i++) x = f();\<close>: the same retries written as a
  \<open>for\<close> loop after a first attempt.
\<close>

function retry_for_loop ::
  "('w \<Rightarrow> 'a \<times> 'w) \<Rightarrow> ('a \<Rightarrow> bool) \<Rightarrow> nat \<Rightarrow> nat \<Rightarrow> 'a \<Rightarrow> 'w \<Rightarrow> 'a \<times> 'w" where
  "retry_for_loop f bad limit i x w =
     (if bad x \<and> i < limit
      then let (x', w') = f w in retry_for_loop f bad limit (Suc i) x' w'
      else (x, w))"
  by pat_completeness auto
termination
  by (relation "measure (\<lambda>(f, bad, limit, i, x, w). limit - i)") auto

declare retry_for_loop.simps [simp del]

definition retry_for :: "('w \<Rightarrow> 'a \<times> 'w) \<Rightarrow> ('a \<Rightarrow> bool) \<Rightarrow> nat \<Rightarrow> 'w \<Rightarrow> 'a \<times> 'w" where
  "retry_for f bad limit w = (let (x, w') = f w in retry_for_loop f bad limit 0 x w')"

lemma retry_do_unfold_loop:
  "retry_do f bad limit n w = (let (x, w') = f w in retry_for_loop f bad limit n x w')"
proof (induction f bad limit n w rule: retry_do.induct)
  case (1 f bad limit n w)
  obtain x v where x: "f w = (x, v)" by (cases "f w")
  show ?case
  proof (cases "bad x \<and> n < limit")
    case True
    with 1 x have "retry_do f bad limit (Suc n) v =
      (let (x, w') = f v in retry_for_loop f bad limit (Suc n) x w')" by simp
    with True x show ?thesis
      by (simp add: retry_do.simps [of f bad limit n w] retry_for_loop.simps [of f bad limit n x v])
  next
    case False
    with x show ?thesis
      by (auto simp: retry_do.simps [of f bad limit n w] retry_for_loop.simps [of f bad limit n x v])
  qed
qed

lemma retry_for_eq_do: "retry_for f bad limit = retry_do f bad limit 0"
  by (rule ext) (simp add: retry_for_def retry_do_unfold_loop)

text \<open>
  The rule the retry loops are reasoned with: \<open>P\<close> holds before every attempt, \<open>Q\<close> relates the
  value and the world after one.
\<close>

lemma retry_do_rule:
  assumes res: "retry_do f bad limit n w = (x, w')" and start: "P w"
    and att: "\<And>w x w'. P w \<Longrightarrow> f w = (x, w') \<Longrightarrow> Q x w'"
    and again: "\<And>x w. Q x w \<Longrightarrow> bad x \<Longrightarrow> P w"
  shows "Q x w'"
  using start res
proof (induction f \<equiv> f bad \<equiv> bad limit \<equiv> limit n w rule: retry_do.induct)
  case (1 n w)
  obtain y v where y: "f w = (y, v)" by (cases "f w")
  then have q: "Q y v" using att 1(2) by blast
  show ?case
  proof (cases "bad y \<and> n < limit")
    case True
    with y 1(3) have "retry_do f bad limit (Suc n) v = (x, w')"
      by (simp add: retry_do.simps [of f bad limit n w])
    with True q y show ?thesis by (intro 1(1) [OF y [symmetric] refl]) (auto intro: again)
  next
    case False
    with y 1(3) q show ?thesis by (auto simp: retry_do.simps [of f bad limit n w] split: if_splits)
  qed
qed

lemma retry_do_good:
  "f w = (x, w') \<Longrightarrow> \<not> bad x \<Longrightarrow> retry_do f bad limit n w = (x, w')"
  by (simp add: retry_do.simps [of f bad limit n w])

text \<open>The value is the first good one of the first \<open>limit + 1\<close> attempts, or the last bad one.\<close>

fun attempts :: "('w \<Rightarrow> 'a \<times> 'w) \<Rightarrow> nat \<Rightarrow> 'w \<Rightarrow> 'a list" where
  "attempts f 0 w = []"
| "attempts f (Suc k) w = (let (x, w') = f w in x # attempts f k w')"

lemma retry_do_bad_iff:
  "bad (fst (retry_do f bad limit n w)) \<longleftrightarrow> list_all bad (attempts f (Suc (limit - n)) w)"
proof (induction f \<equiv> f bad \<equiv> bad limit \<equiv> limit n w rule: retry_do.induct)
  case (1 n w)
  obtain y v where y: "f w = (y, v)" by (cases "f w")
  show ?case
  proof (cases "bad y \<and> n < limit")
    case True
    with 1 [OF y [symmetric] refl] have "bad (fst (retry_do f bad limit (Suc n) v)) \<longleftrightarrow>
      list_all bad (attempts f (Suc (limit - Suc n)) v)" by simp
    moreover from True have "Suc (limit - Suc n) = limit - n" by arith
    ultimately show ?thesis using True y
      by (simp add: retry_do.simps [of f bad limit n w] del: attempts.simps(2))
         (simp add: Let_def)
  next
    case False
    then show ?thesis using y
      by (auto simp: retry_do.simps [of f bad limit n w])
  qed
qed

section \<open>Lists and maps\<close>

lemma nth_list_update_if:
  "(xs[i := x]) ! j = (if i = j \<and> i < length xs then x else xs ! j)"
  by (cases "i < length xs") (auto simp: nth_list_update list_update_beyond linorder_not_less)

lemma fun_upd_Some_mono: "(m(a := Some x)) b = None \<Longrightarrow> m b = None"
  by (auto split: if_splits)

section \<open>Words\<close>

lemma unat_less_2_32: "unat x < 2 ^ 32" for x :: u32
  by (rule unsigned_less [THEN order_less_le_trans]) simp

lemma unat_Suc_32:
  fixes x :: u32
  shows "unat x < 2 ^ 32 - 1 \<Longrightarrow> unat (x + 1) = Suc (unat x)"
  by (simp add: unat_word_ariths)

lemma unat_pred_32:
  fixes x :: u32
  assumes "x \<noteq> 0"
  shows "unat (x - 1) = unat x - 1"
  using assms by (metis unat_minus_one)

end
