(* ===== verification/Common_Types.thy ===== *)
theory Common_Types
  imports Prelude
begin

text \<open>
  The types both accessors share: the return codes of \<open>inc/common_types.h\<close>, and the constants,
  enumerations and request description of \<open>inc/async_file_accessor.h\<close>, with the one piece of
  arithmetic both accessors use to size their request arrays.
\<close>

section \<open>Return codes\<close>

type_synonym ret_t = int

definition RET_OK :: ret_t where [ret_defs]: "RET_OK = 0"
definition RET_UNKNOWN_ERROR :: ret_t where [ret_defs]: "RET_UNKNOWN_ERROR = - 2147483647 - 1"

text \<open>The error numbers are those of Linux (\<open>asm-generic/errno.h\<close>).\<close>

definition RET_BUSY :: ret_t where [ret_defs]: "RET_BUSY = - 16"
definition RET_MAX_USERS :: ret_t where [ret_defs]: "RET_MAX_USERS = - 87"
definition RET_NO_MEMORY :: ret_t where [ret_defs]: "RET_NO_MEMORY = - 12"
definition RET_INVALID_OPERATION :: ret_t where [ret_defs]: "RET_INVALID_OPERATION = - 38"
definition RET_BAD_VALUE :: ret_t where [ret_defs]: "RET_BAD_VALUE = - 22"
definition RET_NAME_NOT_FOUND :: ret_t where [ret_defs]: "RET_NAME_NOT_FOUND = - 2"
definition RET_PERMISSION_DENIED :: ret_t where [ret_defs]: "RET_PERMISSION_DENIED = - 1"
definition RET_NO_INIT :: ret_t where [ret_defs]: "RET_NO_INIT = - 19"
definition RET_ALREADY_EXISTS :: ret_t where [ret_defs]: "RET_ALREADY_EXISTS = - 17"
definition RET_DEAD_OBJECT :: ret_t where [ret_defs]: "RET_DEAD_OBJECT = - 32"
definition RET_BAD_INDEX :: ret_t where [ret_defs]: "RET_BAD_INDEX = - 75"
definition RET_NOT_ENOUGH_DATA :: ret_t where [ret_defs]: "RET_NOT_ENOUGH_DATA = - 61"
definition RET_WOULD_BLOCK :: ret_t where [ret_defs]: "RET_WOULD_BLOCK = - 11"
definition RET_TIMED_OUT :: ret_t where [ret_defs]: "RET_TIMED_OUT = - 110"
definition RET_UNKNOWN_TRANSACTION :: ret_t where [ret_defs]: "RET_UNKNOWN_TRANSACTION = - 74"

definition ret_codes :: "ret_t list" where
  "ret_codes = [RET_OK, RET_UNKNOWN_ERROR, RET_BUSY, RET_MAX_USERS, RET_NO_MEMORY,
     RET_INVALID_OPERATION, RET_BAD_VALUE, RET_NAME_NOT_FOUND, RET_PERMISSION_DENIED, RET_NO_INIT,
     RET_ALREADY_EXISTS, RET_DEAD_OBJECT, RET_BAD_INDEX, RET_NOT_ENOUGH_DATA, RET_WOULD_BLOCK,
     RET_TIMED_OUT, RET_UNKNOWN_TRANSACTION]"

lemma ret_not_ok [simp]:
  "RET_BAD_VALUE \<noteq> RET_OK" "RET_NO_MEMORY \<noteq> RET_OK" "RET_INVALID_OPERATION \<noteq> RET_OK"
  "RET_ALREADY_EXISTS \<noteq> RET_OK"
  "RET_OK \<noteq> RET_BAD_VALUE" "RET_OK \<noteq> RET_NO_MEMORY" "RET_OK \<noteq> RET_INVALID_OPERATION"
  "RET_OK \<noteq> RET_ALREADY_EXISTS"
  by (simp_all add: ret_defs)

lemma ret_distinct [simp]:
  "RET_BAD_VALUE \<noteq> RET_INVALID_OPERATION" "RET_INVALID_OPERATION \<noteq> RET_BAD_VALUE"
  "RET_NO_MEMORY \<noteq> RET_ALREADY_EXISTS" "RET_ALREADY_EXISTS \<noteq> RET_NO_MEMORY"
  "RET_NO_MEMORY \<noteq> RET_BAD_VALUE" "RET_BAD_VALUE \<noteq> RET_NO_MEMORY"
  "RET_ALREADY_EXISTS \<noteq> RET_BAD_VALUE" "RET_BAD_VALUE \<noteq> RET_ALREADY_EXISTS"
  by (simp_all add: ret_defs)

section \<open>Constants\<close>

definition REQ_LIST_BUFSIZE :: u32 where "REQ_LIST_BUFSIZE = 1024"
definition MAX_RETRY_TIMES :: nat where "MAX_RETRY_TIMES = 2"
definition MAX_FILE_NAME_LEN :: nat where "MAX_FILE_NAME_LEN = 511"

section \<open>Enumerations\<close>

text \<open>
  \<open>async_file_accessor_type_t\<close> and \<open>async_file_access_direction_t\<close> come from the caller, who may
  pass any value of the underlying unsigned integer (the code tests for that): they are words with
  named constants. \<open>request_stat_t\<close> is only ever written by the code itself: it is a datatype,
  ordered as the enumeration is, because the code compares states with \<open><=\<close> and \<open>>=\<close>.
\<close>

type_synonym async_file_accessor_type_t = u32

definition ASYNC_FILE_ACCESSOR_AIO :: async_file_accessor_type_t where
  "ASYNC_FILE_ACCESSOR_AIO = 0"
definition ASYNC_FILE_ACCESSOR_MMAP :: async_file_accessor_type_t where
  "ASYNC_FILE_ACCESSOR_MMAP = 1"

type_synonym async_file_access_direction_t = u32

definition ASYNC_FILE_ACCESS_READ :: async_file_access_direction_t where
  "ASYNC_FILE_ACCESS_READ = 0"
definition ASYNC_FILE_ACCESS_WRITE :: async_file_access_direction_t where
  "ASYNC_FILE_ACCESS_WRITE = 1"
definition ASYNC_FILE_ACCESS_MAX :: async_file_access_direction_t where
  "ASYNC_FILE_ACCESS_MAX = 2"

lemma direction_distinct [simp]:
  "ASYNC_FILE_ACCESS_READ \<noteq> ASYNC_FILE_ACCESS_WRITE"
  "ASYNC_FILE_ACCESS_WRITE \<noteq> ASYNC_FILE_ACCESS_READ"
  by (simp_all add: ASYNC_FILE_ACCESS_READ_def ASYNC_FILE_ACCESS_WRITE_def)

lemma direction_cases:
  "d < ASYNC_FILE_ACCESS_MAX \<Longrightarrow> d = ASYNC_FILE_ACCESS_READ \<or> d = ASYNC_FILE_ACCESS_WRITE"
  unfolding ASYNC_FILE_ACCESS_MAX_def ASYNC_FILE_ACCESS_READ_def ASYNC_FILE_ACCESS_WRITE_def
  by unat_arith

datatype request_stat =
    REQUEST_STAT_INIT
  | REQUEST_STAT_SUBMITTED
  | REQUEST_STAT_IOSUCCESS
  | REQUEST_STAT_IOFAIL
  | REQUEST_STAT_CANCEL
  | REQUEST_STAT_MAX

fun stat_ord :: "request_stat \<Rightarrow> nat" where
  "stat_ord REQUEST_STAT_INIT = 0"
| "stat_ord REQUEST_STAT_SUBMITTED = 1"
| "stat_ord REQUEST_STAT_IOSUCCESS = 2"
| "stat_ord REQUEST_STAT_IOFAIL = 3"
| "stat_ord REQUEST_STAT_CANCEL = 4"
| "stat_ord REQUEST_STAT_MAX = 5"

lemma stat_ord_inj: "stat_ord a = stat_ord b \<longleftrightarrow> a = b"
  by (cases a; cases b) auto

instantiation request_stat :: linorder
begin

definition less_eq_request_stat :: "request_stat \<Rightarrow> request_stat \<Rightarrow> bool" where
  "less_eq_request_stat a b \<longleftrightarrow> stat_ord a \<le> stat_ord b"

definition less_request_stat :: "request_stat \<Rightarrow> request_stat \<Rightarrow> bool" where
  "less_request_stat a b \<longleftrightarrow> stat_ord a < stat_ord b"

instance
  by standard (auto simp: less_eq_request_stat_def less_request_stat_def stat_ord_inj)

end

text \<open>The states that can be waited for or cancelled: above \<open>INIT\<close> and below \<open>CANCEL\<close>.\<close>

lemma stat_range:
  "st \<le> REQUEST_STAT_INIT \<longleftrightarrow> st = REQUEST_STAT_INIT"
  "REQUEST_STAT_CANCEL \<le> st \<longleftrightarrow> st = REQUEST_STAT_CANCEL \<or> st = REQUEST_STAT_MAX"
  by (cases st; simp add: less_eq_request_stat_def)+

section \<open>The request description\<close>

text \<open>
  \<open>fn\<close> is a character array; a file name is the C string in it.
\<close>

record async_file_access_request_info =
  direction :: async_file_access_direction_t
  fn :: "char list"
  req_size :: u32
  req_offset :: u32

definition cstr :: "char list \<Rightarrow> string option" where
  "cstr cs = (if CHR 0x00 \<in> set cs then Some (takeWhile (\<lambda>c. c \<noteq> CHR 0x00) cs) else None)"

text \<open>Reading a name without terminator runs past the array.\<close>

definition file_name :: "char list \<Rightarrow> fault + string" where
  "file_name cs = (case cstr cs of None \<Rightarrow> Inl OutOfBounds | Some p \<Rightarrow> Inr p)"

lemma cstr_append_nul: "CHR 0x00 \<notin> set p \<Longrightarrow> cstr (p @ CHR 0x00 # rest) = Some p"
  by (subst cstr_def, subst takeWhile_append2) auto

section \<open>Sizing the request arrays\<close>

text \<open>
  \<open>u32 newListBufSize = ((cnt + REQ_LIST_BUFSIZE) / REQ_LIST_BUFSIZE) * REQ_LIST_BUFSIZE * sizeof(T *)\<close>:
  the sum, quotient and first product are 32-bit, \<open>sizeof\<close> makes the last product 64-bit, and the
  assignment truncates to 32 bits again.
\<close>

definition new_list_bufsize :: "u32 \<Rightarrow> u32" where
  "new_list_bufsize cnt =
     (let entries = ((cnt + REQ_LIST_BUFSIZE) div REQ_LIST_BUFSIZE) * REQ_LIST_BUFSIZE;
          bytes = (ucast entries :: u64) * 8
      in ucast bytes)"

text \<open>The largest count for which the size in bytes fits 32 bits.\<close>

definition LIST_LIMIT :: nat where "LIST_LIMIT = 2 ^ 29 - 1024"

lemma new_list_bufsize_unat:
  assumes "unat cnt < LIST_LIMIT"
  shows "unat (new_list_bufsize cnt) = 8 * (1024 * (unat cnt div 1024 + 1))"
proof -
  let ?e = "((cnt + REQ_LIST_BUFSIZE) div REQ_LIST_BUFSIZE) * REQ_LIST_BUFSIZE"
  have lt: "unat cnt < 536869888" using assms by (simp add: LIST_LIMIT_def)
  have sum: "unat (cnt + 1024) = unat cnt + 1024"
    using lt by (simp add: unat_word_ariths)
  have quo: "unat ((cnt + 1024) div 1024) = unat cnt div 1024 + 1"
    by (simp add: unat_div sum)
  have small: "unat cnt div 1024 + 1 \<le> 524287" using lt by simp
  have e: "unat ?e = 1024 * (unat cnt div 1024 + 1)"
    using small unat_word_ariths(2) [of "(cnt + 1024) div 1024" 1024]
    by (simp add: REQ_LIST_BUFSIZE_def quo del: unat_word_ariths)
  have le: "1024 * (unat cnt div 1024 + 1) \<le> 536869888" using small by simp
  have u: "unat (ucast ?e :: u64) = unat ?e"
    using le by (simp only: unsigned_ucast_eq) (simp add: take_bit_nat_eq_self e)
  have "unat ((ucast ?e :: u64) * 8) = 8 * (1024 * (unat cnt div 1024 + 1))"
    using le unat_word_ariths(2) [of "ucast ?e :: u64" 8] by (simp add: u e del: unat_word_ariths)
  with le show ?thesis
    by (simp only: new_list_bufsize_def Let_def unsigned_ucast_eq) (simp add: take_bit_nat_eq_self)
qed

section \<open>Timeouts\<close>

text \<open>
  \<open>{ .tv_sec = timeout_ms / 1000, .tv_nsec = (timeout_ms % 1000) * 1000000 }\<close>, computed in 32 bits.
\<close>

record timespec =
  tv_sec :: u32
  tv_nsec :: u32

definition timespec_of_ms :: "u32 \<Rightarrow> timespec" where
  "timespec_of_ms ms = \<lparr>tv_sec = ms div 1000, tv_nsec = (ms mod 1000) * 1000000\<rparr>"

lemma timespec_words:
  "unat (tv_sec (timespec_of_ms ms)) = unat ms div 1000"
  "unat (tv_nsec (timespec_of_ms ms)) = (unat ms mod 1000) * 1000000"
proof -
  have m: "unat (ms mod 1000) = unat ms mod 1000" by (simp add: unat_mod)
  have "unat ms mod 1000 < 1000" by simp
  then have "unat ms mod 1000 * 1000000 < 2 ^ 32" by simp
  then show "unat (tv_nsec (timespec_of_ms ms)) = (unat ms mod 1000) * 1000000"
    using unat_word_ariths(2) [of "ms mod 1000" 1000000]
    by (simp add: timespec_of_ms_def m del: unat_word_ariths)
  show "unat (tv_sec (timespec_of_ms ms)) = unat ms div 1000"
    by (simp add: timespec_of_ms_def unat_div)
qed

section \<open>What these computations give\<close>

text \<open>
  the timeout in milliseconds becomes a normalised \<open>timespec\<close> of the same duration: no 32-bit
  product overflows, the nanoseconds stay below a second, and the milliseconds can be read back.
\<close>
theorem timespec_of_ms_exact:
  "unat (tv_nsec (timespec_of_ms ms)) < 1000000000 \<and>
   unat (tv_sec (timespec_of_ms ms)) * 1000 + unat (tv_nsec (timespec_of_ms ms)) div 1000000 = unat ms"
proof -
  have "unat ms mod 1000 < 1000" by simp
  then have "unat ms mod 1000 * 1000000 < 1000000000" by simp
  then show ?thesis by (simp add: timespec_words)
qed

text \<open>
  the return codes are pairwise different, fit the 32-bit \<open>ret_t\<close>, and only \<open>RET_OK\<close> is not
  negative.
\<close>
theorem ret_codes_distinct:
  "distinct ret_codes \<and> list_all (\<lambda>r. - (2 ^ 31) \<le> r \<and> (r = RET_OK \<longleftrightarrow> 0 \<le> r)) ret_codes"
  by (simp add: ret_codes_def ret_defs)

text \<open>
  the size in bytes of a request array: for every count below \<open>2^29 - 1024\<close> it is eight bytes for
  each entry of the next block of 1024 and leaves room for one more entry; at \<open>2^29 - 1024\<close> it
  wraps around to 0.
\<close>
theorem new_list_bufsize_exact:
  "(unat cnt < LIST_LIMIT \<longrightarrow>
      unat (new_list_bufsize cnt) = 8 * (1024 * (unat cnt div 1024 + 1)) \<and>
      unat cnt < unat (new_list_bufsize cnt) div 8) \<and>
   new_list_bufsize (of_nat LIST_LIMIT) = 0"
proof -
  have "unat cnt mod 1024 < 1024" by simp
  then have "unat cnt < 1024 * (unat cnt div 1024 + 1)"
    using mult_div_mod_eq [of 1024 "unat cnt"] by (simp only: distrib_left mult_1_right)
  moreover have "new_list_bufsize (of_nat LIST_LIMIT) = 0"
    by (simp add: new_list_bufsize_def LIST_LIMIT_def REQ_LIST_BUFSIZE_def Let_def)
  ultimately show ?thesis using new_list_bufsize_unat [of cnt] by simp
qed

theorem new_list_bufsize_exact_witness:
  "unat (new_list_bufsize 1024) = 16384"
  using new_list_bufsize_exact [of 1024] by (simp add: LIST_LIMIT_def)

end
