(* ===== verification/Posix.thy ===== *)
theory Posix
  imports Common_Types
begin

text \<open>
  The part of C and POSIX the program runs on: pointers, allocated blocks, pointer arrays, files,
  file descriptors and memory mappings. A call that the operating system may refuse asks an oracle,
  an arbitrary sequence of booleans in the state, so that every theorem holds for every pattern of
  failures. A fresh block gets a base address never used before; addresses are never compared or
  added by the program, so a base address stands for its block.
\<close>

section \<open>State\<close>

datatype ptr = Null | MapFailed | Addr nat

record inode =
  f_content :: "u8 list"     \<comment> \<open>what \<open>read\<close> and a shared mapping see\<close>
  f_durable :: "u8 list"     \<comment> \<open>what the last synchronisation put on the device\<close>

text \<open>The flag combinations the program opens files with.\<close>

datatype open_mode = Rdonly | WronlyCreat | RdwrCreatTrunc

record ofd =
  o_path :: string
  o_mode :: open_mode
  o_pos :: nat

record mapping =
  m_path :: string
  m_off :: nat
  m_len :: nat
  m_shared :: bool

text \<open>An array of pointers: \<open>None\<close> is a slot that was never stored.\<close>

record parr =
  a_len :: nat
  a_at :: "nat \<Rightarrow> ptr option"

record world =
  files :: "string \<Rightarrow> inode option"
  fds :: "ofd option list"
  heap :: "nat \<Rightarrow> u8 list option"
  mmaps :: "nat \<Rightarrow> mapping option"
  parrs :: "nat \<Rightarrow> parr option"
  brk :: nat
  fill :: u8                 \<comment> \<open>the byte fresh memory holds\<close>
  refuse :: "nat \<Rightarrow> bool"
  calls :: nat

text \<open>Does the operating system refuse the next call?\<close>

definition ask :: "world \<Rightarrow> bool \<times> world" where
  "ask w = (refuse w (calls w), w\<lparr>calls := Suc (calls w)\<rparr>)"

definition fresh_addr :: "world \<Rightarrow> ptr \<times> world" where
  "fresh_addr w = (Addr (brk w), w\<lparr>brk := Suc (brk w)\<rparr>)"

section \<open>Blocks\<close>

text \<open>Allocation of a structure: the caller keeps its contents in a map of its own.\<close>

definition c_new :: "world \<Rightarrow> ptr \<times> world" where
  "c_new w = (let (bad, w1) = ask w in if bad then (Null, w1) else fresh_addr w1)"

definition c_malloc :: "nat \<Rightarrow> world \<Rightarrow> ptr \<times> world" where
  "c_malloc n w =
     (let (bad, w1) = ask w
      in if bad then (Null, w1)
         else (Addr (brk w1),
               w1\<lparr>brk := Suc (brk w1), heap := (heap w1)(brk w1 := Some (replicate n (fill w1)))\<rparr>))"

definition c_free :: "ptr \<Rightarrow> world \<Rightarrow> fault + world" where
  "c_free p w =
     (case p of
        Null \<Rightarrow> Inr w
      | MapFailed \<Rightarrow> Inl InvalidFree
      | Addr a \<Rightarrow> (case heap w a of None \<Rightarrow> Inl InvalidFree
                     | Some _ \<Rightarrow> Inr (w\<lparr>heap := (heap w)(a := None)\<rparr>)))"

definition deref :: "(nat \<Rightarrow> 'a option) \<Rightarrow> ptr \<Rightarrow> fault + 'a" where
  "deref m p =
     (case p of
        Null \<Rightarrow> Inl NullDeref
      | MapFailed \<Rightarrow> Inl BadPointer
      | Addr a \<Rightarrow> (case m a of None \<Rightarrow> Inl UseAfterFree | Some x \<Rightarrow> Inr x))"

lemma deref_simps [simp]:
  "deref m Null = Inl NullDeref"
  "deref m MapFailed = Inl BadPointer"
  "m a = Some x \<Longrightarrow> deref m (Addr a) = Inr x"
  "m a = None \<Longrightarrow> deref m (Addr a) = Inl UseAfterFree"
  by (simp_all add: deref_def)

lemma deref_Inr_iff: "deref m p = Inr x \<longleftrightarrow> (\<exists>a. p = Addr a \<and> m a = Some x)"
  by (auto simp: deref_def split: ptr.splits option.splits)

section \<open>Arrays of pointers\<close>

definition c_malloc_arr :: "nat \<Rightarrow> world \<Rightarrow> ptr \<times> world" where
  "c_malloc_arr n w =
     (let (bad, w1) = ask w
      in if bad then (Null, w1)
         else (Addr (brk w1),
               w1\<lparr>brk := Suc (brk w1),
                  parrs := (parrs w1)(brk w1 := Some \<lparr>a_len = n, a_at = (\<lambda>_. None)\<rparr>)\<rparr>))"

text \<open>
  \<open>realloc(p, n)\<close> for an array: a refused call leaves the old block, size 0 frees it and returns
  \<open>NULL\<close>, otherwise the block moves to a fresh address with the old entries that still fit.
\<close>

definition c_realloc_arr :: "ptr \<Rightarrow> nat \<Rightarrow> world \<Rightarrow> fault + (ptr \<times> world)" where
  "c_realloc_arr p n w =
     (case p of
        Null \<Rightarrow> Inr (c_malloc_arr n w)
      | MapFailed \<Rightarrow> Inl InvalidFree
      | Addr a \<Rightarrow>
          (case parrs w a of
             None \<Rightarrow> Inl UseAfterFree
           | Some arr \<Rightarrow>
               if n = 0 then Inr (Null, w\<lparr>parrs := (parrs w)(a := None)\<rparr>)
               else let (bad, w1) = ask w
                    in if bad then Inr (Null, w1)
                       else Inr (Addr (brk w1),
                                 w1\<lparr>brk := Suc (brk w1),
                                    parrs := (parrs w1)(a := None,
                                      brk w1 := Some \<lparr>a_len = n,
                                        a_at = (\<lambda>i. if i < n then a_at arr i else None)\<rparr>)\<rparr>)))"

definition arr_get :: "ptr \<Rightarrow> nat \<Rightarrow> world \<Rightarrow> fault + ptr" where
  "arr_get p i w =
     and_then (deref (parrs w) p)
       (\<lambda>arr. if a_len arr \<le> i then Inl OutOfBounds
              else case a_at arr i of None \<Rightarrow> Inl Uninit | Some x \<Rightarrow> Inr x)"

definition arr_set :: "ptr \<Rightarrow> nat \<Rightarrow> ptr \<Rightarrow> world \<Rightarrow> fault + world" where
  "arr_set p i x w =
     (case p of
        Null \<Rightarrow> Inl NullDeref
      | MapFailed \<Rightarrow> Inl BadPointer
      | Addr a \<Rightarrow>
          (case parrs w a of
             None \<Rightarrow> Inl UseAfterFree
           | Some arr \<Rightarrow>
               if a_len arr \<le> i then Inl OutOfBounds
               else Inr (w\<lparr>parrs := (parrs w)
                            (a := Some (arr\<lparr>a_at := (a_at arr)(i := Some x)\<rparr>))\<rparr>)))"

section \<open>Files and descriptors\<close>

definition can_read :: "open_mode \<Rightarrow> bool" where
  "can_read m \<longleftrightarrow> m \<noteq> WronlyCreat"

definition can_write :: "open_mode \<Rightarrow> bool" where
  "can_write m \<longleftrightarrow> m \<noteq> Rdonly"

text \<open>The lowest free descriptor number.\<close>

fun alloc_fd :: "ofd \<Rightarrow> ofd option list \<Rightarrow> nat \<times> ofd option list" where
  "alloc_fd d [] = (0, [Some d])"
| "alloc_fd d (None # xs) = (0, Some d # xs)"
| "alloc_fd d (Some x # xs) = (let (n, ys) = alloc_fd d xs in (Suc n, Some x # ys))"

definition fd_at :: "ofd option list \<Rightarrow> nat \<Rightarrow> ofd option" where
  "fd_at xs n = (if n < length xs then xs ! n else None)"

definition fd_lookup :: "world \<Rightarrow> int \<Rightarrow> ofd option" where
  "fd_lookup w fd = (if 0 \<le> fd then fd_at (fds w) (nat fd) else None)"

definition opened_file :: "open_mode \<Rightarrow> inode option \<Rightarrow> inode option" where
  "opened_file m f =
     (case f of
        None \<Rightarrow> if m = Rdonly then None else Some \<lparr>f_content = [], f_durable = []\<rparr>
      | Some g \<Rightarrow> if m = RdwrCreatTrunc then Some (g\<lparr>f_content := []\<rparr>) else Some g)"

definition sys_open :: "string \<Rightarrow> open_mode \<Rightarrow> world \<Rightarrow> int \<times> world" where
  "sys_open p m w =
     (let (bad, w1) = ask w
      in if bad \<or> opened_file m (files w1 p) = None then (- 1, w1)
         else let (n, tab) = alloc_fd \<lparr>o_path = p, o_mode = m, o_pos = 0\<rparr> (fds w1)
              in (int n, w1\<lparr>fds := tab,
                            files := (files w1)(p := opened_file m (files w1 p))\<rparr>))"

definition sys_close :: "int \<Rightarrow> world \<Rightarrow> int \<times> world" where
  "sys_close fd w =
     (case fd_lookup w fd of
        None \<Rightarrow> (- 1, w)
      | Some _ \<Rightarrow> (0, w\<lparr>fds := (fds w)[nat fd := None]\<rparr>))"

text \<open>\<open>lseek(fd, off, SEEK_CUR)\<close>\<close>

definition sys_lseek_cur :: "int \<Rightarrow> nat \<Rightarrow> world \<Rightarrow> int \<times> world" where
  "sys_lseek_cur fd off w =
     (case fd_lookup w fd of
        None \<Rightarrow> (- 1, w)
      | Some d \<Rightarrow> (int (o_pos d + off),
                   w\<lparr>fds := (fds w)[nat fd := Some (d\<lparr>o_pos := o_pos d + off\<rparr>)]\<rparr>))"

definition resize :: "nat \<Rightarrow> u8 list \<Rightarrow> u8 list" where
  "resize n xs = take n xs @ replicate (n - length xs) 0"

definition sys_ftruncate :: "int \<Rightarrow> nat \<Rightarrow> world \<Rightarrow> int \<times> world" where
  "sys_ftruncate fd n w =
     (let (bad, w1) = ask w
      in case fd_lookup w1 fd of
           None \<Rightarrow> (- 1, w1)
         | Some d \<Rightarrow>
             (case files w1 (o_path d) of
                None \<Rightarrow> (- 1, w1)
              | Some f \<Rightarrow>
                  if bad \<or> \<not> can_write (o_mode d) then (- 1, w1)
                  else (0, w1\<lparr>files := (files w1)
                               (o_path d := Some (f\<lparr>f_content := resize n (f_content f)\<rparr>))\<rparr>)))"

text \<open>\<open>fstat\<close>: the size of the file, or nothing (the structure is left as it was).\<close>

definition sys_fstat :: "int \<Rightarrow> world \<Rightarrow> nat option" where
  "sys_fstat fd w =
     (case fd_lookup w fd of
        None \<Rightarrow> None
      | Some d \<Rightarrow> map_option (\<lambda>f. length (f_content f)) (files w (o_path d)))"

section \<open>Memory\<close>

definition PAGE :: nat where "PAGE = 4096"

definition page_ceil :: "nat \<Rightarrow> nat" where
  "page_ceil n = ((n + PAGE - 1) div PAGE) * PAGE"

definition overwrite :: "nat \<Rightarrow> u8 list \<Rightarrow> u8 list \<Rightarrow> u8 list" where
  "overwrite off bs xs = take off xs @ bs @ drop (off + length bs) xs"

text \<open>\<open>n\<close> bytes of a file from \<open>off\<close>, with the zeros that pad the last page.\<close>

definition file_bytes :: "u8 list \<Rightarrow> nat \<Rightarrow> nat \<Rightarrow> u8 list" where
  "file_bytes c off n = take n (drop off c @ replicate n 0)"

definition mem_load :: "ptr \<Rightarrow> nat \<Rightarrow> world \<Rightarrow> fault + u8 list" where
  "mem_load p n w =
     (case p of
        Null \<Rightarrow> Inl NullDeref
      | MapFailed \<Rightarrow> Inl BadPointer
      | Addr a \<Rightarrow>
          (case heap w a of
             Some b \<Rightarrow> if n \<le> length b then Inr (take n b) else Inl OutOfBounds
           | None \<Rightarrow>
               (case mmaps w a of
                  None \<Rightarrow> Inl UseAfterFree
                | Some m \<Rightarrow>
                    (case files w (m_path m) of
                       None \<Rightarrow> Inl BusError
                     | Some f \<Rightarrow>
                         if m_len m < n then Inl OutOfBounds
                         else if page_ceil (length (f_content f)) < m_off m + n then Inl BusError
                         else Inr (file_bytes (f_content f) (m_off m) n)))))"

text \<open>
  A store through a shared mapping changes the file up to its end; what falls between the end of
  the file and the end of its last page is not part of the file.
\<close>

definition mem_store :: "ptr \<Rightarrow> u8 list \<Rightarrow> world \<Rightarrow> fault + world" where
  "mem_store p bs w =
     (case p of
        Null \<Rightarrow> Inl NullDeref
      | MapFailed \<Rightarrow> Inl BadPointer
      | Addr a \<Rightarrow>
          (case heap w a of
             Some b \<Rightarrow>
               if length bs \<le> length b then Inr (w\<lparr>heap := (heap w)(a := Some (overwrite 0 bs b))\<rparr>)
               else Inl OutOfBounds
           | None \<Rightarrow>
               (case mmaps w a of
                  None \<Rightarrow> Inl UseAfterFree
                | Some m \<Rightarrow>
                    (case files w (m_path m) of
                       None \<Rightarrow> Inl BusError
                     | Some f \<Rightarrow>
                         if \<not> m_shared m then Inl ReadOnly
                         else if m_len m < length bs then Inl OutOfBounds
                         else if page_ceil (length (f_content f)) < m_off m + length bs
                         then Inl BusError
                         else Inr (w\<lparr>files := (files w)(m_path m :=
                                Some (f\<lparr>f_content :=
                                  overwrite (m_off m)
                                    (take (length (f_content f) - m_off m) bs)
                                    (f_content f)\<rparr>))\<rparr>)))))"

text \<open>\<open>memcpy(dst, src, n)\<close>\<close>

definition c_memcpy :: "ptr \<Rightarrow> ptr \<Rightarrow> nat \<Rightarrow> world \<Rightarrow> fault + world" where
  "c_memcpy dst src n w = and_then (mem_load src n w) (\<lambda>bs. mem_store dst bs w)"

section \<open>Mappings\<close>

text \<open>
  \<open>mmap(NULL, len, PROT_READ, MAP_PRIVATE, fd, off)\<close> and
  \<open>mmap(NULL, len, PROT_READ | PROT_WRITE, MAP_SHARED, fd, off)\<close>: refused for length 0, an offset
  that is not a multiple of the page size, a closed descriptor, or one opened without the access
  the mapping needs.
\<close>

definition sys_mmap :: "nat \<Rightarrow> bool \<Rightarrow> int \<Rightarrow> nat \<Rightarrow> world \<Rightarrow> ptr \<times> world" where
  "sys_mmap len shared fd off w =
     (let (bad, w1) = ask w
      in case fd_lookup w1 fd of
           None \<Rightarrow> (MapFailed, w1)
         | Some d \<Rightarrow>
             if bad \<or> len = 0 \<or> off mod PAGE \<noteq> 0 \<or> \<not> can_read (o_mode d) \<or>
                (shared \<and> \<not> can_write (o_mode d))
             then (MapFailed, w1)
             else (Addr (brk w1),
                   w1\<lparr>brk := Suc (brk w1),
                      mmaps := (mmaps w1)(brk w1 :=
                        Some \<lparr>m_path = o_path d, m_off = off, m_len = len, m_shared = shared\<rparr>)\<rparr>))"

text \<open>The program always unmaps the length it mapped.\<close>

definition sys_munmap :: "ptr \<Rightarrow> nat \<Rightarrow> world \<Rightarrow> int \<times> world" where
  "sys_munmap p len w =
     (case p of
        Addr a \<Rightarrow>
          (case mmaps w a of
             None \<Rightarrow> (- 1, w)
           | Some m \<Rightarrow> if m_len m = len then (0, w\<lparr>mmaps := (mmaps w)(a := None)\<rparr>) else (- 1, w))
      | _ \<Rightarrow> (- 1, w))"

text \<open>\<open>msync(p, len, MS_SYNC)\<close>: the range of the file becomes durable.\<close>

definition flush :: "nat \<Rightarrow> nat \<Rightarrow> inode \<Rightarrow> inode" where
  "flush off n f =
     f\<lparr>f_durable := overwrite off (take n (drop off (f_content f)))
                      (resize (length (f_content f)) (f_durable f))\<rparr>"

definition sys_msync :: "ptr \<Rightarrow> nat \<Rightarrow> world \<Rightarrow> int \<times> world" where
  "sys_msync p len w =
     (let (bad, w1) = ask w
      in case p of
           Addr a \<Rightarrow>
             (case mmaps w1 a of
                None \<Rightarrow> (- 1, w1)
              | Some m \<Rightarrow>
                  (case files w1 (m_path m) of
                     None \<Rightarrow> (- 1, w1)
                   | Some f \<Rightarrow>
                       if bad \<or> m_len m < len then (- 1, w1)
                       else (0, w1\<lparr>files := (files w1)(m_path m := Some (flush (m_off m) len f))\<rparr>)))
         | _ \<Rightarrow> (- 1, w1))"

section \<open>Facts about the calls\<close>

declare ask_def [sys_defs] fresh_addr_def [sys_defs] c_new_def [sys_defs] c_malloc_def [sys_defs]
  c_malloc_arr_def [sys_defs] sys_open_def [sys_defs] sys_close_def [sys_defs]
  sys_lseek_cur_def [sys_defs] sys_ftruncate_def [sys_defs] sys_fstat_def [sys_defs]
  sys_mmap_def [sys_defs] sys_munmap_def [sys_defs] sys_msync_def [sys_defs]
  fd_lookup_def [sys_defs] fd_at_def [sys_defs] can_read_def [sys_defs] can_write_def [sys_defs]
  opened_file_def [sys_defs]

subsection \<open>Descriptors\<close>

lemma fd_at_simps [simp]:
  "fd_at [] k = None"
  "fd_at (x # xs) 0 = x"
  "fd_at (x # xs) (Suc k) = fd_at xs k"
  by (simp_all add: fd_at_def)

lemma alloc_fd_at:
  "alloc_fd d xs = (n, ys) \<Longrightarrow> fd_at xs n = None \<and> fd_at ys k = (if k = n then Some d else fd_at xs k)"
proof (induction d xs arbitrary: n ys k rule: alloc_fd.induct)
  case (1 d)
  then show ?case by (cases k) auto
next
  case (2 d xs)
  then show ?case by (cases k) auto
next
  case (3 d x xs)
  obtain m zs where m: "alloc_fd d xs = (m, zs)" by (cases "alloc_fd d xs")
  with 3(2) have eq: "n = Suc m" "ys = Some x # zs" by auto
  show ?case using 3(1) [OF m, of "k - 1"] eq by (cases k) auto
qed

lemma alloc_fd_lowest: "alloc_fd d xs = (n, ys) \<Longrightarrow> k < n \<Longrightarrow> fd_at xs k \<noteq> None"
proof (induction d xs arbitrary: n ys k rule: alloc_fd.induct)
  case (3 d x xs)
  obtain m zs where m: "alloc_fd d xs = (m, zs)" by (cases "alloc_fd d xs")
  with 3(2) have "n = Suc m" by auto
  with 3(3) 3(1) [OF m, of "k - 1"] show ?case by (cases k) auto
qed auto

lemma fd_at_update: "fd_at xs n \<noteq> None \<Longrightarrow> fd_at (xs[n := x]) k = (if k = n then x else fd_at xs k)"
  by (auto simp: fd_at_def split: if_splits)

lemma sys_open_spec:
  assumes "sys_open p m w = (fd, w')"
  shows "fd = - 1 \<and> fds w' = fds w \<and> files w' = files w \<or>
         0 \<le> fd \<and> fd_lookup w fd = None \<and>
         (\<forall>k. fd_lookup w' k = (if k = fd then Some \<lparr>o_path = p, o_mode = m, o_pos = 0\<rparr>
                                else fd_lookup w k)) \<and>
         opened_file m (files w p) \<noteq> None \<and>
         files w' = (files w)(p := opened_file m (files w p))"
proof -
  obtain n tab where n: "alloc_fd \<lparr>o_path = p, o_mode = m, o_pos = 0\<rparr> (fds w) = (n, tab)"
    by (cases "alloc_fd \<lparr>o_path = p, o_mode = m, o_pos = 0\<rparr> (fds w)")
  show ?thesis
    using assms n alloc_fd_at [OF n]
    by (auto simp: sys_open_def ask_def fd_lookup_def Let_def split: if_splits)
qed

lemma sys_close_lookup:
  "sys_close fd w = (r, w') \<Longrightarrow> fd_lookup w' k = (if k = fd then None else fd_lookup w k)"
  by (auto simp: sys_close_def fd_lookup_def fd_at_update split: option.splits if_splits)

lemma sys_close_frame [frame]:
  "sys_close fd w = (r, w') \<Longrightarrow> files w' = files w \<and> heap w' = heap w \<and> mmaps w' = mmaps w \<and>
     parrs w' = parrs w \<and> brk w' = brk w"
  by (auto simp: sys_close_def split: option.splits)

text \<open>
  A closed number is handed out again: the reason a second \<open>close\<close> of the same number is a hazard.
\<close>

lemma sys_open_reuses_lowest:
  assumes "sys_open p m w = (fd, w')" "0 \<le> k" "fd_lookup w k = None" "fd \<noteq> - 1"
  shows "fd \<le> k"
proof -
  obtain n tab where n: "alloc_fd \<lparr>o_path = p, o_mode = m, o_pos = 0\<rparr> (fds w) = (n, tab)"
    by (cases "alloc_fd \<lparr>o_path = p, o_mode = m, o_pos = 0\<rparr> (fds w)")
  have "n \<le> nat k" using alloc_fd_lowest [OF n, of "nat k"] assms(2,3)
    by (auto simp: fd_lookup_def linorder_not_less [symmetric])
  with assms n show ?thesis
    by (auto simp: sys_open_def ask_def Let_def split: if_splits)
qed

lemma sys_open_frame [frame]:
  "sys_open p m w = (fd, w') \<Longrightarrow> heap w' = heap w \<and> mmaps w' = mmaps w \<and> parrs w' = parrs w \<and>
     brk w' = brk w \<and> fill w' = fill w \<and> refuse w' = refuse w"
  by (auto simp: sys_open_def ask_def Let_def split: prod.splits if_splits)

text \<open>
  What an open that may be retried does: it fails and leaves descriptors and files alone, or it
  takes exactly one descriptor, free before.
\<close>

definition opened :: "string \<Rightarrow> open_mode \<Rightarrow> int \<Rightarrow> world \<Rightarrow> world \<Rightarrow> bool" where
  "opened p m fd w w' \<longleftrightarrow>
     0 \<le> fd \<and> fd_lookup w fd = None \<and>
     (\<forall>k. fd_lookup w' k = (if k = fd then Some \<lparr>o_path = p, o_mode = m, o_pos = 0\<rparr>
                            else fd_lookup w k)) \<and>
     opened_file m (files w p) \<noteq> None \<and>
     files w' = (files w)(p := opened_file m (files w p))"

definition same_store :: "world \<Rightarrow> world \<Rightarrow> bool" where
  "same_store w w' \<longleftrightarrow> heap w' = heap w \<and> mmaps w' = mmaps w \<and> parrs w' = parrs w \<and>
     brk w' = brk w \<and> fill w' = fill w \<and> refuse w' = refuse w"

lemma open_retry_spec:
  assumes "retry_do (sys_open p m) (\<lambda>fd. fd = - 1) limit n w = (fd, w')"
  shows "same_store w w' \<and>
         (fd = - 1 \<and> fds w' = fds w \<and> files w' = files w \<or> fd \<noteq> - 1 \<and> opened p m fd w w')"
proof (rule retry_do_rule [OF assms, where P = "\<lambda>v. same_store w v \<and> fds v = fds w \<and> files v = files w"])
  show "same_store w w \<and> fds w = fds w \<and> files w = files w" by (simp add: same_store_def)
next
  fix v fd v'
  assume P: "same_store w v \<and> fds v = fds w \<and> files v = files w" and o: "sys_open p m v = (fd, v')"
  then have look: "fd_lookup v k = fd_lookup w k" for k by (simp add: fd_lookup_def)
  from P sys_open_frame [OF o] have "same_store w v'" by (simp add: same_store_def)
  with sys_open_spec [OF o] P look
  show "same_store w v' \<and>
     (fd = - 1 \<and> fds v' = fds w \<and> files v' = files w \<or> fd \<noteq> - 1 \<and> opened p m fd w v')"
    by (auto simp: opened_def)
qed auto

lemma open_retry_nonneg:
  "retry_do (sys_open p m) (\<lambda>fd. fd = - 1) limit n w = (fd, w') \<Longrightarrow> 0 \<le> fd \<longleftrightarrow> fd \<noteq> - 1"
  by (auto dest: open_retry_spec simp: opened_def)

lemma sys_lseek_cur_spec:
  assumes "sys_lseek_cur fd off w = (r, w')" "fd_lookup w fd = Some d"
  shows "r = int (o_pos d + off) \<and> files w' = files w \<and> same_store w w' \<and>
         (\<forall>k. fd_lookup w' k = (if k = fd then Some (d\<lparr>o_pos := o_pos d + off\<rparr>) else fd_lookup w k))"
  using assms
  by (auto simp: sys_lseek_cur_def fd_lookup_def fd_at_update same_store_def split: if_splits)

lemma sys_ftruncate_spec:
  assumes "sys_ftruncate fd n w = (r, w')" "fd_lookup w fd = Some d" "files w (o_path d) = Some f"
  shows "fds w' = fds w \<and> same_store w w' \<and>
         (r = 0 \<and> can_write (o_mode d) \<and>
            files w' = (files w)(o_path d := Some (f\<lparr>f_content := resize n (f_content f)\<rparr>)) \<or>
          r = - 1 \<and> files w' = files w)"
  using assms
  by (auto simp: sys_ftruncate_def ask_def fd_lookup_def same_store_def Let_def split: if_splits)

subsection \<open>Mappings\<close>

definition mapped :: "nat \<Rightarrow> bool \<Rightarrow> int \<Rightarrow> nat \<Rightarrow> ptr \<Rightarrow> world \<Rightarrow> world \<Rightarrow> bool" where
  "mapped len shared fd off p w w' \<longleftrightarrow>
     (\<exists>d. fd_lookup w fd = Some d \<and> 0 < len \<and> off mod PAGE = 0 \<and> can_read (o_mode d) \<and>
          (shared \<longrightarrow> can_write (o_mode d)) \<and> p = Addr (brk w) \<and> brk w' = Suc (brk w) \<and>
          mmaps w' = (mmaps w)(brk w :=
            Some \<lparr>m_path = o_path d, m_off = off, m_len = len, m_shared = shared\<rparr>))"

lemma mmap_retry_spec:
  assumes "retry_do (sys_mmap len sh fd off) (\<lambda>b. b = MapFailed) limit n w = (p, w')"
  shows "p = MapFailed \<and> (\<exists>k. w' = w\<lparr>calls := k\<rparr>) \<or>
         p \<noteq> MapFailed \<and> mapped len sh fd off p w w' \<and>
           fds w' = fds w \<and> files w' = files w \<and> heap w' = heap w \<and> parrs w' = parrs w"
proof (rule retry_do_rule [OF assms, where P = "\<lambda>v. \<exists>k. v = w\<lparr>calls := k\<rparr>"])
  show "\<exists>k. w = w\<lparr>calls := k\<rparr>" by (rule exI [of _ "calls w"]) simp
next
  fix v p v'
  assume "\<exists>k. v = w\<lparr>calls := k\<rparr>" and o: "sys_mmap len sh fd off v = (p, v')"
  then obtain k where k: "v = w\<lparr>calls := k\<rparr>" by blast
  then have look: "fd_lookup (v\<lparr>calls := j\<rparr>) fd = fd_lookup w fd" for j by (simp add: fd_lookup_def)
  show "p = MapFailed \<and> (\<exists>k. v' = w\<lparr>calls := k\<rparr>) \<or>
         p \<noteq> MapFailed \<and> mapped len sh fd off p w v' \<and>
           fds v' = fds w \<and> files v' = files w \<and> heap v' = heap w \<and> parrs v' = parrs w"
    using o k look
    by (auto simp: sys_mmap_def ask_def mapped_def Let_def split: option.splits if_splits)
qed auto

subsection \<open>Bytes\<close>

lemma length_overwrite: "off + length bs \<le> length xs \<Longrightarrow> length (overwrite off bs xs) = length xs"
  by (simp add: overwrite_def)

lemma overwrite_read:
  "off + length bs \<le> length xs \<Longrightarrow> take (length bs) (drop off (overwrite off bs xs)) = bs"
  by (simp add: overwrite_def)

lemma overwrite_elsewhere:
  "off + length bs \<le> length xs \<Longrightarrow> i < off \<or> off + length bs \<le> i \<Longrightarrow>
   overwrite off bs xs ! i = xs ! i"
  by (auto simp: overwrite_def nth_append nth_drop)

lemma file_bytes_inside: "off + n \<le> length c \<Longrightarrow> file_bytes c off n = take n (drop off c)"
  by (simp add: file_bytes_def)

lemma length_file_bytes [simp]: "length (file_bytes c off n) = n"
  by (simp add: file_bytes_def)

lemma length_resize [simp]: "length (resize n xs) = n"
  by (simp add: resize_def)

lemma page_ceil_ge: "n \<le> page_ceil n"
proof -
  have "n + PAGE - 1 = ((n + PAGE - 1) div PAGE) * PAGE + (n + PAGE - 1) mod PAGE" by simp
  moreover have "(n + PAGE - 1) mod PAGE < PAGE" by (simp add: PAGE_def)
  ultimately show ?thesis unfolding page_ceil_def by linarith
qed

lemma flush_durable:
  assumes "off + n \<le> length (f_content f)"
  shows "take n (drop off (f_durable (flush off n f))) = take n (drop off (f_content f))"
  using assms overwrite_read [of off "take n (drop off (f_content f))"
      "resize (length (f_content f)) (f_durable f)"]
  by (simp add: flush_def)

lemma c_new_cases:
  assumes "c_new w = (p, w')"
  obtains (refused) "p = Null" "refuse w (calls w)" "w' = w\<lparr>calls := Suc (calls w)\<rparr>"
  | (fresh) "p = Addr (brk w)" "\<not> refuse w (calls w)"
      "w' = w\<lparr>calls := Suc (calls w), brk := Suc (brk w)\<rparr>"
  using assms by (auto simp: c_new_def ask_def fresh_addr_def Let_def split: if_splits)

lemma c_new_frame [frame]:
  "c_new w = (p, w') \<Longrightarrow> files w' = files w \<and> fds w' = fds w \<and> heap w' = heap w \<and>
     mmaps w' = mmaps w \<and> parrs w' = parrs w \<and> fill w' = fill w \<and> refuse w' = refuse w"
  by (auto elim!: c_new_cases)

lemma mem_load_heap:
  "heap w a = Some b \<Longrightarrow> n \<le> length b \<Longrightarrow> mem_load (Addr a) n w = Inr (take n b)"
  by (simp add: mem_load_def)

lemma mem_load_length: "mem_load p n w = Inr bs \<Longrightarrow> length bs = n"
  by (auto simp: mem_load_def split: ptr.splits option.splits if_splits)

lemma mem_store_frame [frame]:
  "mem_store p bs w = Inr w' \<Longrightarrow> fds w' = fds w \<and> mmaps w' = mmaps w \<and> parrs w' = parrs w \<and>
     brk w' = brk w \<and> dom (heap w') = dom (heap w)"
  by (auto simp: mem_store_def split: ptr.splits option.splits if_splits)

section \<open>A small process\<close>

text \<open>
  A process with the three standard descriptors, one file and an operating system that refuses the
  calls in \<open>bad\<close>: the concrete state the examples of the other theories start from.
\<close>

definition world0 :: "nat list \<Rightarrow> string \<Rightarrow> u8 list \<Rightarrow> world" where
  "world0 bad p c =
     (let tty = \<lparr>o_path = ''/dev/tty'', o_mode = RdwrCreatTrunc, o_pos = 0\<rparr>
      in \<lparr>files = (\<lambda>q. if q = p then Some \<lparr>f_content = c, f_durable = c\<rparr> else None),
          fds = [Some tty, Some tty, Some tty], heap = (\<lambda>_. None), mmaps = (\<lambda>_. None),
          parrs = (\<lambda>_. None), brk = 1, fill = 0, refuse = (\<lambda>n. List.member bad n), calls = 0\<rparr>)"

lemma world0_simps [simp]:
  "refuse (world0 bad p c) = (\<lambda>n. List.member bad n)" "calls (world0 bad p c) = 0"
  "brk (world0 bad p c) = 1" "heap (world0 bad p c) = (\<lambda>_. None)"
  "mmaps (world0 bad p c) = (\<lambda>_. None)" "parrs (world0 bad p c) = (\<lambda>_. None)"
  by (simp_all add: world0_def Let_def fun_eq_iff)

definition read_info :: async_file_access_request_info where
  "read_info = \<lparr>direction = ASYNC_FILE_ACCESS_READ, fn = ''in'' @ [CHR 0x00],
                req_size = 3, req_offset = 0\<rparr>"

definition write_info :: async_file_access_request_info where
  "write_info = \<lparr>direction = ASYNC_FILE_ACCESS_WRITE, fn = ''out'' @ [CHR 0x00],
                 req_size = 3, req_offset = 0\<rparr>"

definition demo_world :: world where "demo_world = world0 [] ''in'' [7, 8, 9]"

definition tty :: ofd where "tty = \<lparr>o_path = ''/dev/tty'', o_mode = RdwrCreatTrunc, o_pos = 0\<rparr>"

definition demo_file :: inode where "demo_file = \<lparr>f_content = [7, 8, 9], f_durable = [7, 8, 9]\<rparr>"

lemma demo_world_simps [simp]:
  "\<not> refuse demo_world n" "brk demo_world = 1" "calls demo_world = 0"
  "fds demo_world = [Some tty, Some tty, Some tty]" "files demo_world ''in'' = Some demo_file"
  "heap demo_world = (\<lambda>_. None)" "mmaps demo_world = (\<lambda>_. None)" "parrs demo_world = (\<lambda>_. None)"
  "fill demo_world = 0"
  by (simp_all add: demo_world_def world0_def Let_def tty_def demo_file_def)

lemma demo_files: "(files demo_world)(''in'' := Some demo_file) = files demo_world"
  by (rule fun_upd_idem) simp

lemma read_info_fields:
  "cstr (fn read_info) = Some ''in''" "direction read_info = ASYNC_FILE_ACCESS_READ"
  "req_size read_info = 3" "req_offset read_info = 0"
  by code_simp+

end
