(* ===== verification/Mmap_State.thy ===== *)
theory Mmap_State
  imports Posix
begin

text \<open>
  The data of the mmap accessor (\<open>mmap_file_accessor.h\<close>): requests, tasks, the task queue, the
  thread-pool counters and the accessor, with the program point of every pool thread. Structures
  allocated on the C heap (requests, tasks) live in maps from addresses; the array of task pointers
  is a pointer array of the operating-system model.
\<close>

section \<open>Structures\<close>

definition THREAD_POOL_SIZE :: nat where "THREAD_POOL_SIZE = 5"

datatype sync_object = SyncZero | SyncReady

record mmap_request =
  r_info :: async_file_access_request_info
  r_fd :: int
  r_fsb :: nat                   \<comment> \<open>\<open>fsb.st_size\<close>\<close>
  r_buf :: ptr
  r_nbytes :: u32
  r_offset :: u32
  r_isValid :: bool
  r_isAlloced :: bool
  r_status :: request_stat
  r_lock :: sync_object
  r_isFinished :: sync_object

text \<open>\<open>memset(*pRequest, 0, sizeof(mmap_request_t))\<close>\<close>

definition zero_info :: async_file_access_request_info where
  "zero_info = \<lparr>direction = 0, fn = replicate MAX_FILE_NAME_LEN (CHR 0x00),
                req_size = 0, req_offset = 0\<rparr>"

definition zero_mmap_request :: mmap_request where
  "zero_mmap_request =
     \<lparr>r_info = zero_info, r_fd = 0, r_fsb = 0, r_buf = Null, r_nbytes = 0, r_offset = 0,
      r_isValid = False, r_isAlloced = False, r_status = REQUEST_STAT_INIT,
      r_lock = SyncZero, r_isFinished = SyncZero\<rparr>"

text \<open>The functions a task can point to.\<close>

datatype task_fn = FnMmapRead | FnMmapWrite

record task =
  t_function :: "task_fn option"
  t_argument :: ptr
  t_is_sentinel :: bool

record task_queue =
  request_queue :: ptr
  q_head :: u32
  q_tail :: u32
  q_todoCnt :: u32
  q_totoalCnt :: u32

record thread_pool_info =
  maxThreadIdx :: u32
  busyThreadNum :: u32
  idleThreadNum :: u32
  aliveThreadNum :: u32
  isInitialized :: bool
  isRunning :: bool

section \<open>Program points of a pool thread\<close>

text \<open>
  Between two points a thread does one atomic action: a region under one of the locks, or the work
  between two such regions. \<open>WNone\<close> is a slot of \<open>thread_pool[]\<close> whose thread was not created.
\<close>

datatype wpc =
    WNone
  | WStart                       \<comment> \<open>about to register itself\<close>
  | WAcquire                     \<comment> \<open>about to take a task, or waiting for one\<close>
  | WGot ptr                     \<comment> \<open>holds a task, about to test for a sentinel\<close>
  | WMark ptr                    \<comment> \<open>about to count itself as busy\<close>
  | WEnter ptr                   \<comment> \<open>about to call the task's function\<close>
  | WIo ptr                      \<comment> \<open>in the function, about to do the input or output\<close>
  | WStat ptr bool ptr           \<comment> \<open>about to record the outcome; the mapping of a read\<close>
  | WClean ptr ptr               \<comment> \<open>about to unmap and close\<close>
  | WFinish                      \<comment> \<open>about to count itself as idle again\<close>
  | WExit
  | WJoined

fun held_task :: "wpc \<Rightarrow> ptr option" where
  "held_task (WGot t) = Some t"
| "held_task (WMark t) = Some t"
| "held_task (WEnter t) = Some t"
| "held_task (WIo t) = Some t"
| "held_task (WStat t b a) = Some t"
| "held_task (WClean t a) = Some t"
| "held_task _ = None"

section \<open>The accessor\<close>

record mmap_sys =
  os :: world
  requests :: "nat \<Rightarrow> mmap_request option"
  tasks :: "nat \<Rightarrow> task option"
  tqueue :: task_queue
  pinfo :: thread_pool_info
  threads :: "wpc list"

text \<open>The static initialiser of \<open>g_mmapFileAccessor\<close>, in a process with memory and files \<open>w\<close>.\<close>

definition g_mmapFileAccessor :: "world \<Rightarrow> mmap_sys" where
  "g_mmapFileAccessor w =
     \<lparr>os = w, requests = (\<lambda>_. None), tasks = (\<lambda>_. None),
      tqueue = \<lparr>request_queue = Null, q_head = 0, q_tail = 0, q_todoCnt = 0, q_totoalCnt = 0\<rparr>,
      pinfo = \<lparr>maxThreadIdx = 0, busyThreadNum = 0, idleThreadNum = 0, aliveThreadNum = 0,
               isInitialized = False, isRunning = False\<rparr>,
      threads = replicate THREAD_POOL_SIZE WNone\<rparr>"

text \<open>Reading and writing a request through a pointer.\<close>

definition get_req :: "ptr \<Rightarrow> mmap_sys \<Rightarrow> fault + mmap_request" where
  "get_req p s = deref (requests s) p"

fun addr_of :: "ptr \<Rightarrow> nat" where
  "addr_of (Addr a) = a"
| "addr_of _ = 0"

definition put_req :: "ptr \<Rightarrow> mmap_request \<Rightarrow> mmap_sys \<Rightarrow> mmap_sys" where
  "put_req p r s = s\<lparr>requests := (requests s)(addr_of p := Some r)\<rparr>"

definition set_thread :: "nat \<Rightarrow> wpc \<Rightarrow> mmap_sys \<Rightarrow> mmap_sys" where
  "set_thread i pc s = s\<lparr>threads := (threads s)[i := pc]\<rparr>"

lemma put_req_simps [simp]:
  "os (put_req p r s) = os s" "tasks (put_req p r s) = tasks s" "tqueue (put_req p r s) = tqueue s"
  "pinfo (put_req p r s) = pinfo s" "threads (put_req p r s) = threads s"
  by (simp_all add: put_req_def)

lemma set_thread_simps [simp]:
  "os (set_thread i pc s) = os s" "requests (set_thread i pc s) = requests s"
  "tasks (set_thread i pc s) = tasks s" "tqueue (set_thread i pc s) = tqueue s"
  "pinfo (set_thread i pc s) = pinfo s" "threads (set_thread i pc s) = (threads s)[i := pc]"
  by (simp_all add: set_thread_def)

lemma get_put_req:
  "get_req p s = Inr r \<Longrightarrow> get_req q (put_req p r' s) = (if q = p then Inr r' else get_req q s)"
  by (cases q; cases p) (auto simp: get_req_def put_req_def deref_def split: option.splits)

lemma get_req_Inr_iff: "get_req p s = Inr r \<longleftrightarrow> (\<exists>a. p = Addr a \<and> requests s a = Some r)"
  by (simp add: get_req_def deref_Inr_iff)

end
