(* ===== verification/Thread_Pool.thy ===== *)
theory Thread_Pool
  imports Mmap_State
begin

text \<open>
  The task queue and the thread pool of \<open>mmap_file_accessor.c\<close>: submission (\<open>thread_pool_submit\<close>),
  the region in which a worker takes a task, the counters a worker keeps, and the initialisation.
  The queue is an array that only grows: \<open>head\<close> and \<open>tail\<close> run through it, and
  \<open>pending_tasks\<close> reads off the list of tasks between them. The locale \<open>fifo\<close> is the contract of
  such a queue; the code's queue is an interpretation of it.
\<close>

section \<open>The contract of a queue\<close>

datatype 'a qop = Enq 'a | Deq

text \<open>
  A sequence of insertions and removals, with the list of what the removals returned. A blocked
  removal or a fault ends it with \<open>None\<close>.
\<close>

fun qrun :: "('a \<Rightarrow> 'q \<Rightarrow> fault + 'r \<times> 'q) \<Rightarrow> ('q \<Rightarrow> (fault + 'a \<times> 'q) option) \<Rightarrow>
             'a qop list \<Rightarrow> 'q \<Rightarrow> ('a list \<times> 'q) option" where
  "qrun enq deq [] q = Some ([], q)"
| "qrun enq deq (Enq x # ops) q =
     (case enq x q of Inl f \<Rightarrow> None | Inr (r, q') \<Rightarrow> qrun enq deq ops q')"
| "qrun enq deq (Deq # ops) q =
     (case deq q of
        Some (Inr (x, q')) \<Rightarrow> map_option (\<lambda>(xs, q''). (x # xs, q'')) (qrun enq deq ops q')
      | _ \<Rightarrow> None)"

fun enqueued :: "'a qop list \<Rightarrow> 'a list" where
  "enqueued [] = []"
| "enqueued (Enq x # ops) = x # enqueued ops"
| "enqueued (Deq # ops) = enqueued ops"

locale fifo =
  fixes enq :: "'a \<Rightarrow> 'q \<Rightarrow> fault + 'r \<times> 'q"
    and deq :: "'q \<Rightarrow> (fault + 'a \<times> 'q) option"
    and content :: "'q \<Rightarrow> 'a list"
    and invar :: "'q \<Rightarrow> bool"
    and total :: "'q \<Rightarrow> nat"
    and limit :: nat
  assumes enq_law: "invar q \<Longrightarrow> total q < limit \<Longrightarrow> enq x q = Inr (r, q') \<Longrightarrow>
      invar q' \<and> content q' = content q @ [x] \<and> total q' = Suc (total q)"
    and deq_law: "invar q \<Longrightarrow> deq q = Some (Inr (x, q')) \<Longrightarrow>
      invar q' \<and> content q = x # content q' \<and> total q' = total q"
    and deq_ready: "invar q \<Longrightarrow> content q \<noteq> [] \<Longrightarrow> \<exists>x q'. deq q = Some (Inr (x, q'))"
    and deq_blocks: "invar q \<Longrightarrow> content q = [] \<Longrightarrow> deq q = None"
begin

lemma fifo_order:
  "invar q \<Longrightarrow> total q + length (enqueued ops) \<le> limit \<Longrightarrow> qrun enq deq ops q = Some (outs, q') \<Longrightarrow>
   invar q' \<and> outs @ content q' = content q @ enqueued ops"
proof (induction ops arbitrary: q outs)
  case Nil
  then show ?case by simp
next
  case (Cons op ops)
  show ?case
  proof (cases op)
    case (Enq x)
    with Cons.prems obtain r q1 where q1: "enq x q = Inr (r, q1)" "qrun enq deq ops q1 = Some (outs, q')"
      by (auto split: sum.splits)
    from enq_law [OF Cons.prems(1) _ q1(1)] Cons.prems(2) Enq
    have "invar q1" "content q1 = content q @ [x]" "total q1 = Suc (total q)" by auto
    with Cons.IH [OF _ _ q1(2)] Cons.prems(2) Enq show ?thesis by simp
  next
    case Deq
    with Cons.prems obtain x q1 xs where
      q1: "deq q = Some (Inr (x, q1))" "qrun enq deq ops q1 = Some (xs, q')" "outs = x # xs"
      by (auto split: option.splits sum.splits)
    from deq_law [OF Cons.prems(1) q1(1)]
    have "invar q1" "content q = x # content q1" "total q1 = total q" by auto
    with Cons.IH [OF _ _ q1(2)] Cons.prems(2) Deq q1(3) show ?thesis by simp
  qed
qed

text \<open>As many removals as there are elements never block.\<close>

lemma drain_all:
  "invar q \<Longrightarrow> n \<le> length (content q) \<Longrightarrow>
   \<exists>q'. qrun enq deq (replicate n Deq) q = Some (take n (content q), q') \<and>
        invar q' \<and> content q' = drop n (content q)"
proof (induction n arbitrary: q)
  case 0
  then show ?case by simp
next
  case (Suc n)
  then obtain x q1 where q1: "deq q = Some (Inr (x, q1))" using deq_ready by fastforce
  from deq_law [OF Suc.prems(1) q1] have *: "invar q1" "content q = x # content q1" by auto
  with Suc.IH [of q1] Suc.prems(2) obtain q' where
    "qrun enq deq (replicate n Deq) q1 = Some (take n (content q1), q')"
    "invar q'" "content q' = drop n (content q1)" by auto
  with q1 * show ?case by simp
qed

end

section \<open>The task queue\<close>

definition empty_arr :: parr where
  "empty_arr = \<lparr>a_len = 0, a_at = (\<lambda>_. None)\<rparr>"

definition queue_arr :: "mmap_sys \<Rightarrow> parr" where
  "queue_arr s = (case request_queue (tqueue s) of
      Addr a \<Rightarrow> (case parrs (os s) a of Some arr \<Rightarrow> arr | None \<Rightarrow> empty_arr)
    | _ \<Rightarrow> empty_arr)"

definition slot :: "mmap_sys \<Rightarrow> nat \<Rightarrow> ptr option" where
  "slot s j = a_at (queue_arr s) j"

abbreviation headn :: "mmap_sys \<Rightarrow> nat" where "headn s \<equiv> unat (q_head (tqueue s))"
abbreviation tailn :: "mmap_sys \<Rightarrow> nat" where "tailn s \<equiv> unat (q_tail (tqueue s))"
abbreviation totaln :: "mmap_sys \<Rightarrow> nat" where "totaln s \<equiv> unat (q_totoalCnt (tqueue s))"

definition pending_tasks :: "mmap_sys \<Rightarrow> ptr list" where
  "pending_tasks s = map (\<lambda>j. the (slot s j)) [headn s..<tailn s]"

text \<open>
  What the code keeps true between the fields of the queue, and that no array lies beyond the
  allocation frontier.
\<close>

definition queue_wf :: "mmap_sys \<Rightarrow> bool" where
  "queue_wf s \<longleftrightarrow>
     (request_queue (tqueue s) = Null \<or>
      (\<exists>a arr. request_queue (tqueue s) = Addr a \<and> parrs (os s) a = Some arr)) \<and>
     (\<forall>a. parrs (os s) a \<noteq> None \<longrightarrow> a < brk (os s)) \<and>
     totaln s = tailn s \<and>
     headn s + unat (q_todoCnt (tqueue s)) = tailn s \<and>
     tailn s \<le> a_len (queue_arr s) \<and> a_len (queue_arr s) mod 1024 = 0 \<and>
     (\<forall>j < tailn s. slot s j \<noteq> None)"

text \<open>
  Growing the array, when the number of tasks is a multiple of \<open>REQ_LIST_BUFSIZE\<close>
  (\<open>thread_pool_submit\<close>, the inner \<open>if\<close>). The size is in bytes, eight per entry.
\<close>

definition grow_queue :: "mmap_sys \<Rightarrow> fault + (ret_t \<times> mmap_sys)" where
  "grow_queue s =
     (let q = tqueue s
      in if q_totoalCnt q mod REQ_LIST_BUFSIZE = 0
         then and_then
                (c_realloc_arr (request_queue q) (unat (new_list_bufsize (q_totoalCnt q)) div 8) (os s))
                (\<lambda>(p, w). if p = Null then Inr (RET_NO_MEMORY, s\<lparr>os := w\<rparr>)
                          else Inr (RET_OK, s\<lparr>os := w, tqueue := q\<lparr>request_queue := p\<rparr>\<rparr>))
         else Inr (RET_OK, s))"

text \<open>The region of \<open>thread_pool_submit\<close> under the queue lock.\<close>

definition enqueue_task :: "ptr \<Rightarrow> mmap_sys \<Rightarrow> fault + (ret_t \<times> mmap_sys)" where
  "enqueue_task t s =
     and_then (grow_queue s) (\<lambda>(res, s1).
       let q = tqueue s1
       in and_then (arr_set (request_queue q) (unat (q_tail q)) t (os s1)) (\<lambda>w.
            Inr (res, s1\<lparr>os := w,
                         tqueue := q\<lparr>q_tail := q_tail q + 1,
                                     q_todoCnt := q_todoCnt q + 1,
                                     q_totoalCnt := q_totoalCnt q + 1\<rparr>\<rparr>)))"

text \<open>
  \<open>thread_pool_submit\<close>: tasks while the pool runs, sentinels once it is closing. A task that comes
  when the pool is closing is rejected; a sentinel while it runs is ignored. The test reads
  \<open>isRunning\<close> before the queue lock is taken: between the test and the locked region other threads
  may run, which the events of \<open>Mmap_System\<close> make explicit.
\<close>

definition thread_pool_admits :: "task \<Rightarrow> mmap_sys \<Rightarrow> bool" where
  "thread_pool_admits tk s \<longleftrightarrow>
     (isRunning (pinfo s) \<and> \<not> t_is_sentinel tk) \<or> (\<not> isRunning (pinfo s) \<and> t_is_sentinel tk)"

declare thread_pool_admits_def [simp]

definition thread_pool_submit :: "ptr \<Rightarrow> mmap_sys \<Rightarrow> fault + (ret_t \<times> mmap_sys)" where
  "thread_pool_submit t s =
     and_then (deref (tasks s) t) (\<lambda>tk.
       if thread_pool_admits tk s
       then enqueue_task t s
       else if \<not> isRunning (pinfo s) \<and> \<not> t_is_sentinel tk
       then Inr (RET_ALREADY_EXISTS, s)
       else Inr (RET_OK, s))"

text \<open>
  The region of \<open>worker_thread\<close> that takes a task: while \<open>todoCnt\<close> is 0 the thread waits
  (\<open>None\<close>).
\<close>

definition acquire_task :: "mmap_sys \<Rightarrow> (fault + (ptr \<times> mmap_sys)) option" where
  "acquire_task s =
     (let q = tqueue s
      in if q_todoCnt q = 0 then None
         else Some (and_then (arr_get (request_queue q) (unat (q_head q)) (os s)) (\<lambda>t.
                Inr (t, s\<lparr>tqueue := q\<lparr>q_head := q_head q + 1,
                                      q_todoCnt := q_todoCnt q - 1\<rparr>\<rparr>))))"

subsection \<open>Growing\<close>

lemma grow_queue_frame [frame]:
  "grow_queue s = Inr (res, s') \<Longrightarrow>
     requests s' = requests s \<and> tasks s' = tasks s \<and> pinfo s' = pinfo s \<and> threads s' = threads s \<and>
     q_head (tqueue s') = q_head (tqueue s) \<and> q_tail (tqueue s') = q_tail (tqueue s) \<and>
     q_todoCnt (tqueue s') = q_todoCnt (tqueue s) \<and> q_totoalCnt (tqueue s') = q_totoalCnt (tqueue s)"
  by (auto simp: grow_queue_def Let_def split: if_splits)

lemma multiple_test: "x mod REQ_LIST_BUFSIZE = 0 \<longleftrightarrow> unat x mod 1024 = 0" for x :: u32
proof -
  have "unat (x mod REQ_LIST_BUFSIZE) = unat x mod 1024"
    by (simp add: REQ_LIST_BUFSIZE_def unat_mod)
  then show ?thesis by (metis unat_eq_zero)
qed

lemma new_entries:
  assumes "unat c < LIST_LIMIT" "unat c mod 1024 = 0"
  shows "unat (new_list_bufsize c) div 8 = unat c + 1024"
  using assms mult_div_mod_eq [of 1024 "unat c"]
  by (simp only: new_list_bufsize_unat) (simp add: distrib_left)

lemma queue_arr_cong:
  "request_queue (tqueue s') = request_queue (tqueue s) \<Longrightarrow> parrs (os s') = parrs (os s) \<Longrightarrow>
   queue_arr s' = queue_arr s"
  by (simp add: queue_arr_def split: ptr.split)

lemma queue_wf_os_cong:
  assumes "parrs w = parrs (os s)" "brk (os s) \<le> brk w" "queue_wf s"
  shows "queue_wf (s\<lparr>os := w\<rparr>)"
  using assms by (fastforce simp: queue_wf_def queue_arr_def slot_def cong: ptr.case_cong)

lemma realloc_arr_cases:
  assumes "c_realloc_arr p n w = Inr (p', w')"
  obtains (refused) "p' = Null" "parrs w' = parrs w" "brk w' = brk w"
  | (freed) a where "p = Addr a" "n = 0" "p' = Null" "parrs w' = (parrs w)(a := None)" "brk w' = brk w"
  | (fresh) "p = Null" "p' = Addr (brk w)" "brk w' = Suc (brk w)"
      "parrs w' = (parrs w)(brk w := Some \<lparr>a_len = n, a_at = (\<lambda>_. None)\<rparr>)"
  | (moved) a arr where "p = Addr a" "parrs w a = Some arr" "p' = Addr (brk w)"
      "brk w' = Suc (brk w)"
      "parrs w' = (parrs w)(a := None, brk w := Some \<lparr>a_len = n,
         a_at = (\<lambda>i. if i < n then a_at arr i else None)\<rparr>)"
  using assms
  by (auto simp: c_realloc_arr_def c_malloc_arr_def ask_def Let_def
           split: ptr.splits option.splits if_splits)

lemma grow_queue_wf:
  assumes wf: "queue_wf s" and lim: "totaln s < LIST_LIMIT" and g: "grow_queue s = Inr (res, s')"
  shows "queue_wf s' \<and> (\<forall>j < tailn s. slot s' j = slot s j) \<and>
         (res = RET_OK \<longrightarrow> tailn s < a_len (queue_arr s'))"
proof (cases "totaln s mod 1024 = 0")
  case False
  with g have "s' = s" "res = RET_OK" by (auto simp: grow_queue_def Let_def multiple_test)
  moreover from wf False have "tailn s < a_len (queue_arr s)"
    unfolding queue_wf_def by (metis le_neq_implies_less)
  ultimately show ?thesis using wf by simp
next
  case True
  let ?n = "totaln s + 1024"
  from g True lim obtain p w where r:
    "c_realloc_arr (request_queue (tqueue s)) ?n (os s) = Inr (p, w)"
    and s': "if p = Null then res = RET_NO_MEMORY \<and> s' = s\<lparr>os := w\<rparr>
             else res = RET_OK \<and> s' = s\<lparr>os := w, tqueue := (tqueue s)\<lparr>request_queue := p\<rparr>\<rparr>"
    by (auto simp: grow_queue_def Let_def multiple_test new_entries split: if_splits)
  from r show ?thesis
  proof (cases rule: realloc_arr_cases)
    case refused
    with s' wf queue_wf_os_cong [of w s] queue_arr_cong [of s' s] show ?thesis
      by (simp add: slot_def)
  next
    case (freed a)
    then show ?thesis by simp
  next
    case fresh
    with s' wf True show ?thesis
      by (auto simp: queue_wf_def slot_def queue_arr_def empty_arr_def less_Suc_eq)
  next
    case (moved a arr)
    with wf have "a < brk (os s)" by (auto simp: queue_wf_def)
    with moved s' wf True show ?thesis
      by (auto simp: queue_wf_def slot_def queue_arr_def less_Suc_eq mod_add_eq)
  qed
qed

subsection \<open>Submission and removal refine a list\<close>

lemma arr_set_cases:
  assumes "arr_set p i x w = Inr w'"
  obtains a arr where "p = Addr a" "parrs w a = Some arr" "i < a_len arr"
    "w' = w\<lparr>parrs := (parrs w)(a := Some (arr\<lparr>a_at := (a_at arr)(i := Some x)\<rparr>))\<rparr>"
  using assms by (auto simp: arr_set_def split: ptr.splits option.splits if_splits)

lemma enqueue_task_spec:
  assumes wf: "queue_wf s" and lim: "totaln s < LIST_LIMIT" and e: "enqueue_task t s = Inr (res, s')"
  shows "queue_wf s' \<and> tailn s' = Suc (tailn s) \<and> headn s' = headn s \<and> totaln s' = Suc (totaln s) \<and>
         q_todoCnt (tqueue s') = q_todoCnt (tqueue s) + 1 \<and>
         slot s' (tailn s) = Some t \<and> (\<forall>j < tailn s. slot s' j = slot s j)"
proof -
  from e obtain s1 w where g: "grow_queue s = Inr (res, s1)"
    and a: "arr_set (request_queue (tqueue s1)) (tailn s1) t (os s1) = Inr w"
    and s': "s' = s1\<lparr>os := w, tqueue := (tqueue s1)\<lparr>q_tail := q_tail (tqueue s1) + 1,
        q_todoCnt := q_todoCnt (tqueue s1) + 1, q_totoalCnt := q_totoalCnt (tqueue s1) + 1\<rparr>\<rparr>"
    by (auto simp: enqueue_task_def Let_def)
  have wf1: "queue_wf s1" and sl: "\<forall>j < tailn s. slot s1 j = slot s j"
    using grow_queue_wf [OF wf lim g] by auto
  have fr: "tailn s1 = tailn s" "headn s1 = headn s" "totaln s1 = totaln s"
    "q_todoCnt (tqueue s1) = q_todoCnt (tqueue s)"
    using grow_queue_frame [OF g] by auto
  have eqs: "totaln s = tailn s" "headn s + unat (q_todoCnt (tqueue s)) = tailn s"
    using wf by (auto simp: queue_wf_def)
  have small: "tailn s < 2 ^ 32 - 1" "unat (q_todoCnt (tqueue s)) < 2 ^ 32 - 1"
    using lim eqs by (simp_all add: LIST_LIMIT_def)
  have unats: "tailn s' = Suc (tailn s)" "headn s' = headn s" "totaln s' = Suc (totaln s)"
    "unat (q_todoCnt (tqueue s')) = Suc (unat (q_todoCnt (tqueue s)))"
    using s' fr small eqs by (simp_all add: unat_Suc_32)
  from a show ?thesis
  proof (cases rule: arr_set_cases)
    case (1 b arr)
    then have arr: "queue_arr s1 = arr" "queue_arr s' = arr\<lparr>a_at := (a_at arr)(tailn s1 := Some t)\<rparr>"
      using s' by (simp_all add: queue_arr_def)
    have "queue_wf s'"
      using wf1 1 unats fr eqs arr s' unfolding queue_wf_def
      by (auto simp: slot_def less_Suc_eq)
    moreover have "slot s' (tailn s) = Some t" "\<forall>j < tailn s. slot s' j = slot s j"
      using sl arr fr by (auto simp: slot_def)
    ultimately show ?thesis using unats s' fr by simp
  qed
qed

lemma grow_queue_brk: "grow_queue s = Inr (res, s') \<Longrightarrow> brk (os s) \<le> brk (os s')"
  by (auto simp: grow_queue_def Let_def split: if_splits elim!: realloc_arr_cases)

lemma enqueue_task_frame [frame]:
  assumes "enqueue_task t s = Inr (res, s')"
  shows "requests s' = requests s \<and> tasks s' = tasks s \<and> pinfo s' = pinfo s \<and>
         threads s' = threads s \<and> brk (os s) \<le> brk (os s')"
proof -
  from assms obtain s1 w where g: "grow_queue s = Inr (res, s1)"
    and a: "arr_set (request_queue (tqueue s1)) (tailn s1) t (os s1) = Inr w"
    and s': "s' = s1\<lparr>os := w, tqueue := (tqueue s1)\<lparr>q_tail := q_tail (tqueue s1) + 1,
        q_todoCnt := q_todoCnt (tqueue s1) + 1, q_totoalCnt := q_totoalCnt (tqueue s1) + 1\<rparr>\<rparr>"
    by (auto simp: enqueue_task_def Let_def)
  from a have "brk w = brk (os s1)" by (auto elim!: arr_set_cases)
  with s' grow_queue_frame [OF g] grow_queue_brk [OF g] show ?thesis by simp
qed

lemma pending_tasks_cong:
  "headn s' = headn s \<Longrightarrow> tailn s' = tailn s \<Longrightarrow> (\<And>j. j < tailn s \<Longrightarrow> slot s' j = slot s j) \<Longrightarrow>
   pending_tasks s' = pending_tasks s"
  by (simp add: pending_tasks_def)

lemma enqueue_task_pending:
  assumes "queue_wf s" "totaln s < LIST_LIMIT" "enqueue_task t s = Inr (res, s')"
  shows "pending_tasks s' = pending_tasks s @ [t]"
proof -
  from assms have "headn s \<le> tailn s" by (auto simp: queue_wf_def)
  then show ?thesis using enqueue_task_spec [OF assms]
    by (simp add: pending_tasks_def)
qed

lemma acquire_task_spec:
  assumes wf: "queue_wf s" and a: "acquire_task s = Some m"
  shows "\<exists>t s'. m = Inr (t, s') \<and> slot s (headn s) = Some t \<and> headn s < tailn s \<and>
           headn s' = Suc (headn s) \<and> tailn s' = tailn s \<and> totaln s' = totaln s \<and>
           unat (q_todoCnt (tqueue s)) = Suc (unat (q_todoCnt (tqueue s'))) \<and>
           s' = s\<lparr>tqueue := tqueue s'\<rparr> \<and> request_queue (tqueue s') = request_queue (tqueue s) \<and>
           queue_wf s' \<and> (\<forall>j. slot s' j = slot s j)"
proof -
  let ?q = "tqueue s"
  let ?q' = "?q\<lparr>q_head := q_head ?q + 1, q_todoCnt := q_todoCnt ?q - 1\<rparr>"
  from a have nz: "q_todoCnt ?q \<noteq> 0"
    and m: "m = and_then (arr_get (request_queue ?q) (headn s) (os s)) (\<lambda>t. Inr (t, s\<lparr>tqueue := ?q'\<rparr>))"
    by (auto simp: acquire_task_def Let_def split: if_splits)
  from nz have todo: "0 < unat (q_todoCnt ?q)" by (simp add: unat_gt_0)
  with wf have lt: "headn s < tailn s" by (auto simp: queue_wf_def)
  with wf obtain t where t: "slot s (headn s) = Some t" unfolding queue_wf_def by blast
  from wf lt obtain b arr where arr: "request_queue ?q = Addr b" "parrs (os s) b = Some arr"
    unfolding queue_wf_def queue_arr_def empty_arr_def by fastforce
  with wf lt t have get: "arr_get (request_queue ?q) (headn s) (os s) = Inr t"
    by (auto simp: arr_get_def queue_wf_def queue_arr_def slot_def)
  have "headn s < 2 ^ 32 - 1" using lt unat_less_2_32 [of "q_tail ?q"] by simp
  then have u: "unat (q_head ?q + 1) = Suc (headn s)" by (rule unat_Suc_32)
  have v: "unat (q_todoCnt ?q - 1) = unat (q_todoCnt ?q) - 1" using nz by (rule unat_pred_32)
  have qa: "queue_arr (s\<lparr>tqueue := ?q'\<rparr>) = queue_arr s" by (rule queue_arr_cong) simp_all
  then have sl: "slot (s\<lparr>tqueue := ?q'\<rparr>) j = slot s j" for j by (simp add: slot_def)
  have "queue_wf (s\<lparr>tqueue := ?q'\<rparr>)"
    using wf u v todo lt by (auto simp: queue_wf_def slot_def qa)
  with get m t u v todo lt sl show ?thesis by auto
qed

lemma acquire_task_pending:
  assumes "queue_wf s" "acquire_task s = Some (Inr (t, s'))"
  shows "pending_tasks s = t # pending_tasks s'"
  using acquire_task_spec [OF assms]
  by (auto simp: pending_tasks_def upt_conv_Cons)

lemma acquire_task_None: "acquire_task s = None \<longleftrightarrow> q_todoCnt (tqueue s) = 0"
  by (simp add: acquire_task_def Let_def)

lemma pending_tasks_empty: "queue_wf s \<Longrightarrow> pending_tasks s = [] \<longleftrightarrow> q_todoCnt (tqueue s) = 0"
  by (auto simp: pending_tasks_def queue_wf_def unat_eq_zero [symmetric] simp del: unat_eq_zero)

lemma length_pending_tasks: "queue_wf s \<Longrightarrow> length (pending_tasks s) = unat (q_todoCnt (tqueue s))"
  by (auto simp: pending_tasks_def queue_wf_def)

interpretation tq: fifo enqueue_task acquire_task pending_tasks queue_wf
  "\<lambda>s. unat (q_totoalCnt (tqueue s))" LIST_LIMIT
proof (unfold_locales, goal_cases)
  case (1 s t r s')
  then show ?case using enqueue_task_spec enqueue_task_pending by blast
next
  case (2 s t s')
  then show ?case using acquire_task_spec [OF 2] acquire_task_pending [OF 2] by auto
next
  case (3 s)
  then have "acquire_task s \<noteq> None" by (simp add: acquire_task_None pending_tasks_empty)
  then obtain m where "acquire_task s = Some m" by blast
  with acquire_task_spec [OF 3(1) this] show ?case by auto
next
  case (4 s)
  then show ?case by (simp add: acquire_task_None pending_tasks_empty)
qed

section \<open>What the queue promises\<close>

lemma queue_full:
  assumes "queue_wf s" "\<not> tailn s < a_len (queue_arr s)"
  shows "tailn s = a_len (queue_arr s)"
  using assms by (auto simp: queue_wf_def)

lemma arr_set_queue:
  assumes wf: "queue_wf s" and a: "request_queue (tqueue s) = Addr a"
  shows "arr_set (request_queue (tqueue s)) (tailn s) t (os s) =
     (if tailn s < a_len (queue_arr s)
      then Inr ((os s)\<lparr>parrs := (parrs (os s))(a := Some ((queue_arr s)
             \<lparr>a_at := (a_at (queue_arr s))(tailn s := Some t)\<rparr>))\<rparr>)
      else Inl OutOfBounds)"
  using assms by (auto simp: arr_set_def queue_arr_def queue_wf_def)

lemma grow_queue_granted:
  assumes wf: "queue_wf s" and lim: "totaln s < LIST_LIMIT" and a: "request_queue (tqueue s) = Addr a"
    and ok: "\<not> refuse (os s) (calls (os s))"
  shows "\<exists>b s'. grow_queue s = Inr (RET_OK, s') \<and> request_queue (tqueue s') = Addr b"
proof (cases "totaln s mod 1024 = 0")
  case True
  from wf a obtain arr where "parrs (os s) a = Some arr" by (auto simp: queue_wf_def)
  with True lim a ok show ?thesis
    by (simp add: grow_queue_def Let_def multiple_test new_entries c_realloc_arr_def ask_def)
next
  case False
  with a show ?thesis by (simp add: grow_queue_def Let_def multiple_test)
qed

lemma enqueue_task_granted:
  assumes wf: "queue_wf s" and lim: "totaln s < LIST_LIMIT" and a: "request_queue (tqueue s) = Addr a"
    and ok: "\<not> refuse (os s) (calls (os s))"
  shows "\<exists>s'. enqueue_task t s = Inr (RET_OK, s')"
proof -
  from grow_queue_granted [OF assms] obtain b s1 where g: "grow_queue s = Inr (RET_OK, s1)"
    and b: "request_queue (tqueue s1) = Addr b" by blast
  from grow_queue_wf [OF wf lim g] have "queue_wf s1" "tailn s < a_len (queue_arr s1)" by auto
  with arr_set_queue [OF _ b] grow_queue_frame [OF g] g show ?thesis
    by (simp add: enqueue_task_def Let_def)
qed

text \<open>
  C7: the task queue is first in, first out, through every growth of its array: whatever sequence of
  submissions and removals succeeds, what was removed followed by what is left is what was there
  followed by what was submitted.
\<close>
theorem task_queue_is_fifo:
  assumes "queue_wf s" "totaln s + length (enqueued ops) \<le> LIST_LIMIT"
    "qrun enqueue_task acquire_task ops s = Some (outs, s')"
  shows "queue_wf s' \<and> outs @ pending_tasks s' = pending_tasks s @ enqueued ops"
  by (rule tq.fifo_order [OF assms])

text \<open>A queue whose array has one full block, or an empty one of that size.\<close>

definition demo_pool :: "nat list \<Rightarrow> u32 \<Rightarrow> bool \<Rightarrow> mmap_sys" where
  "demo_pool bad k running =
     (let s = g_mmapFileAccessor (world0 bad ''in'' [])
      in s\<lparr>os := (os s)\<lparr>brk := 9, parrs := [3 \<mapsto> \<lparr>a_len = 1024, a_at = (\<lambda>j. Some (Addr 4))\<rparr>]\<rparr>,
           tasks := [4 \<mapsto> \<lparr>t_function = Some FnMmapRead, t_argument = Addr 2, t_is_sentinel = False\<rparr>],
           tqueue := \<lparr>request_queue = Addr 3, q_head = k, q_tail = k, q_todoCnt = 0, q_totoalCnt = k\<rparr>,
           pinfo := (pinfo s)\<lparr>isRunning := running\<rparr>\<rparr>)"

lemma demo_pool_simps [simp]:
  "tqueue (demo_pool bad k rn) =
     \<lparr>request_queue = Addr 3, q_head = k, q_tail = k, q_todoCnt = 0, q_totoalCnt = k\<rparr>"
  "refuse (os (demo_pool bad k rn)) = (\<lambda>n. List.member bad n)" "calls (os (demo_pool bad k rn)) = 0"
  "queue_arr (demo_pool bad k rn) = \<lparr>a_len = 1024, a_at = (\<lambda>j. Some (Addr 4))\<rparr>"
  "isRunning (pinfo (demo_pool bad k rn)) = rn" "brk (os (demo_pool bad k rn)) = 9"
  "parrs (os (demo_pool bad k rn)) = [3 \<mapsto> \<lparr>a_len = 1024, a_at = (\<lambda>j. Some (Addr 4))\<rparr>]"
  "tasks (demo_pool bad k rn) 4 =
     Some \<lparr>t_function = Some FnMmapRead, t_argument = Addr 2, t_is_sentinel = False\<rparr>"
  by (simp_all add: demo_pool_def g_mmapFileAccessor_def queue_arr_def Let_def)

lemma demo_pool_wf: "unat k \<le> 1024 \<Longrightarrow> queue_wf (demo_pool bad k rn)"
  by (simp add: queue_wf_def slot_def)

lemma demo_pool_empty: "pending_tasks (demo_pool bad k rn) = []"
  by (simp add: pending_tasks_def)

theorem task_queue_is_fifo_witness:
  "\<exists>s'. enqueue_task (Addr 4) (demo_pool [] 0 True) = Inr (RET_OK, s') \<and> pending_tasks s' = [Addr 4]"
proof -
  let ?s = "demo_pool [] 0 True"
  have wf: "queue_wf ?s" by (rule demo_pool_wf) simp
  from enqueue_task_granted [OF wf, of 3 "Addr 4"] obtain s' where
    s': "enqueue_task (Addr 4) ?s = Inr (RET_OK, s')" by (auto simp: LIST_LIMIT_def)
  then have "qrun enqueue_task acquire_task [Enq (Addr 4)] ?s = Some ([], s')" by simp
  from task_queue_is_fifo [OF wf _ this] s' show ?thesis
    by (simp add: LIST_LIMIT_def demo_pool_empty)
qed

text \<open>
  \<open>thread_pool_submit\<close> by the state of the pool: a task of an open pool and a sentinel of a closing
  one are appended to the queue; a task of a closing pool is rejected and a sentinel of an open one
  silently ignored, both without touching anything.
\<close>
theorem thread_pool_submit_branches:
  assumes tk: "deref (tasks s) t = Inr tk" and wf: "queue_wf s" and lim: "totaln s < LIST_LIMIT"
    and a: "request_queue (tqueue s) = Addr a" and ok: "\<not> refuse (os s) (calls (os s))"
  shows "(isRunning (pinfo s) \<noteq> t_is_sentinel tk \<longrightarrow>
            (\<exists>s'. thread_pool_submit t s = Inr (RET_OK, s') \<and>
                  pending_tasks s' = pending_tasks s @ [t] \<and> queue_wf s')) \<and>
         (\<not> isRunning (pinfo s) \<and> \<not> t_is_sentinel tk \<longrightarrow>
            thread_pool_submit t s = Inr (RET_ALREADY_EXISTS, s)) \<and>
         (isRunning (pinfo s) \<and> t_is_sentinel tk \<longrightarrow> thread_pool_submit t s = Inr (RET_OK, s))"
proof -
  from enqueue_task_granted [OF wf lim a ok] obtain s' where e: "enqueue_task t s = Inr (RET_OK, s')"
    by blast
  with enqueue_task_spec [OF wf lim e] enqueue_task_pending [OF wf lim e] tk show ?thesis
    by (auto simp: thread_pool_submit_def)
qed

theorem thread_pool_submit_branches_witness:
  "thread_pool_submit (Addr 4) (demo_pool [] 0 False) = Inr (RET_ALREADY_EXISTS, demo_pool [] 0 False) \<and>
   (\<exists>s'. thread_pool_submit (Addr 4) (demo_pool [] 0 True) = Inr (RET_OK, s'))"
  using thread_pool_submit_branches [of "demo_pool [] 0 False" "Addr 4" _ 3, OF _ demo_pool_wf]
    thread_pool_submit_branches [of "demo_pool [] 0 True" "Addr 4" _ 3, OF _ demo_pool_wf]
  by (auto simp: LIST_LIMIT_def)

text \<open>
  when the array has to grow and \<open>realloc\<close> fails, the code goes on: with a full array it stores
  past its end, and where the preallocated first block still has room it queues the task and yet
  reports \<open>RET_NO_MEMORY\<close>.
\<close>
theorem failed_growth:
  assumes wf: "queue_wf s" and lim: "totaln s < LIST_LIMIT" and a: "request_queue (tqueue s) = Addr a"
    and grow: "totaln s mod 1024 = 0" and bad: "refuse (os s) (calls (os s))"
  shows "if tailn s < a_len (queue_arr s)
         then \<exists>s'. enqueue_task t s = Inr (RET_NO_MEMORY, s') \<and> pending_tasks s' = pending_tasks s @ [t]
         else enqueue_task t s = Inl OutOfBounds"
proof -
  let ?s = "s\<lparr>os := (os s)\<lparr>calls := Suc (calls (os s))\<rparr>\<rparr>"
  from wf a obtain arr where "parrs (os s) a = Some arr" by (auto simp: queue_wf_def)
  with grow lim a bad have g: "grow_queue s = Inr (RET_NO_MEMORY, ?s)"
    by (simp add: grow_queue_def Let_def multiple_test new_entries c_realloc_arr_def ask_def)
  have wf': "queue_wf ?s" by (rule queue_wf_os_cong [OF _ _ wf]) simp_all
  have qa: "queue_arr ?s = queue_arr s" by (rule queue_arr_cong) simp_all
  show ?thesis
  proof (cases "tailn s < a_len (queue_arr s)")
    case True
    with arr_set_queue [OF wf', of a] a g qa obtain s' where e: "enqueue_task t s = Inr (RET_NO_MEMORY, s')"
      by (simp add: enqueue_task_def Let_def)
    with True enqueue_task_pending [OF wf lim e] show ?thesis by simp
  next
    case False
    with arr_set_queue [OF wf', of a] a g qa show ?thesis by (simp add: enqueue_task_def Let_def)
  qed
qed

theorem failed_growth_witness:
  "enqueue_task (Addr 4) (demo_pool [0] 1024 True) = Inl OutOfBounds \<and>
   (\<exists>s'. enqueue_task (Addr 4) (demo_pool [0] 0 True) = Inr (RET_NO_MEMORY, s'))"
  using failed_growth [OF demo_pool_wf, of 1024 "[0]" True 3 "Addr 4"]
    failed_growth [OF demo_pool_wf, of 0 "[0]" True 3 "Addr 4"]
  by (auto simp: LIST_LIMIT_def)

text \<open>
  C38: at \<open>2^29 - 1024\<close> tasks the requested size wraps around to 0: \<open>realloc\<close> frees the array, and the
  store that follows goes through the freed pointer.
\<close>
theorem wrapped_growth:
  assumes a: "request_queue (tqueue s) = Addr a" "parrs (os s) a = Some arr"
    and tot: "totaln s = LIST_LIMIT"
  shows "enqueue_task t s = Inl UseAfterFree"
proof -
  have w: "q_totoalCnt (tqueue s) = of_nat LIST_LIMIT" unfolding tot [symmetric] by simp
  have "new_list_bufsize (of_nat LIST_LIMIT) = 0"
    by (simp add: new_list_bufsize_def LIST_LIMIT_def REQ_LIST_BUFSIZE_def Let_def)
  moreover have "(of_nat LIST_LIMIT :: u32) mod REQ_LIST_BUFSIZE = 0"
    by (simp add: LIST_LIMIT_def REQ_LIST_BUFSIZE_def)
  ultimately have "grow_queue s = Inr (RET_NO_MEMORY, s\<lparr>os := (os s)\<lparr>parrs := (parrs (os s))(a := None)\<rparr>\<rparr>)"
    using a w by (simp add: grow_queue_def Let_def c_realloc_arr_def)
  then show ?thesis using a by (simp add: enqueue_task_def arr_set_def)
qed

theorem wrapped_growth_witness:
  "enqueue_task (Addr 4) (demo_pool [] (of_nat LIST_LIMIT) True) = Inl UseAfterFree"
proof -
  have "unat (of_nat LIST_LIMIT :: u32) = LIST_LIMIT" by (simp add: LIST_LIMIT_def)
  then show ?thesis by (intro wrapped_growth [of _ 3]) simp_all
qed

end
