(* ===== verification/Mmap_Requests.thy ===== *)
theory Mmap_Requests
  imports Mmap_State
begin

text \<open>
  Creating and preparing a request of the mmap accessor: \<open>mmap_check_request_valid\<close>,
  \<open>mmap_get_request\<close>, \<open>mmap_request_alloc_write_buffer\<close> and \<open>mmap_request_import_read_buffer\<close>,
  with what each of them does on every branch. Out-parameters are returned: the request pointer of
  \<open>mmap_get_request\<close>, the buffer of \<open>mmap_request_alloc_write_buffer\<close> (the caller's old value where
  the code does not store one).
\<close>

section \<open>Operations\<close>

definition mmap_check_request_valid :: "ptr \<Rightarrow> mmap_sys \<Rightarrow> fault + (ret_t \<times> mmap_sys)" where
  "mmap_check_request_valid p s =
     (if p = Null then Inr (RET_BAD_VALUE, s)
      else and_then (get_req p s) (\<lambda>r.
        if \<not> r_isValid r
        then let i = r_info r
             in if req_size i \<le> 0 \<or> (direction i < 0 \<or> ASYNC_FILE_ACCESS_MAX \<le> direction i)
                then Inr (RET_BAD_VALUE, s)
                else Inr (RET_OK, put_req p (r\<lparr>r_isValid := True\<rparr>) s)
        else Inr (RET_OK, s)))"

definition copied_info :: "async_file_access_request_info \<Rightarrow> async_file_access_request_info" where
  "copied_info ci = ci\<lparr>fn := take MAX_FILE_NAME_LEN (fn ci)\<rparr>"

definition mmap_open_mode :: "async_file_access_request_info \<Rightarrow> open_mode" where
  "mmap_open_mode ci = (if direction ci = ASYNC_FILE_ACCESS_READ then Rdonly else RdwrCreatTrunc)"

text \<open>What happens to a request once its file is open.\<close>

definition mmap_request_setup ::
  "async_file_access_request_info \<Rightarrow> int \<Rightarrow> mmap_request \<Rightarrow> world \<Rightarrow> mmap_request \<times> world" where
  "mmap_request_setup ci fd r w =
     (let (off, w1) = sys_lseek_cur fd (unat (req_offset ci)) w;
          r1 = r\<lparr>r_fd := fd, r_buf := Null, r_isAlloced := False,
                 r_status := REQUEST_STAT_INIT, r_nbytes := req_size ci,
                 r_offset := word_of_int off\<rparr>;
          w2 = (if direction (r_info r1) = ASYNC_FILE_ACCESS_WRITE
                then snd (sys_ftruncate fd (unat (r_nbytes r1)) w1) else w1)
      in (r1\<lparr>r_fsb := (case sys_fstat fd w2 of Some n \<Rightarrow> n | None \<Rightarrow> r_fsb r1),
             r_lock := SyncReady, r_isFinished := SyncReady\<rparr>, w2))"

definition mmap_get_request ::
  "async_file_access_request_info \<Rightarrow> mmap_sys \<Rightarrow> fault + (ret_t \<times> ptr \<times> mmap_sys)" where
  "mmap_get_request ci s =
     (let (p, w1) = c_new (os s)
      in if p = Null then Inl NullDeref
         else
           let s1 = put_req p (zero_mmap_request\<lparr>r_info := copied_info ci\<rparr>) (s\<lparr>os := w1\<rparr>)
           in and_then (mmap_check_request_valid p s1) (\<lambda>(res, s2).
                if res \<noteq> RET_OK then Inr (res, p, s2)
                else and_then (file_name (fn ci)) (\<lambda>path. and_then (get_req p s2) (\<lambda>r.
                  let (fd, w2) = retry_do (sys_open path (mmap_open_mode ci)) (\<lambda>fd. fd = - 1)
                                   MAX_RETRY_TIMES 0 (os s2)
                  in if 0 \<le> fd
                     then let (r2, w4) = mmap_request_setup ci fd r w2
                          in Inr (RET_OK, p, put_req p r2 (s2\<lparr>os := w4\<rparr>))
                     else Inr (RET_BAD_VALUE, p, put_req p (r\<lparr>r_fd := fd\<rparr>) (s2\<lparr>os := w2\<rparr>))))))"

definition mmap_request_alloc_write_buffer ::
  "ptr \<Rightarrow> ptr \<Rightarrow> mmap_sys \<Rightarrow> fault + (ret_t \<times> ptr \<times> mmap_sys)" where
  "mmap_request_alloc_write_buffer p buffer s =
     and_then (mmap_check_request_valid p s) (\<lambda>(res0, s1).
     and_then (get_req p s1) (\<lambda>r0.
       let (res, r) = (if r_nbytes r0 \<le> 0 then (RET_BAD_VALUE, r0\<lparr>r_status := REQUEST_STAT_IOFAIL\<rparr>)
                       else (res0, r0));
           s2 = put_req p r s1
       in if res = RET_OK
          then
            let (b, w) = retry_do (sys_mmap (unat (r_nbytes r)) True (r_fd r) (unat (r_offset r)))
                           (\<lambda>b. b = MapFailed) MAX_RETRY_TIMES 0 (os s2)
            in if b \<noteq> MapFailed
               then Inr (res, b, put_req p (r\<lparr>r_buf := b, r_isAlloced := True\<rparr>) (s2\<lparr>os := w\<rparr>))
               else Inr (RET_BAD_VALUE, b,
                         put_req p (r\<lparr>r_status := REQUEST_STAT_IOFAIL\<rparr>) (s2\<lparr>os := w\<rparr>))
          else Inr (res, buffer, s2)))"

definition mmap_request_import_read_buffer ::
  "ptr \<Rightarrow> ptr \<Rightarrow> mmap_sys \<Rightarrow> fault + (ret_t \<times> mmap_sys)" where
  "mmap_request_import_read_buffer p buffer s =
     and_then (mmap_check_request_valid p s) (\<lambda>(res, s1).
       if buffer = Null
       then and_then (get_req p s1) (\<lambda>r.
              Inr (RET_BAD_VALUE, put_req p (r\<lparr>r_status := REQUEST_STAT_IOFAIL\<rparr>) s1))
       else if res = RET_OK
       then and_then (get_req p s1) (\<lambda>r. Inr (res, put_req p (r\<lparr>r_buf := buffer\<rparr>) s1))
       else Inr (res, s1))"

section \<open>Validity\<close>

definition info_ok :: "async_file_access_request_info \<Rightarrow> bool" where
  "info_ok i \<longleftrightarrow> 0 < req_size i \<and>
     (direction i = ASYNC_FILE_ACCESS_READ \<or> direction i = ASYNC_FILE_ACCESS_WRITE)"

lemma info_ok_iff:
  "info_ok i \<longleftrightarrow> req_size i \<noteq> 0 \<and> \<not> ASYNC_FILE_ACCESS_MAX \<le> direction i"
proof -
  have "direction i < ASYNC_FILE_ACCESS_MAX \<longleftrightarrow>
        direction i = ASYNC_FILE_ACCESS_READ \<or> direction i = ASYNC_FILE_ACCESS_WRITE"
    using direction_cases [of "direction i"]
    by (auto simp: ASYNC_FILE_ACCESS_READ_def ASYNC_FILE_ACCESS_WRITE_def ASYNC_FILE_ACCESS_MAX_def)
  then show ?thesis by (auto simp: info_ok_def not_le word_neq_0_conv)
qed

lemma check_Null [simp]: "mmap_check_request_valid Null s = Inr (RET_BAD_VALUE, s)"
  by (simp add: mmap_check_request_valid_def)

lemma check_spec:
  "get_req p s = Inr r \<Longrightarrow>
   mmap_check_request_valid p s =
     (if r_isValid r then Inr (RET_OK, s)
      else if info_ok (r_info r) then Inr (RET_OK, put_req p (r\<lparr>r_isValid := True\<rparr>) s)
      else Inr (RET_BAD_VALUE, s))"
  by (cases p) (auto simp: mmap_check_request_valid_def info_ok_iff get_req_def Let_def)

lemma check_cases:
  assumes "mmap_check_request_valid p s = Inr (res, s')"
  obtains (null) "p = Null" "res = RET_BAD_VALUE" "s' = s"
  | (invalid) r where "get_req p s = Inr r" "\<not> r_isValid r" "\<not> info_ok (r_info r)"
      "res = RET_BAD_VALUE" "s' = s"
  | (valid) r where "get_req p s = Inr r" "res = RET_OK" "r_isValid r \<or> info_ok (r_info r)"
      "s' = put_req p (r\<lparr>r_isValid := True\<rparr>) s"
proof (cases "p = Null")
  case True
  with assms null show thesis by simp
next
  case False
  with assms obtain r where r: "get_req p s = Inr r"
    by (auto simp: mmap_check_request_valid_def)
  then obtain a where a: "p = Addr a" "requests s a = Some r" by (auto simp: get_req_Inr_iff)
  have same: "r_isValid r \<Longrightarrow> put_req p (r\<lparr>r_isValid := True\<rparr>) s = s"
    using a by (cases r) (simp add: put_req_def fun_upd_idem)
  show thesis
    using assms r valid [OF r] invalid [OF r] same by (auto simp: check_spec split: if_splits)
qed

lemma check_frame [frame]:
  "mmap_check_request_valid p s = Inr (res, s') \<Longrightarrow>
     os s' = os s \<and> tasks s' = tasks s \<and> tqueue s' = tqueue s \<and> pinfo s' = pinfo s \<and>
     threads s' = threads s"
  by (erule check_cases) auto

section \<open>Requests as they come out of \<open>mmap_get_request\<close>\<close>

lemma req_put_same [simp]: "get_req p (put_req p r s) = (if \<exists>a. p = Addr a then Inr r else get_req p s)"
  by (cases p) (auto simp: get_req_def put_req_def deref_def)

abbreviation new_request :: "async_file_access_request_info \<Rightarrow> mmap_request" where
  "new_request ci \<equiv> zero_mmap_request\<lparr>r_info := copied_info ci\<rparr>"

abbreviation mmap_open_retry ::
  "string \<Rightarrow> async_file_access_request_info \<Rightarrow> world \<Rightarrow> int \<times> world" where
  "mmap_open_retry path ci \<equiv>
     retry_do (sys_open path (mmap_open_mode ci)) (\<lambda>fd. fd = - 1) MAX_RETRY_TIMES 0"

text \<open>\<open>mmap_get_request\<close> by cases: a memory failure, a bad description, a failing or a good open.\<close>

lemma get_request_eq:
  assumes n: "c_new (os s) = (p, w1)" and p: "p \<noteq> Null"
  shows "mmap_get_request ci s =
     (if \<not> info_ok ci then Inr (RET_BAD_VALUE, p, put_req p (new_request ci) (s\<lparr>os := w1\<rparr>))
      else and_then (file_name (fn ci)) (\<lambda>path.
        let r = (new_request ci)\<lparr>r_isValid := True\<rparr>; (fd, w2) = mmap_open_retry path ci w1
        in if 0 \<le> fd
           then let (r2, w4) = mmap_request_setup ci fd r w2
                in Inr (RET_OK, p, put_req p r2 (s\<lparr>os := w4\<rparr>))
           else Inr (RET_BAD_VALUE, p, put_req p (r\<lparr>r_fd := fd\<rparr>) (s\<lparr>os := w2\<rparr>))))"
proof -
  from n p obtain a where a: "p = Addr a" by (auto elim: c_new_cases)
  let ?s1 = "put_req p (new_request ci) (s\<lparr>os := w1\<rparr>)"
  have "mmap_check_request_valid p ?s1 =
     (if info_ok ci
      then Inr (RET_OK, put_req p ((new_request ci)\<lparr>r_isValid := True\<rparr>) ?s1)
      else Inr (RET_BAD_VALUE, ?s1))"
    using a by (subst check_spec [where r = "new_request ci"])
      (simp_all add: zero_mmap_request_def copied_info_def info_ok_def)
  then show ?thesis using n p a
    by (simp add: mmap_get_request_def Let_def put_req_def get_req_def split: prod.split cong: if_cong)
qed

lemma get_request_no_memory: "c_new (os s) = (Null, w1) \<Longrightarrow> mmap_get_request ci s = Inl NullDeref"
  by (simp add: mmap_get_request_def)

lemma setup_fields:
  assumes "mmap_request_setup ci fd r w = (r', w')" "fd_lookup w fd = Some d" "o_pos d = 0"
  shows "r_fd r' = fd \<and> r_buf r' = Null \<and> \<not> r_isAlloced r' \<and> r_status r' = REQUEST_STAT_INIT \<and>
         r_nbytes r' = req_size ci \<and> r_offset r' = req_offset ci \<and> r_info r' = r_info r \<and>
         r_isValid r' = r_isValid r \<and> r_lock r' = SyncReady \<and> r_isFinished r' = SyncReady"
proof -
  obtain off w1 where o: "sys_lseek_cur fd (unat (req_offset ci)) w = (off, w1)" by fastforce
  from sys_lseek_cur_spec [OF o assms(2)] assms(3) have "word_of_int off = req_offset ci" by simp
  with assms(1) o show ?thesis by (auto simp: mmap_request_setup_def Let_def)
qed

lemma setup_world:
  assumes s: "mmap_request_setup ci fd r w = (r', w')" and d: "fd_lookup w fd = Some d"
    and f: "files w (o_path d) = Some f"
  shows "same_store w w' \<and> (\<forall>k. k \<noteq> fd \<longrightarrow> fd_lookup w' k = fd_lookup w k) \<and>
         (\<exists>d'. fd_lookup w' fd = Some d' \<and> o_path d' = o_path d \<and> o_mode d' = o_mode d) \<and>
         (files w' = files w \<or>
          direction (r_info r) = ASYNC_FILE_ACCESS_WRITE \<and> can_write (o_mode d) \<and>
          files w' = (files w)(o_path d :=
            Some (f\<lparr>f_content := resize (unat (req_size ci)) (f_content f)\<rparr>)))"
proof -
  obtain off w1 where o: "sys_lseek_cur fd (unat (req_offset ci)) w = (off, w1)" by fastforce
  note l = sys_lseek_cur_spec [OF o d]
  obtain t w2 where t: "sys_ftruncate fd (unat (req_size ci)) w1 = (t, w2)" by fastforce
  let ?d = "d\<lparr>o_pos := o_pos d + unat (req_offset ci)\<rparr>"
  from l have d1: "fd_lookup w1 fd = Some ?d" by simp
  with l f have "files w1 (o_path ?d) = Some f" by simp
  note tr = sys_ftruncate_spec [OF t d1 this]
  have w': "w' = (if direction (r_info r) = ASYNC_FILE_ACCESS_WRITE then w2 else w1)"
    using s o t by (auto simp: mmap_request_setup_def Let_def)
  have look: "fd_lookup w' k = fd_lookup w1 k" for k
    using tr w' by (simp add: fd_lookup_def)
  have "same_store w w'" using l tr w' by (auto simp: same_store_def)
  then show ?thesis using l tr w' look by auto
qed

lemma get_request_fresh:
  assumes "mmap_get_request ci s = Inr (res, p, s')"
  shows "\<exists>w1. c_new (os s) = (Addr (brk (os s)), w1)"
proof -
  obtain q w1 where n: "c_new (os s) = (q, w1)" by (cases "c_new (os s)")
  then show ?thesis
  proof (cases rule: c_new_cases)
    case refused
    with n assms show ?thesis by (simp add: get_request_no_memory)
  next
    case fresh
    with n show ?thesis by blast
  qed
qed

text \<open>What every call that returns has in common.\<close>

lemma get_request_cases:
  assumes g: "mmap_get_request ci s = Inr (res, p, s')"
  obtains w1 r w where "c_new (os s) = (p, w1)" "p = Addr (brk (os s))"
    "s' = put_req p r (s\<lparr>os := w\<rparr>)" "same_store w1 w"
    "r_status r = REQUEST_STAT_INIT" "r_info r = copied_info ci"
    "res = RET_OK \<or> res = RET_BAD_VALUE"
proof -
  from get_request_fresh [OF g] obtain w1 where n: "c_new (os s) = (Addr (brk (os s)), w1)" ..
  note eq = get_request_eq [OF n, of ci]
  show thesis
  proof (cases "info_ok ci")
    case False
    with g eq n show thesis
      by (intro that [of w1 "new_request ci" w1]) (auto simp: zero_mmap_request_def same_store_def)
  next
    case True
    with g eq obtain path fd w2 where path: "cstr (fn ci) = Some path"
      and fd: "mmap_open_retry path ci w1 = (fd, w2)"
      by (fastforce simp: file_name_def split: option.splits prod.splits)
    note op = open_retry_spec [OF fd]
    show thesis
    proof (cases "0 \<le> fd")
      case False
      with True g eq n path fd op show thesis
        by (intro that [of w1 "(new_request ci)\<lparr>r_isValid := True, r_fd := fd\<rparr>" w2])
           (auto simp: zero_mmap_request_def file_name_def)
    next
      case nonneg: True
      with op have "opened path (mmap_open_mode ci) fd w1 w2" by auto
      then obtain d f where d: "fd_lookup w2 fd = Some d" "o_pos d = 0"
        and f: "files w2 (o_path d) = Some f" by (auto simp: opened_def)
      obtain r2 w4 where st:
        "mmap_request_setup ci fd ((new_request ci)\<lparr>r_isValid := True\<rparr>) w2 = (r2, w4)" by fastforce
      from setup_fields [OF st d] setup_world [OF st d(1) f] op True nonneg g eq n path fd st
      show thesis
        by (intro that [of w1 r2 w4]) (auto simp: file_name_def same_store_def)
    qed
  qed
qed

section \<open>What the operations promise\<close>

text \<open>
  a successful \<open>mmap_get_request\<close> returns a fresh request in state \<open>INIT\<close>, marked valid, with
  no buffer, that carries a copy of the description; its descriptor is a new one for the named file
  with the access the direction needs, every other descriptor and every other request is as before.
\<close>
theorem mmap_get_request_success:
  assumes "mmap_get_request ci s = Inr (RET_OK, p, s')"
  shows "\<exists>path r d. p = Addr (brk (os s)) \<and> get_req p s' = Inr r \<and>
           r_status r = REQUEST_STAT_INIT \<and> r_isValid r \<and> \<not> r_isAlloced r \<and> r_buf r = Null \<and>
           r_info r = copied_info ci \<and> r_nbytes r = req_size ci \<and> r_offset r = req_offset ci \<and>
           info_ok ci \<and> cstr (fn ci) = Some path \<and>
           0 \<le> r_fd r \<and> fd_lookup (os s) (r_fd r) = None \<and>
           fd_lookup (os s') (r_fd r) = Some d \<and> o_path d = path \<and> o_mode d = mmap_open_mode ci \<and>
           (\<forall>k. k \<noteq> r_fd r \<longrightarrow> fd_lookup (os s') k = fd_lookup (os s) k) \<and>
           (\<forall>q. q \<noteq> p \<longrightarrow> get_req q s' = get_req q s)"
proof -
  from get_request_fresh [OF assms] obtain q w1 where
    n: "c_new (os s) = (q, w1)" and q: "q = Addr (brk (os s))" by blast
  note eq = get_request_eq [OF n, of ci]
  from assms eq q obtain path fd w2 r2 w4 where
    path: "cstr (fn ci) = Some path" and fd: "mmap_open_retry path ci w1 = (fd, w2)"
    and st: "mmap_request_setup ci fd ((new_request ci)\<lparr>r_isValid := True\<rparr>) w2 = (r2, w4)"
    and res: "p = q" "s' = put_req q r2 (s\<lparr>os := w4\<rparr>)" "0 \<le> fd" "info_ok ci"
    by (auto simp: file_name_def Let_def split: if_splits option.splits prod.splits)
  from open_retry_spec [OF fd] res have op: "opened path (mmap_open_mode ci) fd w1 w2" by auto
  let ?d = "\<lparr>o_path = path, o_mode = mmap_open_mode ci, o_pos = 0\<rparr>"
  from op have d: "fd_lookup w2 fd = Some ?d" by (simp add: opened_def)
  from op obtain f where f: "files w2 (o_path ?d) = Some f" by (auto simp: opened_def)
  have w1: "fd_lookup (os s) k = fd_lookup w1 k" for k
    using c_new_frame [OF n] by (simp add: fd_lookup_def)
  have "\<And>q'. q' \<noteq> q \<Longrightarrow> get_req q' s' = get_req q' s"
    using res q by (auto simp: put_req_def get_req_def deref_def split: ptr.splits)
  with setup_fields [OF st d] setup_world [OF st d f] op q res path w1 show ?thesis
    by (auto simp: opened_def)
qed

theorem mmap_get_request_success_witness:
  "\<exists>p s'. mmap_get_request read_info (g_mmapFileAccessor (world0 [1] ''in'' [7, 8, 9])) =
            Inr (RET_OK, p, s') \<and>
          (\<exists>r. get_req p s' = Inr r \<and> r_status r = REQUEST_STAT_INIT)"
proof -
  let ?s = "g_mmapFileAccessor (world0 [1] ''in'' [7, 8, 9])"
  have "case mmap_get_request read_info ?s of Inr (r, p, s') \<Rightarrow> r = RET_OK | Inl f \<Rightarrow> False"
    by code_simp
  then obtain p s' where g: "mmap_get_request read_info ?s = Inr (RET_OK, p, s')"
    by (auto split: sum.splits)
  from mmap_get_request_success [OF g] g show ?thesis by blast
qed

text \<open>
  with memory and a terminated name, \<open>mmap_get_request\<close> always returns: \<open>RET_OK\<close> exactly for a
  good description whose file one of at most three attempts opens, \<open>RET_BAD_VALUE\<close> otherwise.
\<close>
theorem mmap_get_request_result:
  assumes n: "c_new (os s) = (q, w1)" and q: "q \<noteq> Null" and path: "cstr (fn ci) = Some path"
  shows "\<exists>p s'. mmap_get_request ci s =
           Inr (if info_ok ci \<and>
                   \<not> list_all (\<lambda>fd. fd = - 1) (attempts (sys_open path (mmap_open_mode ci)) 3 w1)
                then RET_OK else RET_BAD_VALUE, p, s')"
proof -
  obtain fd w2 where fd: "mmap_open_retry path ci w1 = (fd, w2)" by fastforce
  obtain r2 w4 where st:
    "mmap_request_setup ci fd ((new_request ci)\<lparr>r_isValid := True\<rparr>) w2 = (r2, w4)" by fastforce
  have "Suc MAX_RETRY_TIMES = 3" by (simp add: MAX_RETRY_TIMES_def)
  with retry_do_bad_iff [of "\<lambda>fd. fd = - 1" "sys_open path (mmap_open_mode ci)" MAX_RETRY_TIMES 0 w1] fd
  have "fd = - 1 \<longleftrightarrow> list_all (\<lambda>fd. fd = - 1) (attempts (sys_open path (mmap_open_mode ci)) 3 w1)"
    by (simp del: attempts.simps)
  with open_retry_nonneg [OF fd] show ?thesis
    using get_request_eq [OF n q, of ci] path fd st
    by (simp add: file_name_def del: attempts.simps)
qed

theorem mmap_get_request_result_witness:
  "\<exists>p s'. mmap_get_request read_info (g_mmapFileAccessor (world0 [1, 2, 3] ''in'' [7])) =
            Inr (RET_BAD_VALUE, p, s')"
  (is "\<exists>p s'. mmap_get_request read_info ?s = _")
proof -
  let ?w = "snd (c_new (os ?s))"
  have n: "c_new (os ?s) = (Addr 1, ?w)"
    by (simp add: c_new_def ask_def fresh_addr_def g_mmapFileAccessor_def)
  have c: "cstr (fn read_info) = Some ''in''" by code_simp
  have "list_all (\<lambda>fd. fd = - 1) (attempts (sys_open ''in'' (mmap_open_mode read_info)) 3 ?w)"
    by code_simp
  with mmap_get_request_result [OF n _ c] show ?thesis by (simp del: attempts.simps)
qed

text \<open>
  a request for writing leaves the file it names with either no bytes or exactly the requested
  number of zero bytes: the old contents are gone as soon as the request exists.
\<close>
theorem mmap_get_request_truncates:
  assumes g: "mmap_get_request ci s = Inr (RET_OK, p, s')"
    and wr: "direction ci = ASYNC_FILE_ACCESS_WRITE"
  shows "\<exists>path f. cstr (fn ci) = Some path \<and> files (os s') path = Some f \<and>
           (f_content f = [] \<or> f_content f = replicate (unat (req_size ci)) 0) \<and>
           (\<forall>q. q \<noteq> path \<longrightarrow> files (os s') q = files (os s) q)"
proof -
  from get_request_fresh [OF g] obtain w1 where n: "c_new (os s) = (Addr (brk (os s)), w1)" ..
  from g get_request_eq [OF n, of ci] obtain path fd w2 r2 w4 where
    path: "cstr (fn ci) = Some path" and fd: "mmap_open_retry path ci w1 = (fd, w2)"
    and st: "mmap_request_setup ci fd ((new_request ci)\<lparr>r_isValid := True\<rparr>) w2 = (r2, w4)"
    and res: "os s' = w4" "0 \<le> fd"
    by (auto simp: file_name_def Let_def split: if_splits option.splits prod.splits)
  from open_retry_spec [OF fd] res have op: "opened path (mmap_open_mode ci) fd w1 w2" by auto
  have md: "mmap_open_mode ci = RdwrCreatTrunc" using wr by (simp add: mmap_open_mode_def)
  let ?d = "\<lparr>o_path = path, o_mode = RdwrCreatTrunc, o_pos = 0\<rparr>"
  from op md have d: "fd_lookup w2 fd = Some ?d" by (simp add: opened_def)
  from op md obtain f where f: "files w2 (o_path ?d) = Some f" "f_content f = []"
    by (auto simp: opened_def opened_file_def split: option.splits)
  have "resize k [] = replicate k 0" for k by (simp add: resize_def)
  with setup_world [OF st d f(1)] f op res path c_new_frame [OF n] show ?thesis
    by (auto simp: opened_def)
qed

theorem mmap_get_request_truncates_witness:
  "\<exists>p s'. mmap_get_request write_info (g_mmapFileAccessor (world0 [] ''out'' [7, 8, 9, 10])) =
            Inr (RET_OK, p, s') \<and>
          (\<exists>f. files (os s') ''out'' = Some f \<and> (f_content f = [] \<or> f_content f = [0, 0, 0]))"
  (is "\<exists>p s'. mmap_get_request write_info ?s = _ \<and> _")
proof -
  have "case mmap_get_request write_info ?s of Inr (r, p, s') \<Rightarrow> r = RET_OK | Inl f \<Rightarrow> False"
    by code_simp
  then obtain p s' where g: "mmap_get_request write_info ?s = Inr (RET_OK, p, s')"
    by (auto split: sum.splits)
  have "replicate (unat (req_size write_info)) 0 = ([0, 0, 0] :: u8 list)"
    "cstr (fn write_info) = Some ''out''" by code_simp+
  with mmap_get_request_truncates [OF g] g show ?thesis by (auto simp: write_info_def)
qed

text \<open>
  allocating a write buffer for a valid request either maps the request's range of its file
  shared and records the mapping, or marks the request failed and reports \<open>RET_BAD_VALUE\<close>; a
  request of 0 bytes is always of the second kind.
\<close>
theorem mmap_alloc_write_buffer_spec:
  assumes r: "get_req p s = Inr r" "r_isValid r"
    and a: "mmap_request_alloc_write_buffer p b0 s = Inr (res, b, s')"
  shows "res = RET_OK \<and> 0 < r_nbytes r \<and>
           get_req p s' = Inr (r\<lparr>r_buf := b, r_isAlloced := True\<rparr>) \<and>
           mapped (unat (r_nbytes r)) True (r_fd r) (unat (r_offset r)) b (os s) (os s') \<or>
         res = RET_BAD_VALUE \<and> (b = b0 \<or> b = MapFailed) \<and>
           get_req p s' = Inr (r\<lparr>r_status := REQUEST_STAT_IOFAIL\<rparr>) \<and>
           mmaps (os s') = mmaps (os s)"
proof -
  obtain c w where m: "retry_do (sys_mmap (unat (r_nbytes r)) True (r_fd r) (unat (r_offset r)))
      (\<lambda>b. b = MapFailed) MAX_RETRY_TIMES 0 (os s) = (c, w)" by fastforce
  have chk: "mmap_check_request_valid p s = Inr (RET_OK, s)" using r by (simp add: check_spec)
  from r(1) obtain i where i: "p = Addr i" by (auto simp: get_req_Inr_iff)
  show ?thesis
  proof (cases "r_nbytes r = 0")
    case True
    with a r chk i show ?thesis by (auto simp: mmap_request_alloc_write_buffer_def Let_def)
  next
    case False
    with a r chk m i mmap_retry_spec [OF m] show ?thesis
      by (auto simp: mmap_request_alloc_write_buffer_def Let_def word_neq_0_conv get_req_def
          put_req_def split: if_splits)
  qed
qed

theorem mmap_alloc_write_buffer_spec_witness:
  "\<exists>p s r b s'. get_req p s = Inr r \<and>
     mmap_request_alloc_write_buffer p Null s = Inr (RET_OK, b, s') \<and>
     get_req p s' = Inr (r\<lparr>r_buf := b, r_isAlloced := True\<rparr>)"
proof -
  let ?r = "zero_mmap_request\<lparr>r_isValid := True, r_fd := 1, r_nbytes := 3\<rparr>"
  let ?s = "put_req (Addr 5) ?r (g_mmapFileAccessor (world0 [] ''in'' []))"
  have r: "get_req (Addr 5) ?s = Inr ?r" "r_isValid ?r" by simp_all
  have "case mmap_request_alloc_write_buffer (Addr 5) Null ?s of
          Inr (res, b, s') \<Rightarrow> res = RET_OK | Inl f \<Rightarrow> False" by code_simp
  then obtain b s' where a: "mmap_request_alloc_write_buffer (Addr 5) Null ?s = Inr (RET_OK, b, s')"
    by (auto split: sum.splits)
  from mmap_alloc_write_buffer_spec [OF r a]
  have "get_req (Addr 5) s' = Inr (?r\<lparr>r_buf := b, r_isAlloced := True\<rparr>)" by simp
  with r(1) a show ?thesis by blast
qed

text \<open>
  a null request is reported by the validity check, but allocating a buffer for one, or importing
  a null buffer into one, dereferences it.
\<close>
theorem mmap_null_request:
  "mmap_check_request_valid Null s = Inr (RET_BAD_VALUE, s) \<and>
   mmap_request_alloc_write_buffer Null b s = Inl NullDeref \<and>
   mmap_request_import_read_buffer Null Null s = Inl NullDeref \<and>
   mmap_request_import_read_buffer Null (Addr a) s = Inr (RET_BAD_VALUE, s)"
  by (simp add: mmap_request_alloc_write_buffer_def mmap_request_import_read_buffer_def get_req_def)

end
