(* ===== verification/Mmap_Worker.thy ===== *)
theory Mmap_Worker
  imports Thread_Pool Mmap_Requests
begin

text \<open>
  The pool threads at work: the task functions \<open>mmapRead\<close> and \<open>mmapWrite\<close>, each as a sequence of
  atomic phases (the test for cancellation, the input or output, the outcome recorded under the
  request's lock, the clean-up), \<open>worker_thread\<close> as one step per program point, the creation of the
  threads and the accessor's instance.
\<close>

section \<open>The outcome of a request\<close>

text \<open>
  The region both task functions end with: a cancelled request stays cancelled, any other gets its
  outcome.
\<close>

definition mmap_record_status :: "ptr \<Rightarrow> bool \<Rightarrow> mmap_sys \<Rightarrow> fault + mmap_sys" where
  "mmap_record_status p ok s =
     and_then (get_req p s) (\<lambda>r.
       Inr (put_req p (r\<lparr>r_status :=
              (if r_status r = REQUEST_STAT_CANCEL then r_status r
               else if ok then REQUEST_STAT_IOSUCCESS else REQUEST_STAT_IOFAIL)\<rparr>) s))"

text \<open>\<open>if (pRequest->fd > 0) { close(pRequest->fd); pRequest->fd = -1; }\<close>\<close>

definition mmap_close_fd :: "ptr \<Rightarrow> mmap_sys \<Rightarrow> fault + mmap_sys" where
  "mmap_close_fd p s =
     and_then (get_req p s) (\<lambda>r.
       if 0 < r_fd r
       then Inr (put_req p (r\<lparr>r_fd := - 1\<rparr>) (s\<lparr>os := snd (sys_close (r_fd r) (os s))\<rparr>))
       else Inr s)"

section \<open>\<open>mmapRead\<close>\<close>

text \<open>The test at the start: does the function go on?\<close>

definition mmapRead_enter :: "ptr \<Rightarrow> mmap_sys \<Rightarrow> fault + (bool \<times> mmap_sys)" where
  "mmapRead_enter p s =
     and_then (get_req p s) (\<lambda>r. Inr (r_status r \<noteq> REQUEST_STAT_CANCEL, s))"

text \<open>Mapping the file and copying it to the request's buffer: success, and the mapping.\<close>

definition mmapRead_io :: "ptr \<Rightarrow> mmap_sys \<Rightarrow> fault + (bool \<times> ptr \<times> mmap_sys)" where
  "mmapRead_io p s =
     and_then (get_req p s) (\<lambda>r.
       let (a, w) = retry_do (sys_mmap (unat (r_nbytes r)) False (r_fd r) (unat (r_offset r)))
                      (\<lambda>b. b = MapFailed) MAX_RETRY_TIMES 0 (os s)
       in if a \<noteq> MapFailed
          then and_then (c_memcpy (r_buf r) a (unat (r_nbytes r)) w) (\<lambda>w'.
                 Inr (True, a, s\<lparr>os := w'\<rparr>))
          else Inr (False, a, s\<lparr>os := w\<rparr>))"

definition mmapRead_cleanup :: "ptr \<Rightarrow> ptr \<Rightarrow> mmap_sys \<Rightarrow> fault + mmap_sys" where
  "mmapRead_cleanup p a s =
     and_then (get_req p s) (\<lambda>r.
       let s1 = (if a \<noteq> MapFailed then s\<lparr>os := snd (sys_munmap a (unat (r_nbytes r)) (os s))\<rparr> else s)
       in mmap_close_fd p s1)"

definition mmapRead :: "ptr \<Rightarrow> mmap_sys \<Rightarrow> fault + mmap_sys" where
  "mmapRead p s =
     and_then (mmapRead_enter p s) (\<lambda>(go, s1).
       if \<not> go then Inr s1
       else and_then (mmapRead_io p s1) (\<lambda>(ok, a, s2).
            and_then (mmap_record_status p ok s2) (\<lambda>s3.
              mmapRead_cleanup p a s3)))"

section \<open>\<open>mmapWrite\<close>\<close>

definition mmap_unmap_buf :: "ptr \<Rightarrow> mmap_sys \<Rightarrow> fault + mmap_sys" where
  "mmap_unmap_buf p s =
     and_then (get_req p s) (\<lambda>r.
       Inr (put_req p (r\<lparr>r_buf := Null\<rparr>)
              (s\<lparr>os := snd (sys_munmap (r_buf r) (unat (r_nbytes r)) (os s))\<rparr>)))"

definition mmapWrite_enter :: "ptr \<Rightarrow> mmap_sys \<Rightarrow> fault + (bool \<times> mmap_sys)" where
  "mmapWrite_enter p s =
     and_then (get_req p s) (\<lambda>r.
       if r_status r = REQUEST_STAT_CANCEL
       then and_then (mmap_unmap_buf p s) (\<lambda>s1. Inr (False, s1))
       else Inr (True, s))"

definition mmapWrite_io :: "ptr \<Rightarrow> mmap_sys \<Rightarrow> fault + (bool \<times> ptr \<times> mmap_sys)" where
  "mmapWrite_io p s =
     and_then (get_req p s) (\<lambda>r.
       let (res, w) = sys_msync (r_buf r) (unat (r_nbytes r)) (os s)
       in Inr (res \<noteq> - 1, MapFailed, s\<lparr>os := w\<rparr>))"

definition mmapWrite_cleanup :: "ptr \<Rightarrow> mmap_sys \<Rightarrow> fault + mmap_sys" where
  "mmapWrite_cleanup p s = and_then (mmap_unmap_buf p s) (mmap_close_fd p)"

definition mmapWrite :: "ptr \<Rightarrow> mmap_sys \<Rightarrow> fault + mmap_sys" where
  "mmapWrite p s =
     and_then (mmapWrite_enter p s) (\<lambda>(go, s1).
       if \<not> go then Inr s1
       else and_then (mmapWrite_io p s1) (\<lambda>(ok, a, s2).
            and_then (mmap_record_status p ok s2) (mmapWrite_cleanup p)))"

section \<open>The two kinds of input and output\<close>

lemma mmapRead_io_cases:
  assumes "mmapRead_io p s = Inr (ok, a, s')"
  obtains (copied) r w w' where "get_req p s = Inr r" "ok"
      "retry_do (sys_mmap (unat (r_nbytes r)) False (r_fd r) (unat (r_offset r)))
         (\<lambda>b. b = MapFailed) MAX_RETRY_TIMES 0 (os s) = (a, w)" "a \<noteq> MapFailed"
      "c_memcpy (r_buf r) a (unat (r_nbytes r)) w = Inr w'" "s' = s\<lparr>os := w'\<rparr>"
  | (failed) r w where "get_req p s = Inr r" "\<not> ok" "a = MapFailed"
      "retry_do (sys_mmap (unat (r_nbytes r)) False (r_fd r) (unat (r_offset r)))
         (\<lambda>b. b = MapFailed) MAX_RETRY_TIMES 0 (os s) = (a, w)" "s' = s\<lparr>os := w\<rparr>"
proof -
  from assms obtain r where r: "get_req p s = Inr r" by (auto simp: mmapRead_io_def)
  obtain x w where "retry_do (sys_mmap (unat (r_nbytes r)) False (r_fd r) (unat (r_offset r)))
         (\<lambda>b. b = MapFailed) MAX_RETRY_TIMES 0 (os s) = (x, w)" by fastforce
  with assms r copied failed show thesis by (auto simp: mmapRead_io_def split: if_splits)
qed

lemma mmapWrite_io_cases:
  assumes "mmapWrite_io p s = Inr (ok, a, s')"
  obtains r res w where "get_req p s = Inr r" "ok \<longleftrightarrow> res \<noteq> - 1" "a = MapFailed"
    "sys_msync (r_buf r) (unat (r_nbytes r)) (os s) = (res, w)" "s' = s\<lparr>os := w\<rparr>"
proof -
  from assms obtain r where r: "get_req p s = Inr r" by (auto simp: mmapWrite_io_def)
  obtain x w where "sys_msync (r_buf r) (unat (r_nbytes r)) (os s) = (x, w)" by fastforce
  with assms r that show thesis by (auto simp: mmapWrite_io_def)
qed

section \<open>\<open>worker_thread\<close>\<close>

text \<open>The phases of the function a task points to.\<close>

fun task_enter :: "task_fn \<Rightarrow> ptr \<Rightarrow> mmap_sys \<Rightarrow> fault + (bool \<times> mmap_sys)" where
  "task_enter FnMmapRead p s = mmapRead_enter p s"
| "task_enter FnMmapWrite p s = mmapWrite_enter p s"

fun task_io :: "task_fn \<Rightarrow> ptr \<Rightarrow> mmap_sys \<Rightarrow> fault + (bool \<times> ptr \<times> mmap_sys)" where
  "task_io FnMmapRead p s = mmapRead_io p s"
| "task_io FnMmapWrite p s = mmapWrite_io p s"

fun task_cleanup :: "task_fn \<Rightarrow> ptr \<Rightarrow> ptr \<Rightarrow> mmap_sys \<Rightarrow> fault + mmap_sys" where
  "task_cleanup FnMmapRead p a s = mmapRead_cleanup p a s"
| "task_cleanup FnMmapWrite p a s = mmapWrite_cleanup p s"

text \<open>\<open>(*(request_task->function))(request_task->argument)\<close>\<close>

fun call_task :: "task_fn \<Rightarrow> ptr \<Rightarrow> mmap_sys \<Rightarrow> fault + mmap_sys" where
  "call_task FnMmapRead p s = mmapRead p s"
| "call_task FnMmapWrite p s = mmapWrite p s"

text \<open>The function and the argument of a task.\<close>

definition task_call :: "ptr \<Rightarrow> mmap_sys \<Rightarrow> fault + (task_fn \<times> ptr)" where
  "task_call t s =
     and_then (deref (tasks s) t) (\<lambda>tk.
       case t_function tk of None \<Rightarrow> Inl NullCall | Some f \<Rightarrow> Inr (f, t_argument tk))"

definition count_alive :: "mmap_sys \<Rightarrow> mmap_sys" where
  "count_alive s = s\<lparr>pinfo := (pinfo s)\<lparr>maxThreadIdx := maxThreadIdx (pinfo s) + 1,
     aliveThreadNum := aliveThreadNum (pinfo s) + 1, idleThreadNum := idleThreadNum (pinfo s) + 1\<rparr>\<rparr>"

definition count_busy :: "mmap_sys \<Rightarrow> mmap_sys" where
  "count_busy s = s\<lparr>pinfo := (pinfo s)\<lparr>busyThreadNum := busyThreadNum (pinfo s) + 1,
     idleThreadNum := idleThreadNum (pinfo s) - 1\<rparr>\<rparr>"

definition count_idle :: "mmap_sys \<Rightarrow> mmap_sys" where
  "count_idle s = s\<lparr>pinfo := (pinfo s)\<lparr>busyThreadNum := busyThreadNum (pinfo s) - 1,
     idleThreadNum := idleThreadNum (pinfo s) + 1\<rparr>\<rparr>"

text \<open>
  One step of thread \<open>i\<close>: \<open>None\<close> where it waits for a task, has ended or was never created.
\<close>

fun worker_at :: "nat \<Rightarrow> wpc \<Rightarrow> mmap_sys \<Rightarrow> (fault + mmap_sys) option" where
  "worker_at i WStart s = Some (Inr (set_thread i WAcquire (count_alive s)))"
| "worker_at i WAcquire s =
     map_option (\<lambda>m. and_then m (\<lambda>(t, s'). Inr (set_thread i (WGot t) s'))) (acquire_task s)"
| "worker_at i (WGot t) s =
     Some (and_then (deref (tasks s) t) (\<lambda>tk.
       if \<not> isRunning (pinfo s) \<and> t_is_sentinel tk then Inr (set_thread i WExit s)
       else Inr (set_thread i (WMark t) s)))"
| "worker_at i (WMark t) s = Some (Inr (set_thread i (WEnter t) (count_busy s)))"
| "worker_at i (WEnter t) s =
     Some (and_then (task_call t s) (\<lambda>(f, p).
           and_then (task_enter f p s) (\<lambda>(go, s').
             Inr (set_thread i (if go then WIo t else WFinish) s'))))"
| "worker_at i (WIo t) s =
     Some (and_then (task_call t s) (\<lambda>(f, p).
           and_then (task_io f p s) (\<lambda>(ok, a, s'). Inr (set_thread i (WStat t ok a) s'))))"
| "worker_at i (WStat t ok a) s =
     Some (and_then (task_call t s) (\<lambda>(f, p).
           and_then (mmap_record_status p ok s) (\<lambda>s'. Inr (set_thread i (WClean t a) s'))))"
| "worker_at i (WClean t a) s =
     Some (and_then (task_call t s) (\<lambda>(f, p).
           and_then (task_cleanup f p a s) (\<lambda>s'. Inr (set_thread i WFinish s'))))"
| "worker_at i WFinish s = Some (Inr (set_thread i WAcquire (count_idle s)))"
| "worker_at i _ s = None"

definition worker_step :: "nat \<Rightarrow> mmap_sys \<Rightarrow> (fault + mmap_sys) option" where
  "worker_step i s = (if i < length (threads s) then worker_at i (threads s ! i) s else None)"

section \<open>Starting the pool\<close>

text \<open>\<open>pthread_create\<close>: where it fails, which the code does not look at, the thread is missing.\<close>

definition create_thread :: "nat \<Rightarrow> mmap_sys \<Rightarrow> mmap_sys" where
  "create_thread i s =
     (let (bad, w) = ask (os s)
      in if bad then s\<lparr>os := w\<rparr> else set_thread i WStart (s\<lparr>os := w\<rparr>))"

definition set_running :: "bool \<Rightarrow> mmap_sys \<Rightarrow> mmap_sys" where
  "set_running b s = s\<lparr>pinfo := (pinfo s)\<lparr>isRunning := b\<rparr>\<rparr>"

definition thread_pool_init :: "mmap_sys \<Rightarrow> mmap_sys" where
  "thread_pool_init s =
     (let s1 = set_running True s;
          (q, w) = c_malloc_arr (unat REQ_LIST_BUFSIZE) (os s1);
          s2 = s1\<lparr>os := w, tqueue := (tqueue s1)\<lparr>request_queue := q\<rparr>\<rparr>;
          s3 = fold create_thread [0..<THREAD_POOL_SIZE] s2
      in set_running True s3)"

definition MMAP_File_Accessor_Get_Instance :: "mmap_sys \<Rightarrow> mmap_sys" where
  "MMAP_File_Accessor_Get_Instance s =
     (if \<not> isInitialized (pinfo s)
      then let s1 = thread_pool_init s in s1\<lparr>pinfo := (pinfo s1)\<lparr>isInitialized := True\<rparr>\<rparr>
      else s)"

end
