(* ===== verification/Mmap_Accessor.thy ===== *)
theory Mmap_Accessor
  imports Mmap_Worker
begin

text \<open>
  The client side of the mmap accessor after a request exists: \<open>mmap_put_request\<close>,
  \<open>mmap_cancel_request\<close>, the body of \<open>timeout_thread\<close>, \<open>mmap_cancel_all_requests\<close> and the pieces of
  \<open>mmap_release_all_resources\<close>. The operations that wait are in \<open>Mmap_System\<close>, since they run while
  other threads do.
\<close>

section \<open>\<open>mmap_put_request\<close>\<close>

definition request_task :: "ptr \<Rightarrow> mmap_request \<Rightarrow> task" where
  "request_task p r =
     \<lparr>t_function = Some (if ASYNC_FILE_ACCESS_WRITE = direction (r_info r) then FnMmapWrite
                         else FnMmapRead),
      t_argument = p, t_is_sentinel = False\<rparr>"

definition sentinel_task :: task where
  "sentinel_task = \<lparr>t_function = None, t_argument = Null, t_is_sentinel = True\<rparr>"

text \<open>\<open>malloc(sizeof(task_t))\<close>, filled and submitted; the allocation is not checked.\<close>

definition submit_new_task :: "task \<Rightarrow> mmap_sys \<Rightarrow> fault + (ret_t \<times> mmap_sys)" where
  "submit_new_task tk s =
     (let (t, w) = c_new (os s)
      in if t = Null then Inl NullDeref
         else thread_pool_submit t (s\<lparr>os := w, tasks := (tasks s)(addr_of t := Some tk)\<rparr>))"

text \<open>The allocation on its own.\<close>

definition new_task :: "task \<Rightarrow> mmap_sys \<Rightarrow> fault + (ptr \<times> mmap_sys)" where
  "new_task tk s =
     (let (t, w) = c_new (os s)
      in if t = Null then Inl NullDeref
         else Inr (t, s\<lparr>os := w, tasks := (tasks s)(addr_of t := Some tk)\<rparr>))"

text \<open>
  The two halves of \<open>mmap_put_request\<close>: handing the task to the pool, and then, without any lock,
  storing the request's state. Pool threads may run in between.
\<close>

definition mmap_put_submit :: "ptr \<Rightarrow> mmap_sys \<Rightarrow> fault + (ret_t \<times> mmap_sys)" where
  "mmap_put_submit p s = and_then (get_req p s) (\<lambda>r. submit_new_task (request_task p r) s)"

definition mmap_put_finish :: "ptr \<Rightarrow> ret_t \<Rightarrow> mmap_sys \<Rightarrow> fault + (ret_t \<times> mmap_sys)" where
  "mmap_put_finish p res s =
     and_then (get_req p s) (\<lambda>r.
       if res \<noteq> RET_OK
       then let w = (if r_isAlloced r then snd (sys_munmap (r_buf r) (unat (r_nbytes r)) (os s))
                     else os s)
            in Inr (res, put_req p (r\<lparr>r_status := REQUEST_STAT_CANCEL\<rparr>) (s\<lparr>os := w\<rparr>))
       else Inr (res, put_req p (r\<lparr>r_status := REQUEST_STAT_SUBMITTED\<rparr>) s))"

definition mmap_put_request :: "ptr \<Rightarrow> mmap_sys \<Rightarrow> fault + (ret_t \<times> mmap_sys)" where
  "mmap_put_request p s =
     and_then (mmap_check_request_valid p s) (\<lambda>(res, s1).
       if res = RET_OK
       then and_then (mmap_put_submit p s1) (\<lambda>(res', s2). mmap_put_finish p res' s2)
       else Inr (res, s1))"

text \<open>
  The places where other threads may run: the request is checked and its task filled
  (\<open>mmap_put_task\<close>), \<open>thread_pool_submit\<close> tests \<open>isRunning\<close> and then enters its locked region
  (\<open>enqueue_task\<close>), and at last the state is stored (\<open>mmap_put_finish\<close>). Without anything in between,
  these are the function.
\<close>

definition mmap_put_task :: "ptr \<Rightarrow> mmap_sys \<Rightarrow> fault + (ret_t \<times> ptr \<times> mmap_sys)" where
  "mmap_put_task p s =
     and_then (mmap_check_request_valid p s) (\<lambda>(res, s1).
       if res = RET_OK
       then and_then (get_req p s1) (\<lambda>r.
            and_then (new_task (request_task p r) s1) (\<lambda>(t, s2). Inr (res, t, s2)))
       else Inr (res, Null, s1))"

lemma put_task_cases:
  assumes "mmap_put_task p s = Inr (res, t, s')"
  obtains (refused) "mmap_check_request_valid p s = Inr (res, s')" "res \<noteq> RET_OK"
  | (filled) s1 r w where "mmap_check_request_valid p s = Inr (RET_OK, s1)" "res = RET_OK" "get_req p s1 = Inr r"
      "c_new (os s1) = (t, w)" "t \<noteq> Null"
      "s' = s1\<lparr>os := w, tasks := (tasks s1)(addr_of t := Some (request_task p r))\<rparr>"
proof -
  from assms obtain res1 s1 where c: "mmap_check_request_valid p s = Inr (res1, s1)"
    by (auto simp: mmap_put_task_def)
  show thesis
  proof (cases "res1 = RET_OK")
    case True
    with assms c obtain r where r: "get_req p s1 = Inr r" "res = RET_OK"
      and n: "new_task (request_task p r) s1 = Inr (t, s')" by (auto simp: mmap_put_task_def)
    obtain q w where q: "c_new (os s1) = (q, w)" by fastforce
    with n have "q = t" "t \<noteq> Null" "s' = s1\<lparr>os := w, tasks := (tasks s1)(addr_of t := Some (request_task p r))\<rparr>"
      by (auto simp: new_task_def split: if_splits)
    with filled c True r q show thesis by blast
  next
    case False
    with assms c refused show thesis by (auto simp: mmap_put_task_def)
  qed
qed

lemma submit_new_task_cut:
  "submit_new_task tk s = and_then (new_task tk s) (\<lambda>(t, s'). thread_pool_submit t s')"
  by (simp add: submit_new_task_def new_task_def Let_def split: prod.split)

lemma mmap_put_request_cut:
  "mmap_put_request p s =
     and_then (mmap_put_task p s) (\<lambda>(res, t, s1).
       if res = RET_OK
       then and_then (thread_pool_submit t s1) (\<lambda>(res', s2). mmap_put_finish p res' s2)
       else Inr (res, s1))"
proof (cases "mmap_check_request_valid p s")
  case (Inr x)
  obtain res s1 where x: "x = (res, s1)" by (cases x)
  show ?thesis
  proof (cases "res = RET_OK")
    case True
    have "and_then (mmap_put_submit p s1) g =
        and_then (and_then (get_req p s1) (\<lambda>r. and_then (new_task (request_task p r) s1) (\<lambda>(t, s2). Inr (res, t, s2))))
          (\<lambda>(res, t, s1). and_then (thread_pool_submit t s1) g)" for g :: "ret_t \<times> mmap_sys \<Rightarrow> fault + ret_t \<times> mmap_sys"
      by (cases "get_req p s1"; cases "new_task (request_task p (projr (get_req p s1))) s1")
        (auto simp: mmap_put_submit_def submit_new_task_cut)
    with Inr x True show ?thesis
      by (cases "get_req p s1"; cases "new_task (request_task p (projr (get_req p s1))) s1")
        (auto simp: mmap_put_request_def mmap_put_task_def)
  qed (simp add: mmap_put_request_def mmap_put_task_def Inr x)
qed (simp add: mmap_put_request_def mmap_put_task_def)

section \<open>Cancelling\<close>

definition mmap_cancel_region :: "ptr \<Rightarrow> mmap_sys \<Rightarrow> fault + mmap_sys" where
  "mmap_cancel_region p s =
     and_then (get_req p s) (\<lambda>r.
       if r_status r = REQUEST_STAT_IOSUCCESS \<or> r_status r = REQUEST_STAT_IOFAIL then Inr s
       else Inr (put_req p (r\<lparr>r_status := REQUEST_STAT_CANCEL\<rparr>) s))"

definition mmap_cancel_request :: "ptr \<Rightarrow> mmap_sys \<Rightarrow> fault + (ret_t \<times> mmap_sys)" where
  "mmap_cancel_request p s =
     and_then (mmap_check_request_valid p s) (\<lambda>(res, s1).
       if res \<noteq> RET_OK then Inr (RET_INVALID_OPERATION, s1)
       else and_then (get_req p s1) (\<lambda>r.
         if r_status r \<le> REQUEST_STAT_INIT \<or> REQUEST_STAT_CANCEL \<le> r_status r
         then Inr (RET_INVALID_OPERATION, s1)
         else and_then (mmap_cancel_region p s1) (\<lambda>s2. Inr (res, s2))))"

text \<open>
  The region of \<open>timeout_thread\<close> after its sleep, and the one \<open>mmap_cancel_all_requests\<close> runs for
  each task: a request that is still submitted is cancelled.
\<close>

definition timeout_region :: "ptr \<Rightarrow> mmap_sys \<Rightarrow> fault + mmap_sys" where
  "timeout_region p s =
     and_then (get_req p s) (\<lambda>r.
       Inr (put_req p (r\<lparr>r_status := (if r_status r = REQUEST_STAT_SUBMITTED
                                     then REQUEST_STAT_CANCEL else r_status r)\<rparr>) s))"

text \<open>
  What \<open>mmap_wait_request\<close> gives the timeout thread: pointers to three fields of one request, each the
  address of the request here.
\<close>

record timeout_args =
  t_timeout_ms :: u32
  t_status :: ptr
  t_lock :: ptr
  t_cond :: ptr

definition timeout_args_of :: "ptr \<Rightarrow> u32 \<Rightarrow> timeout_args" where
  "timeout_args_of p timeout_ms =
     \<lparr>t_timeout_ms = timeout_ms, t_status = p, t_lock = p, t_cond = p\<rparr>"

text \<open>How long \<open>timeout_thread\<close> sleeps, if at all.\<close>

definition timeout_sleep :: "timeout_args \<Rightarrow> mmap_sys \<Rightarrow> fault + timespec option" where
  "timeout_sleep args s =
     and_then (get_req (t_status args) s) (\<lambda>r.
       Inr (if r_status r = REQUEST_STAT_SUBMITTED then Some (timespec_of_ms (t_timeout_ms args)) else None))"

text \<open>\<open>(mmap_request_t *)(ppRequestQueue[i]->argument)\<close>\<close>

definition queued_request :: "ptr \<Rightarrow> nat \<Rightarrow> mmap_sys \<Rightarrow> fault + ptr" where
  "queued_request q i s =
     and_then (arr_get q i (os s)) (\<lambda>t.
     and_then (deref (tasks s) t) (\<lambda>tk. Inr (t_argument tk)))"

fun cancel_all_loop :: "ptr \<Rightarrow> nat list \<Rightarrow> mmap_sys \<Rightarrow> fault + mmap_sys" where
  "cancel_all_loop q [] s = Inr s"
| "cancel_all_loop q (i # is) s =
     and_then (queued_request q i s) (\<lambda>p.
     and_then (timeout_region p s) (\<lambda>s1. cancel_all_loop q is s1))"

definition mmap_cancel_all_requests :: "mmap_sys \<Rightarrow> fault + (ret_t \<times> mmap_sys)" where
  "mmap_cancel_all_requests s =
     (let q = request_queue (tqueue s); total = q_totoalCnt (tqueue s)
      in if q = Null \<or> total = 0 then Inr (RET_OK, s)
         else and_then (cancel_all_loop q [0..<unat total] s) (\<lambda>s'. Inr (RET_OK, s')))"

section \<open>Releasing\<close>

text \<open>The sentinel loop of \<open>mmap_release_all_resources\<close>: the last submission's result is kept.\<close>

fun submit_sentinels :: "nat \<Rightarrow> ret_t \<Rightarrow> mmap_sys \<Rightarrow> fault + (ret_t \<times> mmap_sys)" where
  "submit_sentinels 0 res s = Inr (res, s)"
| "submit_sentinels (Suc n) res s =
     and_then (submit_new_task sentinel_task s) (\<lambda>(res', s'). submit_sentinels n res' s')"

text \<open>\<open>pthread_join\<close> of thread \<open>i\<close>; \<open>None\<close> while the thread runs.\<close>

definition join_thread :: "nat \<Rightarrow> mmap_sys \<Rightarrow> (fault + mmap_sys) option" where
  "join_thread i s =
     (case threads s ! i of
        WNone \<Rightarrow> Some (Inl BadJoin)
      | WJoined \<Rightarrow> Some (Inl BadJoin)
      | WExit \<Rightarrow> Some (Inr (set_thread i WJoined s))
      | _ \<Rightarrow> None)"

text \<open>
  \<open>idleThreadNum--\<close> and \<open>aliveThreadNum--\<close> after a join are done without \<open>info.lock\<close>: the value \<open>v\<close> is
  read first and \<open>v - 1\<close> stored later, and a pool thread may update the counter in between.
\<close>

definition store_idle :: "u32 \<Rightarrow> mmap_sys \<Rightarrow> mmap_sys" where
  "store_idle v s = s\<lparr>pinfo := (pinfo s)\<lparr>idleThreadNum := v - 1\<rparr>\<rparr>"

definition store_alive :: "u32 \<Rightarrow> mmap_sys \<Rightarrow> mmap_sys" where
  "store_alive v s = s\<lparr>pinfo := (pinfo s)\<lparr>aliveThreadNum := v - 1\<rparr>\<rparr>"

end
