(* ===== verification/Mmap_System.thy ===== *)
theory Mmap_System
  imports Mmap_Accessor
begin

text \<open>
  The mmap accessor with everything that can happen to it: pool threads, timeout threads and any
  number of clients, interleaved at the granularity of their atomic actions. An event is one such
  action; \<open>mmap_exec\<close> executes it. The operations that wait take a schedule, the list of events
  that happen while they wait, and return \<open>None\<close> where the schedule ends before they do.
\<close>

section \<open>Events\<close>

datatype mmap_event =
    EvWorker nat                    \<comment> \<open>one step of a pool thread\<close>
  | EvTimeout ptr                   \<comment> \<open>a timeout thread wakes up\<close>
  | EvGet async_file_access_request_info
  | EvAlloc ptr
  | EvImport ptr ptr
  | EvPut ptr                       \<comment> \<open>\<open>mmap_put_request\<close> in one piece\<close>
  | EvPutSubmit ptr                 \<comment> \<open>its first half\<close>
  | EvPutTask ptr                   \<comment> \<open>the first half up to the test of \<open>isRunning\<close>\<close>
  | EvEnqueue ptr                   \<comment> \<open>\dots and its locked region, with the task\<close>
  | EvPutFinish ptr ret_t           \<comment> \<open>its second half, with the result of the first\<close>
  | EvCancel ptr
  | EvCancelOne ptr                 \<comment> \<open>one round of \<open>mmap_cancel_all_requests\<close>\<close>
  | EvMalloc nat                    \<comment> \<open>the client allocates a buffer\<close>
  | EvStore ptr "u8 list"           \<comment> \<open>the client fills a buffer\<close>
  | EvStop                          \<comment> \<open>\<open>mmap_release_all_resources\<close> stops the pool\<close>
  | EvSentinel                      \<comment> \<open>\dots submits a sentinel\<close>
  | EvJoin nat                      \<comment> \<open>\dots joins a thread\<close>
  | EvStoreIdle u32                 \<comment> \<open>\dots stores \<open>idleThreadNum\<close>, one less than it has read\<close>
  | EvStoreAlive u32                \<comment> \<open>\dots and \<open>aliveThreadNum\<close>\<close>
  | EvTurn                          \<comment> \<open>nothing: the turn goes back to the thread that was interrupted\<close>

text \<open>The state an operation leaves, without what it returns.\<close>

definition only_state :: "fault + (ret_t \<times> mmap_sys) \<Rightarrow> (fault + mmap_sys) option" where
  "only_state m = Some (and_then m (\<lambda>(r, s). Inr s))"

fun mmap_exec :: "mmap_event \<Rightarrow> mmap_sys \<Rightarrow> (fault + mmap_sys) option" where
  "mmap_exec (EvWorker i) s = worker_step i s"
| "mmap_exec (EvTimeout p) s = Some (timeout_region p s)"
| "mmap_exec (EvGet ci) s = Some (and_then (mmap_get_request ci s) (\<lambda>(r, p, s'). Inr s'))"
| "mmap_exec (EvAlloc p) s =
     Some (and_then (mmap_request_alloc_write_buffer p Null s) (\<lambda>(r, b, s'). Inr s'))"
| "mmap_exec (EvImport p b) s = only_state (mmap_request_import_read_buffer p b s)"
| "mmap_exec (EvPut p) s = only_state (mmap_put_request p s)"
| "mmap_exec (EvPutSubmit p) s = only_state (mmap_put_submit p s)"
| "mmap_exec (EvPutTask p) s = Some (and_then (mmap_put_task p s) (\<lambda>(r, t, s'). Inr s'))"
| "mmap_exec (EvEnqueue t) s = only_state (enqueue_task t s)"
| "mmap_exec (EvPutFinish p res) s = only_state (mmap_put_finish p res s)"
| "mmap_exec (EvCancel p) s = only_state (mmap_cancel_request p s)"
| "mmap_exec (EvCancelOne p) s = Some (timeout_region p s)"
| "mmap_exec (EvMalloc n) s = Some (Inr (s\<lparr>os := snd (c_malloc n (os s))\<rparr>))"
| "mmap_exec (EvStore p bs) s = Some (and_then (mem_store p bs (os s)) (\<lambda>w. Inr (s\<lparr>os := w\<rparr>)))"
| "mmap_exec EvStop s = Some (Inr (set_running False s))"
| "mmap_exec EvSentinel s = only_state (submit_new_task sentinel_task s)"
| "mmap_exec (EvJoin i) s = (if i < length (threads s) then join_thread i s else None)"
| "mmap_exec (EvStoreIdle v) s = Some (Inr (store_idle v s))"
| "mmap_exec (EvStoreAlive v) s = Some (Inr (store_alive v s))"
| "mmap_exec EvTurn s = Some (Inr s)"

text \<open>Events that keep \<open>mmap_put_request\<close> in one piece.\<close>

fun orderly :: "mmap_event \<Rightarrow> bool" where
  "orderly (EvPutSubmit p) = False"
| "orderly (EvPutTask p) = False"
| "orderly (EvEnqueue t) = False"
| "orderly (EvPutFinish p r) = False"
| "orderly _ = True"

text \<open>The process after the first \<open>MMAP_File_Accessor_Get_Instance\<close>.\<close>

definition mmap_start :: "world \<Rightarrow> mmap_sys" where
  "mmap_start w = MMAP_File_Accessor_Get_Instance (g_mmapFileAccessor w)"

definition clean_world :: "world \<Rightarrow> bool" where
  "clean_world w \<longleftrightarrow> (\<forall>a. parrs w a = None)"

section \<open>Interrupted calls\<close>

text \<open>
  What happens between two actions of a thread that is interrupted: the events of the schedule up to
  its next turn, disabled ones do nothing. The result has the rest of the schedule.
\<close>

fun until_turn :: "mmap_event list \<Rightarrow> mmap_sys \<Rightarrow> fault + (mmap_event list \<times> mmap_sys)" where
  "until_turn [] s = Inr ([], s)"
| "until_turn (e # es) s =
     (if e = EvTurn then Inr (es, s)
      else (case mmap_exec e s of
              None \<Rightarrow> until_turn es s
            | Some (Inl f) \<Rightarrow> Inl f
            | Some (Inr s') \<Rightarrow> until_turn es s'))"

text \<open>\<open>mmap_put_request\<close> with what happens before its locked region and before its last store.\<close>

definition mmap_put_amid :: "mmap_event list \<Rightarrow> ptr \<Rightarrow> mmap_sys \<Rightarrow> fault + (ret_t \<times> mmap_sys)" where
  "mmap_put_amid sch p s =
     and_then (mmap_put_task p s) (\<lambda>(res, t, s1).
       if res \<noteq> RET_OK then Inr (res, s1)
       else and_then (deref (tasks s1) t) (\<lambda>tk.
         if thread_pool_admits tk s1
         then and_then (until_turn sch s1) (\<lambda>(sch1, s2).
              and_then (enqueue_task t s2) (\<lambda>(res', s3).
              and_then (until_turn sch1 s3) (\<lambda>(sch2, s4). mmap_put_finish p res' s4)))
         else and_then (until_turn sch s1) (\<lambda>(sch1, s2). mmap_put_finish p RET_ALREADY_EXISTS s2)))"

lemma new_task_at:
  "new_task tk s = Inr (t, s') \<Longrightarrow> deref (tasks s') t = Inr tk"
  by (auto simp: new_task_def Let_def elim!: c_new_cases split: prod.splits if_splits)

lemma put_amid_nothing: "mmap_put_amid [] p s = mmap_put_request p s"
proof (cases "mmap_put_task p s")
  case (Inr x)
  obtain res t s1 where x: "x = (res, t, s1)" by (cases x)
  show ?thesis
  proof (cases "res = RET_OK")
    case True
    with Inr x obtain r s2 where "new_task (request_task p r) s2 = Inr (t, s1)"
      by (auto simp: mmap_put_task_def split: if_splits)
    from new_task_at [OF this] have tk: "deref (tasks s1) t = Inr (request_task p r)" .
    have "\<not> t_is_sentinel (request_task p r)" by (simp add: request_task_def)
    with True Inr x tk show ?thesis
      by (simp add: mmap_put_amid_def mmap_put_request_cut thread_pool_submit_def)
  qed (simp add: mmap_put_amid_def mmap_put_request_cut Inr x)
qed (simp add: mmap_put_amid_def mmap_put_request_cut)

section \<open>Timeout threads\<close>

text \<open>
  \<open>timeout_thread\<close>, with the events \<open>es\<close> between its first look at the state and its locked region;
  \<open>None\<close> where these cannot happen.
\<close>

definition timeout_thread :: "timeout_args \<Rightarrow> mmap_event list \<Rightarrow> mmap_sys \<Rightarrow> (fault + mmap_sys) option" where
  "timeout_thread args es s =
     (case timeout_sleep args s of
        Inl f \<Rightarrow> Some (Inl f)
      | Inr nap \<Rightarrow> map_option (timeout_region (t_status args)) (run mmap_exec es s))"

text \<open>
  So it is its event, some time later. It sleeps for the milliseconds it was given, as a valid
  \<open>timespec\<close>, exactly when the request was still under way.
\<close>

lemma timeout_thread_event:
  assumes "timeout_thread (timeout_args_of p ms) es s = Some (Inr s')"
  shows "run mmap_exec (es @ [EvTimeout p]) s = Some s'"
  using assms by (auto simp: timeout_thread_def timeout_args_of_def run_append split: sum.splits)

lemma timeout_sleep_exact:
  assumes "timeout_sleep (timeout_args_of p ms) s = Inr nap" "get_req p s = Inr r"
  shows "case nap of
           None \<Rightarrow> r_status r \<noteq> REQUEST_STAT_SUBMITTED
         | Some t \<Rightarrow> r_status r = REQUEST_STAT_SUBMITTED \<and> unat (tv_nsec t) < 1000000000 \<and>
             unat (tv_sec t) * 1000 + unat (tv_nsec t) div 1000000 = unat ms"
  using assms timespec_of_ms_exact [of ms]
  by (auto simp: timeout_sleep_def timeout_args_of_def)

section \<open>Operations that wait\<close>

text \<open>
  \<open>while (REQUEST_STAT_SUBMITTED == pRequest->status) pthread_cond_wait(..)\<close>: the events of the
  schedule happen one after the other, disabled ones do nothing, and after each the state is looked
  at again. The result has the rest of the schedule.
\<close>

fun wait_status ::
  "ptr \<Rightarrow> mmap_event list \<Rightarrow> mmap_sys \<Rightarrow> (fault + (mmap_event list \<times> mmap_sys)) option" where
  "wait_status p sch s =
     (case get_req p s of
        Inl f \<Rightarrow> Some (Inl f)
      | Inr r \<Rightarrow>
          if r_status r \<noteq> REQUEST_STAT_SUBMITTED then Some (Inr (sch, s))
          else (case sch of
                  [] \<Rightarrow> None
                | e # es \<Rightarrow>
                    (case mmap_exec e s of
                       None \<Rightarrow> wait_status p es s
                     | Some (Inl f) \<Rightarrow> Some (Inl f)
                     | Some (Inr s') \<Rightarrow> wait_status p es s')))"

declare wait_status.simps [simp del]

definition mmap_wait_request ::
  "ptr \<Rightarrow> u32 \<Rightarrow> mmap_event list \<Rightarrow> mmap_sys \<Rightarrow> (fault + (ret_t \<times> mmap_sys)) option" where
  "mmap_wait_request p timeout_ms sch s =
     (case mmap_check_request_valid p s of
        Inl f \<Rightarrow> Some (Inl f)
      | Inr (res, s1) \<Rightarrow>
          if res \<noteq> RET_OK then Some (Inr (RET_INVALID_OPERATION, s1))
          else (case get_req p s1 of
                  Inl f \<Rightarrow> Some (Inl f)
                | Inr r \<Rightarrow>
                    if r_status r \<le> REQUEST_STAT_INIT \<or> REQUEST_STAT_CANCEL \<le> r_status r
                    then Some (Inr (RET_INVALID_OPERATION, s1))
                    else if r_status r = REQUEST_STAT_SUBMITTED
                    then if 0 < timeout_ms
                         then map_option (\<lambda>m. and_then m (\<lambda>(es, s2). Inr (res, s2)))
                                (wait_status p sch s1)
                         else Some (Inl CondNotLocked)
                    else Some (Inr (res, s1))))"

fun wait_all_loop ::
  "ptr \<Rightarrow> nat list \<Rightarrow> mmap_event list \<Rightarrow> mmap_sys \<Rightarrow> (fault + (mmap_event list \<times> mmap_sys)) option"
  where
  "wait_all_loop q [] sch s = Some (Inr (sch, s))"
| "wait_all_loop q (i # is) sch s =
     (case queued_request q i s of
        Inl f \<Rightarrow> Some (Inl f)
      | Inr p \<Rightarrow>
          (case wait_status p sch s of
             None \<Rightarrow> None
           | Some (Inl f) \<Rightarrow> Some (Inl f)
           | Some (Inr (sch', s')) \<Rightarrow> wait_all_loop q is sch' s'))"

definition mmap_wait_all_requests ::
  "mmap_event list \<Rightarrow> mmap_sys \<Rightarrow> (fault + (ret_t \<times> mmap_sys)) option" where
  "mmap_wait_all_requests sch s =
     (let q = request_queue (tqueue s); total = q_totoalCnt (tqueue s)
      in if q = Null \<or> total = 0 then Some (Inr (RET_OK, s))
         else map_option (\<lambda>m. and_then m (\<lambda>(es, s'). Inr (RET_OK, s')))
                (wait_all_loop q [0..<unat total] sch s))"

text \<open>\<open>pthread_join\<close> of one thread, and of all of them.\<close>

fun join_wait ::
  "nat \<Rightarrow> mmap_event list \<Rightarrow> mmap_sys \<Rightarrow> (fault + (mmap_event list \<times> mmap_sys)) option" where
  "join_wait i sch s =
     (case join_thread i s of
        Some (Inl f) \<Rightarrow> Some (Inl f)
      | Some (Inr s') \<Rightarrow> Some (Inr (sch, s'))
      | None \<Rightarrow>
          (case sch of
             [] \<Rightarrow> None
           | e # es \<Rightarrow>
               (case mmap_exec e s of
                  None \<Rightarrow> join_wait i es s
                | Some (Inl f) \<Rightarrow> Some (Inl f)
                | Some (Inr s') \<Rightarrow> join_wait i es s')))"

declare join_wait.simps [simp del]

text \<open>
  The two decrements after a join: each counter is read, and stored at the releasing thread's next turn.
\<close>

definition drop_counts :: "mmap_event list \<Rightarrow> mmap_sys \<Rightarrow> fault + (mmap_event list \<times> mmap_sys)" where
  "drop_counts sch s =
     and_then (until_turn sch s) (\<lambda>(sch1, s1).
       let s2 = store_idle (idleThreadNum (pinfo s)) s1
       in and_then (until_turn sch1 s2) (\<lambda>(sch2, s3).
            Inr (sch2, store_alive (aliveThreadNum (pinfo s2)) s3)))"

fun join_all ::
  "nat list \<Rightarrow> mmap_event list \<Rightarrow> mmap_sys \<Rightarrow> (fault + (mmap_event list \<times> mmap_sys)) option" where
  "join_all [] sch s = Some (Inr (sch, s))"
| "join_all (i # is) sch s =
     (case join_wait i sch s of
        None \<Rightarrow> None
      | Some (Inl f) \<Rightarrow> Some (Inl f)
      | Some (Inr (sch', s')) \<Rightarrow>
          (case drop_counts sch' s' of
             Inl f \<Rightarrow> Some (Inl f)
           | Inr (sch2, s2) \<Rightarrow> join_all is sch2 s2))"

definition mmap_release_all_resources ::
  "mmap_event list \<Rightarrow> mmap_sys \<Rightarrow> (fault + (ret_t \<times> mmap_sys)) option" where
  "mmap_release_all_resources sch s =
     (if request_queue (tqueue s) = Null \<or> q_totoalCnt (tqueue s) = 0 then Some (Inr (RET_OK, s))
      else (case submit_sentinels THREAD_POOL_SIZE RET_OK (set_running False s) of
              Inl f \<Rightarrow> Some (Inl f)
            | Inr (res, s1) \<Rightarrow>
                map_option (\<lambda>m. and_then m (\<lambda>(es, s'). Inr (res, s')))
                  (join_all [0..<THREAD_POOL_SIZE] sch s1)))"

end
