(* ===== verification/Mmap_Invariants.thy ===== *)
theory Mmap_Invariants
  imports Mmap_System
begin

text \<open>
  The invariants of the mmap accessor under every interleaving. \<open>tasks_inv\<close> is about the queue and
  the tasks in it, \<open>threads_inv\<close> about what the pool threads hold, \<open>status_inv\<close> says that a
  submitted request still has a task on the way. Most events touch neither the queue nor the tasks:
  the relation \<open>quiet\<close> collects what they leave alone, and one lemma per operation shows that it is
  quiet.
\<close>

section \<open>Quiet steps\<close>

text \<open>
  Queue, tasks, counters and threads are as before, memory only grows, no request disappears, and no
  request becomes submitted.
\<close>

definition quiet :: "mmap_sys \<Rightarrow> mmap_sys \<Rightarrow> bool" where
  "quiet s s' \<longleftrightarrow>
     tqueue s' = tqueue s \<and> parrs (os s') = parrs (os s) \<and> tasks s' = tasks s \<and>
     pinfo s' = pinfo s \<and> threads s' = threads s \<and> brk (os s) \<le> brk (os s') \<and>
     (\<forall>a. requests s a \<noteq> None \<longrightarrow> requests s' a \<noteq> None) \<and>
     (\<forall>a. requests s' a \<noteq> None \<longrightarrow> requests s a \<noteq> None \<or> a < brk (os s')) \<and>
     (\<forall>a r'. requests s' a = Some r' \<longrightarrow> r_status r' = REQUEST_STAT_SUBMITTED \<longrightarrow>
        (\<exists>r. requests s a = Some r \<and> r_status r = REQUEST_STAT_SUBMITTED))"

named_theorems quiets \<open>operations that are quiet\<close>

lemma quiet_refl [simp]: "quiet s s"
  by (simp add: quiet_def)

lemma quiet_trans: "quiet s t \<Longrightarrow> quiet t u \<Longrightarrow> quiet s u"
  unfolding quiet_def by (elim conjE, intro conjI) (simp_all, (metis less_le_trans)+)

lemma quiet_os:
  "parrs w = parrs (os s) \<Longrightarrow> brk (os s) \<le> brk w \<Longrightarrow> quiet s (s\<lparr>os := w\<rparr>)"
  by (simp add: quiet_def)

lemma quiet_put:
  "get_req p s = Inr r \<Longrightarrow>
   r_status r' = r_status r \<or> r_status r' \<noteq> REQUEST_STAT_SUBMITTED \<Longrightarrow> quiet s (put_req p r' s)"
  by (auto simp: quiet_def put_req_def get_req_Inr_iff)

lemma quiet_put_os:
  "get_req p s = Inr r \<Longrightarrow> parrs w = parrs (os s) \<Longrightarrow> brk (os s) \<le> brk w \<Longrightarrow>
   r_status r' = r_status r \<or> r_status r' \<noteq> REQUEST_STAT_SUBMITTED \<Longrightarrow>
   quiet s (put_req p r' (s\<lparr>os := w\<rparr>))"
  by (rule quiet_trans [OF quiet_os quiet_put]) (simp_all add: get_req_def)

subsection \<open>System calls leave the pointer arrays alone\<close>

definition keeps :: "world \<Rightarrow> world \<Rightarrow> bool" where
  "keeps w w' \<longleftrightarrow> parrs w' = parrs w \<and> brk w \<le> brk w'"

lemma keepsD: "keeps w w' \<Longrightarrow> parrs w' = parrs w" "keeps w w' \<Longrightarrow> brk w \<le> brk w'"
  by (simp_all add: keeps_def)

lemma keeps_close: "keeps w (snd (sys_close fd w))"
  by (auto simp: keeps_def sys_close_def split: option.split)

lemma keeps_munmap: "keeps w (snd (sys_munmap p n w))"
  by (auto simp: keeps_def sys_munmap_def split: option.split ptr.split)

lemma keeps_msync: "keeps w (snd (sys_msync p n w))"
  by (auto simp: keeps_def sys_msync_def ask_def Let_def split: option.split ptr.split)

lemma keeps_store: "mem_store p bs w = Inr w' \<Longrightarrow> keeps w w'"
  by (auto dest: mem_store_frame simp: keeps_def)

lemma keeps_memcpy: "c_memcpy d p n w = Inr w' \<Longrightarrow> keeps w w'"
  by (auto simp: c_memcpy_def dest: keeps_store)

lemma keeps_malloc: "keeps w (snd (c_malloc n w))"
  by (auto simp: keeps_def c_malloc_def ask_def Let_def)

lemma keeps_mmap:
  "retry_do (sys_mmap len sh fd off) (\<lambda>b. b = MapFailed) limit n w = (p, w') \<Longrightarrow> keeps w w'"
  by (drule mmap_retry_spec) (auto simp: keeps_def mapped_def)

lemma keeps_c_new: "c_new w = (p, w') \<Longrightarrow> keeps w w'"
  by (auto simp: keeps_def elim!: c_new_cases)

lemma keeps_trans: "keeps w v \<Longrightarrow> keeps v u \<Longrightarrow> keeps w u"
  by (simp add: keeps_def)

lemma keeps_same_store: "same_store w w' \<Longrightarrow> keeps w w'"
  by (simp add: keeps_def same_store_def)

lemmas keeps_calls = keeps_close keeps_munmap keeps_msync keeps_malloc

lemma quiet_keeps: "keeps (os s) w \<Longrightarrow> quiet s (s\<lparr>os := w\<rparr>)"
  by (rule quiet_os) (simp_all add: keeps_def)

lemma quiet_put_keeps:
  "get_req p s = Inr r \<Longrightarrow> keeps (os s) w \<Longrightarrow>
   r_status r' = r_status r \<or> r_status r' \<noteq> REQUEST_STAT_SUBMITTED \<Longrightarrow>
   quiet s (put_req p r' (s\<lparr>os := w\<rparr>))"
  by (rule quiet_put_os) (simp_all add: keeps_def)

subsection \<open>Operations\<close>

lemma quiet_check [quiets]: "mmap_check_request_valid p s = Inr (res, s') \<Longrightarrow> quiet s s'"
  by (erule check_cases) (auto intro: quiet_put)

lemma quiet_get_request [quiets]:
  assumes "mmap_get_request ci s = Inr (res, p, s')"
  shows "quiet s s'"
  using assms
proof (cases rule: get_request_cases)
  case (1 w1 r w)
  from 1(1,2) have "brk w1 = Suc (brk (os s))" "parrs w1 = parrs (os s)"
    by (auto elim: c_new_cases)
  with 1 show ?thesis by (auto simp: quiet_def put_req_def same_store_def)
qed

lemma quiet_alloc [quiets]:
  assumes a: "mmap_request_alloc_write_buffer p b0 s = Inr (res, b, s')"
  shows "quiet s s'"
proof -
  from a obtain res0 s1 r0 where c: "mmap_check_request_valid p s = Inr (res0, s1)"
    and r0: "get_req p s1 = Inr r0"
    by (auto simp: mmap_request_alloc_write_buffer_def)
  obtain x w where m: "retry_do (sys_mmap (unat (r_nbytes r0)) True (r_fd r0) (unat (r_offset r0)))
      (\<lambda>b. b = MapFailed) MAX_RETRY_TIMES 0 (os s1) = (x, w)" by fastforce
  have same: "put_req p r0 s1 = s1" using r0
    by (auto simp: put_req_def get_req_Inr_iff fun_upd_idem)
  have "quiet s1 s'"
    using a c r0 m keeps_mmap [OF m]
    by (auto simp: mmap_request_alloc_write_buffer_def Let_def same
        intro!: quiet_put quiet_put_keeps split: if_splits)
  with quiet_check [OF c] show ?thesis by (rule quiet_trans)
qed

lemma quiet_import [quiets]:
  assumes a: "mmap_request_import_read_buffer p b s = Inr (res, s')"
  shows "quiet s s'"
proof -
  from a obtain res0 s1 where c: "mmap_check_request_valid p s = Inr (res0, s1)"
    by (auto simp: mmap_request_import_read_buffer_def)
  have "quiet s1 s'" using a c
    by (auto simp: mmap_request_import_read_buffer_def split: if_splits intro: quiet_put)
  with quiet_check [OF c] show ?thesis by (rule quiet_trans)
qed

lemma quiet_timeout [quiets]: "timeout_region p s = Inr s' \<Longrightarrow> quiet s s'"
  by (auto simp: timeout_region_def intro: quiet_put)

lemma quiet_cancel_region: "mmap_cancel_region p s = Inr s' \<Longrightarrow> quiet s s'"
  by (auto simp: mmap_cancel_region_def split: if_splits intro: quiet_put)

lemma quiet_cancel [quiets]:
  assumes a: "mmap_cancel_request p s = Inr (res, s')"
  shows "quiet s s'"
proof -
  from a obtain res0 s1 where c: "mmap_check_request_valid p s = Inr (res0, s1)"
    by (auto simp: mmap_cancel_request_def)
  have "quiet s1 s'" using a c
    by (auto simp: mmap_cancel_request_def split: if_splits dest: quiet_cancel_region)
  with quiet_check [OF c] show ?thesis by (rule quiet_trans)
qed

lemma quiet_record [quiets]: "mmap_record_status p ok s = Inr s' \<Longrightarrow> quiet s s'"
  by (auto simp: mmap_record_status_def intro!: quiet_put split: if_splits)

lemma quiet_close_fd: "mmap_close_fd p s = Inr s' \<Longrightarrow> quiet s s'"
  by (auto simp: mmap_close_fd_def split: if_splits intro: quiet_put_keeps keeps_calls)

lemma quiet_unmap_buf: "mmap_unmap_buf p s = Inr s' \<Longrightarrow> quiet s s'"
  by (auto simp: mmap_unmap_buf_def intro: quiet_put_keeps keeps_calls)

lemma quiet_enter [quiets]: "task_enter f p s = Inr (go, s') \<Longrightarrow> quiet s s'"
  by (cases f) (auto simp: mmapRead_enter_def mmapWrite_enter_def split: if_splits
      dest: quiet_unmap_buf)

lemma quiet_io [quiets]:
  assumes "task_io f p s = Inr (ok, a, s')"
  shows "quiet s s'"
proof (cases f)
  case FnMmapRead
  with assms have "mmapRead_io p s = Inr (ok, a, s')" by simp
  then show ?thesis
    by (cases rule: mmapRead_io_cases)
       (auto intro!: quiet_keeps intro: keeps_trans [OF keeps_mmap keeps_memcpy] keeps_mmap)
next
  case FnMmapWrite
  with assms have "mmapWrite_io p s = Inr (ok, a, s')" by simp
  then show ?thesis
    by (cases rule: mmapWrite_io_cases) (metis keeps_msync quiet_keeps snd_conv)
qed

lemma quiet_cleanup [quiets]: "task_cleanup f p a s = Inr s' \<Longrightarrow> quiet s s'"
proof (cases f)
  case FnMmapRead
  assume "task_cleanup f p a s = Inr s'"
  with FnMmapRead obtain r :: mmap_request where
    "mmap_close_fd p (if a \<noteq> MapFailed then s\<lparr>os := snd (sys_munmap a (unat (r_nbytes r)) (os s))\<rparr>
                      else s) = Inr s'"
    by (auto simp: mmapRead_cleanup_def Let_def)
  then show ?thesis
    by (auto dest!: quiet_close_fd split: if_splits intro: quiet_trans quiet_keeps keeps_calls)
next
  case FnMmapWrite
  assume "task_cleanup f p a s = Inr s'"
  with FnMmapWrite show ?thesis
    by (auto simp: mmapWrite_cleanup_def dest: quiet_unmap_buf quiet_close_fd intro: quiet_trans)
qed

section \<open>The invariants\<close>

definition slot_task :: "mmap_sys \<Rightarrow> nat \<Rightarrow> task option" where
  "slot_task s j = (case slot s j of Some (Addr a) \<Rightarrow> tasks s a | _ \<Rightarrow> None)"

definition sentinel_at :: "mmap_sys \<Rightarrow> nat \<Rightarrow> bool" where
  "sentinel_at s j \<longleftrightarrow> (\<exists>tk. slot_task s j = Some tk \<and> t_is_sentinel tk)"

text \<open>
  A task is a sentinel, of a closing pool, or names a function and an existing request.
\<close>

definition task_wf :: "mmap_sys \<Rightarrow> task \<Rightarrow> bool" where
  "task_wf s tk \<longleftrightarrow>
     (if t_is_sentinel tk
      then t_function tk = None \<and> t_argument tk = Null \<and> \<not> isRunning (pinfo s)
      else \<exists>f p. t_function tk = Some f \<and> t_argument tk = Addr p \<and> requests s p \<noteq> None)"

definition tasks_inv :: "mmap_sys \<Rightarrow> bool" where
  "tasks_inv s \<longleftrightarrow>
     queue_wf s \<and>
     (\<forall>a. tasks s a \<noteq> None \<longrightarrow> a < brk (os s)) \<and>
     (\<forall>a. requests s a \<noteq> None \<longrightarrow> a < brk (os s)) \<and>
     (\<forall>j < tailn s. \<exists>tk. slot_task s j = Some tk \<and> task_wf s tk) \<and>
     inj_on (slot s) {..<tailn s} \<and>
     (\<forall>j k. j < k \<longrightarrow> k < tailn s \<longrightarrow> sentinel_at s j \<longrightarrow> sentinel_at s k)"

text \<open>A task that a thread past the sentinel test may hold.\<close>

definition real_task :: "mmap_sys \<Rightarrow> ptr \<Rightarrow> bool" where
  "real_task s t \<longleftrightarrow> (\<exists>tk. deref (tasks s) t = Inr tk \<and> \<not> t_is_sentinel tk)"

fun tests_sentinel :: "wpc \<Rightarrow> bool" where
  "tests_sentinel (WGot t) = True"
| "tests_sentinel _ = False"

definition threads_inv :: "mmap_sys \<Rightarrow> bool" where
  "threads_inv s \<longleftrightarrow>
     length (threads s) = THREAD_POOL_SIZE \<and>
     (\<forall>i < length (threads s). \<forall>t. held_task (threads s ! i) = Some t \<longrightarrow>
        (\<exists>j < headn s. slot s j = Some t) \<and>
        (tests_sentinel (threads s ! i) \<or> real_task s t)) \<and>
     (\<forall>i < length (threads s). \<forall>k < length (threads s). \<forall>t.
        i \<noteq> k \<longrightarrow> held_task (threads s ! i) = Some t \<longrightarrow> held_task (threads s ! k) \<noteq> Some t) \<and>
     (\<forall>i < length (threads s). threads s ! i = WExit \<or> threads s ! i = WJoined \<longrightarrow>
        (\<exists>j < headn s. sentinel_at s j))"

text \<open>The task of a thread that has not recorded the outcome yet.\<close>

fun unrecorded :: "wpc \<Rightarrow> ptr option" where
  "unrecorded (WGot t) = Some t"
| "unrecorded (WMark t) = Some t"
| "unrecorded (WEnter t) = Some t"
| "unrecorded (WIo t) = Some t"
| "unrecorded (WStat t b a) = Some t"
| "unrecorded _ = None"

lemma unrecorded_held: "unrecorded pc = Some t \<Longrightarrow> held_task pc = Some t"
  by (cases pc) auto

text \<open>A task for request \<open>p\<close> waits in the queue, or a thread is working on one.\<close>

definition queued_for :: "mmap_sys \<Rightarrow> nat \<Rightarrow> bool" where
  "queued_for s p \<longleftrightarrow> (\<exists>j tk. headn s \<le> j \<and> j < tailn s \<and> slot_task s j = Some tk \<and>
     t_argument tk = Addr p)"

definition in_work :: "mmap_sys \<Rightarrow> nat \<Rightarrow> bool" where
  "in_work s p \<longleftrightarrow> (\<exists>i < length (threads s). \<exists>t tk. unrecorded (threads s ! i) = Some t \<and>
     deref (tasks s) t = Inr tk \<and> t_argument tk = Addr p)"

definition status_inv :: "mmap_sys \<Rightarrow> bool" where
  "status_inv s \<longleftrightarrow> (\<forall>p r. requests s p = Some r \<longrightarrow> r_status r = REQUEST_STAT_SUBMITTED \<longrightarrow>
     queued_for s p \<or> in_work s p)"

definition mmap_inv :: "nat \<Rightarrow> mmap_sys \<Rightarrow> bool" where
  "mmap_inv n s \<longleftrightarrow> tasks_inv s \<and> threads_inv s \<and> status_inv s \<and> totaln s \<le> n"

section \<open>Quiet steps keep them\<close>

lemma quiet_same:
  assumes "quiet s s'"
  shows "tqueue s' = tqueue s" "parrs (os s') = parrs (os s)" "tasks s' = tasks s"
    "pinfo s' = pinfo s" "threads s' = threads s" "brk (os s) \<le> brk (os s')"
  using assms by (simp_all add: quiet_def)

lemma quiet_requests:
  assumes "quiet s s'"
  shows "requests s a \<noteq> None \<Longrightarrow> requests s' a \<noteq> None"
    "requests s' a \<noteq> None \<Longrightarrow> requests s a \<noteq> None \<or> a < brk (os s')"
    "requests s' a = Some r' \<Longrightarrow> r_status r' = REQUEST_STAT_SUBMITTED \<Longrightarrow>
       \<exists>r. requests s a = Some r \<and> r_status r = REQUEST_STAT_SUBMITTED"
  using assms unfolding quiet_def by blast+

lemma quiet_queue_arr: "quiet s s' \<Longrightarrow> queue_arr s' = queue_arr s"
  by (rule queue_arr_cong) (simp_all add: quiet_same)

lemma quiet_slot: "quiet s s' \<Longrightarrow> slot s' = slot s"
  by (rule ext) (simp add: slot_def quiet_queue_arr)

lemma quiet_slot_task: "quiet s s' \<Longrightarrow> slot_task s' = slot_task s"
  by (rule ext) (simp add: slot_task_def quiet_slot quiet_same(3) split: option.split ptr.split)

lemma quiet_sentinel_at: "quiet s s' \<Longrightarrow> sentinel_at s' = sentinel_at s"
  by (rule ext) (simp add: sentinel_at_def quiet_slot_task)

lemma quiet_queue_wf:
  assumes q: "quiet s s'" and wf: "queue_wf s"
  shows "queue_wf s'"
proof -
  have "\<forall>a. parrs (os s) a \<noteq> None \<longrightarrow> a < brk (os s')"
    using wf quiet_same(6) [OF q] unfolding queue_wf_def by (meson less_le_trans)
  then show ?thesis using wf unfolding queue_wf_def
    by (simp add: quiet_same(1,2) [OF q] quiet_queue_arr [OF q] quiet_slot [OF q])
qed

lemma quiet_task_wf: "quiet s s' \<Longrightarrow> task_wf s tk \<Longrightarrow> task_wf s' tk"
  using quiet_requests(1) [of s s'] by (auto simp: task_wf_def quiet_same(4) split: if_splits)

lemma quiet_tasks_inv:
  assumes q: "quiet s s'" and inv: "tasks_inv s"
  shows "tasks_inv s'"
  unfolding tasks_inv_def quiet_slot [OF q] quiet_slot_task [OF q] quiet_sentinel_at [OF q]
    quiet_same(1,3) [OF q]
proof (intro conjI)
  show "queue_wf s'" using inv quiet_queue_wf [OF q] by (simp add: tasks_inv_def)
  show "\<forall>a. tasks s a \<noteq> None \<longrightarrow> a < brk (os s')"
    using inv quiet_same(6) [OF q] unfolding tasks_inv_def by (meson less_le_trans)
  show "\<forall>a. requests s' a \<noteq> None \<longrightarrow> a < brk (os s')"
    using inv quiet_same(6) [OF q] quiet_requests(2) [OF q] unfolding tasks_inv_def
    by (meson less_le_trans)
  show "\<forall>j < tailn s. \<exists>tk. slot_task s j = Some tk \<and> task_wf s' tk"
    using inv quiet_task_wf [OF q] unfolding tasks_inv_def by blast
qed (use inv in \<open>simp_all add: tasks_inv_def\<close>)

lemma quiet_threads_inv:
  assumes q: "quiet s s'" and inv: "threads_inv s"
  shows "threads_inv s'"
  using inv unfolding threads_inv_def real_task_def
  by (simp add: quiet_slot [OF q] quiet_sentinel_at [OF q] quiet_same [OF q])

lemma quiet_served:
  assumes q: "quiet s s'"
  shows "queued_for s' p \<longleftrightarrow> queued_for s p" "in_work s' p \<longleftrightarrow> in_work s p"
  by (simp_all add: queued_for_def in_work_def quiet_slot_task [OF q] quiet_same [OF q])

lemma quiet_status_inv:
  assumes q: "quiet s s'" and inv: "status_inv s"
  shows "status_inv s'"
  using inv quiet_requests(3) [OF q] unfolding status_inv_def quiet_served [OF q] by blast

lemma quiet_inv: "quiet s s' \<Longrightarrow> mmap_inv n s \<Longrightarrow> mmap_inv n s'"
  unfolding mmap_inv_def
  by (simp add: quiet_tasks_inv quiet_threads_inv quiet_status_inv quiet_same(1))

section \<open>Steps of the pool threads\<close>

subsection \<open>A thread moves to another program point\<close>

lemma set_thread_queue_arr [simp]: "queue_arr (set_thread i pc s) = queue_arr s"
  by (rule queue_arr_cong) simp_all

lemma set_thread_slot [simp]: "slot (set_thread i pc s) = slot s"
  by (rule ext) (simp add: slot_def)

lemma set_thread_slot_task [simp]: "slot_task (set_thread i pc s) = slot_task s"
  by (rule ext) (simp add: slot_task_def split: option.split ptr.split)

lemma set_thread_sentinel_at [simp]: "sentinel_at (set_thread i pc s) = sentinel_at s"
  by (rule ext) (simp add: sentinel_at_def)

lemma set_thread_task_wf [simp]: "task_wf (set_thread i pc s) = task_wf s"
  by (rule ext) (simp add: task_wf_def)

lemma set_thread_real_task [simp]: "real_task (set_thread i pc s) = real_task s"
  by (rule ext) (simp add: real_task_def)

lemma set_thread_queue_wf [simp]: "queue_wf (set_thread i pc s) = queue_wf s"
  by (simp add: queue_wf_def)

lemma set_thread_tasks_inv [simp]: "tasks_inv (set_thread i pc s) = tasks_inv s"
  by (simp add: tasks_inv_def)

lemma set_thread_queued_for [simp]: "queued_for (set_thread i pc s) = queued_for s"
  by (rule ext) (simp add: queued_for_def)

text \<open>The request a task is for is not waiting any more.\<close>

definition settled_task :: "mmap_sys \<Rightarrow> ptr \<Rightarrow> bool" where
  "settled_task s t \<longleftrightarrow> (\<forall>tk p r. deref (tasks s) t = Inr tk \<longrightarrow> t_argument tk = Addr p \<longrightarrow>
     requests s p = Some r \<longrightarrow> r_status r \<noteq> REQUEST_STAT_SUBMITTED)"

definition may_move :: "mmap_sys \<Rightarrow> nat \<Rightarrow> wpc \<Rightarrow> bool" where
  "may_move s i pc \<longleftrightarrow>
     (held_task pc = None \<or> held_task pc = held_task (threads s ! i)) \<and>
     (\<forall>t. held_task pc = Some t \<longrightarrow> tests_sentinel pc \<or> real_task s t) \<and>
     (pc = WExit \<or> pc = WJoined \<longrightarrow> (\<exists>j < headn s. sentinel_at s j)) \<and>
     (\<forall>t. unrecorded (threads s ! i) = Some t \<longrightarrow> unrecorded pc = Some t \<or> settled_task s t)"

lemma move_threads_inv:
  assumes inv: "threads_inv s" and i: "i < length (threads s)" and m: "may_move s i pc"
  shows "threads_inv (set_thread i pc s)"
proof -
  have held: "held_task ((threads s)[i := pc] ! k) = Some t \<Longrightarrow> k < length (threads s) \<Longrightarrow>
      held_task (threads s ! k) = Some t" for k t
    using m i by (cases "k = i") (auto simp: may_move_def)
  show ?thesis
    unfolding threads_inv_def set_thread_simps set_thread_slot set_thread_sentinel_at set_thread_real_task length_list_update
  proof (intro conjI allI impI)
    show "length (threads s) = THREAD_POOL_SIZE" using inv by (simp add: threads_inv_def)
  next
    fix k t assume k: "k < length (threads s)" "held_task ((threads s)[i := pc] ! k) = Some t"
    with held inv show "\<exists>j < headn s. slot s j = Some t" unfolding threads_inv_def by blast
    from k held inv have "tests_sentinel (threads s ! k) \<or> real_task s t"
      unfolding threads_inv_def by blast
    with k m i show "tests_sentinel ((threads s)[i := pc] ! k) \<or> real_task s t"
      by (cases "k = i") (auto simp: may_move_def)
  next
    fix k l t assume "k < length (threads s)" "l < length (threads s)" "k \<noteq> l"
      "held_task ((threads s)[i := pc] ! k) = Some t"
    with held inv show "held_task ((threads s)[i := pc] ! l) \<noteq> Some t"
      unfolding threads_inv_def by blast
  next
    fix k assume "k < length (threads s)"
      "(threads s)[i := pc] ! k = WExit \<or> (threads s)[i := pc] ! k = WJoined"
    with m i inv show "\<exists>j < headn s. sentinel_at s j"
      by (cases "k = i") (auto simp: may_move_def threads_inv_def)
  qed
qed

lemma move_status_inv:
  assumes inv: "status_inv s" and i: "i < length (threads s)" and m: "may_move s i pc"
  shows "status_inv (set_thread i pc s)"
  unfolding status_inv_def
proof (intro allI impI)
  fix p r assume r: "requests (set_thread i pc s) p = Some r" "r_status r = REQUEST_STAT_SUBMITTED"
  with inv consider "queued_for s p" | "in_work s p" by (auto simp: status_inv_def)
  then show "queued_for (set_thread i pc s) p \<or> in_work (set_thread i pc s) p"
  proof cases
    case 1
    then show ?thesis by simp
  next
    case 2
    then obtain k t tk where k: "k < length (threads s)" "unrecorded (threads s ! k) = Some t"
      "deref (tasks s) t = Inr tk" "t_argument tk = Addr p" by (auto simp: in_work_def)
    have "unrecorded ((threads s)[i := pc] ! k) = Some t"
    proof (cases "k = i")
      case True
      with k r have "\<not> settled_task s t" by (auto simp: settled_task_def)
      with True k i m show ?thesis by (auto simp: may_move_def)
    qed (use k in simp)
    with k show ?thesis by (auto simp: in_work_def)
  qed
qed

lemma move_inv:
  "mmap_inv n s \<Longrightarrow> i < length (threads s) \<Longrightarrow> may_move s i pc \<Longrightarrow> mmap_inv n (set_thread i pc s)"
  by (simp add: mmap_inv_def move_threads_inv move_status_inv)

subsection \<open>The counters and the running flag\<close>

lemma pinfo_inv:
  assumes inv: "mmap_inv n s" and run: "isRunning i \<Longrightarrow> isRunning (pinfo s)"
  shows "mmap_inv n (s\<lparr>pinfo := i\<rparr>)"
proof -
  let ?s = "s\<lparr>pinfo := i\<rparr>"
  have arr: "queue_arr ?s = queue_arr s" by (rule queue_arr_cong) simp_all
  then have sl: "slot ?s = slot s" by (simp add: slot_def fun_eq_iff)
  then have st: "slot_task ?s = slot_task s"
    by (simp add: slot_task_def fun_eq_iff split: option.split ptr.split)
  then have se: "sentinel_at ?s = sentinel_at s" by (simp add: sentinel_at_def fun_eq_iff)
  have "task_wf s tk \<Longrightarrow> task_wf ?s tk" for tk
    using run by (auto simp: task_wf_def split: if_splits)
  then have "\<forall>j < tailn s. \<exists>tk. slot_task s j = Some tk \<and> task_wf ?s tk"
    using inv unfolding mmap_inv_def tasks_inv_def by blast
  with inv have "tasks_inv ?s"
    by (simp add: mmap_inv_def tasks_inv_def queue_wf_def arr sl st se)
  moreover from inv have "threads_inv ?s"
    by (simp add: mmap_inv_def threads_inv_def real_task_def sl se)
  moreover from inv have "status_inv ?s"
    by (simp add: mmap_inv_def status_inv_def queued_for_def in_work_def st)
  ultimately show ?thesis using inv by (simp add: mmap_inv_def)
qed

subsection \<open>Taking a task\<close>

lemma acquire_inv:
  assumes inv: "mmap_inv n s" and i: "i < length (threads s)" and pc: "threads s ! i = WAcquire"
    and a: "acquire_task s = Some (Inr (t, s1))"
  shows "mmap_inv n (set_thread i (WGot t) s1)"
proof -
  have wf: "queue_wf s" using inv by (simp add: mmap_inv_def tasks_inv_def)
  from acquire_task_spec [OF wf a] have
    sl: "slot s (headn s) = Some t" and lt: "headn s < tailn s" and
    hd: "headn s1 = Suc (headn s)" and tl: "tailn s1 = tailn s" and tot: "totaln s1 = totaln s" and
    s1: "s1 = s\<lparr>tqueue := tqueue s1\<rparr>" and wf1: "queue_wf s1" and slot1: "slot s1 = slot s"
    by (auto simp: fun_eq_iff)
  from s1 have same: "tasks s1 = tasks s" "requests s1 = requests s" "threads s1 = threads s"
    "pinfo s1 = pinfo s" "os s1 = os s" by (metis mmap_sys.select_convs mmap_sys.surjective mmap_sys.update_convs)+
  have st: "slot_task s1 = slot_task s"
    by (simp add: fun_eq_iff slot_task_def slot1 same split: option.split ptr.split)
  then have se: "sentinel_at s1 = sentinel_at s" by (simp add: sentinel_at_def fun_eq_iff)
  have tw: "task_wf s1 = task_wf s" by (simp add: fun_eq_iff task_wf_def same)
  have inj: "inj_on (slot s) {..<tailn s}" using inv by (simp add: mmap_inv_def tasks_inv_def)
  have free: "held_task (threads s ! k) \<noteq> Some t" if "k < length (threads s)" for k
  proof
    assume "held_task (threads s ! k) = Some t"
    with that inv obtain j where "j < headn s" "slot s j = Some t"
      unfolding mmap_inv_def threads_inv_def by blast
    with sl inj lt show False by (auto dest!: inj_onD [of _ _ j "headn s"])
  qed
  have excl: "held_task (threads s ! l) \<noteq> Some u"
    if "k < length (threads s)" "l < length (threads s)" "k \<noteq> l" "held_task (threads s ! k) = Some u"
    for k l u using inv that unfolding mmap_inv_def threads_inv_def by blast
  have "tasks_inv (set_thread i (WGot t) s1)"
    using inv wf1 by (simp add: mmap_inv_def tasks_inv_def slot1 st se tw same tl)
  moreover have "threads_inv (set_thread i (WGot t) s1)"
    unfolding threads_inv_def set_thread_simps set_thread_slot set_thread_sentinel_at
      set_thread_real_task length_list_update same slot1 se
  proof (intro conjI allI impI)
    show "length (threads s) = THREAD_POOL_SIZE" using inv by (simp add: mmap_inv_def threads_inv_def)
  next
    fix k u assume k: "k < length (threads s)" "held_task ((threads s)[i := WGot t] ! k) = Some u"
    show "\<exists>j < headn s1. slot s j = Some u"
    proof (cases "k = i")
      case True
      with k i sl hd show ?thesis by auto
    next
      case False
      with k inv have "\<exists>j < headn s. slot s j = Some u"
        unfolding mmap_inv_def threads_inv_def by simp
      with hd show ?thesis by (metis less_SucI)
    qed
    show "tests_sentinel ((threads s)[i := WGot t] ! k) \<or> real_task s1 u"
      using k i inv by (cases "k = i") (auto simp: mmap_inv_def threads_inv_def real_task_def same)
  next
    fix k l u assume kl: "k < length (threads s)" "l < length (threads s)" "k \<noteq> l"
      and h: "held_task ((threads s)[i := WGot t] ! k) = Some u"
    show "held_task ((threads s)[i := WGot t] ! l) \<noteq> Some u"
    proof (cases "k = i")
      case True
      with h i kl free [of l] show ?thesis by auto
    next
      case k: False
      with h have hk: "held_task (threads s ! k) = Some u" by simp
      show ?thesis
      proof (cases "l = i")
        case True
        with hk kl i free [of k] show ?thesis by auto
      next
        case False
        with excl [OF kl hk] show ?thesis by simp
      qed
    qed
  next
    fix k assume "k < length (threads s)"
      "(threads s)[i := WGot t] ! k = WExit \<or> (threads s)[i := WGot t] ! k = WJoined"
    with i have "threads s ! k = WExit \<or> threads s ! k = WJoined" by (cases "k = i") auto
    with \<open>k < length (threads s)\<close> inv have "\<exists>j < headn s. sentinel_at s j"
      unfolding mmap_inv_def threads_inv_def by blast
    with hd show "\<exists>j < headn s1. sentinel_at s j" by (metis less_SucI)
  qed
  moreover have "status_inv (set_thread i (WGot t) s1)"
    unfolding status_inv_def
  proof (intro allI impI)
    fix p r assume "requests (set_thread i (WGot t) s1) p = Some r" "r_status r = REQUEST_STAT_SUBMITTED"
    with inv same consider "queued_for s p" | "in_work s p"
      by (auto simp: mmap_inv_def status_inv_def)
    then show "queued_for (set_thread i (WGot t) s1) p \<or> in_work (set_thread i (WGot t) s1) p"
    proof cases
      case 1
      then obtain j tk where j: "headn s \<le> j" "j < tailn s" "slot_task s j = Some tk"
        "t_argument tk = Addr p" by (auto simp: queued_for_def)
      show ?thesis
      proof (cases "j = headn s")
        case True
        with j sl have "deref (tasks s) t = Inr tk"
          by (auto simp: slot_task_def split: ptr.splits)
        with i j same show ?thesis by (auto simp: in_work_def intro!: exI [of _ i])
      next
        case False
        with j have "Suc (headn s) \<le> j" by simp
        with j hd tl st show ?thesis by (auto simp: queued_for_def intro!: exI [of _ j])
      qed
    next
      case 2
      then obtain k u tk where k: "k < length (threads s)" "unrecorded (threads s ! k) = Some u"
        "deref (tasks s) u = Inr tk" "t_argument tk = Addr p" by (auto simp: in_work_def)
      with pc have "k \<noteq> i" by auto
      with k same show ?thesis by (auto simp: in_work_def intro!: exI [of _ k])
    qed
  qed
  ultimately show ?thesis using inv tot by (simp add: mmap_inv_def)
qed

subsection \<open>Running a task\<close>

lemma slot_taskD: "slot_task s j = Some tk \<Longrightarrow> slot s j = Some t \<Longrightarrow> deref (tasks s) t = Inr tk"
  by (auto simp: slot_task_def split: ptr.splits)

lemma held_task_wf:
  assumes inv: "mmap_inv n s" and i: "i < length (threads s)" and h: "held_task (threads s ! i) = Some t"
  obtains tk where "deref (tasks s) t = Inr tk" "task_wf s tk"
    "tests_sentinel (threads s ! i) \<or> \<not> t_is_sentinel tk" "\<exists>j < headn s. slot_task s j = Some tk"
proof -
  from inv i h obtain j where j: "j < headn s" "slot s j = Some t"
    and r: "tests_sentinel (threads s ! i) \<or> real_task s t"
    unfolding mmap_inv_def threads_inv_def by blast
  from inv have "headn s \<le> tailn s" by (auto simp: mmap_inv_def tasks_inv_def queue_wf_def)
  with inv j obtain tk where tk: "slot_task s j = Some tk" "task_wf s tk"
    unfolding mmap_inv_def tasks_inv_def by (meson less_le_trans)
  from slot_taskD [OF tk(1) j(2)] r tk j that [of tk] show thesis by (auto simp: real_task_def)
qed

lemma held_call:
  assumes "mmap_inv n s" "i < length (threads s)" "held_task (threads s ! i) = Some t"
    "\<not> tests_sentinel (threads s ! i)"
  obtains tk f p r where "deref (tasks s) t = Inr tk" "t_function tk = Some f"
    "t_argument tk = Addr p" "requests s p = Some r" "task_call t s = Inr (f, Addr p)"
  using assms by (auto elim!: held_task_wf simp: task_wf_def task_call_def)

lemma task_call_deref:
  "task_call t s = Inr (f, p) \<Longrightarrow> \<exists>tk. deref (tasks s) t = Inr tk \<and> t_argument tk = p"
  by (auto simp: task_call_def split: option.splits)

lemma record_settles:
  assumes c: "task_call t s = Inr (f, p)" and m: "mmap_record_status p ok s = Inr s'"
  shows "settled_task s' t"
proof -
  from m obtain r where r: "get_req p s = Inr r" and s': "s' = put_req p (r\<lparr>r_status :=
      (if r_status r = REQUEST_STAT_CANCEL then r_status r
       else if ok then REQUEST_STAT_IOSUCCESS else REQUEST_STAT_IOFAIL)\<rparr>) s"
    by (auto simp: mmap_record_status_def)
  then show ?thesis using task_call_deref [OF c]
    by (auto simp: settled_task_def put_req_def get_req_Inr_iff)
qed

lemma enter_settles:
  assumes c: "task_call t s = Inr (f, p)" and m: "task_enter f p s = Inr (False, s')"
  shows "settled_task s' t"
proof -
  from m obtain r where "get_req p s = Inr r" "r_status r = REQUEST_STAT_CANCEL"
    by (cases f) (auto simp: mmapRead_enter_def mmapWrite_enter_def split: if_splits)
  with m task_call_deref [OF c] show ?thesis
    by (cases f) (auto simp: mmapRead_enter_def mmapWrite_enter_def mmap_unmap_buf_def settled_task_def
        get_req_Inr_iff put_req_def split: if_splits)
qed

lemma real_task_quiet: "quiet s s' \<Longrightarrow> real_task s' = real_task s"
  by (rule ext) (simp add: real_task_def quiet_same(3))

lemma run_task_inv:
  assumes inv: "mmap_inv n s" and i: "i < length (threads s)"
    and h: "held_task (threads s ! i) = Some t" "\<not> tests_sentinel (threads s ! i)"
    and q: "quiet s s'"
    and pc: "held_task pc = None \<and> pc \<noteq> WExit \<and> pc \<noteq> WJoined \<or> held_task pc = Some t"
    and u: "unrecorded pc = unrecorded (threads s ! i) \<or> settled_task s' t \<or>
            unrecorded (threads s ! i) = None"
  shows "mmap_inv n (set_thread i pc s')"
proof (rule move_inv [OF quiet_inv [OF q inv]])
  have th: "threads s' = threads s" using quiet_same [OF q] by simp
  show "i < length (threads s')" using i th by simp
  obtain tk f p r where "deref (tasks s) t = Inr tk" "task_wf s tk" "\<not> t_is_sentinel tk"
    using held_task_wf [OF inv i h(1)] h(2) by metis
  then have "real_task s' t" by (auto simp: real_task_quiet [OF q] real_task_def)
  moreover have "unrecorded (threads s ! i) = Some v \<Longrightarrow> v = t" for v
    using h(1) unrecorded_held by fastforce
  ultimately show "may_move s' i pc"
    using pc u h by (auto simp: may_move_def th)
qed

lemma worker_inv:
  assumes inv: "mmap_inv n s" and st: "worker_step i s = Some (Inr s')"
  shows "mmap_inv n s'"
proof -
  from st have i: "i < length (threads s)" and w: "worker_at i (threads s ! i) s = Some (Inr s')"
    by (auto simp: worker_step_def split: if_splits)
  show ?thesis
  proof (cases "threads s ! i")
    case WStart
    let ?s = "count_alive s"
    have "mmap_inv n ?s" unfolding count_alive_def by (rule pinfo_inv [OF inv]) simp
    then have "mmap_inv n (set_thread i WAcquire ?s)"
      by (rule move_inv) (use i WStart in \<open>auto simp: count_alive_def may_move_def\<close>)
    with WStart w show ?thesis by simp
  next
    case WAcquire
    with w obtain t s1 where "acquire_task s = Some (Inr (t, s1))" "s' = set_thread i (WGot t) s1"
      by auto
    with acquire_inv [OF inv i WAcquire] show ?thesis by simp
  next
    case (WGot t)
    from i WGot obtain tk where tk: "deref (tasks s) t = Inr tk" "task_wf s tk"
      "\<exists>j < headn s. slot_task s j = Some tk"
      by (elim held_task_wf [OF inv, of i t]) auto
    have "may_move s i (if \<not> isRunning (pinfo s) \<and> t_is_sentinel tk then WExit else WMark t)"
      using tk WGot
      by (auto simp: may_move_def real_task_def sentinel_at_def task_wf_def settled_task_def
          split: if_splits)
    with WGot w tk move_inv [OF inv i] show ?thesis by (auto split: if_splits)
  next
    case (WMark t)
    let ?s = "count_busy s"
    have "mmap_inv n ?s" unfolding count_busy_def by (rule pinfo_inv [OF inv]) simp
    then have "mmap_inv n (set_thread i (WEnter t) ?s)"
      by (rule run_task_inv [where t = t]) (use i WMark in \<open>auto simp: count_busy_def\<close>)
    with WMark w show ?thesis by simp
  next
    case (WEnter t)
    with w obtain f p go s1 where c: "task_call t s = Inr (f, p)" "task_enter f p s = Inr (go, s1)"
      and s': "s' = set_thread i (if go then WIo t else WFinish) s1" by auto
    show ?thesis unfolding s'
      by (rule run_task_inv [OF inv i, where t = t])
         (use WEnter c enter_settles [OF c(1)] in \<open>auto dest: quiet_enter\<close>)
  next
    case (WIo t)
    with w obtain f p ok a s1 where c: "task_call t s = Inr (f, p)" "task_io f p s = Inr (ok, a, s1)"
      and s': "s' = set_thread i (WStat t ok a) s1" by auto
    show ?thesis unfolding s'
      by (rule run_task_inv [OF inv i, where t = t]) (use WIo c in \<open>auto dest: quiet_io\<close>)
  next
    case (WStat t ok a)
    with w obtain f p s1 where c: "task_call t s = Inr (f, p)" "mmap_record_status p ok s = Inr s1"
      and s': "s' = set_thread i (WClean t a) s1" by auto
    show ?thesis unfolding s'
      by (rule run_task_inv [OF inv i, where t = t])
         (use WStat c record_settles [OF c] in \<open>auto dest: quiet_record\<close>)
  next
    case (WClean t a)
    with w obtain f p s1 where c: "task_call t s = Inr (f, p)" "task_cleanup f p a s = Inr s1"
      and s': "s' = set_thread i WFinish s1" by auto
    show ?thesis unfolding s'
      by (rule run_task_inv [OF inv i, where t = t]) (use WClean c in \<open>auto dest: quiet_cleanup\<close>)
  next
    case WFinish
    let ?s = "count_idle s"
    have "mmap_inv n ?s" unfolding count_idle_def by (rule pinfo_inv [OF inv]) simp
    then have "mmap_inv n (set_thread i WAcquire ?s)"
      by (rule move_inv) (use i WFinish in \<open>auto simp: count_idle_def may_move_def\<close>)
    with WFinish w show ?thesis by simp
  qed (use w in simp_all)
qed

section \<open>Submissions\<close>

lemma threads_inv_mono:
  assumes inv: "threads_inv s" and th: "threads s' = threads s"
    and sl: "\<And>j t. j < headn s \<Longrightarrow> slot s j = Some t \<Longrightarrow> \<exists>j' < headn s'. slot s' j' = Some t"
    and rt: "\<And>t. real_task s t \<Longrightarrow> real_task s' t"
    and se: "\<And>j. j < headn s \<Longrightarrow> sentinel_at s j \<Longrightarrow> \<exists>j' < headn s'. sentinel_at s' j'"
  shows "threads_inv s'"
  unfolding threads_inv_def th
proof (intro conjI allI impI)
  fix i t assume "i < length (threads s)" "held_task (threads s ! i) = Some t"
  with inv have "\<exists>j < headn s. slot s j = Some t" "tests_sentinel (threads s ! i) \<or> real_task s t"
    unfolding threads_inv_def by blast+
  with sl rt show "\<exists>j < headn s'. slot s' j = Some t" "tests_sentinel (threads s ! i) \<or> real_task s' t"
    by blast+
next
  fix i assume "i < length (threads s)" "threads s ! i = WExit \<or> threads s ! i = WJoined"
  with inv have "\<exists>j < headn s. sentinel_at s j" unfolding threads_inv_def by blast
  with se show "\<exists>j < headn s'. sentinel_at s' j" by blast
qed (use inv in \<open>auto simp: threads_inv_def\<close>)

text \<open>A new task, in memory but not in the queue.\<close>

lemma new_task_inv:
  assumes inv: "mmap_inv n s" and new: "c_new (os s) = (Addr a, w)"
  shows "mmap_inv n (s\<lparr>os := w, tasks := (tasks s)(a := Some tk)\<rparr>) \<and>
         (\<forall>j < tailn s. slot s j \<noteq> Some (Addr a))"
proof -
  let ?s = "s\<lparr>os := w, tasks := (tasks s)(a := Some tk)\<rparr>"
  from new have a: "a = brk (os s)" and w: "brk w = Suc (brk (os s))" "parrs w = parrs (os s)"
    by (auto elim: c_new_cases)
  have arr: "queue_arr ?s = queue_arr s" by (rule queue_arr_cong) (simp_all add: w)
  then have sl: "slot ?s = slot s" by (simp add: slot_def fun_eq_iff)
  have fresh: "tasks s a = None" using inv a by (auto simp: mmap_inv_def tasks_inv_def)
  have other: "deref (tasks ?s) t = Inr tk'" if "deref (tasks s) t = Inr tk'" for t tk'
    using that fresh by (auto simp: deref_Inr_iff)
  have all: "\<exists>b tk'. slot s j = Some (Addr b) \<and> b \<noteq> a \<and> slot_task s j = Some tk' \<and> task_wf s tk'"
    if "j < tailn s" for j
  proof -
    from that inv obtain tk' where tk': "slot_task s j = Some tk'" "task_wf s tk'"
      unfolding mmap_inv_def tasks_inv_def by blast
    from tk'(1) obtain b where "slot s j = Some (Addr b)" "tasks s b = Some tk'"
      by (auto simp: slot_task_def split: option.splits ptr.splits)
    with tk' fresh show ?thesis by (intro exI [of _ b] exI [of _ tk']) auto
  qed
  have st: "slot_task ?s j = slot_task s j" if "j < tailn s" for j
    using all [OF that] by (auto simp: slot_task_def sl)
  have se: "sentinel_at ?s j = sentinel_at s j" if "j < tailn s" for j
    using st [OF that] by (simp add: sentinel_at_def)
  have le: "headn s \<le> tailn s" using inv by (auto simp: mmap_inv_def tasks_inv_def queue_wf_def)
  have rt: "real_task s t \<Longrightarrow> real_task ?s t" for t using other unfolding real_task_def by blast
  have tw: "task_wf ?s = task_wf s" by (simp add: fun_eq_iff task_wf_def)
  have qwf: "queue_wf ?s" using inv w
    by (auto simp: mmap_inv_def tasks_inv_def queue_wf_def arr sl less_Suc_eq)
  have "tasks_inv ?s"
    unfolding tasks_inv_def
  proof (intro conjI)
    show "\<forall>j < tailn ?s. \<exists>tk'. slot_task ?s j = Some tk' \<and> task_wf ?s tk'"
      using all by (simp add: st tw) blast
    show "inj_on (slot ?s) {..<tailn ?s}"
      using inv by (simp add: sl mmap_inv_def tasks_inv_def)
    show "\<forall>j k. j < k \<longrightarrow> k < tailn ?s \<longrightarrow> sentinel_at ?s j \<longrightarrow> sentinel_at ?s k"
      using inv by (simp add: se mmap_inv_def tasks_inv_def)
    show "\<forall>b. requests ?s b \<noteq> None \<longrightarrow> b < brk (os ?s)"
      using inv by (simp add: w mmap_inv_def tasks_inv_def) (meson less_SucI)
    show "\<forall>b. tasks ?s b \<noteq> None \<longrightarrow> b < brk (os ?s)"
      using inv a by (simp add: w mmap_inv_def tasks_inv_def) (meson less_SucI)
  qed (rule qwf)
  moreover have "threads_inv ?s"
    by (rule threads_inv_mono [of s]) (use inv rt se le in \<open>auto simp: mmap_inv_def sl\<close>)
  moreover have "status_inv ?s"
  proof -
    have "queued_for s p \<Longrightarrow> queued_for ?s p" for p
      unfolding queued_for_def by simp (metis st)
    moreover have "in_work s p \<Longrightarrow> in_work ?s p" for p
      unfolding in_work_def using other by simp (metis)
    ultimately show ?thesis using inv by (simp add: mmap_inv_def status_inv_def) blast
  qed
  moreover have "\<forall>j < tailn s. slot s j \<noteq> Some (Addr a)" using all by fastforce
  ultimately show ?thesis using inv by (simp add: mmap_inv_def)
qed

lemma enqueue_inv:
  assumes inv: "mmap_inv n s" and lim: "totaln s < LIST_LIMIT"
    and e: "enqueue_task (Addr a) s = Inr (res, s')"
    and tk: "tasks s a = Some tk" "task_wf s tk"
    and new: "\<forall>j < tailn s. slot s j \<noteq> Some (Addr a)"
    and last: "t_is_sentinel tk \<or> (\<forall>j < tailn s. \<not> sentinel_at s j)"
  shows "mmap_inv (Suc n) s' \<and> slot_task s' (tailn s) = Some tk \<and> headn s' \<le> tailn s \<and>
         tailn s' = Suc (tailn s)"
proof -
  have wf: "queue_wf s" using inv by (simp add: mmap_inv_def tasks_inv_def)
  have le: "headn s \<le> tailn s" using wf by (auto simp: queue_wf_def)
  note sp = enqueue_task_spec [OF wf lim e] and fr = enqueue_task_frame [OF e]
  from sp have wf': "queue_wf s'" and tl: "tailn s' = Suc (tailn s)" and hd: "headn s' = headn s"
    and tot: "totaln s' = Suc (totaln s)" and top: "slot s' (tailn s) = Some (Addr a)"
    and sl: "\<And>j. j < tailn s \<Longrightarrow> slot s' j = slot s j" by auto
  from fr have ts: "tasks s' = tasks s" and rq: "requests s' = requests s" and pi: "pinfo s' = pinfo s"
    and th: "threads s' = threads s" and br: "brk (os s) \<le> brk (os s')" by auto
  have st: "slot_task s' j = slot_task s j" if "j < tailn s" for j
    using sl [OF that] by (simp add: slot_task_def ts split: option.split ptr.split)
  have st_top: "slot_task s' (tailn s) = Some tk" using top tk by (simp add: slot_task_def ts)
  have se: "sentinel_at s' j = sentinel_at s j" if "j < tailn s" for j
    using st [OF that] by (simp add: sentinel_at_def)
  have tw: "task_wf s' = task_wf s" by (simp add: fun_eq_iff task_wf_def pi rq)
  have tinv: "tasks_inv s" using inv by (simp add: mmap_inv_def)
  have "tasks_inv s'"
    unfolding tasks_inv_def
  proof (intro conjI)
    show "\<forall>j < tailn s'. \<exists>tk. slot_task s' j = Some tk \<and> task_wf s' tk"
      using tinv st st_top tk by (auto simp: tl less_Suc_eq tw tasks_inv_def)
    show "\<forall>b. tasks s' b \<noteq> None \<longrightarrow> b < brk (os s')"
      using tinv br unfolding tasks_inv_def ts by (meson less_le_trans)
    show "\<forall>b. requests s' b \<noteq> None \<longrightarrow> b < brk (os s')"
      using tinv br unfolding tasks_inv_def rq by (meson less_le_trans)
    have "inj_on (slot s') {..<tailn s}"
      using tinv sl by (auto simp: tasks_inv_def inj_on_def)
    moreover have "slot s' (tailn s) \<notin> slot s' ` {..<tailn s}"
      using new sl top by auto
    ultimately show "inj_on (slot s') {..<tailn s'}"
      by (simp add: tl lessThan_Suc inj_on_insert)
    show "\<forall>j k. j < k \<longrightarrow> k < tailn s' \<longrightarrow> sentinel_at s' j \<longrightarrow> sentinel_at s' k"
    proof (intro allI impI)
      fix j k assume jk: "j < k" "k < tailn s'" "sentinel_at s' j"
      then have j: "j < tailn s" using tl by simp
      with jk se have sj: "sentinel_at s j" by blast
      show "sentinel_at s' k"
      proof (cases "k = tailn s")
        case True
        with last j sj st_top show ?thesis by (auto simp: sentinel_at_def)
      next
        case False
        with jk tl have k: "k < tailn s" by simp
        with tinv jk(1) sj have "sentinel_at s k" unfolding tasks_inv_def by blast
        with se [OF k] show ?thesis by simp
      qed
    qed
  qed (rule wf')
  moreover have "threads_inv s'"
    by (rule threads_inv_mono [of s]) (use inv th se sl le hd in \<open>auto simp: mmap_inv_def real_task_def ts\<close>)
  moreover have "status_inv s'"
  proof -
    have "queued_for s p \<Longrightarrow> queued_for s' p" for p
      unfolding queued_for_def hd tl using st by (metis less_SucI)
    moreover have "in_work s p \<Longrightarrow> in_work s' p" for p
      unfolding in_work_def ts th .
    ultimately show ?thesis using inv by (simp add: mmap_inv_def status_inv_def rq) blast
  qed
  ultimately show ?thesis using inv tot st_top hd le tl by (simp add: mmap_inv_def)
qed

text \<open>
  A submission either leaves the queue alone or appends the new task; it appends exactly where the
  kind of the task fits the state of the pool.
\<close>

lemma submit_inv:
  assumes inv: "mmap_inv n s" and lim: "n < LIST_LIMIT"
    and e: "submit_new_task tk s = Inr (res, s')"
    and kind: "tk = sentinel_task \<or> \<not> t_is_sentinel tk \<and> task_wf s tk"
  shows "mmap_inv (Suc n) s' \<and> requests s' = requests s \<and> threads s' = threads s \<and>
         pinfo s' = pinfo s \<and>
         (isRunning (pinfo s) \<and> \<not> t_is_sentinel tk \<longrightarrow>
            headn s' \<le> tailn s \<and> tailn s' = Suc (tailn s) \<and> slot_task s' (tailn s) = Some tk) \<and>
         (\<not> isRunning (pinfo s) \<and> \<not> t_is_sentinel tk \<longrightarrow> res = RET_ALREADY_EXISTS)"
proof -
  from e obtain a w where new: "c_new (os s) = (Addr a, w)"
    by (auto simp: submit_new_task_def Let_def elim: c_new_cases split: prod.splits if_splits)
  let ?s = "s\<lparr>os := w, tasks := (tasks s)(a := Some tk)\<rparr>"
  from new_task_inv [OF inv new, of tk] have inv0: "mmap_inv n ?s"
    and fresh: "\<forall>j < tailn s. slot s j \<noteq> Some (Addr a)" by auto
  have arr: "queue_arr ?s = queue_arr s"
    using new by (intro queue_arr_cong) (auto elim: c_new_cases)
  then have sl: "slot ?s = slot s" by (simp add: slot_def fun_eq_iff)
  have e': "thread_pool_submit (Addr a) ?s = Inr (res, s')"
    using e new by (simp add: submit_new_task_def)
  show ?thesis
  proof (cases "isRunning (pinfo s) = t_is_sentinel tk")
    case True
    with e' have "s' = ?s" "res = (if t_is_sentinel tk then RET_OK else RET_ALREADY_EXISTS)"
      by (auto simp: thread_pool_submit_def split: if_splits)
    with inv0 True show ?thesis by (auto simp: mmap_inv_def)
  next
    case False
    then have en: "enqueue_task (Addr a) ?s = Inr (res, s')"
      using e' by (auto simp: thread_pool_submit_def split: if_splits)
    have twf: "task_wf ?s tk" using kind False
      by (auto simp: task_wf_def sentinel_task_def)
    have "t_is_sentinel tk \<or> (\<forall>j < tailn ?s. \<not> sentinel_at ?s j)"
    proof (cases "t_is_sentinel tk")
      case nosent: False
      with False have run: "isRunning (pinfo ?s)" by simp
      have "\<not> sentinel_at ?s j" if j: "j < tailn ?s" for j
      proof
        assume "sentinel_at ?s j"
        with inv0 j obtain tk' where "task_wf ?s tk'" "t_is_sentinel tk'"
          unfolding sentinel_at_def mmap_inv_def tasks_inv_def by fastforce
        with run show False by (simp add: task_wf_def)
      qed
      then show ?thesis by blast
    qed simp
    moreover have "totaln ?s < LIST_LIMIT" using inv lim by (simp add: mmap_inv_def)
    ultimately have "mmap_inv (Suc n) s' \<and> slot_task s' (tailn ?s) = Some tk \<and> headn s' \<le> tailn ?s \<and>
        tailn s' = Suc (tailn ?s)"
      using fresh by (intro enqueue_inv [OF inv0 _ en _ twf]) (simp_all add: sl)
    with enqueue_task_frame [OF en] False show ?thesis by auto
  qed
qed

lemma mmap_inv_Suc: "mmap_inv n s \<Longrightarrow> mmap_inv (Suc n) s"
  by (simp add: mmap_inv_def)

lemma put_finish_cases:
  assumes "mmap_put_finish p res s = Inr (res', s')"
  obtains (refused) "quiet s s'" "res' = res" "res \<noteq> RET_OK"
  | (submitted) r where "get_req p s = Inr r" "res' = RET_OK" "res = RET_OK"
      "s' = put_req p (r\<lparr>r_status := REQUEST_STAT_SUBMITTED\<rparr>) s"
proof -
  from assms obtain r where r: "get_req p s = Inr r" by (auto simp: mmap_put_finish_def)
  show thesis
  proof (cases "res = RET_OK")
    case True
    with assms r submitted show thesis by (simp add: mmap_put_finish_def)
  next
    case False
    with assms r have "quiet s s'" "res' = res"
      by (auto simp: mmap_put_finish_def Let_def intro!: quiet_put_keeps keeps_munmap quiet_put
          split: if_splits)
    with False refused show thesis by blast
  qed
qed

lemma submitted_inv:
  assumes inv: "mmap_inv n s" and r: "get_req p s = Inr r" and p: "p = Addr a" "queued_for s a \<or> in_work s a"
  shows "mmap_inv n (put_req p (r\<lparr>r_status := REQUEST_STAT_SUBMITTED\<rparr>) s)"
proof -
  let ?s = "put_req p (r\<lparr>r_status := REQUEST_STAT_SUBMITTED\<rparr>) s"
  from r p have ra: "requests s a = Some r" by (simp add: get_req_Inr_iff)
  have arr: "queue_arr ?s = queue_arr s" by (rule queue_arr_cong) simp_all
  then have sl: "slot ?s = slot s" by (simp add: slot_def fun_eq_iff)
  then have st: "slot_task ?s = slot_task s"
    by (simp add: slot_task_def fun_eq_iff split: option.split ptr.split)
  then have se: "sentinel_at ?s = sentinel_at s" by (simp add: sentinel_at_def fun_eq_iff)
  have dm: "requests ?s b \<noteq> None \<longleftrightarrow> requests s b \<noteq> None" for b
    using ra p by (simp add: put_req_def)
  then have tw: "task_wf ?s = task_wf s" by (simp add: task_wf_def fun_eq_iff)
  have "tasks_inv ?s"
    using inv dm by (simp add: mmap_inv_def tasks_inv_def queue_wf_def arr sl st se tw)
  moreover have "threads_inv ?s"
    by (rule threads_inv_mono [of s]) (use inv in \<open>auto simp: mmap_inv_def sl se real_task_def\<close>)
  moreover have "status_inv ?s"
    unfolding status_inv_def
  proof (intro allI impI)
    fix b r' assume r': "requests ?s b = Some r'" "r_status r' = REQUEST_STAT_SUBMITTED"
    have "queued_for s b \<or> in_work s b"
      using r' inv p by (cases "b = a") (auto simp: put_req_def mmap_inv_def status_inv_def)
    then show "queued_for ?s b \<or> in_work ?s b"
      by (simp add: queued_for_def in_work_def st)
  qed
  ultimately show ?thesis using inv by (simp add: mmap_inv_def)
qed

lemma put_inv:
  assumes inv: "mmap_inv n s" and lim: "n < LIST_LIMIT" and e: "mmap_put_request p s = Inr (res, s')"
  shows "mmap_inv (Suc n) s'"
proof -
  from e obtain res1 s1 where c: "mmap_check_request_valid p s = Inr (res1, s1)"
    by (auto simp: mmap_put_request_def)
  have inv1: "mmap_inv n s1" using quiet_inv [OF quiet_check [OF c] inv] .
  show ?thesis
  proof (cases "res1 = RET_OK")
    case False
    with e c inv1 show ?thesis by (auto simp: mmap_put_request_def mmap_inv_Suc)
  next
    case True
    with e c obtain res2 s2 r where r: "get_req p s1 = Inr r"
      and sub: "submit_new_task (request_task p r) s1 = Inr (res2, s2)"
      and fin: "mmap_put_finish p res2 s2 = Inr (res, s')"
      by (auto simp: mmap_put_request_def mmap_put_submit_def)
    from r obtain a where a: "p = Addr a" "requests s1 a = Some r" by (auto simp: get_req_Inr_iff)
    have "\<not> t_is_sentinel (request_task p r) \<and> task_wf s1 (request_task p r)"
      using a by (simp add: request_task_def task_wf_def)
    note sp = submit_inv [OF inv1 lim sub disjI2 [OF this]]
    from fin show ?thesis
    proof (cases rule: put_finish_cases)
      case refused
      with sp quiet_inv show ?thesis by blast
    next
      case (submitted r')
      with sp have run: "isRunning (pinfo s1)" by (auto simp: request_task_def)
      with sp have "headn s2 \<le> tailn s1" "tailn s1 < tailn s2"
        "slot_task s2 (tailn s1) = Some (request_task p r)" by (auto simp: request_task_def)
      moreover have "t_argument (request_task p r) = Addr a" using a by (simp add: request_task_def)
      ultimately have "queued_for s2 a" unfolding queued_for_def by blast
      with submitted_inv [of "Suc n" s2 p r' a] sp submitted a show ?thesis by simp
    qed
  qed
qed

lemma join_inv:
  assumes inv: "mmap_inv n s" and i: "i < length (threads s)" and e: "join_thread i s = Some (Inr s')"
  shows "mmap_inv n s'"
proof -
  from e have pc: "threads s ! i = WExit" and s': "s' = set_thread i WJoined s"
    by (auto simp: join_thread_def split: wpc.splits)
  from inv i pc have "\<exists>j < headn s. sentinel_at s j"
    unfolding mmap_inv_def threads_inv_def by auto
  with i pc show ?thesis unfolding s' by (intro move_inv [OF inv]) (auto simp: may_move_def)
qed

section \<open>Interrupted submissions\<close>

text \<open>
  \<open>mmap_put_request\<close> may be interrupted at any of its points, by pool threads, timeout threads and other
  clients. An event is in time unless it runs into one of its two races: the task is put into
  the queue although the pool was stopped after the test of \<open>isRunning\<close>, or \<open>SUBMITTED\<close> is stored
  although the outcome has been recorded, so that no task of the request is queued or unrecorded any more.
  What the thread holds in its own variables (the task that it has just filled, which is in no slot yet)
  is the parameter of the event.
\<close>

definition own_task :: "ptr \<Rightarrow> mmap_sys \<Rightarrow> bool" where
  "own_task t s \<longleftrightarrow>
     (\<exists>a tk. t = Addr a \<and> tasks s a = Some tk \<and> \<not> t_is_sentinel tk \<and> task_wf s tk \<and>
        (\<forall>j < tailn s. slot s j \<noteq> Some t))"

definition awaits_outcome :: "ptr \<Rightarrow> mmap_sys \<Rightarrow> bool" where
  "awaits_outcome p s \<longleftrightarrow> (\<exists>a. p = Addr a \<and> (queued_for s a \<or> in_work s a))"

fun in_time :: "mmap_event \<Rightarrow> mmap_sys \<Rightarrow> bool" where
  "in_time (EvEnqueue t) s \<longleftrightarrow> own_task t s \<and> isRunning (pinfo s)"
| "in_time (EvPutFinish p res) s \<longleftrightarrow> res = RET_OK \<longrightarrow> awaits_outcome p s"
| "in_time _ s \<longleftrightarrow> True"

definition timely :: "mmap_event \<Rightarrow> mmap_sys \<Rightarrow> (fault + mmap_sys) option" where
  "timely e s = (if in_time e s then mmap_exec e s else None)"

lemma orderly_in_time: "orderly e \<Longrightarrow> in_time e s"
  by (cases e) auto

lemma timely_exec: "timely e s = Some m \<Longrightarrow> in_time e s \<and> mmap_exec e s = Some m"
  by (simp add: timely_def split: if_splits)

lemma timely_worker [simp]: "timely (EvWorker i) s = worker_step i s"
  by (simp add: timely_def)

lemma timely_run_exec: "run timely es s = Some t \<Longrightarrow> run mmap_exec es s = Some t"
proof (induction es arbitrary: s)
  case (Cons e es)
  then obtain u where "timely e s = Some (Inr u)" "run timely es u = Some t"
    by (auto simp: run_Cons_Some simp del: run.simps)
  with Cons.IH [of u] timely_exec [of e s "Inr u"] show ?case by simp
qed simp

text \<open>Calls in one piece are in time.\<close>

lemma orderly_timely: "list_all orderly es \<Longrightarrow> run timely es s = run mmap_exec es s"
proof (induction es arbitrary: s)
  case (Cons e es)
  then have "timely e s = mmap_exec e s" by (simp add: timely_def orderly_in_time)
  with Cons show ?case by (simp split: option.split sum.split)
qed simp

text \<open>What the thread that fills a task knows of it, whatever else happened since: it is its own.\<close>

lemma put_task_inv:
  assumes inv: "mmap_inv n s" and e: "mmap_put_task p s = Inr (res, t, s')"
  shows "mmap_inv n s' \<and> (res = RET_OK \<longrightarrow> own_task t s')"
  using e
proof (cases rule: put_task_cases)
  case refused
  with quiet_inv [OF quiet_check inv] show ?thesis by blast
next
  case (filled s1 r w)
  note inv1 = quiet_inv [OF quiet_check [OF filled(1)] inv]
  from filled(4,5) obtain a where t: "t = Addr a" by (auto elim: c_new_cases)
  note n = filled(4) [unfolded t]
  have w: "parrs w = parrs (os s1)" using n by (auto elim: c_new_cases)
  have "queue_arr (s1\<lparr>os := w, tasks := ts\<rparr>) = queue_arr s1" for ts by (rule queue_arr_cong) (simp_all add: w)
  then have sl: "slot (s1\<lparr>os := w, tasks := ts\<rparr>) = slot s1" for ts by (simp add: slot_def fun_eq_iff)
  from new_task_inv [OF inv1 n, of "request_task p r"] filled(3) show ?thesis
    by (auto simp: filled(6) t own_task_def request_task_def task_wf_def get_req_Inr_iff sl)
qed

lemma put_own_inv:
  assumes inv: "mmap_inv n s" and lim: "n < LIST_LIMIT" and o: "own_task t s" "isRunning (pinfo s)"
    and e: "enqueue_task t s = Inr (res, s')"
  shows "mmap_inv (Suc n) s'"
proof -
  from o obtain a tk where a: "t = Addr a" "tasks s a = Some tk" "task_wf s tk" "\<forall>j < tailn s. slot s j \<noteq> Some (Addr a)"
    by (auto simp: own_task_def)
  have "\<not> sentinel_at s j" if "j < tailn s" for j
  proof
    assume "sentinel_at s j"
    with inv that obtain tk' where "task_wf s tk'" "t_is_sentinel tk'"
      unfolding sentinel_at_def mmap_inv_def tasks_inv_def by fastforce
    with o(2) show False by (simp add: task_wf_def)
  qed
  moreover have "totaln s < LIST_LIMIT" using inv lim by (simp add: mmap_inv_def)
  ultimately show ?thesis using enqueue_inv [OF inv _ e [unfolded a(1)] a(2-4)] by blast
qed

lemma put_submit_inv:
  assumes inv: "mmap_inv n s" and lim: "n < LIST_LIMIT" and e: "mmap_put_submit p s = Inr (res, s')"
  shows "mmap_inv (Suc n) s'"
proof -
  from e obtain r where r: "get_req p s = Inr r" and sub: "submit_new_task (request_task p r) s = Inr (res, s')"
    by (auto simp: mmap_put_submit_def)
  then have "\<not> t_is_sentinel (request_task p r) \<and> task_wf s (request_task p r)"
    by (auto simp: request_task_def task_wf_def get_req_Inr_iff)
  from submit_inv [OF inv lim sub disjI2 [OF this]] show ?thesis by blast
qed

lemma finish_inv:
  assumes inv: "mmap_inv n s" and o: "res = RET_OK \<longrightarrow> awaits_outcome p s"
    and e: "mmap_put_finish p res s = Inr (res', s')"
  shows "mmap_inv n s'"
  using e
proof (cases rule: put_finish_cases)
  case refused
  with inv quiet_inv show ?thesis by blast
next
  case (submitted r)
  with o obtain a where "p = Addr a" "queued_for s a \<or> in_work s a" by (auto simp: awaits_outcome_def)
  with submitted_inv [OF inv submitted(1)] submitted(4) show ?thesis by simp
qed

section \<open>Every event keeps the invariant\<close>

lemma exec_inv:
  assumes inv: "mmap_inv n s" and lim: "n < LIST_LIMIT" and o: "in_time e s"
    and e: "mmap_exec e s = Some (Inr s')"
  shows "mmap_inv (Suc n) s'"
proof -
  have q: "quiet s s' \<Longrightarrow> mmap_inv (Suc n) s'" by (rule mmap_inv_Suc [OF quiet_inv [OF _ inv]])
  show ?thesis
  proof (cases e)
    case (EvWorker i)
    with e worker_inv [OF inv] show ?thesis by (simp add: mmap_inv_Suc)
  next
    case (EvPut p)
    with e put_inv [OF inv lim] show ?thesis by (auto simp: only_state_def)
  next
    case (EvPutSubmit p)
    with e put_submit_inv [OF inv lim] show ?thesis by (auto simp: only_state_def)
  next
    case (EvPutTask p)
    with e put_task_inv [OF inv] show ?thesis by (auto simp: mmap_inv_Suc)
  next
    case (EvEnqueue t)
    with e o put_own_inv [OF inv lim] show ?thesis by (auto simp: only_state_def)
  next
    case (EvPutFinish p res)
    with e obtain res' where "mmap_put_finish p res s = Inr (res', s')" by (auto simp: only_state_def)
    from finish_inv [OF inv _ this] o EvPutFinish show ?thesis by (simp add: mmap_inv_Suc)
  next
    case (EvStoreIdle v)
    with e inv show ?thesis by (auto simp: store_idle_def intro!: mmap_inv_Suc pinfo_inv)
  next
    case (EvStoreAlive v)
    with e inv show ?thesis by (auto simp: store_alive_def intro!: mmap_inv_Suc pinfo_inv)
  next
    case EvTurn
    with e inv show ?thesis by (simp add: mmap_inv_Suc)
  next
    case EvStop
    with e inv show ?thesis
      by (auto simp: set_running_def intro!: mmap_inv_Suc pinfo_inv)
  next
    case EvSentinel
    with e submit_inv [OF inv lim _ disjI1 [OF refl]] show ?thesis by (auto simp: only_state_def)
  next
    case (EvJoin i)
    with e join_inv [OF inv] show ?thesis by (auto simp: mmap_inv_Suc split: if_splits)
  next
    case (EvMalloc k)
    with e show ?thesis by (intro q) (auto intro!: quiet_keeps keeps_malloc)
  next
    case (EvStore p bs)
    with e show ?thesis by (intro q) (auto intro!: quiet_keeps keeps_store)
  qed (use e o q in \<open>auto simp: only_state_def dest: quiets\<close>)
qed

interpretation mmap_runs: step_invariant timely mmap_inv "\<lambda>_. True" LIST_LIMIT
  by unfold_locales (use exec_inv timely_exec in blast)

end
