(* ===== verification/Mmap_Boot.thy ===== *)
theory Mmap_Boot
  imports Mmap_Invariants
begin

text \<open>
  The state the first \<open>MMAP_File_Accessor_Get_Instance\<close> leaves satisfies the invariants of
  \<open>Mmap_Invariants\<close>, and the counters of \<open>thread_pool_info_t\<close> count the pool threads: those
  that registered, those inside a task's function, and the rest of them, less what the releasing
  thread has subtracted. Its decrements hold no lock: the counters are right as long as no pool thread
  updates one between the read and the store of a decrement.
\<close>

section \<open>The state after initialisation\<close>

lemma create_thread_frame:
  "requests (create_thread i s) = requests s \<and> tasks (create_thread i s) = tasks s \<and>
   tqueue (create_thread i s) = tqueue s \<and> pinfo (create_thread i s) = pinfo s \<and>
   parrs (os (create_thread i s)) = parrs (os s) \<and> brk (os (create_thread i s)) = brk (os s) \<and>
   (threads (create_thread i s) = threads s \<or> threads (create_thread i s) = (threads s)[i := WStart])"
  by (auto simp: create_thread_def ask_def Let_def)

definition not_running :: "wpc \<Rightarrow> bool" where
  "not_running pc \<longleftrightarrow> pc = WNone \<or> pc = WStart"

lemma create_threads_frame:
  "list_all not_running (threads s) \<Longrightarrow>
   requests (fold create_thread is s) = requests s \<and> tasks (fold create_thread is s) = tasks s \<and>
   tqueue (fold create_thread is s) = tqueue s \<and> pinfo (fold create_thread is s) = pinfo s \<and>
   parrs (os (fold create_thread is s)) = parrs (os s) \<and>
   brk (os (fold create_thread is s)) = brk (os s) \<and>
   length (threads (fold create_thread is s)) = length (threads s) \<and>
   list_all not_running (threads (fold create_thread is s))"
proof (induction "is" arbitrary: s)
  case Nil
  then show ?case by simp
next
  case (Cons i "is")
  let ?s = "create_thread i s"
  have "list_all not_running (threads ?s)" "length (threads ?s) = length (threads s)"
    using create_thread_frame [of i s] Cons.prems
    by (auto simp: list_all_length nth_list_update_if not_running_def split: if_splits)
  with Cons.IH [of ?s] create_thread_frame [of i s] show ?case by simp
qed

lemma queue_wf_same:
  assumes "tqueue s' = tqueue s" "parrs (os s') = parrs (os s)" "brk (os s) \<le> brk (os s')" "queue_wf s"
  shows "queue_wf s'"
proof -
  have "queue_arr s' = queue_arr s" using assms by (intro queue_arr_cong) simp_all
  then have "slot s' = slot s" by (simp add: slot_def fun_eq_iff)
  with assms \<open>queue_arr s' = queue_arr s\<close> show ?thesis
    unfolding queue_wf_def by (metis order_less_le_trans)
qed

lemma thread_pool_init_spec:
  assumes "clean_world w"
  shows "queue_wf (mmap_start w) \<and> requests (mmap_start w) = (\<lambda>_. None) \<and>
         tasks (mmap_start w) = (\<lambda>_. None) \<and> tailn (mmap_start w) = 0 \<and> totaln (mmap_start w) = 0 \<and>
         headn (mmap_start w) = 0 \<and>
         length (threads (mmap_start w)) = THREAD_POOL_SIZE \<and>
         list_all not_running (threads (mmap_start w)) \<and>
         pinfo (mmap_start w) = \<lparr>maxThreadIdx = 0, busyThreadNum = 0, idleThreadNum = 0,
            aliveThreadNum = 0, isInitialized = True, isRunning = True\<rparr>"
proof -
  obtain q v where q: "c_malloc_arr 1024 w = (q, v)" by fastforce
  let ?s = "(set_running True (g_mmapFileAccessor w))\<lparr>os := v,
      tqueue := (tqueue (g_mmapFileAccessor w))\<lparr>request_queue := q\<rparr>\<rparr>"
  let ?t = "fold create_thread [0..<THREAD_POOL_SIZE] ?s"
  have st: "mmap_start w = (set_running True ?t)\<lparr>pinfo := (pinfo (set_running True ?t))
      \<lparr>isInitialized := True\<rparr>\<rparr>"
    using q by (simp add: mmap_start_def MMAP_File_Accessor_Get_Instance_def thread_pool_init_def
        g_mmapFileAccessor_def Let_def REQ_LIST_BUFSIZE_def set_running_def)
  have "list_all not_running (threads ?s)"
    by (simp add: g_mmapFileAccessor_def set_running_def list_all_length not_running_def)
  note fr = create_threads_frame [OF this, of "[0..<THREAD_POOL_SIZE]"]
  have wf: "queue_wf ?s"
    using q assms by (auto simp: queue_wf_def queue_arr_def empty_arr_def g_mmapFileAccessor_def
        c_malloc_arr_def ask_def clean_world_def set_running_def split: if_splits)
  have base: "requests ?s = (\<lambda>_. None)" "tasks ?s = (\<lambda>_. None)" "tailn ?s = 0" "headn ?s = 0"
    "totaln ?s = 0" "length (threads ?s) = THREAD_POOL_SIZE"
    "pinfo ?s = \<lparr>maxThreadIdx = 0, busyThreadNum = 0, idleThreadNum = 0, aliveThreadNum = 0,
       isInitialized = False, isRunning = True\<rparr>"
    by (simp_all add: g_mmapFileAccessor_def set_running_def)
  obtain t where t: "t = ?t" by blast
  have "queue_wf (mmap_start w)"
    by (rule queue_wf_same [OF _ _ _ wf]) (use fr st in \<open>simp_all add: set_running_def\<close>)
  moreover have "mmap_start w = t\<lparr>pinfo := (pinfo t)\<lparr>isRunning := True, isInitialized := True\<rparr>\<rparr>"
    using st unfolding t by (simp add: set_running_def)
  ultimately show ?thesis using fr base unfolding t [symmetric] by simp
qed

lemma start_inv: "clean_world w \<Longrightarrow> mmap_inv 0 (mmap_start w)"
  using thread_pool_init_spec [of w]
  by (auto simp: mmap_inv_def tasks_inv_def threads_inv_def status_inv_def list_all_length
      not_running_def)

section \<open>The counters\<close>

fun registered :: "wpc \<Rightarrow> bool" where
  "registered WNone = False"
| "registered WStart = False"
| "registered WJoined = False"
| "registered _ = True"

fun in_function :: "wpc \<Rightarrow> bool" where
  "in_function (WEnter t) = True"
| "in_function (WIo t) = True"
| "in_function (WStat t b a) = True"
| "in_function (WClean t a) = True"
| "in_function WFinish = True"
| "in_function _ = False"

fun ever_registered :: "wpc \<Rightarrow> bool" where
  "ever_registered WNone = False"
| "ever_registered WStart = False"
| "ever_registered _ = True"

definition how_many :: "(wpc \<Rightarrow> bool) \<Rightarrow> mmap_sys \<Rightarrow> nat" where
  "how_many P s = length (filter P (threads s))"

fun joined :: "wpc \<Rightarrow> bool" where
  "joined WJoined = True"
| "joined _ = False"

text \<open>
  Idle threads are the registered ones outside a task's function; \<open>i\<close> and \<open>a\<close> are how often the
  releasing thread has counted down the idle threads and those alive.
\<close>

definition counters_inv :: "nat \<Rightarrow> nat \<Rightarrow> mmap_sys \<Rightarrow> bool" where
  "counters_inv i a s \<longleftrightarrow>
     length (threads s) = THREAD_POOL_SIZE \<and>
     aliveThreadNum (pinfo s) = of_nat (how_many ever_registered s) - of_nat a \<and>
     busyThreadNum (pinfo s) = of_nat (how_many in_function s) \<and>
     idleThreadNum (pinfo s) = of_nat (how_many ever_registered s) - of_nat (how_many in_function s) - of_nat i \<and>
     maxThreadIdx (pinfo s) = of_nat (how_many ever_registered s)"

lemma length_filter_update:
  "i < length xs \<Longrightarrow>
   (of_nat (length (filter P (xs[i := y]))) :: u32) =
     of_nat (length (filter P xs)) - (if P (xs ! i) then 1 else 0) + (if P y then 1 else 0)"
proof (induction xs arbitrary: i)
  case Nil
  then show ?case by simp
next
  case (Cons x xs)
  then show ?case by (cases i) auto
qed

text \<open>Events that neither move a thread nor touch the counters.\<close>

definition same_pool :: "mmap_sys \<Rightarrow> mmap_sys \<Rightarrow> bool" where
  "same_pool s s' \<longleftrightarrow> threads s' = threads s \<and> pinfo s' = pinfo s"

lemma quiet_same_pool: "quiet s s' \<Longrightarrow> same_pool s s'"
  by (simp add: same_pool_def quiet_same)

lemma same_pool_trans: "same_pool s t \<Longrightarrow> same_pool t u \<Longrightarrow> same_pool s u"
  by (simp add: same_pool_def)

lemma same_pool_counters: "same_pool s s' \<Longrightarrow> counters_inv m k s \<Longrightarrow> counters_inv m k s'"
  by (simp add: same_pool_def counters_inv_def how_many_def)

lemma submit_same_pool: "submit_new_task tk s = Inr (res, s') \<Longrightarrow> same_pool s s'"
  by (auto simp: submit_new_task_def thread_pool_submit_def same_pool_def Let_def
      dest!: enqueue_task_frame split: prod.splits if_splits)

lemma enqueue_same_pool: "enqueue_task t s = Inr (res, s') \<Longrightarrow> same_pool s s'"
  by (auto simp: same_pool_def dest: enqueue_task_frame)

lemma put_task_same_pool:
  assumes "mmap_put_task p s = Inr (res, t, s')"
  shows "same_pool s s'"
  using assms
proof (cases rule: put_task_cases)
  case (filled s1 r w)
  with quiet_same_pool [OF quiet_check [OF filled(1)]] show ?thesis by (simp add: same_pool_def)
qed (auto intro: quiet_same_pool quiet_check)

lemma put_submit_same_pool: "mmap_put_submit p s = Inr (res, s') \<Longrightarrow> same_pool s s'"
  by (auto simp: mmap_put_submit_def dest: submit_same_pool)

lemma put_finish_same_pool:
  assumes "mmap_put_finish p res s = Inr (res', s')"
  shows "same_pool s s'"
  using assms by (cases rule: put_finish_cases) (auto dest: quiet_same_pool simp: same_pool_def)

lemma put_same_pool:
  assumes "mmap_put_request p s = Inr (res, s')"
  shows "same_pool s s'"
proof -
  from assms obtain res1 s1 where c: "mmap_check_request_valid p s = Inr (res1, s1)"
    by (auto simp: mmap_put_request_def)
  have "same_pool s1 s'" using assms c
    by (auto simp: mmap_put_request_def same_pool_def split: if_splits
        dest!: put_submit_same_pool put_finish_same_pool)
  with quiet_same_pool [OF quiet_check [OF c]] show ?thesis by (rule same_pool_trans)
qed

lemma worker_counters:
  assumes inv: "counters_inv m k s" and st: "worker_step i s = Some (Inr s')"
  shows "counters_inv m k s'"
proof -
  from st have i: "i < length (threads s)" and w: "worker_at i (threads s ! i) s = Some (Inr s')"
    by (auto simp: worker_step_def split: if_splits)
  note upd = length_filter_update [OF i]
  have move: "counters_inv m k (set_thread i pc u)"
    if "same_pool s u" "in_function pc = in_function (threads s ! i)"
      "ever_registered pc = ever_registered (threads s ! i)" for pc u
    using that inv upd [of in_function pc] upd [of ever_registered pc]
    by (auto simp: counters_inv_def same_pool_def how_many_def)
  show ?thesis
  proof (cases "threads s ! i")
    case WStart
    with w inv show ?thesis
      by (auto simp: counters_inv_def count_alive_def how_many_def upd)
  next
    case WAcquire
    with w obtain t u where u: "acquire_task s = Some (Inr (t, u))" "s' = set_thread i (WGot t) u"
      by auto
    then have "same_pool s u" by (auto simp: acquire_task_def same_pool_def Let_def split: if_splits)
    with u WAcquire show ?thesis by (simp add: move)
  next
    case (WGot t)
    with w show ?thesis by (auto split: if_splits intro!: move simp: same_pool_def)
  next
    case (WMark t)
    with w inv show ?thesis
      by (auto simp: counters_inv_def count_busy_def how_many_def upd)
  next
    case (WEnter t)
    with w obtain f p go u where "task_enter f p s = Inr (go, u)"
      "s' = set_thread i (if go then WIo t else WFinish) u" by auto
    with WEnter show ?thesis
      by (cases go) (auto intro!: move quiet_same_pool quiet_enter)
  next
    case (WIo t)
    with w show ?thesis by (auto intro!: move quiet_same_pool quiet_io)
  next
    case (WStat t ok a)
    with w show ?thesis by (auto intro!: move quiet_same_pool quiet_record)
  next
    case (WClean t a)
    with w show ?thesis by (auto intro!: move quiet_same_pool quiet_cleanup)
  next
    case WFinish
    with w inv show ?thesis
      by (auto simp: counters_inv_def count_idle_def how_many_def upd)
  qed (use w in auto)
qed

lemma join_counters:
  assumes inv: "counters_inv m k s" and i: "i < length (threads s)" and e: "join_thread i s = Some (Inr s')"
  shows "counters_inv m k s'"
proof -
  note upd = length_filter_update [OF i]
  from e have "threads s ! i = WExit" "s' = set_thread i WJoined s"
    by (auto simp: join_thread_def split: wpc.splits)
  with inv show ?thesis by (simp add: counters_inv_def how_many_def upd)
qed

subsection \<open>Decrements that are not disturbed\<close>

text \<open>What is stored is one less than what the counter has.\<close>

fun fresh_store :: "mmap_event \<Rightarrow> mmap_sys \<Rightarrow> bool" where
  "fresh_store (EvStoreIdle v) s \<longleftrightarrow> v = idleThreadNum (pinfo s)"
| "fresh_store (EvStoreAlive v) s \<longleftrightarrow> v = aliveThreadNum (pinfo s)"
| "fresh_store _ s \<longleftrightarrow> True"

definition undisturbed :: "mmap_event \<Rightarrow> mmap_sys \<Rightarrow> (fault + mmap_sys) option" where
  "undisturbed e s = (if fresh_store e s then mmap_exec e s else None)"

fun stores_idle :: "mmap_event \<Rightarrow> bool" where
  "stores_idle (EvStoreIdle v) = True"
| "stores_idle _ = False"

fun stores_alive :: "mmap_event \<Rightarrow> bool" where
  "stores_alive (EvStoreAlive v) = True"
| "stores_alive _ = False"

lemma exec_counters:
  assumes inv: "counters_inv m k s" and f: "fresh_store e s" and e: "mmap_exec e s = Some (Inr s')"
  shows "counters_inv (if stores_idle e then Suc m else m) (if stores_alive e then Suc k else k) s'"
proof -
  have q: "quiet s s' \<Longrightarrow> counters_inv m k s'" by (rule same_pool_counters [OF quiet_same_pool inv])
  have p: "same_pool s s' \<Longrightarrow> counters_inv m k s'" by (rule same_pool_counters [OF _ inv])
  show ?thesis
  proof (cases e)
    case (EvWorker i)
    with e worker_counters [OF inv] show ?thesis by simp
  next
    case (EvJoin i)
    with e join_counters [OF inv] show ?thesis by (auto split: if_splits)
  next
    case (EvStoreIdle v)
    with e f inv show ?thesis by (auto simp: counters_inv_def store_idle_def how_many_def)
  next
    case (EvStoreAlive v)
    with e f inv show ?thesis by (auto simp: counters_inv_def store_alive_def how_many_def)
  next
    case EvStop
    with e inv show ?thesis by (auto simp: counters_inv_def set_running_def how_many_def)
  next
    case (EvPut r)
    with e show ?thesis by (auto simp: only_state_def intro: p put_same_pool)
  next
    case (EvPutSubmit r)
    with e show ?thesis by (auto simp: only_state_def intro: p put_submit_same_pool)
  next
    case (EvPutTask r)
    with e show ?thesis by (auto intro: p put_task_same_pool)
  next
    case (EvEnqueue t)
    with e show ?thesis by (auto simp: only_state_def intro: p enqueue_same_pool)
  next
    case (EvPutFinish r res)
    with e show ?thesis by (auto simp: only_state_def intro: p put_finish_same_pool)
  next
    case EvSentinel
    with e show ?thesis by (auto simp: only_state_def intro: p submit_same_pool)
  next
    case EvTurn
    with e inv show ?thesis by simp
  next
    case (EvMalloc n)
    with e have "s' = s\<lparr>os := snd (c_malloc n (os s))\<rparr>" by simp
    with EvMalloc q show ?thesis using quiet_keeps [OF keeps_malloc, of s n] by simp
  qed (use e in \<open>auto simp: only_state_def intro!: q quiet_keeps keeps_calls keeps_store
        intro: quiets\<close>)
qed

lemma undisturbed_run:
  "list_all (\<lambda>e. \<forall>s. fresh_store e s) es \<Longrightarrow> run undisturbed es s = run mmap_exec es s"
proof (induction es arbitrary: s)
  case (Cons e es)
  then have "undisturbed e u = mmap_exec e u" for u by (simp add: undisturbed_def)
  with Cons show ?case by (simp split: option.split sum.split)
qed simp

lemma counters_run:
  "counters_inv m k s \<Longrightarrow> run undisturbed es s = Some t \<Longrightarrow>
   counters_inv (m + length (filter stores_idle es)) (k + length (filter stores_alive es)) t"
proof (induction es arbitrary: m k s)
  case (Cons e es)
  from Cons.prems(2) obtain u where u: "undisturbed e s = Some (Inr u)" "run undisturbed es u = Some t"
    by (auto simp: run_Cons_Some simp del: run.simps)
  from u(1) have "fresh_store e s" "mmap_exec e s = Some (Inr u)"
    by (auto simp: undisturbed_def split: if_splits)
  from Cons.IH [OF exec_counters [OF Cons.prems(1) this] u(2)] show ?case by (auto split: if_splits)
qed simp

lemma start_counters: "clean_world w \<Longrightarrow> counters_inv 0 0 (mmap_start w)"
  using thread_pool_init_spec [of w]
proof -
  assume "clean_world w"
  note sp = thread_pool_init_spec [OF this]
  have z: "how_many P (mmap_start w) = 0" if "\<not> P WNone" "\<not> P WStart" for P
  proof -
    have "\<not> P x" if "x \<in> set (threads (mmap_start w))" for x
      using sp that \<open>\<not> P WNone\<close> \<open>\<not> P WStart\<close> by (auto simp: list_all_iff not_running_def)
    then show ?thesis by (simp add: how_many_def)
  qed
  from sp show ?thesis by (simp add: counters_inv_def z)
qed

end
