(* ===== verification/Mmap_Demo.thy ===== *)
theory Mmap_Demo
  imports Mmap_Boot
begin

text \<open>
  A concrete run of the mmap accessor, evaluated step by step: the theorems about runs are applied to
  it. A client reads the three bytes of a file: it gets a request (at address 2), allocates a
  buffer (3), imports it and submits (task at 4, the queue's array moves to 5). Thread 0 then
  registers, takes the task and works through it.
\<close>

section \<open>Starting without refusals\<close>

text \<open>
  A run from the start in which every event is in time: the calls of any number of clients, interrupted
  by pool threads, timeout threads and each other, short of the two races of \<open>in_time\<close>.
\<close>

definition timely_run :: "world \<Rightarrow> mmap_event list \<Rightarrow> mmap_sys \<Rightarrow> bool" where
  "timely_run w es t \<longleftrightarrow> clean_world w \<and> length es \<le> LIST_LIMIT \<and> run timely es (mmap_start w) = Some t"

lemma timely_run_inv: "timely_run w es t \<Longrightarrow> mmap_inv (length es) t"
  using mmap_runs.inv_run [OF start_inv [of w], of es t] by (simp add: timely_run_def list_all_iff)

lemma timely_runI:
  "clean_world w \<Longrightarrow> list_all orderly es \<Longrightarrow> length es \<le> LIST_LIMIT \<Longrightarrow>
   run mmap_exec es (mmap_start w) = Some t \<Longrightarrow> timely_run w es t"
  by (simp add: timely_run_def orderly_timely)

lemma timely_run_more:
  "timely_run w es s \<Longrightarrow> run timely fs s = Some t \<Longrightarrow> length (es @ fs) \<le> LIST_LIMIT \<Longrightarrow>
   timely_run w (es @ fs) t"
  by (simp add: timely_run_def run_append)

lemma create_thread_ok:
  "\<not> refuse (os s) (calls (os s)) \<Longrightarrow>
   create_thread i s = s\<lparr>os := (os s)\<lparr>calls := Suc (calls (os s))\<rparr>, threads := (threads s)[i := WStart]\<rparr>"
  by (simp add: create_thread_def ask_def set_thread_def)

lemma five_threads:
  "[0..<THREAD_POOL_SIZE] = [0, 1, 2, 3, 4]"
  "replicate THREAD_POOL_SIZE x = [x, x, x, x, x]"
  by (simp_all add: THREAD_POOL_SIZE_def numeral_eq_Suc upt_rec)

lemma start_ok:
  assumes "\<And>n. \<not> refuse w n"
  shows "mmap_start w =
    \<lparr>os = w\<lparr>calls := calls w + 6, brk := Suc (brk w),
            parrs := (parrs w)(brk w := Some \<lparr>a_len = 1024, a_at = (\<lambda>_. None)\<rparr>)\<rparr>,
     requests = (\<lambda>_. None), tasks = (\<lambda>_. None),
     tqueue = \<lparr>request_queue = Addr (brk w), q_head = 0, q_tail = 0, q_todoCnt = 0, q_totoalCnt = 0\<rparr>,
     pinfo = \<lparr>maxThreadIdx = 0, busyThreadNum = 0, idleThreadNum = 0, aliveThreadNum = 0,
              isInitialized = True, isRunning = True\<rparr>,
     threads = [WStart, WStart, WStart, WStart, WStart]\<rparr>"
proof -
  have "c_malloc_arr 1024 w = (Addr (brk w), w\<lparr>calls := Suc (calls w), brk := Suc (brk w),
      parrs := (parrs w)(brk w := Some \<lparr>a_len = 1024, a_at = (\<lambda>_. None)\<rparr>)\<rparr>)"
    using assms by (simp add: c_malloc_arr_def ask_def)
  then show ?thesis
    using assms by (simp add: mmap_start_def MMAP_File_Accessor_Get_Instance_def thread_pool_init_def
      g_mmapFileAccessor_def set_running_def REQ_LIST_BUFSIZE_def five_threads create_thread_ok Let_def)
qed

section \<open>The run\<close>

lemma demo_world_clean [simp]: "clean_world demo_world"
  by (simp add: clean_world_def)

lemma mmap_read_info:
  "info_ok read_info" "copied_info read_info = read_info" "mmap_open_mode read_info = Rdonly"
  by code_simp+

lemmas read_info_simps = read_info_fields mmap_read_info

definition demo_request :: mmap_request where
  "demo_request =
     \<lparr>r_info = read_info, r_fd = 3, r_fsb = 3, r_buf = Addr 3, r_nbytes = 3, r_offset = 0,
      r_isValid = True, r_isAlloced = False, r_status = REQUEST_STAT_INIT,
      r_lock = SyncReady, r_isFinished = SyncReady\<rparr>"

definition demo_os :: world where
  "demo_os = demo_world\<lparr>calls := 9, brk := 4,
     parrs := [1 \<mapsto> \<lparr>a_len = 1024, a_at = (\<lambda>_. None)\<rparr>], heap := [3 \<mapsto> [0, 0, 0]],
     fds := [Some tty, Some tty, Some tty, Some \<lparr>o_path = ''in'', o_mode = Rdonly, o_pos = 0\<rparr>]\<rparr>"

definition demo_prepared :: mmap_sys where
  "demo_prepared =
     \<lparr>os = demo_os, requests = [2 \<mapsto> demo_request], tasks = (\<lambda>_. None),
      tqueue = \<lparr>request_queue = Addr 1, q_head = 0, q_tail = 0, q_todoCnt = 0, q_totoalCnt = 0\<rparr>,
      pinfo = \<lparr>maxThreadIdx = 0, busyThreadNum = 0, idleThreadNum = 0, aliveThreadNum = 0,
               isInitialized = True, isRunning = True\<rparr>,
      threads = [WStart, WStart, WStart, WStart, WStart]\<rparr>"

definition demo_prepare :: "mmap_event list" where
  "demo_prepare = [EvGet read_info, EvMalloc 3, EvImport (Addr 2) (Addr 3)]"

lemma demo_get:
  "mmap_exec (EvGet read_info) (mmap_start demo_world) =
     Some (Inr (demo_prepared\<lparr>requests := [2 \<mapsto> demo_request\<lparr>r_buf := Null\<rparr>],
       os := demo_os\<lparr>calls := 8, brk := 3, heap := (\<lambda>_. None)\<rparr>\<rparr>))"
  by (simp add: start_ok get_request_eq [where p = "Addr 2"] c_new_def ask_def fresh_addr_def
      file_name_def read_info_simps sys_open_def opened_file_def retry_do.simps demo_files
      mmap_request_setup_def sys_lseek_cur_def fd_lookup_def fd_at_def sys_fstat_def Let_def put_req_def
      zero_mmap_request_def demo_prepared_def demo_os_def demo_request_def demo_file_def [symmetric])
     (simp add: demo_file_def numeral_3_eq_3)

lemma demo_prepare_run: "run mmap_exec demo_prepare (mmap_start demo_world) = Some demo_prepared"
proof -
  let ?r = "demo_request\<lparr>r_buf := Null\<rparr>"
  let ?s1 = "demo_prepared\<lparr>requests := [2 \<mapsto> ?r], os := demo_os\<lparr>calls := 8, brk := 3, heap := (\<lambda>_. None)\<rparr>\<rparr>"
  let ?s2 = "demo_prepared\<lparr>requests := [2 \<mapsto> ?r]\<rparr>"
  have e2: "mmap_exec (EvMalloc 3) ?s1 = Some (Inr ?s2)"
    by (simp add: c_malloc_def ask_def Let_def demo_prepared_def demo_os_def numeral_3_eq_3)
  have "get_req (Addr 2) ?s2 = Inr ?r" by (simp add: get_req_def)
  then have e3: "mmap_exec (EvImport (Addr 2) (Addr 3)) ?s2 = Some (Inr demo_prepared)"
    by (simp add: mmap_request_import_read_buffer_def check_spec only_state_def demo_request_def
        put_req_def demo_prepared_def)
  show ?thesis
    unfolding demo_prepare_def run.simps by (simp only: demo_get e2 e3 option.case sum.case)
qed

text \<open>After submission: the task is at 4, the queue's array at 5.\<close>

definition demo_task :: task where
  "demo_task = \<lparr>t_function = Some FnMmapRead, t_argument = Addr 2, t_is_sentinel = False\<rparr>"

definition demo_arr :: parr where
  "demo_arr = \<lparr>a_len = 1024, a_at = [0 \<mapsto> Addr 4]\<rparr>"

definition demo_queued :: "request_stat \<Rightarrow> mmap_sys" where
  "demo_queued st = demo_prepared
     \<lparr>os := demo_os\<lparr>calls := 11, brk := 6, parrs := [5 \<mapsto> demo_arr]\<rparr>,
      requests := [2 \<mapsto> demo_request\<lparr>r_status := st\<rparr>],
      tasks := [4 \<mapsto> demo_task],
      tqueue := \<lparr>request_queue = Addr 5, q_head = 0, q_tail = 1, q_todoCnt = 1, q_totoalCnt = 1\<rparr>\<rparr>"

text \<open>After its first half only, the request still looks unsubmitted.\<close>

abbreviation demo_half :: mmap_sys where "demo_half \<equiv> demo_queued REQUEST_STAT_INIT"
abbreviation demo_submitted :: mmap_sys where "demo_submitted \<equiv> demo_queued REQUEST_STAT_SUBMITTED"

lemma demo_put_submit: "mmap_put_submit (Addr 2) demo_prepared = Inr (RET_OK, demo_half)"
proof -
  have r: "get_req (Addr 2) demo_prepared = Inr demo_request"
    by (simp add: get_req_def demo_prepared_def)
  have t: "request_task (Addr 2) demo_request = demo_task"
    by (simp add: request_task_def demo_request_def demo_task_def read_info_simps)
  have sz: "unat (new_list_bufsize 0) div 8 = 1024"
    by (subst new_entries) (simp_all add: LIST_LIMIT_def)
  let ?s = "demo_prepared\<lparr>os := demo_os\<lparr>calls := 10, brk := 5\<rparr>, tasks := [4 \<mapsto> demo_task]\<rparr>"
  let ?g = "demo_half\<lparr>
        os := demo_os\<lparr>calls := 11, brk := 6, parrs := [5 \<mapsto> \<lparr>a_len = 1024, a_at = (\<lambda>_. None)\<rparr>]\<rparr>,
        tqueue := (tqueue demo_prepared)\<lparr>request_queue := Addr 5\<rparr>\<rparr>"
  have g: "grow_queue ?s = Inr (RET_OK, ?g)"
    by (simp add: grow_queue_def c_realloc_arr_def sz ask_def Let_def demo_prepared_def demo_os_def
        demo_queued_def demo_request_def fun_eq_iff del: and_then_Inr_iff)
  have e: "enqueue_task (Addr 4) ?s = Inr (RET_OK, demo_half)"
    unfolding enqueue_task_def g
    by (simp add: arr_set_def demo_prepared_def demo_queued_def demo_request_def demo_arr_def
        del: and_then_Inr_iff)
  have d: "deref (tasks ?s) (Addr 4) = Inr demo_task" "isRunning (pinfo ?s)" "\<not> t_is_sentinel demo_task"
    by (simp_all add: demo_prepared_def demo_task_def)
  have "thread_pool_submit (Addr 4) ?s = Inr (RET_OK, demo_half)"
    unfolding thread_pool_submit_def d(1) using d(2,3) e by simp
  moreover have "c_new (os demo_prepared) = (Addr 4, demo_os\<lparr>calls := 10, brk := 5\<rparr>)"
    by (simp add: c_new_def ask_def fresh_addr_def demo_prepared_def demo_os_def)
  moreover have "(tasks demo_prepared)(4 := Some demo_task) = [4 \<mapsto> demo_task]"
    by (simp add: demo_prepared_def)
  ultimately have "submit_new_task demo_task demo_prepared = Inr (RET_OK, demo_half)"
    by (simp add: submit_new_task_def)
  then show ?thesis unfolding mmap_put_submit_def r by (simp add: t)
qed

lemma demo_put_finish:
  "mmap_put_finish (Addr 2) RET_OK (demo_queued st) = Inr (RET_OK, demo_submitted)"
  by (simp add: mmap_put_finish_def demo_queued_def get_req_def put_req_def fun_eq_iff)

lemma demo_put: "mmap_put_request (Addr 2) demo_prepared = Inr (RET_OK, demo_submitted)"
proof -
  have "get_req (Addr 2) demo_prepared = Inr demo_request"
    by (simp add: get_req_def demo_prepared_def)
  then have "mmap_check_request_valid (Addr 2) demo_prepared = Inr (RET_OK, demo_prepared)"
    by (simp add: check_spec demo_request_def)
  with demo_put_submit demo_put_finish show ?thesis by (simp add: mmap_put_request_def)
qed

text \<open>
  Thread 0 at \<open>pc\<close>, with the counters it has then, the request's descriptor and state, and the
  operating system.
\<close>

definition demo_at :: "wpc \<Rightarrow> u32 \<Rightarrow> int \<Rightarrow> request_stat \<Rightarrow> world \<Rightarrow> mmap_sys" where
  "demo_at pc busy fd st w = (demo_queued st)
     \<lparr>os := w,
      requests := [2 \<mapsto> demo_request\<lparr>r_status := st, r_fd := fd\<rparr>],
      tqueue := \<lparr>request_queue = Addr 5, q_head = 1, q_tail = 1, q_todoCnt = 0, q_totoalCnt = 1\<rparr>,
      pinfo := \<lparr>maxThreadIdx = 1, busyThreadNum = busy, idleThreadNum = 1 - busy, aliveThreadNum = 1,
               isInitialized = True, isRunning = True\<rparr>,
      threads := [pc, WStart, WStart, WStart, WStart]\<rparr>"

definition demo_os_queued :: world where
  "demo_os_queued = demo_os\<lparr>calls := 11, brk := 6, parrs := [5 \<mapsto> demo_arr]\<rparr>"

definition demo_os_copied :: world where
  "demo_os_copied = demo_os_queued\<lparr>calls := 12, brk := 7, heap := [3 \<mapsto> [7, 8, 9]],
     mmaps := [6 \<mapsto> \<lparr>m_path = ''in'', m_off = 0, m_len = 3, m_shared = False\<rparr>]\<rparr>"

definition demo_os_done :: world where
  "demo_os_done = demo_os_copied\<lparr>mmaps := (\<lambda>_. None), fds := [Some tty, Some tty, Some tty, None]\<rparr>"

lemma demo_take:
  "run mmap_exec [EvWorker 0, EvWorker 0] (demo_queued st) =
     Some (demo_at (WGot (Addr 4)) 0 3 st demo_os_queued)"
proof -
  let ?s1 = "(demo_queued st)\<lparr>pinfo := \<lparr>maxThreadIdx = 1, busyThreadNum = 0, idleThreadNum = 1,
      aliveThreadNum = 1, isInitialized = True, isRunning = True\<rparr>,
      threads := [WAcquire, WStart, WStart, WStart, WStart]\<rparr>"
  have e1: "mmap_exec (EvWorker 0) (demo_queued st) = Some (Inr ?s1)"
    by (simp add: worker_step_def demo_queued_def demo_prepared_def count_alive_def set_thread_def)
  have "acquire_task ?s1 = Some (Inr (Addr 4, ?s1\<lparr>tqueue := (tqueue ?s1)\<lparr>q_head := 1, q_todoCnt := 0\<rparr>\<rparr>))"
    by (simp add: acquire_task_def Let_def arr_get_def demo_queued_def demo_arr_def)
  then have e2: "mmap_exec (EvWorker 0) ?s1 = Some (Inr (demo_at (WGot (Addr 4)) 0 3 st demo_os_queued))"
    by (simp add: worker_step_def set_thread_def demo_at_def demo_queued_def demo_os_queued_def
        demo_prepared_def demo_request_def)
  show ?thesis unfolding run.simps by (simp only: e1 e2 option.case sum.case)
qed

lemma demo_at_simps [simp]:
  "threads (demo_at pc b fd st w) = [pc, WStart, WStart, WStart, WStart]"
  "os (demo_at pc b fd st w) = w" "tasks (demo_at pc b fd st w) = [4 \<mapsto> demo_task]"
  "requests (demo_at pc b fd st w) = [2 \<mapsto> demo_request\<lparr>r_status := st, r_fd := fd\<rparr>]"
  "q_todoCnt (tqueue (demo_at pc b fd st w)) = 0"
  by (simp_all add: demo_at_def demo_queued_def)

lemma demo_call [simp]: "task_call (Addr 4) (demo_at pc b fd st w) = Inr (FnMmapRead, Addr 2)"
  by (simp add: task_call_def demo_task_def)

lemma demo_req [simp]:
  "get_req (Addr 2) (demo_at pc b fd st w) = Inr (demo_request\<lparr>r_status := st, r_fd := fd\<rparr>)"
  by (simp add: get_req_def)

text \<open>The steps of thread 0 through the task.\<close>

lemma demo_mark:
  "run mmap_exec [EvWorker 0, EvWorker 0] (demo_at (WGot (Addr 4)) 0 3 st w) =
     Some (demo_at (WEnter (Addr 4)) 1 3 st w)"
proof -
  have e1: "mmap_exec (EvWorker 0) (demo_at (WGot (Addr 4)) 0 3 st w) =
      Some (Inr (demo_at (WMark (Addr 4)) 0 3 st w))"
    by (simp add: worker_step_def) (simp add: demo_at_def demo_task_def set_thread_def)
  have e2: "mmap_exec (EvWorker 0) (demo_at (WMark (Addr 4)) 0 3 st w) =
      Some (Inr (demo_at (WEnter (Addr 4)) 1 3 st w))"
    by (simp add: worker_step_def) (simp add: demo_at_def count_busy_def set_thread_def)
  show ?thesis unfolding run.simps by (simp only: e1 e2 option.case sum.case)
qed

lemma demo_set_thread [simp]: "set_thread 0 pc (demo_at pc' b fd st w) = demo_at pc b fd st w"
  by (simp add: demo_at_def set_thread_def)

lemma demo_enter:
  assumes "st \<noteq> REQUEST_STAT_CANCEL"
  shows "mmap_exec (EvWorker 0) (demo_at (WEnter (Addr 4)) 1 3 st w) =
     Some (Inr (demo_at (WIo (Addr 4)) 1 3 st w))"
  using assms by (simp add: worker_step_def mmapRead_enter_def)

lemma demo_map:
  "sys_mmap 3 False 3 0 demo_os_queued =
     (Addr 6, demo_os_copied\<lparr>heap := heap demo_os_queued\<rparr>)"
  by (simp add: sys_mmap_def ask_def Let_def fd_lookup_def fd_at_def can_read_def demo_os_queued_def
      demo_os_def demo_os_copied_def fun_eq_iff)

lemma demo_copy:
  "c_memcpy (Addr 3) (Addr 6) 3 (demo_os_copied\<lparr>heap := heap demo_os_queued\<rparr>) = Inr demo_os_copied"
proof -
  have "mem_load (Addr 6) 3 (demo_os_copied\<lparr>heap := heap demo_os_queued\<rparr>) = Inr [7, 8, 9]"
    by (simp add: mem_load_def demo_os_copied_def demo_os_queued_def demo_os_def demo_file_def
        page_ceil_def PAGE_def file_bytes_def)
  then show ?thesis
    by (simp add: c_memcpy_def mem_store_def demo_os_copied_def demo_os_queued_def demo_os_def
        overwrite_def fun_eq_iff)
qed

lemma demo_at_os [simp]: "(demo_at pc b fd st w)\<lparr>os := w'\<rparr> = demo_at pc b fd st w'"
  by (simp add: demo_at_def)

lemma demo_read_io:
  "mmapRead_io (Addr 2) (demo_at pc 1 3 st demo_os_queued) =
     Inr (True, Addr 6, demo_at pc 1 3 st demo_os_copied)"
proof -
  have m: "retry_do (sys_mmap 3 False 3 0) (\<lambda>b. b = MapFailed) MAX_RETRY_TIMES 0 demo_os_queued =
      (Addr 6, demo_os_copied\<lparr>heap := heap demo_os_queued\<rparr>)"
    by (rule retry_do_good) (simp_all add: demo_map)
  show ?thesis by (simp add: mmapRead_io_def) (simp add: demo_request_def m demo_copy)
qed

lemma demo_read_record:
  "st \<noteq> REQUEST_STAT_CANCEL \<Longrightarrow> mmap_record_status (Addr 2) True (demo_at pc 1 3 st w) =
     Inr (demo_at pc 1 3 REQUEST_STAT_IOSUCCESS w)"
  by (simp add: mmap_record_status_def)
     (simp add: put_req_def demo_at_def demo_queued_def fun_eq_iff)

lemma demo_read_cleanup:
  "mmapRead_cleanup (Addr 2) (Addr 6) (demo_at pc 1 3 st demo_os_copied) =
     Inr (demo_at pc 1 (- 1) st demo_os_done)"
proof -
  let ?w = "demo_os_copied\<lparr>mmaps := (\<lambda>_. None)\<rparr>"
  have u: "snd (sys_munmap (Addr 6) 3 demo_os_copied) = ?w"
    by (simp add: sys_munmap_def demo_os_copied_def fun_eq_iff)
  have c: "snd (sys_close 3 ?w) = demo_os_done"
    by (simp add: sys_close_def fd_lookup_def fd_at_def demo_os_copied_def demo_os_queued_def
        demo_os_def demo_os_done_def)
  have "mmap_close_fd (Addr 2) (demo_at pc 1 3 st ?w) = Inr (demo_at pc 1 (- 1) st demo_os_done)"
    by (simp add: mmap_close_fd_def c) (simp add: put_req_def demo_at_def demo_queued_def fun_eq_iff)
  then show ?thesis by (simp add: mmapRead_cleanup_def) (simp add: demo_request_def u)
qed

lemma demo_read:
  "st \<noteq> REQUEST_STAT_CANCEL \<Longrightarrow> mmapRead (Addr 2) (demo_at pc 1 3 st demo_os_queued) =
     Inr (demo_at pc 1 (- 1) REQUEST_STAT_IOSUCCESS demo_os_done)"
  by (simp add: mmapRead_def mmapRead_enter_def demo_read_io demo_read_record demo_read_cleanup
      del: and_then_Inr_iff)

lemma demo_io:
  "mmap_exec (EvWorker 0) (demo_at (WIo (Addr 4)) 1 3 st demo_os_queued) =
     Some (Inr (demo_at (WStat (Addr 4) True (Addr 6)) 1 3 st demo_os_copied))"
  by (simp add: worker_step_def demo_read_io)

lemma demo_record:
  "st \<noteq> REQUEST_STAT_CANCEL \<Longrightarrow>
   mmap_exec (EvWorker 0) (demo_at (WStat (Addr 4) True (Addr 6)) 1 3 st w) =
     Some (Inr (demo_at (WClean (Addr 4) (Addr 6)) 1 3 REQUEST_STAT_IOSUCCESS w))"
  by (simp add: worker_step_def demo_read_record)

lemma demo_clean:
  "mmap_exec (EvWorker 0) (demo_at (WClean (Addr 4) (Addr 6)) 1 3 st demo_os_copied) =
     Some (Inr (demo_at WFinish 1 (- 1) st demo_os_done))"
  by (simp add: worker_step_def demo_read_cleanup)

lemma demo_work:
  "st \<noteq> REQUEST_STAT_CANCEL \<Longrightarrow>
   run mmap_exec ([EvWorker 0, EvWorker 0, EvWorker 0, EvWorker 0]) (demo_at (WEnter (Addr 4)) 1 3 st demo_os_queued) =
     Some (demo_at WFinish 1 (- 1) REQUEST_STAT_IOSUCCESS demo_os_done)"
  unfolding run.simps
  by (simp only: demo_enter demo_io demo_record demo_clean option.case sum.case simp_thms)

text \<open>The whole run, with the client's call in one piece, at four of its states.\<close>

definition demo_events :: "mmap_event list" where
  "demo_events = demo_prepare @ [EvPut (Addr 2)]"

lemma demo_events_run: "run mmap_exec demo_events (mmap_start demo_world) = Some demo_submitted"
  by (simp add: demo_events_def run_append demo_prepare_run only_state_def demo_put
      del: and_then_Inr_iff)

lemma demo_timely:
  "timely_run demo_world demo_events demo_submitted"
  "timely_run demo_world (demo_events @ [EvWorker 0, EvWorker 0])
     (demo_at (WGot (Addr 4)) 0 3 REQUEST_STAT_SUBMITTED demo_os_queued)"
  "timely_run demo_world (demo_events @ [EvWorker 0, EvWorker 0] @ [EvWorker 0, EvWorker 0])
     (demo_at (WEnter (Addr 4)) 1 3 REQUEST_STAT_SUBMITTED demo_os_queued)"
  "timely_run demo_world
     (demo_events @ [EvWorker 0, EvWorker 0] @ [EvWorker 0, EvWorker 0] @ [EvWorker 0, EvWorker 0, EvWorker 0, EvWorker 0])
     (demo_at WFinish 1 (- 1) REQUEST_STAT_IOSUCCESS demo_os_done)"
  by (rule timely_runI; (unfold run_append demo_events_run demo_take demo_mark option.case
        demo_work [OF request_stat.distinct(15)])?;
      simp add: demo_events_def demo_prepare_def LIST_LIMIT_def)+

text \<open>Then the pool is told to stop, and thread 0 leaves with the first sentinel (task 7).\<close>

definition demo_close :: "mmap_event list" where
  "demo_close = [EvWorker 0, EvStop, EvSentinel, EvWorker 0, EvWorker 0]"

definition demo_os_closed :: world where
  "demo_os_closed = demo_os_done\<lparr>calls := 13, brk := 8,
     parrs := [5 \<mapsto> \<lparr>a_len = 1024, a_at = [0 \<mapsto> Addr 4, 1 \<mapsto> Addr 7]\<rparr>]\<rparr>"

definition demo_closing :: "wpc \<Rightarrow> u32 \<Rightarrow> mmap_sys" where
  "demo_closing pc k = (demo_at pc 0 (- 1) REQUEST_STAT_IOSUCCESS demo_os_closed)
     \<lparr>tasks := [4 \<mapsto> demo_task, 7 \<mapsto> sentinel_task],
      tqueue := \<lparr>request_queue = Addr 5, q_head = k, q_tail = 2, q_todoCnt = 2 - k, q_totoalCnt = 2\<rparr>,
      pinfo := \<lparr>maxThreadIdx = 1, busyThreadNum = 0, idleThreadNum = 1, aliveThreadNum = 1,
               isInitialized = True, isRunning = False\<rparr>\<rparr>"

abbreviation demo_closed :: mmap_sys where "demo_closed \<equiv> demo_closing WExit 2"

lemma demo_sentinel:
  "submit_new_task sentinel_task
     (set_running False (demo_at WAcquire 0 (- 1) REQUEST_STAT_IOSUCCESS demo_os_done)) =
   Inr (RET_OK, demo_closing WAcquire 1)"
proof -
  let ?t = "set_running False (demo_at WAcquire 0 (- 1) REQUEST_STAT_IOSUCCESS demo_os_done)"
  let ?w = "demo_os_done\<lparr>calls := 13, brk := 8\<rparr>"
  let ?s = "?t\<lparr>os := ?w, tasks := [4 \<mapsto> demo_task, 7 \<mapsto> sentinel_task]\<rparr>"
  have g: "grow_queue ?s = Inr (RET_OK, ?s)"
    by (simp add: grow_queue_def Let_def demo_at_def set_running_def REQ_LIST_BUFSIZE_def)
  have a: "arr_set (Addr 5) 1 (Addr 7) ?w = Inr demo_os_closed"
    by (simp add: arr_set_def demo_os_done_def demo_os_copied_def demo_os_queued_def
        demo_os_closed_def demo_arr_def fun_eq_iff)
  have e: "enqueue_task (Addr 7) ?s = Inr (RET_OK, demo_closing WAcquire 1)"
    unfolding enqueue_task_def g using a
    by (simp add: demo_at_def set_running_def demo_closing_def demo_queued_def)
  have d: "deref (tasks ?s) (Addr 7) = Inr sentinel_task" "\<not> isRunning (pinfo ?s)"
    "t_is_sentinel sentinel_task"
    by (simp_all add: sentinel_task_def set_running_def)
  have "thread_pool_submit (Addr 7) ?s = Inr (RET_OK, demo_closing WAcquire 1)"
    unfolding thread_pool_submit_def d(1) using d(2,3) e by simp
  moreover have "c_new (os ?t) = (Addr 7, ?w)"
    by (simp add: c_new_def ask_def fresh_addr_def set_running_def demo_os_done_def demo_os_copied_def
        demo_os_queued_def demo_os_def)
  moreover have "tasks ?t = [4 \<mapsto> demo_task]" by (simp add: set_running_def)
  ultimately show ?thesis by (simp add: submit_new_task_def)
qed

lemma demo_close_run:
  "run mmap_exec demo_close (demo_at WFinish 1 (- 1) REQUEST_STAT_IOSUCCESS demo_os_done) = Some demo_closed"
proof -
  let ?s = "\<lambda>pc b. demo_at pc b (- 1) REQUEST_STAT_IOSUCCESS demo_os_done"
  have e1: "mmap_exec (EvWorker 0) (?s WFinish 1) = Some (Inr (?s WAcquire 0))"
    by (simp add: worker_step_def) (simp add: demo_at_def count_idle_def set_thread_def)
  have e2: "mmap_exec EvStop (?s WAcquire 0) = Some (Inr (set_running False (?s WAcquire 0)))" by simp
  have e3: "mmap_exec EvSentinel (set_running False (?s WAcquire 0)) = Some (Inr (demo_closing WAcquire 1))"
    by (simp add: only_state_def demo_sentinel del: and_then_Inr_iff)
  have "acquire_task (demo_closing WAcquire 1) = Some (Inr (Addr 7, demo_closing WAcquire 2))"
    by (simp add: acquire_task_def Let_def arr_get_def demo_closing_def demo_os_closed_def)
  then have e4: "mmap_exec (EvWorker 0) (demo_closing WAcquire 1) =
      Some (Inr (demo_closing (WGot (Addr 7)) 2))"
    by (simp add: worker_step_def) (simp add: demo_closing_def demo_at_def set_thread_def)
  have e5: "mmap_exec (EvWorker 0) (demo_closing (WGot (Addr 7)) 2) = Some (Inr demo_closed)"
    by (simp add: worker_step_def demo_closing_def sentinel_task_def demo_at_def set_thread_def)
  show ?thesis unfolding demo_close_def run.simps
    by (simp only: e1 e2 e3 e4 e5 option.case sum.case)
qed

definition demo_whole :: "mmap_event list" where
  "demo_whole = demo_events @ [EvWorker 0, EvWorker 0] @ [EvWorker 0, EvWorker 0] @
     [EvWorker 0, EvWorker 0, EvWorker 0, EvWorker 0] @ demo_close"

lemma demo_whole_timely: "timely_run demo_world demo_whole demo_closed"
  by (rule timely_runI; (unfold demo_whole_def run_append demo_events_run demo_take demo_mark option.case
        demo_work [OF request_stat.distinct(15)] demo_close_run)?;
      simp add: demo_events_def demo_prepare_def demo_close_def LIST_LIMIT_def)

text \<open>One more sentinel, which stays in the queue.\<close>

definition demo_os_left :: world where
  "demo_os_left = demo_os_closed\<lparr>calls := 14, brk := 9,
     parrs := [5 \<mapsto> \<lparr>a_len = 1024, a_at = [0 \<mapsto> Addr 4, 1 \<mapsto> Addr 7, 2 \<mapsto> Addr 8]\<rparr>]\<rparr>"

definition demo_left :: mmap_sys where
  "demo_left = demo_closed
     \<lparr>os := demo_os_left, tasks := [4 \<mapsto> demo_task, 7 \<mapsto> sentinel_task, 8 \<mapsto> sentinel_task],
      tqueue := \<lparr>request_queue = Addr 5, q_head = 2, q_tail = 3, q_todoCnt = 1, q_totoalCnt = 3\<rparr>\<rparr>"

lemma demo_last_sentinel: "submit_new_task sentinel_task demo_closed = Inr (RET_OK, demo_left)"
proof -
  let ?w = "demo_os_closed\<lparr>calls := 14, brk := 9\<rparr>"
  let ?s = "demo_closed\<lparr>os := ?w, tasks := [4 \<mapsto> demo_task, 7 \<mapsto> sentinel_task, 8 \<mapsto> sentinel_task]\<rparr>"
  have g: "grow_queue ?s = Inr (RET_OK, ?s)"
    by (simp add: grow_queue_def Let_def demo_closing_def REQ_LIST_BUFSIZE_def)
  have a: "arr_set (Addr 5) 2 (Addr 8) ?w = Inr demo_os_left"
    by (simp add: arr_set_def demo_os_left_def demo_os_closed_def fun_eq_iff)
  have e: "enqueue_task (Addr 8) ?s = Inr (RET_OK, demo_left)"
    unfolding enqueue_task_def g using a by (simp add: demo_left_def demo_closing_def)
  have d: "deref (tasks ?s) (Addr 8) = Inr sentinel_task" "\<not> isRunning (pinfo ?s)"
    "t_is_sentinel sentinel_task"
    by (simp_all add: sentinel_task_def demo_closing_def)
  have "thread_pool_submit (Addr 8) ?s = Inr (RET_OK, demo_left)"
    unfolding thread_pool_submit_def d(1) using d(2,3) e by simp
  moreover have "c_new (os demo_closed) = (Addr 8, ?w)"
    by (simp add: c_new_def ask_def fresh_addr_def demo_closing_def demo_at_def demo_os_closed_def
        demo_os_done_def demo_os_copied_def demo_os_queued_def demo_os_def)
  moreover have "tasks demo_closed = [4 \<mapsto> demo_task, 7 \<mapsto> sentinel_task]"
    by (simp add: demo_closing_def)
  ultimately show ?thesis by (simp add: submit_new_task_def)
qed

lemma demo_left_timely: "timely_run demo_world (demo_whole @ [EvSentinel]) demo_left"
proof (rule timely_run_more [OF demo_whole_timely])
  show "run timely [EvSentinel] demo_closed = Some demo_left"
    by (simp add: timely_def only_state_def demo_last_sentinel del: and_then_Inr_iff)
  show "length (demo_whole @ [EvSentinel]) \<le> LIST_LIMIT"
    by (simp add: demo_whole_def demo_events_def demo_prepare_def demo_close_def LIST_LIMIT_def)
qed

text \<open>
  The same submission with thread 0 in between: it takes the task before the state is stored, which
  is in time.
\<close>

definition demo_cut :: "mmap_event list" where
  "demo_cut = demo_prepare @ [EvPutSubmit (Addr 2)] @ [EvWorker 0, EvWorker 0] @ [EvPutFinish (Addr 2) RET_OK]"

lemma demo_cut_timely:
  "timely_run demo_world demo_cut (demo_at (WGot (Addr 4)) 0 3 REQUEST_STAT_SUBMITTED demo_os_queued)"
proof -
  let ?s = "\<lambda>st. demo_at (WGot (Addr 4)) 0 3 st demo_os_queued"
  have "list_all orderly demo_prepare" by (simp add: demo_prepare_def)
  then have p: "run timely demo_prepare (mmap_start demo_world) = Some demo_prepared"
    by (simp add: orderly_timely demo_prepare_run)
  have h: "run timely [EvPutSubmit (Addr 2)] demo_prepared = Some demo_half"
    by (simp add: timely_def only_state_def demo_put_submit del: and_then_Inr_iff)
  have "list_all orderly [EvWorker 0, EvWorker 0]" by simp
  then have t: "run timely [EvWorker 0, EvWorker 0] demo_half = Some (?s REQUEST_STAT_INIT)"
    by (simp only: orderly_timely demo_take)
  have "in_work (?s REQUEST_STAT_INIT) 2"
    unfolding in_work_def by (intro exI [of _ 0]) (simp add: demo_task_def)
  then have w: "awaits_outcome (Addr 2) (?s REQUEST_STAT_INIT)" by (simp add: awaits_outcome_def)
  have "mmap_put_finish (Addr 2) RET_OK (?s REQUEST_STAT_INIT) = Inr (RET_OK, ?s REQUEST_STAT_SUBMITTED)"
    by (simp add: mmap_put_finish_def) (simp add: put_req_def demo_at_def demo_queued_def fun_eq_iff)
  with w have f: "run timely [EvPutFinish (Addr 2) RET_OK] (?s REQUEST_STAT_INIT) = Some (?s REQUEST_STAT_SUBMITTED)"
    by (simp add: timely_def only_state_def del: and_then_Inr_iff)
  show ?thesis unfolding timely_run_def demo_cut_def run_append p h t f option.case
    by (simp add: demo_prepare_def LIST_LIMIT_def)
qed

end
