(* ===== verification/Mmap_Safety.thy ===== *)
theory Mmap_Safety
  imports Mmap_Demo
begin

text \<open>
  What the invariants say of every timely run: pool threads, timeout threads and clients are interleaved
  at their atomic actions, those of \<open>mmap_put_request\<close> included, and only its two races (\<open>in_time\<close>) are
  left out. A submitted request always has a task on the way, some pool thread can always go on until
  it is settled, and a client that waits for it gets an answer after a bounded number of steps of the
  pool. Then the safety properties: no task is worked on twice, no thread leaves work behind, and what a
  pool thread can fault on; and the counters, with what the unlocked decrements do to them.
\<close>

section \<open>Some thread can go on\<close>

lemma in_work_step:
  assumes "in_work s p"
  shows "\<exists>i. worker_step i s \<noteq> None"
proof -
  from assms obtain i t where i: "i < length (threads s)" "unrecorded (threads s ! i) = Some t"
    unfolding in_work_def by blast
  then have "worker_at i (threads s ! i) s \<noteq> None" by (cases "threads s ! i") auto
  with i show ?thesis by (auto simp: worker_step_def)
qed

lemma not_sentinel_queued:
  assumes inv: "mmap_inv n s" and q: "queued_for s p" and k: "k < headn s"
  shows "\<not> sentinel_at s k"
proof
  assume sk: "sentinel_at s k"
  from q obtain j tk where j: "headn s \<le> j" "j < tailn s" "slot_task s j = Some tk" "t_argument tk = Addr p"
    unfolding queued_for_def by blast
  from inv have t: "tasks_inv s" by (simp add: mmap_inv_def)
  with sk k j have "sentinel_at s j" unfolding tasks_inv_def by (meson less_le_trans)
  moreover from t j obtain tk' where "slot_task s j = Some tk'" "task_wf s tk'"
    unfolding tasks_inv_def by blast
  ultimately show False using j by (auto simp: sentinel_at_def task_wf_def)
qed

lemma progress:
  assumes inv: "mmap_inv n s" and r: "requests s p = Some r" "r_status r = REQUEST_STAT_SUBMITTED"
    and i: "i < length (threads s)" "threads s ! i \<noteq> WNone"
  shows "\<exists>k. worker_step k s \<noteq> None"
proof -
  from inv r have "queued_for s p \<or> in_work s p" by (auto simp: mmap_inv_def status_inv_def)
  then show ?thesis
  proof
    assume q: "queued_for s p"
    have "threads s ! i \<noteq> WExit" "threads s ! i \<noteq> WJoined"
      using inv i not_sentinel_queued [OF inv q] unfolding mmap_inv_def threads_inv_def by blast+
    moreover have "q_todoCnt (tqueue s) \<noteq> 0"
      using inv q by (auto simp: mmap_inv_def tasks_inv_def queue_wf_def queued_for_def)
    ultimately have "worker_at i (threads s ! i) s \<noteq> None" using i
      by (cases "threads s ! i") (auto simp: acquire_task_None)
    with i show ?thesis by (auto simp: worker_step_def)
  qed (rule in_work_step)
qed

section \<open>The pool works its tasks off\<close>

text \<open>How many steps a thread has left with its task, and the pool with everything submitted.\<close>

fun steps_left :: "wpc \<Rightarrow> nat" where
  "steps_left WStart = 1"
| "steps_left (WGot t) = 7"
| "steps_left (WMark t) = 6"
| "steps_left (WEnter t) = 5"
| "steps_left (WIo t) = 4"
| "steps_left (WStat t b a) = 3"
| "steps_left (WClean t a) = 2"
| "steps_left WFinish = 1"
| "steps_left _ = 0"

definition pool_work :: "mmap_sys \<Rightarrow> nat" where
  "pool_work s = 8 * unat (q_todoCnt (tqueue s)) + sum_list (map steps_left (threads s))"

lemma sum_steps_update:
  "i < length xs \<Longrightarrow> sum_list (map steps_left (xs[i := pc])) + steps_left (xs ! i) =
     sum_list (map steps_left xs) + steps_left pc"
proof (induction xs arbitrary: i)
  case Nil
  then show ?case by simp
next
  case (Cons x xs)
  then show ?case by (cases i) auto
qed

lemma sum_steps_ge: "i < length xs \<Longrightarrow> steps_left (xs ! i) \<le> sum_list (map steps_left xs)"
  using member_le_sum_list [of "steps_left (xs ! i)" "map steps_left xs"] by simp

lemma step_needs_work:
  assumes "worker_step i s = Some m"
  shows "0 < pool_work s"
proof -
  from assms have i: "i < length (threads s)" and w: "worker_at i (threads s ! i) s = Some m"
    by (auto simp: worker_step_def split: if_splits)
  show ?thesis
  proof (cases "threads s ! i = WAcquire")
    case True
    with w have "q_todoCnt (tqueue s) \<noteq> 0" using acquire_task_None [of s] by auto
    then show ?thesis by (simp add: pool_work_def unat_gt_0)
  next
    case False
    with w have "0 < steps_left (threads s ! i)" by (cases "threads s ! i") auto
    with sum_steps_ge [OF i] show ?thesis by (simp add: pool_work_def)
  qed
qed

lemma moved_work:
  assumes "i < length (threads s)" "tqueue u = tqueue s" "threads u = threads s"
    "steps_left pc < steps_left (threads s ! i)"
  shows "pool_work (set_thread i pc u) < pool_work s"
  using assms sum_steps_update [OF assms(1), of pc] by (simp add: pool_work_def)

lemma worker_work:
  assumes wf: "queue_wf s" and st: "worker_step i s = Some (Inr s')"
  shows "pool_work s' < pool_work s"
proof -
  from st have i: "i < length (threads s)" and w: "worker_at i (threads s ! i) s = Some (Inr s')"
    by (auto simp: worker_step_def split: if_splits)
  have q: "quiet s u \<Longrightarrow> steps_left pc < steps_left (threads s ! i) \<Longrightarrow>
      pool_work (set_thread i pc u) < pool_work s" for u pc
    by (rule moved_work [OF i]) (simp_all add: quiet_same)
  have c: "s' = set_thread i pc u \<Longrightarrow> tqueue u = tqueue s \<Longrightarrow> threads u = threads s \<Longrightarrow>
      steps_left pc < steps_left (threads s ! i) \<Longrightarrow> pool_work s' < pool_work s" for u pc
    using moved_work [OF i] by blast
  show ?thesis
  proof (cases "threads s ! i")
    case WStart
    with w show ?thesis by (auto intro!: moved_work [OF i] simp: count_alive_def)
  next
    case WAcquire
    with w obtain t u where u: "acquire_task s = Some (Inr (t, u))" "s' = set_thread i (WGot t) u"
      by auto
    from acquire_task_spec [OF wf u(1)]
    have "unat (q_todoCnt (tqueue s)) = Suc (unat (q_todoCnt (tqueue u)))" "threads u = threads s"
      by (auto, metis mmap_sys.ext_inject mmap_sys.surjective mmap_sys.update_convs(4))
    with u WAcquire sum_steps_update [OF i, of "WGot t"] show ?thesis by (simp add: pool_work_def)
  next
    case (WGot t)
    with w show ?thesis by (auto split: if_splits intro!: q)
  next
    case (WMark t)
    with w show ?thesis by (auto intro!: moved_work [OF i] simp: count_busy_def)
  next
    case (WEnter t)
    with w obtain f p go u where "task_enter f p s = Inr (go, u)"
      "s' = set_thread i (if go then WIo t else WFinish) u" by auto
    with WEnter show ?thesis by (cases go) (auto intro!: q quiet_enter)
  next
    case (WIo t)
    with w show ?thesis by (auto intro!: q quiet_io)
  next
    case (WStat t ok a)
    with w show ?thesis by (auto intro!: q quiet_record)
  next
    case (WClean t a)
    with w show ?thesis by (auto intro!: q quiet_cleanup)
  next
    case WFinish
    with w show ?thesis by (auto intro!: moved_work [OF i] simp: count_idle_def)
  qed (use w in auto)
qed

lemma inv_wf: "mmap_inv n s \<Longrightarrow> queue_wf s"
  by (simp add: mmap_inv_def tasks_inv_def)

lemma workers_run:
  "mmap_inv n s \<Longrightarrow> run mmap_exec (map EvWorker is) s = Some t \<Longrightarrow>
   mmap_inv n t \<and> length is + pool_work t \<le> pool_work s"
proof (induction "is" arbitrary: s)
  case Nil
  then show ?case by simp
next
  case (Cons i "is")
  from Cons.prems(2) obtain u where u: "worker_step i s = Some (Inr u)"
    "run mmap_exec (map EvWorker is) u = Some t"
    by (auto split: option.splits sum.splits)
  from worker_inv [OF Cons.prems(1) u(1)] Cons.IH [OF _ u(2)]
    worker_work [OF inv_wf [OF Cons.prems(1)] u(1)] show ?case by fastforce
qed

text \<open>
  C1: in every timely run a request in state \<open>SUBMITTED\<close> has a task in the queue, or a pool thread holds a
  task of it and has not recorded the outcome yet. Pool threads, timeout threads and other clients may come
  in between any two actions of \<open>mmap_put_request\<close>; what a timely run leaves out are its two races: the state
  stored at line 451 after the outcome has been recorded (which does lose the completion, see
  \<open>interrupted_put_loses_the_completion\<close>), and the task put into the queue after the pool was stopped
  behind the test of \<open>isRunning\<close>.
\<close>
theorem submitted_request_is_served:
  assumes "timely_run w es s" "requests s p = Some r" "r_status r = REQUEST_STAT_SUBMITTED"
  shows "(\<exists>j tk. headn s \<le> j \<and> j < tailn s \<and> slot_task s j = Some tk \<and> t_argument tk = Addr p) \<or>
         (\<exists>i < length (threads s). \<exists>t tk. unrecorded (threads s ! i) = Some t \<and>
            deref (tasks s) t = Inr tk \<and> t_argument tk = Addr p)"
  using timely_run_inv [OF assms(1)] assms(2,3)
  unfolding mmap_inv_def status_inv_def queued_for_def in_work_def by blast

theorem submitted_request_is_served_witness:
  "let s = demo_at (WGot (Addr 4)) 0 3 REQUEST_STAT_SUBMITTED demo_os_queued
   in \<exists>i t tk. i < length (threads s) \<and> unrecorded (threads s ! i) = Some t \<and>
        deref (tasks s) t = Inr tk \<and> t_argument tk = Addr 2"
  (is "let s = ?s in _")
proof -
  have "headn ?s = 1" "tailn ?s = 1" by (simp_all add: demo_at_def)
  with submitted_request_is_served [OF demo_cut_timely, of 2] show ?thesis
    by (auto simp: Let_def simp del: demo_at_simps(1))
qed

text \<open>
  C2: after a timely run (clients' calls interrupted at will, short of the two races of C1), whatever the
  pool threads do next, they do it in a bounded number of steps (eight per queued task plus what is left
  of the tasks in hand), and when none of them can go on, no request is still \<open>SUBMITTED\<close>, if at least one
  thread could be created.
\<close>
theorem pool_completes:
  assumes "timely_run w es s" "run mmap_exec (map EvWorker is) s = Some t"
  shows "length is \<le> pool_work s \<and>
         ((\<forall>i. worker_step i t = None) \<and> (\<exists>i < length (threads t). threads t ! i \<noteq> WNone) \<longrightarrow>
          (\<forall>p r. requests t p = Some r \<longrightarrow> r_status r \<noteq> REQUEST_STAT_SUBMITTED))"
  using workers_run [OF timely_run_inv [OF assms(1)] assms(2)] progress by fastforce

theorem pool_completes_witness:
  "length [0, 0 :: nat] \<le> pool_work demo_submitted"
proof -
  have "run mmap_exec (map EvWorker [0, 0]) demo_submitted =
      Some (demo_at (WGot (Addr 4)) 0 3 REQUEST_STAT_SUBMITTED demo_os_queued)"
    using demo_take by (simp del: run.simps)
  from pool_completes [OF demo_timely(1) this] show ?thesis by blast
qed

section \<open>Waiting ends\<close>

text \<open>One round: every pool thread gets the chance of a step.\<close>

definition pool_round :: "mmap_event list" where
  "pool_round = map EvWorker [0..<THREAD_POOL_SIZE]"

definition some_thread :: "mmap_sys \<Rightarrow> bool" where
  "some_thread s \<longleftrightarrow> (\<exists>i < length (threads s). threads s ! i \<noteq> WNone)"

lemma acquire_threads: "acquire_task s = Some (Inr (t, u)) \<Longrightarrow> threads u = threads s"
  by (auto simp: acquire_task_def Let_def split: if_splits)

lemma worker_some_thread:
  assumes "worker_step i s = Some (Inr s')" "some_thread s"
  shows "some_thread s'"
proof -
  from assms(1) have i: "i < length (threads s)" and w: "worker_at i (threads s ! i) s = Some (Inr s')"
    by (auto simp: worker_step_def split: if_splits)
  have "length (threads s') = length (threads s) \<and> threads s' ! i \<noteq> WNone"
    using i w by (cases "threads s ! i")
      (auto simp: count_alive_def count_busy_def count_idle_def dest!: acquire_threads quiet_enter
         quiet_io quiet_record quiet_cleanup quiet_same(5) split: if_splits)
  with i show ?thesis unfolding some_thread_def by metis
qed

lemma worker_requests:
  assumes "worker_step i s = Some (Inr s')" "requests s a \<noteq> None"
  shows "requests s' a \<noteq> None"
proof -
  from assms(1) have i: "i < length (threads s)" and w: "worker_at i (threads s ! i) s = Some (Inr s')"
    by (auto simp: worker_step_def split: if_splits)
  then show ?thesis using assms(2) by (cases "threads s ! i")
      (auto simp: count_alive_def count_busy_def count_idle_def acquire_task_def Let_def
         dest!: quiet_enter quiet_io quiet_record quiet_cleanup dest: quiet_requests(1) split: if_splits)
qed

text \<open>What is known while a client waits for request \<open>a\<close>.\<close>

definition waiting :: "nat \<Rightarrow> nat \<Rightarrow> mmap_sys \<Rightarrow> bool" where
  "waiting n a s \<longleftrightarrow> mmap_inv n s \<and> some_thread s \<and> requests s a \<noteq> None"

lemma waiting_step: "waiting n a s \<Longrightarrow> worker_step i s = Some (Inr s') \<Longrightarrow> waiting n a s'"
  unfolding waiting_def using worker_inv worker_some_thread worker_requests by blast

lemma wait_round:
  "waiting n a s \<Longrightarrow> wait_status (Addr a) (map EvWorker is @ rest) s = None \<Longrightarrow>
   \<exists>s'. waiting n a s' \<and> wait_status (Addr a) rest s' = None \<and>
        (s' = s \<and> (\<forall>i \<in> set is. worker_step i s = None) \<or> pool_work s' < pool_work s)"
proof (induction "is" arbitrary: s)
  case Nil
  then show ?case by auto
next
  case (Cons i "is")
  show ?case
  proof (cases "worker_step i s")
    case None
    with Cons.prems have "wait_status (Addr a) (map EvWorker is @ rest) s = None"
      by (subst (asm) wait_status.simps) (auto split: sum.splits if_splits)
    from Cons.IH [OF Cons.prems(1) this] None show ?thesis by auto
  next
    case (Some m)
    with Cons.prems obtain s' where s': "m = Inr s'"
      "wait_status (Addr a) (map EvWorker is @ rest) s' = None"
      by (subst (asm) wait_status.simps) (auto split: sum.splits if_splits)
    with Some Cons.prems(1) have w: "waiting n a s'" and lt: "pool_work s' < pool_work s"
      using waiting_step worker_work inv_wf unfolding waiting_def by blast+
    from Cons.IH [OF w s'(2)] lt show ?thesis by (meson less_trans)
  qed
qed

lemma wait_None_submitted:
  "wait_status (Addr a) sch s = None \<Longrightarrow> \<exists>r. requests s a = Some r \<and> r_status r = REQUEST_STAT_SUBMITTED"
  by (subst (asm) wait_status.simps) (auto simp: get_req_Inr_iff split: sum.splits if_splits)

lemma wait_rounds:
  "waiting n a s \<Longrightarrow> pool_work s \<le> k \<Longrightarrow>
   wait_status (Addr a) (concat (replicate k pool_round)) s \<noteq> None"
proof (induction k arbitrary: s)
  case 0
  show ?case
  proof
    assume "wait_status (Addr a) (concat (replicate 0 pool_round)) s = None"
    from wait_None_submitted [OF this] 0 progress obtain i where "worker_step i s \<noteq> None"
      unfolding waiting_def some_thread_def by meson
    with step_needs_work 0(2) show False by fastforce
  qed
next
  case (Suc k)
  show ?case
  proof
    assume "wait_status (Addr a) (concat (replicate (Suc k) pool_round)) s = None"
    then have none: "wait_status (Addr a) (map EvWorker [0..<THREAD_POOL_SIZE] @
        concat (replicate k pool_round)) s = None"
      by (simp add: pool_round_def)
    from wait_None_submitted [OF none] Suc.prems(1) progress obtain i where
      i: "worker_step i s \<noteq> None" unfolding waiting_def some_thread_def by meson
    then have "i < length (threads s)" by (auto simp: worker_step_def split: if_splits)
    with Suc.prems(1) have "i \<in> set [0..<THREAD_POOL_SIZE]"
      by (simp add: waiting_def mmap_inv_def threads_inv_def)
    with wait_round [OF Suc.prems(1) none] i obtain s' where "waiting n a s'"
      "wait_status (Addr a) (concat (replicate k pool_round)) s' = None" "pool_work s' < pool_work s"
      by metis
    with Suc.IH [of s'] Suc.prems(2) show False by simp
  qed
qed

lemma wait_settled:
  "wait_status p sch s = Some (Inr (rest, s')) \<Longrightarrow>
   \<exists>r. get_req p s' = Inr r \<and> r_status r \<noteq> REQUEST_STAT_SUBMITTED"
proof (induction p sch s rule: wait_status.induct)
  case (1 p sch s)
  from 1(3) show ?case
    by (subst (asm) wait_status.simps)
       (auto split: sum.splits if_splits list.splits option.splits intro: 1(1) 1(2))
qed

lemma wait_request_submitted:
  assumes "get_req p s = Inr r" "r_isValid r" "r_status r = REQUEST_STAT_SUBMITTED" "0 < timeout_ms"
  shows "mmap_wait_request p timeout_ms sch s =
     map_option (\<lambda>m. and_then m (\<lambda>(es, s'). Inr (RET_OK, s'))) (wait_status p sch s)"
  using assms by (simp add: mmap_wait_request_def check_spec stat_range)



section \<open>Tasks and threads\<close>

text \<open>
  C24: in every timely run no task is worked on twice: two threads never hold the same task, every held task was taken
  from the front part of the queue, and the queue holds each task once.
\<close>
theorem tasks_are_exclusive:
  assumes "timely_run w es s"
  shows "(\<forall>i k t. i < length (threads s) \<and> k < length (threads s) \<and> i \<noteq> k \<and>
             held_task (threads s ! i) = Some t \<longrightarrow> held_task (threads s ! k) \<noteq> Some t) \<and>
         (\<forall>i t. i < length (threads s) \<and> held_task (threads s ! i) = Some t \<longrightarrow>
             (\<exists>j < headn s. slot s j = Some t) \<and> t \<notin> set (pending_tasks s)) \<and>
         distinct (pending_tasks s)"
proof (intro conjI allI impI; (elim conjE)?)
  note inv = timely_run_inv [OF assms]
  have wf: "queue_wf s" and inj: "inj_on (slot s) {..<tailn s}"
    using inv by (simp_all add: mmap_inv_def tasks_inv_def)
  have sl: "slot s j = Some (the (slot s j))" if "j < tailn s" for j
    using wf that by (auto simp: queue_wf_def)
  show "held_task (threads s ! k) \<noteq> Some t" if "i < length (threads s)" "k < length (threads s)" "i \<noteq> k"
    "held_task (threads s ! i) = Some t" for i k t
    using inv that unfolding mmap_inv_def threads_inv_def by blast
  show "\<exists>j < headn s. slot s j = Some t" if "i < length (threads s)" "held_task (threads s ! i) = Some t"
    for i t using inv that unfolding mmap_inv_def threads_inv_def by blast
  show "t \<notin> set (pending_tasks s)" if "i < length (threads s)" "held_task (threads s ! i) = Some t" for i t
  proof
    assume "t \<in> set (pending_tasks s)"
    then obtain k where k: "headn s \<le> k" "k < tailn s" "slot s k = Some t"
      using sl by (auto simp: pending_tasks_def)
    with that inj obtain j where "j < headn s" "slot s j = Some t"
      using inv unfolding mmap_inv_def threads_inv_def by blast
    with k inj show False by (auto dest!: inj_onD [where x = j and y = k])
  qed
  have "inj_on (\<lambda>j. the (slot s j)) {headn s..<tailn s}"
  proof (rule inj_onI)
    fix x y assume "x \<in> {headn s..<tailn s}" "y \<in> {headn s..<tailn s}" "the (slot s x) = the (slot s y)"
    with sl [of x] sl [of y] inj show "x = y" by (auto dest: inj_onD)
  qed
  then show "distinct (pending_tasks s)" by (simp add: pending_tasks_def distinct_map)
qed

theorem tasks_are_exclusive_witness:
  "let s = demo_at (WGot (Addr 4)) 0 3 REQUEST_STAT_SUBMITTED demo_os_queued
   in Addr 4 \<notin> set (pending_tasks s) \<and> distinct (pending_tasks s)"
proof -
  let ?s = "demo_at (WGot (Addr 4)) 0 3 REQUEST_STAT_SUBMITTED demo_os_queued"
  have "0 < length (threads ?s)" "held_task (threads ?s ! 0) = Some (Addr 4)" by simp_all
  with tasks_are_exclusive [OF demo_timely(2)] show ?thesis unfolding Let_def by blast
qed

text \<open>
  C25: in a timely run closing the pool loses nothing: once a pool thread has left its loop, every task that
  is still queued is a sentinel, and once all created threads have, no request is \<open>SUBMITTED\<close>. A timely run
  leaves out the two races of a submission that is interrupted: the task put into the queue after the pool
  was stopped (the test of \<open>isRunning\<close> at lines 209-210 holds no lock, and then the task does land behind
  the sentinels), and the state stored after the outcome was recorded.
\<close>
theorem closing_drains_the_queue:
  assumes "timely_run w es s" "i < length (threads s)" "threads s ! i = WExit \<or> threads s ! i = WJoined"
  shows "(\<forall>j. headn s \<le> j \<and> j < tailn s \<longrightarrow> sentinel_at s j) \<and>
         ((\<forall>k < length (threads s). threads s ! k \<in> {WExit, WJoined, WNone}) \<longrightarrow>
          (\<forall>p r. requests s p = Some r \<longrightarrow> r_status r \<noteq> REQUEST_STAT_SUBMITTED))"
proof -
  note inv = timely_run_inv [OF assms(1)]
  from inv assms(2,3) obtain j0 where j0: "j0 < headn s" "sentinel_at s j0"
    unfolding mmap_inv_def threads_inv_def by blast
  with inv have s: "\<forall>j. headn s \<le> j \<and> j < tailn s \<longrightarrow> sentinel_at s j"
    unfolding mmap_inv_def tasks_inv_def by (meson less_le_trans)
  moreover have "r_status r \<noteq> REQUEST_STAT_SUBMITTED"
    if all: "\<forall>k < length (threads s). threads s ! k \<in> {WExit, WJoined, WNone}" and r: "requests s p = Some r"
    for p r
  proof
    assume "r_status r = REQUEST_STAT_SUBMITTED"
    with inv r have "queued_for s p \<or> in_work s p" by (auto simp: mmap_inv_def status_inv_def)
    moreover have "\<not> in_work s p"
    proof
      assume "in_work s p"
      then obtain k t where "k < length (threads s)" "unrecorded (threads s ! k) = Some t"
        unfolding in_work_def by blast
      moreover from this(1) all have "threads s ! k \<in> {WExit, WJoined, WNone}" by blast
      ultimately show False by auto
    qed
    ultimately show False using not_sentinel_queued [OF inv _ j0(1)] j0(2) by blast
  qed
  ultimately show ?thesis by blast
qed

theorem closing_drains_the_queue_witness:
  "headn demo_left = 2 \<and> tailn demo_left = 3 \<and> sentinel_at demo_left 2"
proof -
  have "0 < length (threads demo_left)" "threads demo_left ! 0 = WExit"
    "headn demo_left = 2" "tailn demo_left = 3"
    by (simp_all add: demo_left_def demo_closing_def)
  with closing_drains_the_queue [OF demo_left_timely, of 0] show ?thesis by simp
qed

section \<open>What a pool thread can fault on\<close>

lemma quiet_fault:
  assumes "get_req p s = Inr r" "quiet s s'"
  shows "\<exists>r'. get_req p s' = Inr r'"
  using assms quiet_requests(1) by (fastforce simp: get_req_Inr_iff)

lemma enter_no_fault: "get_req p s = Inr r \<Longrightarrow> task_enter f p s \<noteq> Inl e"
  by (cases f) (auto simp: mmapRead_enter_def mmapWrite_enter_def mmap_unmap_buf_def)

lemma record_no_fault: "get_req p s = Inr r \<Longrightarrow> mmap_record_status p ok s \<noteq> Inl e"
  by (simp add: mmap_record_status_def)

lemma close_no_fault: "get_req p s = Inr r \<Longrightarrow> mmap_close_fd p s \<noteq> Inl e"
  by (simp add: mmap_close_fd_def)

lemma cleanup_no_fault: "get_req p s = Inr r \<Longrightarrow> task_cleanup f p a s \<noteq> Inl e"
proof (cases f)
  case FnMmapRead
  moreover assume "get_req p s = Inr r"
  ultimately show ?thesis
    by (auto simp: mmapRead_cleanup_def mmap_close_fd_def get_req_def Let_def)
next
  case FnMmapWrite
  moreover assume r: "get_req p s = Inr r"
  moreover from r obtain b where "p = Addr b" by (auto simp: get_req_Inr_iff)
  ultimately show ?thesis
    by (auto simp: mmapWrite_cleanup_def mmap_unmap_buf_def mmap_close_fd_def and_then_Inl_iff)
qed

lemma io_fault:
  assumes "get_req p s = Inr r" "task_io f p s = Inl e"
  shows "f = FnMmapRead \<and> (\<exists>a w. c_memcpy (r_buf r) a (unat (r_nbytes r)) w = Inl e)"
  using assms by (cases f)
    (auto simp: mmapRead_io_def mmapWrite_io_def and_then_Inl_iff Let_def split: prod.splits if_splits)

text \<open>
  C19: in every timely run the pool threads never dereference a bad task or request: the one way a step of a pool thread
  faults is the copy of a read request's data into the buffer the client imported.
\<close>
theorem pool_thread_faults:
  assumes o: "timely_run w es s" and f: "worker_step i s = Some (Inl e)"
  shows "\<exists>t p r a v. threads s ! i = WIo t \<and> task_call t s = Inr (FnMmapRead, p) \<and>
           get_req p s = Inr r \<and> c_memcpy (r_buf r) a (unat (r_nbytes r)) v = Inl e"
proof -
  note inv = timely_run_inv [OF o]
  from f have i: "i < length (threads s)" and w: "worker_at i (threads s ! i) s = Some (Inl e)"
    by (auto simp: worker_step_def split: if_splits)
  have call: "\<exists>g p r. task_call t s = Inr (g, p) \<and> get_req p s = Inr r"
    if "held_task (threads s ! i) = Some t" "\<not> tests_sentinel (threads s ! i)" for t
    using held_call [OF inv i that] by (metis get_req_Inr_iff)
  show ?thesis
  proof (cases "threads s ! i")
    case WAcquire
    with w obtain m where "acquire_task s = Some m" "m = Inl e" by (auto simp: and_then_Inl_iff)
    with acquire_task_spec [OF inv_wf [OF inv]] show ?thesis by fastforce
  next
    case (WGot t)
    then obtain tk where "deref (tasks s) t = Inr tk"
      using held_task_wf [OF inv i, of t] by auto
    with WGot w show ?thesis by (auto split: if_splits)
  next
    case (WEnter t)
    with call [of t] w show ?thesis by (auto simp: and_then_Inl_iff dest: enter_no_fault)
  next
    case (WIo t)
    with call [of t] obtain g p r where c: "task_call t s = Inr (g, p)" "get_req p s = Inr r" by auto
    with WIo w have "task_io g p s = Inl e" by (auto simp: and_then_Inl_iff)
    from io_fault [OF c(2) this] c WIo show ?thesis by blast
  next
    case (WStat t ok a)
    with call [of t] w show ?thesis by (auto simp: and_then_Inl_iff dest: record_no_fault)
  next
    case (WClean t a)
    with call [of t] w show ?thesis by (auto simp: and_then_Inl_iff dest: cleanup_no_fault)
  qed (use w in auto)
qed

text \<open>The client replaces the buffer by a wild pointer while thread 0 is at work.\<close>

definition demo_wild :: mmap_sys where
  "demo_wild = (demo_at (WIo (Addr 4)) 1 3 REQUEST_STAT_SUBMITTED demo_os_queued)
     \<lparr>requests := [2 \<mapsto> demo_request\<lparr>r_status := REQUEST_STAT_SUBMITTED, r_buf := Addr 99\<rparr>]\<rparr>"

lemma demo_wild_run:
  "run mmap_exec [EvImport (Addr 2) (Addr 99), EvWorker 0]
     (demo_at (WEnter (Addr 4)) 1 3 REQUEST_STAT_SUBMITTED demo_os_queued) = Some demo_wild"
proof -
  let ?s = "demo_at (WEnter (Addr 4)) 1 3 REQUEST_STAT_SUBMITTED demo_os_queued"
  let ?t = "?s\<lparr>requests := [2 \<mapsto> demo_request\<lparr>r_status := REQUEST_STAT_SUBMITTED, r_buf := Addr 99\<rparr>]\<rparr>"
  have "get_req (Addr 2) ?s = Inr (demo_request\<lparr>r_status := REQUEST_STAT_SUBMITTED, r_fd := 3\<rparr>)"
    by simp
  then have e1: "mmap_exec (EvImport (Addr 2) (Addr 99)) ?s = Some (Inr ?t)"
    by (simp add: mmap_request_import_read_buffer_def check_spec only_state_def demo_request_def
        put_req_def demo_at_def)
  have e2: "mmap_exec (EvWorker 0) ?t = Some (Inr demo_wild)"
    by (simp add: worker_step_def task_call_def demo_task_def mmapRead_enter_def get_req_def
        demo_wild_def) (simp add: demo_at_def set_thread_def)
  show ?thesis unfolding run.simps by (simp only: e1 e2 option.case sum.case)
qed

lemma demo_wild_timely:
  "timely_run demo_world (demo_events @ [EvWorker 0, EvWorker 0] @ [EvWorker 0, EvWorker 0] @
     [EvImport (Addr 2) (Addr 99), EvWorker 0]) demo_wild"
  by (rule timely_runI; (unfold run_append demo_events_run demo_take demo_mark option.case demo_wild_run)?;
      simp add: demo_events_def demo_prepare_def LIST_LIMIT_def)

lemma demo_wild_fault: "worker_step 0 demo_wild = Some (Inl UseAfterFree)"
proof -
  have m: "retry_do (sys_mmap 3 False 3 0) (\<lambda>b. b = MapFailed) MAX_RETRY_TIMES 0 demo_os_queued =
      (Addr 6, demo_os_copied\<lparr>heap := heap demo_os_queued\<rparr>)"
    by (rule retry_do_good) (simp_all add: demo_map)
  have "c_memcpy (Addr 99) (Addr 6) 3 (demo_os_copied\<lparr>heap := heap demo_os_queued\<rparr>) = Inl UseAfterFree"
    by (simp add: c_memcpy_def mem_load_def mem_store_def demo_os_copied_def demo_os_queued_def
        demo_os_def demo_file_def page_ceil_def PAGE_def)
  with m have "mmapRead_io (Addr 2) demo_wild = Inl UseAfterFree"
    by (simp add: mmapRead_io_def get_req_def demo_wild_def demo_request_def)
  then show ?thesis
    by (simp add: worker_step_def task_call_def demo_wild_def demo_task_def)
qed

theorem pool_thread_faults_witness:
  "\<exists>r a v. get_req (Addr 2) demo_wild = Inr r \<and>
     c_memcpy (r_buf r) a (unat (r_nbytes r)) v = Inl UseAfterFree"
proof -
  have "task_call (Addr 4) demo_wild = Inr (FnMmapRead, Addr 2)" "threads demo_wild ! 0 = WIo (Addr 4)"
    by (simp_all add: demo_wild_def task_call_def demo_task_def)
  with pool_thread_faults [OF demo_wild_timely demo_wild_fault] show ?thesis by auto
qed

section \<open>The counters\<close>



text \<open>
  Thread 1 registers between the read and the store of the first decrement: its \<open>idleThreadNum++\<close> is lost,
  the counter is 0 although thread 1 is idle.
\<close>

lemma counters_drift:
  "\<exists>s s'. run mmap_exec (demo_whole @ [EvJoin 0]) (mmap_start demo_world) = Some s \<and>
     drop_counts [EvWorker 1, EvTurn, EvTurn] s = Inr ([], s') \<and> threads s' ! 1 = WAcquire \<and>
     filter registered (threads s') = [WAcquire] \<and>
     aliveThreadNum (pinfo s') = 1 \<and> busyThreadNum (pinfo s') = 0 \<and> idleThreadNum (pinfo s') = 0"
proof -
  let ?s = "set_thread 0 WJoined demo_closed"
  have "run mmap_exec demo_whole (mmap_start demo_world) = Some demo_closed"
    using demo_whole_timely timely_run_exec unfolding timely_run_def by blast
  moreover have "mmap_exec (EvJoin 0) demo_closed = Some (Inr ?s)"
    by (simp add: join_thread_def demo_closing_def)
  ultimately have r: "run mmap_exec (demo_whole @ [EvJoin 0]) (mmap_start demo_world) = Some ?s"
    by (simp add: run_append)
  have th: "threads ?s = [WJoined, WStart, WStart, WStart, WStart]"
    and pi: "pinfo ?s = \<lparr>maxThreadIdx = 1, busyThreadNum = 0, idleThreadNum = 1, aliveThreadNum = 1,
       isInitialized = True, isRunning = False\<rparr>"
    by (simp_all add: demo_closing_def demo_at_def set_thread_def demo_queued_def demo_prepared_def)
  have pc: "pinfo demo_closed = \<lparr>maxThreadIdx = 1, busyThreadNum = 0, idleThreadNum = 1, aliveThreadNum = 1,
       isInitialized = True, isRunning = False\<rparr>" by (simp add: demo_closing_def)
  have "mmap_exec (EvWorker 1) ?s = Some (Inr (set_thread 1 WAcquire (count_alive ?s)))"
    by (simp add: worker_step_def th del: set_thread_simps)
  then have "drop_counts [EvWorker 1, EvTurn, EvTurn] ?s =
      Inr ([], store_alive 2 (store_idle 1 (set_thread 1 WAcquire (count_alive ?s))))"
    by (simp add: drop_counts_def pi pc count_alive_def store_idle_def)
  moreover have "set_thread 1 WAcquire (count_alive ?s) =
    ?s\<lparr>threads := [WJoined, WAcquire, WStart, WStart, WStart], pinfo := \<lparr>maxThreadIdx = 2, busyThreadNum = 0,
       idleThreadNum = 2, aliveThreadNum = 2, isInitialized = True, isRunning = False\<rparr>\<rparr>"
    using th by (simp add: count_alive_def pc set_thread_def)
  ultimately show ?thesis using r by (auto simp: store_alive_def store_idle_def count_alive_def pc)
qed

end
