(* ===== verification/Mmap_Status.thy ===== *)
theory Mmap_Status
  imports Mmap_Safety
begin

text \<open>
  The life of a request of the mmap accessor as a state machine: for every event, which changes of a
  request's state it can make. From it: a cancelled request stays cancelled until the client prepares
  or submits it again, and what the waiting operations return.
\<close>

section \<open>Transitions\<close>

fun may_change :: "mmap_event \<Rightarrow> request_stat \<Rightarrow> request_stat \<Rightarrow> bool" where
  "may_change (EvWorker i) a b \<longleftrightarrow>
     a \<noteq> REQUEST_STAT_CANCEL \<and> (b = REQUEST_STAT_IOSUCCESS \<or> b = REQUEST_STAT_IOFAIL)"
| "may_change (EvTimeout p) a b \<longleftrightarrow> a = REQUEST_STAT_SUBMITTED \<and> b = REQUEST_STAT_CANCEL"
| "may_change (EvCancel p) a b \<longleftrightarrow> a = REQUEST_STAT_SUBMITTED \<and> b = REQUEST_STAT_CANCEL"
| "may_change (EvCancelOne p) a b \<longleftrightarrow> a = REQUEST_STAT_SUBMITTED \<and> b = REQUEST_STAT_CANCEL"
| "may_change (EvAlloc p) a b \<longleftrightarrow> b = REQUEST_STAT_IOFAIL"
| "may_change (EvImport p buf) a b \<longleftrightarrow> b = REQUEST_STAT_IOFAIL \<and> buf = Null"
| "may_change (EvPut p) a b \<longleftrightarrow> b = REQUEST_STAT_SUBMITTED \<or> b = REQUEST_STAT_CANCEL"
| "may_change (EvPutFinish p res) a b \<longleftrightarrow>
     b = (if res = RET_OK then REQUEST_STAT_SUBMITTED else REQUEST_STAT_CANCEL)"
| "may_change _ a b \<longleftrightarrow> False"

text \<open>\<open>R\<close> is what may happen to the state of a request, besides nothing.\<close>

definition req_step :: "(request_stat \<Rightarrow> request_stat \<Rightarrow> bool) \<Rightarrow> mmap_sys \<Rightarrow> mmap_sys \<Rightarrow> bool" where
  "req_step R s s' \<longleftrightarrow> (\<forall>a r. requests s a = Some r \<longrightarrow>
     (\<exists>r'. requests s' a = Some r' \<and> (r_status r' = r_status r \<or> R (r_status r) (r_status r')) \<and>
           r_info r' = r_info r))"

lemma req_step_same: "requests s' = requests s \<Longrightarrow> req_step R s s'"
  by (simp add: req_step_def)

lemma req_step_refl [simp]: "req_step R s s"
  by (simp add: req_step_def)

lemma req_step_put:
  assumes "get_req p s = Inr r" "r_status r' = r_status r \<or> R (r_status r) (r_status r')"
    "r_info r' = r_info r" "requests u = requests s"
  shows "req_step R s (put_req p r' u)"
  using assms by (auto simp: req_step_def put_req_def get_req_Inr_iff)

lemma req_step_comp:
  "req_step (\<lambda>a b. False) s t \<Longrightarrow> req_step R t u \<Longrightarrow> req_step R s u"
  unfolding req_step_def by (metis (lifting))

lemma req_step_comp':
  "req_step R s t \<Longrightarrow> requests u = requests t \<Longrightarrow> req_step R s u"
  by (simp add: req_step_def)

lemma req_step_pre:
  "req_step R t u \<Longrightarrow> requests t = requests s \<Longrightarrow> req_step R s u"
  by (simp add: req_step_def)

lemma req_step_mono:
  "req_step R s t \<Longrightarrow> (\<And>x y. R x y \<Longrightarrow> S x y) \<Longrightarrow> req_step S s t"
  unfolding req_step_def by (metis (lifting))

lemma check_step: "mmap_check_request_valid p s = Inr (res, s') \<Longrightarrow> req_step R s s'"
  by (erule check_cases) (auto intro: req_step_same req_step_put)

lemma after_check:
  "mmap_check_request_valid p s = Inr (res, s1) \<Longrightarrow> req_step R s1 s' \<Longrightarrow> req_step R s s'"
  by (rule req_step_comp [OF check_step])

lemma get_request_step:
  assumes "mmap_get_request ci s = Inr (res, p, s')" "tasks_inv s"
  shows "req_step R s s'"
  using assms(1)
proof (cases rule: get_request_cases)
  case (1 w1 r w)
  then have "requests s (brk (os s)) = None" using assms(2) by (auto simp: tasks_inv_def)
  with 1 show ?thesis by (auto simp: req_step_def put_req_def)
qed

lemma put_req_idle [simp]: "get_req p s = Inr r \<Longrightarrow> put_req p r s = s"
  by (auto simp: put_req_def get_req_Inr_iff fun_upd_idem)

lemma alloc_step:
  assumes a: "mmap_request_alloc_write_buffer p b0 s = Inr (res, b, s')"
  shows "req_step (\<lambda>x y. y = REQUEST_STAT_IOFAIL) s s'"
proof -
  from a obtain res0 s1 r0 where c: "mmap_check_request_valid p s = Inr (res0, s1)"
    and r0: "get_req p s1 = Inr r0"
    by (auto simp: mmap_request_alloc_write_buffer_def)
  show ?thesis
    by (rule after_check [OF c], use a c r0 in \<open>auto simp: mmap_request_alloc_write_buffer_def Let_def
        intro!: req_step_put split: if_splits prod.splits\<close>)
qed

lemma import_step:
  assumes a: "mmap_request_import_read_buffer p b s = Inr (res, s')"
  shows "req_step (\<lambda>x y. y = REQUEST_STAT_IOFAIL \<and> b = Null) s s'"
proof -
  from a obtain res0 s1 where c: "mmap_check_request_valid p s = Inr (res0, s1)"
    by (auto simp: mmap_request_import_read_buffer_def)
  show ?thesis
    by (rule after_check [OF c], use a c in \<open>auto simp: mmap_request_import_read_buffer_def
        intro!: req_step_put split: if_splits\<close>)
qed

lemma timeout_step:
  "timeout_region p s = Inr s' \<Longrightarrow>
   req_step (\<lambda>x y. x = REQUEST_STAT_SUBMITTED \<and> y = REQUEST_STAT_CANCEL) s s'"
  by (auto simp: timeout_region_def intro!: req_step_put split: if_splits)

lemma cancel_step:
  assumes a: "mmap_cancel_request p s = Inr (res, s')"
  shows "req_step (\<lambda>x y. x = REQUEST_STAT_SUBMITTED \<and> y = REQUEST_STAT_CANCEL) s s'"
proof -
  from a obtain res0 s1 where c: "mmap_check_request_valid p s = Inr (res0, s1)"
    by (auto simp: mmap_cancel_request_def)
  have st: "x \<noteq> REQUEST_STAT_INIT \<Longrightarrow> x \<noteq> REQUEST_STAT_CANCEL \<Longrightarrow> x \<noteq> REQUEST_STAT_MAX \<Longrightarrow>
      x \<noteq> REQUEST_STAT_IOSUCCESS \<Longrightarrow> x \<noteq> REQUEST_STAT_IOFAIL \<Longrightarrow> x = REQUEST_STAT_SUBMITTED" for x
    by (cases x) auto
  show ?thesis
    by (rule after_check [OF c], use a c in \<open>auto simp: mmap_cancel_request_def mmap_cancel_region_def
        stat_range intro!: req_step_put st split: if_splits\<close>)
qed

lemma submit_requests: "submit_new_task tk s = Inr (res, s') \<Longrightarrow> requests s' = requests s"
  by (auto simp: submit_new_task_def thread_pool_submit_def Let_def
      dest!: enqueue_task_frame split: prod.splits if_splits)

lemma put_submit_requests: "mmap_put_submit p s = Inr (res, s') \<Longrightarrow> requests s' = requests s"
  by (auto simp: mmap_put_submit_def dest: submit_requests)

lemma put_task_step: "mmap_put_task p s = Inr (res, t, s') \<Longrightarrow> req_step R s s'"
proof (erule put_task_cases)
  assume "mmap_check_request_valid p s = Inr (res, s')"
  then show ?thesis by (rule check_step)
next
  fix s1 r w assume c: "mmap_check_request_valid p s = Inr (RET_OK, s1)"
    and s': "s' = s1\<lparr>os := w, tasks := (tasks s1)(addr_of t := Some (request_task p r))\<rparr>"
  show ?thesis by (rule after_check [OF c]) (simp add: s' req_step_same)
qed

lemma put_finish_step:
  assumes "mmap_put_finish p res s = Inr (res', s')"
  shows "req_step (\<lambda>x y. y = (if res = RET_OK then REQUEST_STAT_SUBMITTED else REQUEST_STAT_CANCEL)) s s'"
proof -
  from assms obtain r where r: "get_req p s = Inr r" by (auto simp: mmap_put_finish_def)
  show ?thesis
  proof (cases "res = RET_OK")
    case True
    with assms r have "s' = put_req p (r\<lparr>r_status := REQUEST_STAT_SUBMITTED\<rparr>) s"
      by (simp add: mmap_put_finish_def)
    then show ?thesis using True by (simp add: req_step_put [OF r])
  next
    case False
    with assms r have "s' = put_req p (r\<lparr>r_status := REQUEST_STAT_CANCEL\<rparr>) (s\<lparr>os :=
        if r_isAlloced r then snd (sys_munmap (r_buf r) (unat (r_nbytes r)) (os s)) else os s\<rparr>)"
      by (simp add: mmap_put_finish_def Let_def)
    then show ?thesis using False by (simp add: req_step_put [OF r])
  qed
qed

lemma put_step:
  assumes a: "mmap_put_request p s = Inr (res, s')"
  shows "req_step (\<lambda>x y. y = REQUEST_STAT_SUBMITTED \<or> y = REQUEST_STAT_CANCEL) s s'"
proof -
  from a obtain res0 s1 where c: "mmap_check_request_valid p s = Inr (res0, s1)"
    by (auto simp: mmap_put_request_def)
  have "req_step (\<lambda>x y. y = REQUEST_STAT_SUBMITTED \<or> y = REQUEST_STAT_CANCEL) s1 s'"
  proof (cases "res0 = RET_OK")
    case True
    with a c obtain res2 s2 where p: "mmap_put_submit p s1 = Inr (res2, s2)"
      and f: "mmap_put_finish p res2 s2 = Inr (res, s')"
      by (auto simp: mmap_put_request_def)
    from req_step_pre [OF put_finish_step [OF f] put_submit_requests [OF p]] show ?thesis
      by (rule req_step_mono) (auto split: if_splits)
  next
    case False
    with a c show ?thesis by (auto simp: mmap_put_request_def intro: req_step_same)
  qed
  with c show ?thesis by (rule after_check)
qed

lemma unmap_step: "mmap_unmap_buf p s = Inr s' \<Longrightarrow> req_step R s s'"
  by (auto simp: mmap_unmap_buf_def intro!: req_step_put)

lemma close_step: "mmap_close_fd p s = Inr s' \<Longrightarrow> req_step R s s'"
  by (auto simp: mmap_close_fd_def intro!: req_step_put split: if_splits)

lemma enter_step: "task_enter f p s = Inr (go, s') \<Longrightarrow> req_step R s s'"
  by (cases f) (auto simp: mmapRead_enter_def mmapWrite_enter_def
      intro: req_step_same unmap_step split: if_splits)

lemma io_requests:
  assumes "task_io f p s = Inr (ok, a, s')"
  shows "requests s' = requests s"
proof (cases f)
  case FnMmapRead
  with assms have "mmapRead_io p s = Inr (ok, a, s')" by simp
  then show ?thesis by (cases rule: mmapRead_io_cases) auto
next
  case FnMmapWrite
  with assms have "mmapWrite_io p s = Inr (ok, a, s')" by simp
  then show ?thesis by (cases rule: mmapWrite_io_cases) auto
qed

lemma record_step:
  "mmap_record_status p ok s = Inr s' \<Longrightarrow>
   req_step (\<lambda>x y. x \<noteq> REQUEST_STAT_CANCEL \<and> (y = REQUEST_STAT_IOSUCCESS \<or> y = REQUEST_STAT_IOFAIL)) s s'"
proof -
  assume "mmap_record_status p ok s = Inr s'"
  then obtain r where r: "get_req p s = Inr r" "s' = put_req p (r\<lparr>r_status :=
      (if r_status r = REQUEST_STAT_CANCEL then r_status r
       else if ok then REQUEST_STAT_IOSUCCESS else REQUEST_STAT_IOFAIL)\<rparr>) s"
    by (auto simp: mmap_record_status_def)
  show ?thesis unfolding r(2) by (rule req_step_put [OF r(1)]) simp_all
qed

lemma cleanup_step: "task_cleanup f p a s = Inr s' \<Longrightarrow> req_step R s s'"
proof (cases f)
  case FnMmapRead
  assume "task_cleanup f p a s = Inr s'"
  with FnMmapRead obtain u where "mmap_close_fd p u = Inr s'" "requests u = requests s"
    by (auto simp: mmapRead_cleanup_def Let_def split: if_splits)
  from req_step_pre [OF close_step [OF this(1)] this(2)] show ?thesis .
next
  case FnMmapWrite
  assume "task_cleanup f p a s = Inr s'"
  with FnMmapWrite show ?thesis
    by (auto simp: mmapWrite_cleanup_def intro: req_step_comp [OF unmap_step close_step])
qed

text \<open>Only the step that records an outcome changes the state of a request.\<close>

lemma worker_silent_step:
  assumes "worker_step i s = Some (Inr s')" and n: "\<And>t ok a. threads s ! i \<noteq> WStat t ok a"
  shows "req_step R s s'"
proof -
  from assms(1) have w: "worker_at i (threads s ! i) s = Some (Inr s')"
    by (auto simp: worker_step_def split: if_splits)
  show ?thesis
  proof (cases "threads s ! i")
    case (WEnter t)
    with w obtain f p go u where "task_enter f p s = Inr (go, u)"
      "requests s' = requests u" by (auto split: if_splits)
    from req_step_comp' [OF enter_step [OF this(1)] this(2)] show ?thesis .
  next
    case (WStat t ok a)
    with n [of t ok a] show ?thesis by simp
  next
    case (WClean t a)
    with w obtain f p u where "task_cleanup f p a s = Inr u" "requests s' = requests u" by auto
    from req_step_comp' [OF cleanup_step [OF this(1)] this(2)] show ?thesis .
  qed (use w in \<open>auto simp: count_alive_def count_busy_def count_idle_def acquire_task_def Let_def
          intro!: req_step_same dest: io_requests split: if_splits\<close>)
qed

lemma worker_req_step:
  assumes "worker_step i s = Some (Inr s')"
  shows "req_step (may_change (EvWorker i)) s s'"
proof (cases "\<exists>t ok a. threads s ! i = WStat t ok a")
  case True
  with assms obtain p ok u where "mmap_record_status p ok s = Inr u" "requests s' = requests u"
    by (auto simp: worker_step_def split: if_splits)
  from req_step_comp' [OF record_step [OF this(1)] this(2)] show ?thesis
    by (rule req_step_mono) auto
next
  case False
  with worker_silent_step [OF assms] show ?thesis by blast
qed

lemma exec_req_step:
  assumes inv: "mmap_inv n s" and e: "mmap_exec e s = Some (Inr s')"
  shows "req_step (may_change e) s s'"
proof (cases e)
  case (EvWorker i)
  with e worker_req_step show ?thesis by simp
next
  case (EvTimeout p)
  with e show ?thesis by (auto intro: req_step_mono [OF timeout_step])
next
  case (EvGet ci)
  with e inv show ?thesis by (auto simp: mmap_inv_def intro: get_request_step)
next
  case (EvAlloc p)
  with e show ?thesis by (auto intro: req_step_mono [OF alloc_step])
next
  case (EvImport p b)
  with e show ?thesis by (auto simp: only_state_def intro: req_step_mono [OF import_step])
next
  case (EvPut p)
  with e show ?thesis by (auto simp: only_state_def intro: req_step_mono [OF put_step])
next
  case (EvPutSubmit p)
  with e show ?thesis by (auto simp: only_state_def dest!: put_submit_requests intro: req_step_same)
next
  case (EvPutTask p)
  with e show ?thesis by (auto intro: put_task_step)
next
  case (EvEnqueue t)
  with e show ?thesis by (auto simp: only_state_def dest!: enqueue_task_frame intro: req_step_same)
next
  case (EvPutFinish p res)
  with e show ?thesis by (auto simp: only_state_def intro: req_step_mono [OF put_finish_step])
next
  case (EvCancel p)
  with e show ?thesis by (auto simp: only_state_def intro: req_step_mono [OF cancel_step])
next
  case (EvCancelOne p)
  with e show ?thesis by (auto intro: req_step_mono [OF timeout_step])
next
  case EvSentinel
  with e show ?thesis by (auto simp: only_state_def dest!: submit_requests intro: req_step_same)
next
  case (EvJoin i)
  with e show ?thesis
    by (auto simp: join_thread_def intro!: req_step_same split: if_splits wpc.splits)
qed (use e in \<open>auto simp: set_running_def store_idle_def store_alive_def intro!: req_step_same\<close>)

lemma demo_cancel:
  "mmap_exec (EvCancel (Addr 2)) (demo_at pc b 3 REQUEST_STAT_SUBMITTED w) =
     Some (Inr (demo_at pc b 3 REQUEST_STAT_CANCEL w))"
proof -
  have "get_req (Addr 2) (demo_at pc b 3 REQUEST_STAT_SUBMITTED w) =
      Inr (demo_request\<lparr>r_status := REQUEST_STAT_SUBMITTED, r_fd := 3\<rparr>)" by simp
  then show ?thesis
    by (simp add: mmap_cancel_request_def mmap_cancel_region_def check_spec stat_range only_state_def
        demo_request_def put_req_def) (simp add: demo_at_def demo_queued_def demo_request_def fun_eq_iff)
qed

text \<open>
  C6: the states of a request form a state machine: after any timely run, for every event (in time or
  not, the parts of an interrupted submission included), a request that exists
  before it exists after it with the same description, and its state is the same or changed in
  the way the event allows. Pool threads only record outcomes and never touch a cancelled request;
  a timeout or a cancellation only turns \<open>SUBMITTED\<close> into \<open>CANCEL\<close>; only the client's own calls
  make a request fail to prepare or become submitted.
\<close>
theorem request_transitions:
  assumes o: "timely_run w es s" and e: "mmap_exec e s = Some (Inr s')" and r: "requests s a = Some r"
  shows "\<exists>r'. requests s' a = Some r' \<and> r_info r' = r_info r \<and>
           (r_status r' = r_status r \<or> may_change e (r_status r) (r_status r'))"
  using exec_req_step [OF timely_run_inv [OF o] e] r unfolding req_step_def by blast

theorem request_transitions_witness:
  "\<exists>r'. requests (demo_at (WGot (Addr 4)) 0 3 REQUEST_STAT_CANCEL demo_os_queued) 2 = Some r' \<and>
     may_change (EvCancel (Addr 2)) REQUEST_STAT_SUBMITTED (r_status r')"
  using request_transitions [OF demo_timely(2) demo_cancel, of 2] by auto

section \<open>Cancelled requests\<close>

text \<open>Events by which no client prepares or submits a request.\<close>

fun leaves_cancelled :: "mmap_event \<Rightarrow> bool" where
  "leaves_cancelled (EvAlloc p) = False"
| "leaves_cancelled (EvImport p b) = False"
| "leaves_cancelled (EvPut p) = False"
| "leaves_cancelled e = orderly e"

definition cancelled_kept :: "mmap_sys \<Rightarrow> mmap_sys \<Rightarrow> bool" where
  "cancelled_kept s s' \<longleftrightarrow> (\<forall>a r. requests s a = Some r \<longrightarrow> r_status r = REQUEST_STAT_CANCEL \<longrightarrow>
     (\<exists>r'. requests s' a = Some r' \<and> r_status r' = REQUEST_STAT_CANCEL))"

lemma leaves_orderly: "leaves_cancelled e \<Longrightarrow> orderly e"
  by (cases e) auto

lemma no_change_from_cancel:
  "leaves_cancelled e \<Longrightarrow> may_change e REQUEST_STAT_CANCEL b \<Longrightarrow> b = REQUEST_STAT_CANCEL"
  by (cases e) auto

interpretation mmap_cancel: step_preorder mmap_exec mmap_inv leaves_cancelled LIST_LIMIT cancelled_kept
proof unfold_locales
  show "mmap_inv (Suc n) s'" if "mmap_inv n s" "n < LIST_LIMIT" "leaves_cancelled e"
    "mmap_exec e s = Some (Inr s')" for n s e s'
    using that leaves_orderly orderly_in_time exec_inv by blast
  show "cancelled_kept s s" for s by (simp add: cancelled_kept_def)
  show "cancelled_kept s u" if "cancelled_kept s t" "cancelled_kept t u" for s t u
    using that unfolding cancelled_kept_def by blast
  show "cancelled_kept s s'" if "mmap_inv n s" "n < LIST_LIMIT" "leaves_cancelled e"
    "mmap_exec e s = Some (Inr s')" for n s e s'
    using exec_req_step [OF that(1,4)] no_change_from_cancel [OF that(3)]
    unfolding req_step_def cancelled_kept_def by metis
qed


lemma demo_cancelled_timely:
  "timely_run demo_world (demo_events @ [EvWorker 0, EvWorker 0] @ [EvCancel (Addr 2)])
     (demo_at (WGot (Addr 4)) 0 3 REQUEST_STAT_CANCEL demo_os_queued)"
proof -
  have "run mmap_exec [EvCancel (Addr 2)] (demo_at (WGot (Addr 4)) 0 3 REQUEST_STAT_SUBMITTED demo_os_queued) =
      Some (demo_at (WGot (Addr 4)) 0 3 REQUEST_STAT_CANCEL demo_os_queued)"
    unfolding run.simps by (simp only: demo_cancel option.case sum.case)
  then show ?thesis
    by (intro timely_runI; (unfold run_append demo_events_run demo_take option.case)?;
        simp add: demo_events_def demo_prepare_def LIST_LIMIT_def del: run.simps)
qed


end
