(* ===== verification/Mmap_Clients.thy ===== *)
theory Mmap_Clients
  imports Mmap_Status
begin

text \<open>
  What the client of the mmap accessor sees: the results of \<open>mmap_wait_request\<close>, the lost completion
  when a pool thread runs between the two halves of \<open>mmap_put_request\<close>, submission to a closing
  pool, and the operations on all requests, before and after the pool was released.
\<close>

section \<open>\<open>mmap_wait_request\<close>\<close>

text \<open>
  \<open>mmap_wait_request\<close> by the state of a valid request: one that was never submitted or is cancelled
  cannot be waited for; a finished one gives \<open>RET_OK\<close> at once, also when it failed; for a submitted
  one a timeout of 0 waits on a condition variable without holding its mutex, and any other
  timeout gives \<open>RET_OK\<close> once the request left \<open>SUBMITTED\<close>, whatever it became.
\<close>
theorem mmap_wait_request_results:
  assumes r: "get_req p s = Inr r" "r_isValid r"
  shows "(r_status r \<in> {REQUEST_STAT_INIT, REQUEST_STAT_CANCEL, REQUEST_STAT_MAX} \<longrightarrow>
            mmap_wait_request p t sch s = Some (Inr (RET_INVALID_OPERATION, s))) \<and>
         (r_status r \<in> {REQUEST_STAT_IOSUCCESS, REQUEST_STAT_IOFAIL} \<longrightarrow>
            mmap_wait_request p t sch s = Some (Inr (RET_OK, s))) \<and>
         (r_status r = REQUEST_STAT_SUBMITTED \<longrightarrow>
            mmap_wait_request p 0 sch s = Some (Inl CondNotLocked)) \<and>
         (r_status r = REQUEST_STAT_SUBMITTED \<longrightarrow> 0 < t \<longrightarrow>
            (\<forall>res s'. mmap_wait_request p t sch s = Some (Inr (res, s')) \<longrightarrow>
               res = RET_OK \<and> (\<exists>r'. get_req p s' = Inr r' \<and> r_status r' \<noteq> REQUEST_STAT_SUBMITTED)))"
proof (intro conjI impI allI)
  assume "r_status r \<in> {REQUEST_STAT_INIT, REQUEST_STAT_CANCEL, REQUEST_STAT_MAX}"
  with r show "mmap_wait_request p t sch s = Some (Inr (RET_INVALID_OPERATION, s))"
    by (auto simp: mmap_wait_request_def check_spec stat_range)
next
  assume "r_status r \<in> {REQUEST_STAT_IOSUCCESS, REQUEST_STAT_IOFAIL}"
  with r show "mmap_wait_request p t sch s = Some (Inr (RET_OK, s))"
    by (auto simp: mmap_wait_request_def check_spec stat_range)
next
  assume "r_status r = REQUEST_STAT_SUBMITTED"
  with r show "mmap_wait_request p 0 sch s = Some (Inl CondNotLocked)"
    by (simp add: mmap_wait_request_def check_spec stat_range)
next
  fix res s'
  assume "r_status r = REQUEST_STAT_SUBMITTED" "0 < t"
    and w: "mmap_wait_request p t sch s = Some (Inr (res, s'))"
  with r have eq: "mmap_wait_request p t sch s =
      map_option (\<lambda>m. and_then m (\<lambda>(es, s'). Inr (RET_OK, s'))) (wait_status p sch s)"
    by (intro wait_request_submitted)
  from w obtain es where "wait_status p sch s = Some (Inr (es, s'))" "res = RET_OK"
    unfolding eq by (auto split: sum.splits)
  with wait_settled show "res = RET_OK" "\<exists>r'. get_req p s' = Inr r' \<and> r_status r' \<noteq> REQUEST_STAT_SUBMITTED"
    by blast+
qed

theorem mmap_wait_request_results_witness:
  "mmap_wait_request (Addr 2) 0 [] demo_submitted = Some (Inl CondNotLocked) \<and>
   mmap_wait_request (Addr 2) 5 [] demo_prepared = Some (Inr (RET_INVALID_OPERATION, demo_prepared))"
proof -
  have "get_req (Addr 2) demo_submitted = Inr (demo_request\<lparr>r_status := REQUEST_STAT_SUBMITTED\<rparr>)"
    "get_req (Addr 2) demo_prepared = Inr demo_request"
    by (simp_all add: get_req_def demo_queued_def demo_prepared_def)
  from mmap_wait_request_results [OF this(1)] mmap_wait_request_results [OF this(2)] show ?thesis
    by (simp add: demo_request_def)
qed

text \<open>
  the timeout thread ends a wait: when it wakes up first, the request is cancelled and the wait
  returns, with \<open>RET_OK\<close>.
\<close>
theorem timeout_ends_the_wait:
  assumes r: "get_req p s = Inr r" "r_isValid r" "r_status r = REQUEST_STAT_SUBMITTED" and t: "0 < t"
  shows "mmap_wait_request p t (EvTimeout p # sch) s =
           Some (Inr (RET_OK, put_req p (r\<lparr>r_status := REQUEST_STAT_CANCEL\<rparr>) s))"
proof -
  let ?s = "put_req p (r\<lparr>r_status := REQUEST_STAT_CANCEL\<rparr>) s"
  have "mmap_exec (EvTimeout p) s = Some (Inr ?s)"
    using r by (simp add: timeout_region_def)
  moreover have "wait_status p sch ?s = Some (Inr (sch, ?s))"
    using r(1) by (subst wait_status.simps) (auto simp: get_req_Inr_iff)
  ultimately have "wait_status p (EvTimeout p # sch) s = Some (Inr (sch, ?s))"
    using r by (subst wait_status.simps) simp
  then show ?thesis using wait_request_submitted [OF r t] by simp
qed

theorem timeout_ends_the_wait_witness:
  "\<exists>s'. mmap_wait_request (Addr 2) 5 [EvTimeout (Addr 2)] demo_submitted = Some (Inr (RET_OK, s'))"
proof -
  have "get_req (Addr 2) demo_submitted = Inr (demo_request\<lparr>r_status := REQUEST_STAT_SUBMITTED\<rparr>)"
    by (simp add: get_req_def demo_queued_def demo_prepared_def)
  from timeout_ends_the_wait [OF this, of 5 "[]"] show ?thesis by (simp add: demo_request_def)
qed

section \<open>The race in \<open>mmap_put_request\<close>\<close>

text \<open>No task is queued or in hand.\<close>

definition pool_idle :: "mmap_sys \<Rightarrow> bool" where
  "pool_idle s \<longleftrightarrow> q_todoCnt (tqueue s) = 0 \<and> (\<forall>i < length (threads s). held_task (threads s ! i) = None)"

lemma idle_step:
  assumes idle: "pool_idle s" and st: "worker_step i s = Some m"
  shows "\<exists>s'. m = Inr s' \<and> pool_idle s' \<and> requests s' = requests s"
proof -
  from st have i: "i < length (threads s)" and w: "worker_at i (threads s ! i) s = Some m"
    by (auto simp: worker_step_def split: if_splits)
  from idle i have h: "held_task (threads s ! i) = None" by (auto simp: pool_idle_def)
  show ?thesis
  proof (cases "threads s ! i")
    case WAcquire
    with w idle show ?thesis by (simp add: pool_idle_def acquire_task_def)
  qed (use w h idle in \<open>auto simp: pool_idle_def count_alive_def count_idle_def nth_list_update_if\<close>)
qed

lemma wait_forever:
  "pool_idle s \<Longrightarrow> requests s a = Some r \<Longrightarrow> r_status r = REQUEST_STAT_SUBMITTED \<Longrightarrow>
   wait_status (Addr a) (map EvWorker is) s = None"
proof (induction "is" arbitrary: s)
  case Nil
  then show ?case by (subst wait_status.simps) (simp add: get_req_def)
next
  case (Cons i "is")
  show ?case
  proof (cases "worker_step i s")
    case None
    with Cons show ?thesis by (subst wait_status.simps) (simp add: get_req_def)
  next
    case (Some m)
    with idle_step [OF Cons.prems(1)] obtain s' where "m = Inr s'" "pool_idle s'" "requests s' = requests s"
      by blast
    with Some Cons show ?thesis by (subst wait_status.simps) (simp add: get_req_def)
  qed
qed

definition demo_race :: "mmap_event list" where
  "demo_race = demo_prepare @ [EvPutSubmit (Addr 2)] @ [EvWorker 0, EvWorker 0] @ [EvWorker 0, EvWorker 0] @
     [EvWorker 0, EvWorker 0, EvWorker 0, EvWorker 0] @ [EvPutFinish (Addr 2) RET_OK]"

lemma demo_late_finish:
  "run mmap_exec [EvPutFinish (Addr 2) RET_OK] (demo_at WFinish 1 (- 1) REQUEST_STAT_IOSUCCESS w) =
     Some (demo_at WFinish 1 (- 1) REQUEST_STAT_SUBMITTED w)"
proof -
  have "mmap_put_finish (Addr 2) RET_OK (demo_at WFinish 1 (- 1) REQUEST_STAT_IOSUCCESS w) =
      Inr (RET_OK, demo_at WFinish 1 (- 1) REQUEST_STAT_SUBMITTED w)"
    by (simp add: mmap_put_finish_def) (simp add: put_req_def demo_at_def demo_queued_def fun_eq_iff)
  then show ?thesis by (simp add: only_state_def del: and_then_Inr_iff)
qed


section \<open>Submitting to a closing pool\<close>

text \<open>
  The other race of an interrupted call: \<open>isRunning\<close> is tested before the queue is locked. Where the pool has been
  stopped since, and all its threads have left with their sentinels, the task goes into the queue all the
  same; no thread can take a step any more, and the request is \<open>SUBMITTED\<close> for ever.
\<close>

lemma late_task_is_lost:
  assumes left: "\<forall>i < length (threads s). threads s ! i \<in> {WExit, WJoined, WNone}"
    and r: "get_req p s = Inr r" "r_isValid r" and ms: "0 < timeout_ms"
    and e: "run mmap_exec [EvEnqueue t, EvPutFinish p RET_OK] s = Some s'"
  shows "(\<forall>i. worker_step i s' = None) \<and>
         (\<exists>r'. get_req p s' = Inr r' \<and> r_status r' = REQUEST_STAT_SUBMITTED) \<and>
         (\<forall>is. mmap_wait_request p timeout_ms (map EvWorker is) s' = None)"
proof -
  from e obtain res s1 where q: "enqueue_task t s = Inr (res, s1)"
    and f: "\<exists>res'. mmap_put_finish p RET_OK s1 = Inr (res', s')"
    by (auto simp: only_state_def split: option.splits sum.splits)
  note fr = enqueue_task_frame [OF q]
  have r1: "get_req p s1 = Inr r" using r(1) fr by (simp add: get_req_def)
  with f have s': "s' = put_req p (r\<lparr>r_status := REQUEST_STAT_SUBMITTED\<rparr>) s1" by (auto simp: mmap_put_finish_def)
  have th: "threads s' = threads s" using fr by (simp add: s')
  have stuck: "worker_step i s' = None" for i
  proof (cases "i < length (threads s)")
    case True
    with left have "threads s' ! i = WExit \<or> threads s' ! i = WJoined \<or> threads s' ! i = WNone" by (simp add: th)
    then show ?thesis by (auto simp: worker_step_def)
  qed (simp add: worker_step_def th)
  from r1 obtain a where a: "p = Addr a" by (auto simp: get_req_Inr_iff)
  have g: "get_req p s' = Inr (r\<lparr>r_status := REQUEST_STAT_SUBMITTED\<rparr>)" by (simp add: s' a)
  have "wait_status p (map EvWorker is) s' = None" for "is"
  proof (induction "is")
    case Nil
    show ?case by (subst wait_status.simps) (simp add: g)
  next
    case (Cons i "is")
    then show ?case by (subst wait_status.simps) (simp add: g stuck)
  qed
  with wait_request_submitted [OF g _ _ ms] r(2) have "mmap_wait_request p timeout_ms (map EvWorker is) s' = None" for "is"
    by simp
  with stuck g show ?thesis by simp
qed


text \<open>
  a request submitted after the pool was told to stop is rejected: \<open>RET_ALREADY_EXISTS\<close>, the queue
  as it was, the request cancelled, and the mapping of an allocated buffer removed.
\<close>
theorem mmap_put_request_rejected:
  assumes r: "get_req p s = Inr r" "r_isValid r" and stop: "\<not> isRunning (pinfo s)"
    and n: "c_new (os s) = (Addr a, w)"
  shows "\<exists>s'. mmap_put_request p s = Inr (RET_ALREADY_EXISTS, s') \<and>
           get_req p s' = Inr (r\<lparr>r_status := REQUEST_STAT_CANCEL\<rparr>) \<and> tqueue s' = tqueue s \<and>
           os s' = (if r_isAlloced r then snd (sys_munmap (r_buf r) (unat (r_nbytes r)) w) else w)"
proof -
  let ?t = "s\<lparr>os := w, tasks := (tasks s)(a := Some (request_task p r))\<rparr>"
  have t: "mmap_put_submit p s = Inr (RET_ALREADY_EXISTS, ?t)"
    using r n stop by (simp add: mmap_put_submit_def submit_new_task_def thread_pool_submit_def request_task_def)
  have rt: "get_req p ?t = Inr r" using r by (simp add: get_req_def)
  from r obtain b where "p = Addr b" by (auto simp: get_req_Inr_iff)
  with r t rt show ?thesis
    by (simp add: mmap_put_request_def check_spec mmap_put_finish_def Let_def)
qed

theorem mmap_put_request_rejected_witness:
  "\<exists>s'. mmap_put_request (Addr 2) demo_closed = Inr (RET_ALREADY_EXISTS, s') \<and>
     tqueue s' = tqueue demo_closed"
proof -
  have "get_req (Addr 2) demo_closed = Inr (demo_request\<lparr>r_status := REQUEST_STAT_IOSUCCESS, r_fd := - 1\<rparr>)"
    "\<not> isRunning (pinfo demo_closed)"
    "c_new (os demo_closed) = (Addr 8, demo_os_closed\<lparr>calls := 14, brk := 9\<rparr>)"
    by (simp_all add: get_req_def demo_closing_def c_new_def ask_def fresh_addr_def demo_os_closed_def
        demo_os_done_def demo_os_copied_def demo_os_queued_def demo_os_def)
  from mmap_put_request_rejected [OF this(1) _ this(2,3)] show ?thesis by (auto simp: demo_request_def)
qed

section \<open>Operations on all requests\<close>

lemma queued_request_at:
  assumes wf: "queue_wf s" and j: "j < tailn s" and tk: "slot_task s j = Some tk"
  shows "queued_request (request_queue (tqueue s)) j s = Inr (t_argument tk)"
proof -
  from wf j obtain a arr where arr: "request_queue (tqueue s) = Addr a" "parrs (os s) a = Some arr"
    unfolding queue_wf_def queue_arr_def empty_arr_def by fastforce
  with wf j have "j < a_len arr" by (auto simp: queue_wf_def queue_arr_def)
  moreover from tk obtain b where "slot s j = Some (Addr b)" "tasks s b = Some tk"
    by (auto simp: slot_task_def split: option.splits ptr.splits)
  ultimately show ?thesis using arr
    by (simp add: queued_request_def arr_get_def slot_def queue_arr_def)
qed

definition cancel_submitted :: "mmap_request \<Rightarrow> mmap_request" where
  "cancel_submitted r = r\<lparr>r_status :=
     (if r_status r = REQUEST_STAT_SUBMITTED then REQUEST_STAT_CANCEL else r_status r)\<rparr>"

lemma cancel_submitted_idem: "cancel_submitted \<circ> cancel_submitted = cancel_submitted"
  by (auto simp: cancel_submitted_def fun_eq_iff)

lemma timeout_on: "get_req p s = Inr r \<Longrightarrow> \<exists>s'. timeout_region p s = Inr s'"
  by (simp add: timeout_region_def)

lemma timeout_requests:
  assumes "timeout_region (Addr a) s = Inr s'"
  shows "requests s' b = (if b = a then map_option cancel_submitted (requests s b)
    else requests s b)"
  using assms by (auto simp: timeout_region_def put_req_def get_req_Inr_iff cancel_submitted_def)

lemma task_at:
  assumes "mmap_inv n s" "j < tailn s"
  obtains tk where "slot_task s j = Some tk" "task_wf s tk"
  using assms unfolding mmap_inv_def tasks_inv_def by blast

text \<open>The loop of \<open>mmap_cancel_all_requests\<close> with and without a sentinel in its way.\<close>

lemma cancel_loop_sentinel:
  "mmap_inv n s \<Longrightarrow> \<forall>j \<in> set js. j < tailn s \<Longrightarrow> \<exists>j \<in> set js. sentinel_at s j \<Longrightarrow>
   cancel_all_loop (request_queue (tqueue s)) js s = Inl NullDeref"
proof (induction js arbitrary: s)
  case Nil
  then show ?case by simp
next
  case (Cons j js)
  from Cons.prems obtain tk where tk: "slot_task s j = Some tk" "task_wf s tk"
    by (auto elim: task_at)
  have q: "queued_request (request_queue (tqueue s)) j s = Inr (t_argument tk)"
    using queued_request_at [OF inv_wf [OF Cons.prems(1)] _ tk(1)] Cons.prems(2) by simp
  show ?case
  proof (cases "t_is_sentinel tk")
    case True
    with tk q show ?thesis by (simp add: task_wf_def timeout_region_def get_req_def)
  next
    case False
    with tk obtain p r where "t_argument tk = Addr p" "get_req (Addr p) s = Inr r"
      by (auto simp: task_wf_def get_req_def)
    with timeout_on obtain s' where p: "t_argument tk = Addr p" "timeout_region (Addr p) s = Inr s'"
      by blast
    note qt = quiet_timeout [OF p(2)]
    from False tk Cons.prems(3) have "\<exists>j \<in> set js. sentinel_at s' j"
      by (auto simp: quiet_sentinel_at [OF qt] sentinel_at_def)
    with Cons.IH [of s'] quiet_inv [OF qt Cons.prems(1)] Cons.prems(2) quiet_same(1) [OF qt] p q
    show ?thesis by simp
  qed
qed

lemma cancel_loop_done:
  "mmap_inv n s \<Longrightarrow> \<forall>j \<in> set js. j < tailn s \<Longrightarrow> \<forall>j \<in> set js. \<not> sentinel_at s j \<Longrightarrow>
   \<exists>s'. cancel_all_loop (request_queue (tqueue s)) js s = Inr s' \<and> quiet s s' \<and>
        (\<forall>a. requests s' a = (if \<exists>j \<in> set js. map_option t_argument (slot_task s j) = Some (Addr a)
           then map_option cancel_submitted (requests s a)
           else requests s a))"
proof (induction js arbitrary: s)
  case Nil
  then show ?case by simp
next
  case (Cons j js)
  from Cons.prems obtain tk where tk: "slot_task s j = Some tk" "task_wf s tk"
    by (auto elim: task_at)
  have q: "queued_request (request_queue (tqueue s)) j s = Inr (t_argument tk)"
    using queued_request_at [OF inv_wf [OF Cons.prems(1)] _ tk(1)] Cons.prems(2) by simp
  from Cons.prems(3) tk have "\<not> t_is_sentinel tk" by (auto simp: sentinel_at_def)
  with tk obtain p r where "t_argument tk = Addr p" "get_req (Addr p) s = Inr r"
    by (auto simp: task_wf_def get_req_def)
  with timeout_on obtain s1 where p: "t_argument tk = Addr p" "timeout_region (Addr p) s = Inr s1"
    by blast
  note qt = quiet_timeout [OF p(2)]
  have "\<forall>j \<in> set js. j < tailn s1" "\<forall>j \<in> set js. \<not> sentinel_at s1 j"
    using Cons.prems(2,3) by (auto simp: quiet_same(1) [OF qt] quiet_sentinel_at [OF qt])
  from Cons.IH [OF quiet_inv [OF qt Cons.prems(1)] this] obtain s' where
    l: "cancel_all_loop (request_queue (tqueue s)) js s1 = Inr s'" and qs: "quiet s1 s'" and
    rs: "\<forall>a. requests s' a = (if \<exists>j \<in> set js. map_option t_argument (slot_task s1 j) = Some (Addr a)
           then map_option cancel_submitted (requests s1 a)
           else requests s1 a)"
    by (auto simp: quiet_same(1) [OF qt])
  show ?case
    using l p q tk(1) rs quiet_trans [OF qt qs] timeout_requests [OF p(2)]
    by (auto simp: quiet_slot_task [OF qt] option.map_comp cancel_submitted_idem)
qed

lemma totaln_tailn: "mmap_inv n s \<Longrightarrow> totaln s = tailn s"
  by (simp add: mmap_inv_def tasks_inv_def queue_wf_def)

lemma queue_not_Null: "mmap_inv n s \<Longrightarrow> 0 < tailn s \<Longrightarrow> request_queue (tqueue s) \<noteq> Null"
  by (auto simp: mmap_inv_def tasks_inv_def queue_wf_def queue_arr_def empty_arr_def)

lemma submitted_has_slot:
  assumes inv: "mmap_inv n s" and r: "requests s a = Some r" "r_status r = REQUEST_STAT_SUBMITTED"
  shows "\<exists>j < tailn s. map_option t_argument (slot_task s j) = Some (Addr a)"
proof -
  have le: "headn s \<le> tailn s" using inv by (auto simp: mmap_inv_def tasks_inv_def queue_wf_def)
  from inv r have "queued_for s a \<or> in_work s a" by (auto simp: mmap_inv_def status_inv_def)
  then show ?thesis
  proof
    assume "queued_for s a"
    then show ?thesis by (auto simp: queued_for_def)
  next
    assume "in_work s a"
    then obtain i t tk where i: "i < length (threads s)" "unrecorded (threads s ! i) = Some t"
      and tk: "deref (tasks s) t = Inr tk" "t_argument tk = Addr a"
      unfolding in_work_def by blast
    from held_task_wf [OF inv i(1) unrecorded_held [OF i(2)]] tk obtain j where
      "j < headn s" "slot_task s j = Some tk" by auto
    with tk le show ?thesis by (intro exI [of _ j]) simp
  qed
qed

text \<open>
  while the pool is open, \<open>mmap_cancel_all_requests\<close> returns \<open>RET_OK\<close> and cancels exactly the
  requests that are \<open>SUBMITTED\<close>; every other request is as before.
\<close>
theorem mmap_cancel_all_spec:
  assumes o: "timely_run w es s" and open_pool: "\<forall>j < tailn s. \<not> sentinel_at s j"
  shows "\<exists>s'. mmap_cancel_all_requests s = Inr (RET_OK, s') \<and>
           (\<forall>a. requests s' a = map_option cancel_submitted
             (requests s a))"
proof -
  note inv = timely_run_inv [OF o]
  have same: "map_option cancel_submitted (requests s a) = requests s a"
    if "\<not> (\<exists>j < tailn s. map_option t_argument (slot_task s j) = Some (Addr a))" for a
    using submitted_has_slot [OF inv, of a] that
    by (cases "requests s a") (auto simp: cancel_submitted_def)
  show ?thesis
  proof (cases "tailn s = 0")
    case True
    with totaln_tailn [OF inv] have "q_totoalCnt (tqueue s) = 0" by (simp add: unat_eq_0)
    then show ?thesis using same True by (simp add: mmap_cancel_all_requests_def)
  next
    case False
    with totaln_tailn [OF inv] have nz: "q_totoalCnt (tqueue s) \<noteq> 0" by auto
    let ?hit = "\<lambda>a. \<exists>j < tailn s. map_option t_argument (slot_task s j) = Some (Addr a)"
    from cancel_loop_done [OF inv, of "[0..<tailn s]"] open_pool obtain s' where
      s': "cancel_all_loop (request_queue (tqueue s)) [0..<tailn s] s = Inr s'" and
      rs: "requests s' a = (if ?hit a then map_option cancel_submitted (requests s a)
                            else requests s a)" for a by (auto simp: Bex_def conj_commute)
    have "requests s' a = map_option cancel_submitted (requests s a)" for a
      using rs [of a] same [of a] by (simp split: if_splits)
    moreover have "mmap_cancel_all_requests s = Inr (RET_OK, s')"
      using s' nz queue_not_Null [OF inv] False totaln_tailn [OF inv]
      by (simp add: mmap_cancel_all_requests_def Let_def)
    ultimately show ?thesis by blast
  qed
qed

theorem mmap_cancel_all_spec_witness:
  "\<exists>s'. mmap_cancel_all_requests (demo_at (WGot (Addr 4)) 0 3 REQUEST_STAT_SUBMITTED demo_os_queued) =
     Inr (RET_OK, s') \<and> map_option r_status (requests s' 2) = Some REQUEST_STAT_CANCEL"
proof -
  let ?s = "demo_at (WGot (Addr 4)) 0 3 REQUEST_STAT_SUBMITTED demo_os_queued"
  have "\<forall>j < tailn ?s. \<not> sentinel_at ?s j"
    by (simp add: demo_at_def sentinel_at_def slot_task_def slot_def queue_arr_def demo_os_queued_def
        demo_arr_def demo_queued_def demo_task_def)
  from mmap_cancel_all_spec [OF demo_timely(2) this] obtain s' where
    "mmap_cancel_all_requests ?s = Inr (RET_OK, s')"
    "requests s' 2 = map_option cancel_submitted (requests ?s 2)" by blast
  then show ?thesis by (simp add: cancel_submitted_def)
qed

lemma wait_all_sentinel:
  assumes inv: "mmap_inv n s" and st: "\<forall>a r. requests s a = Some r \<longrightarrow> r_status r \<noteq> REQUEST_STAT_SUBMITTED"
  shows "\<forall>j \<in> set js. j < tailn s \<Longrightarrow> \<exists>j \<in> set js. sentinel_at s j \<Longrightarrow>
    wait_all_loop (request_queue (tqueue s)) js sch s = Some (Inl NullDeref)"
proof (induction js)
  case Nil
  then show ?case by simp
next
  case (Cons j js)
  from Cons.prems inv obtain tk where tk: "slot_task s j = Some tk" "task_wf s tk"
    by (auto elim: task_at)
  have q: "queued_request (request_queue (tqueue s)) j s = Inr (t_argument tk)"
    using queued_request_at [OF inv_wf [OF inv] _ tk(1)] Cons.prems(1) by simp
  show ?case
  proof (cases "t_is_sentinel tk")
    case True
    with tk have "wait_status (t_argument tk) sch s = Some (Inl NullDeref)"
      by (subst wait_status.simps) (simp add: task_wf_def get_req_def)
    with q show ?thesis by simp
  next
    case False
    with tk obtain p r where r: "t_argument tk = Addr p" "requests s p = Some r"
      by (auto simp: task_wf_def)
    with st have "wait_status (Addr p) sch s = Some (Inr (sch, s))"
      by (subst wait_status.simps) (simp add: get_req_def)
    moreover from False tk Cons.prems(2) have "\<exists>j \<in> set js. sentinel_at s j"
      by (auto simp: sentinel_at_def)
    ultimately show ?thesis using Cons.IH Cons.prems(1) q r by simp
  qed
qed

text \<open>
  once the pool was released, the operations on all requests dereference the null argument of a
  sentinel: \<open>mmap_cancel_all_requests\<close> in every state whose queue holds one, and
  \<open>mmap_wait_all_requests\<close> as soon as no request before it has to be waited for.
\<close>
theorem all_requests_after_release:
  assumes o: "timely_run w es s" and j: "j < tailn s" "sentinel_at s j"
  shows "mmap_cancel_all_requests s = Inl NullDeref \<and>
         ((\<forall>a r. requests s a = Some r \<longrightarrow> r_status r \<noteq> REQUEST_STAT_SUBMITTED) \<longrightarrow>
          mmap_wait_all_requests sch s = Some (Inl NullDeref))"
proof -
  note inv = timely_run_inv [OF o]
  have ne: "request_queue (tqueue s) \<noteq> Null" "q_totoalCnt (tqueue s) \<noteq> 0"
    and tot: "unat (q_totoalCnt (tqueue s)) = tailn s"
    using queue_not_Null [OF inv] totaln_tailn [OF inv] j by (auto simp: unat_eq_0)
  have ex: "\<forall>k \<in> set [0..<tailn s]. k < tailn s" "\<exists>k \<in> set [0..<tailn s]. sentinel_at s k"
    using j by auto
  from cancel_loop_sentinel [OF inv ex] have "mmap_cancel_all_requests s = Inl NullDeref"
    using ne tot by (simp add: mmap_cancel_all_requests_def Let_def)
  moreover have "mmap_wait_all_requests sch s = Some (Inl NullDeref)"
    if "\<forall>a r. requests s a = Some r \<longrightarrow> r_status r \<noteq> REQUEST_STAT_SUBMITTED"
    using wait_all_sentinel [OF inv that ex] ne tot by (simp add: mmap_wait_all_requests_def Let_def)
  ultimately show ?thesis by blast
qed

theorem all_requests_after_release_witness:
  "mmap_cancel_all_requests demo_closed = Inl NullDeref \<and>
   mmap_wait_all_requests [] demo_closed = Some (Inl NullDeref)"
proof -
  have s: "sentinel_at demo_closed 1" "1 < tailn demo_closed"
    by (simp_all add: sentinel_at_def slot_task_def slot_def queue_arr_def demo_closing_def
        demo_os_closed_def sentinel_task_def)
  have "\<forall>a r. requests demo_closed a = Some r \<longrightarrow> r_status r \<noteq> REQUEST_STAT_SUBMITTED"
    by (simp add: demo_closing_def)
  with all_requests_after_release [OF demo_whole_timely s(2,1)] show ?thesis by blast
qed

end
