(* ===== verification/Mmap_IO.thy ===== *)
theory Mmap_IO
  imports Mmap_Clients
begin

text \<open>
  The data path of the mmap accessor: what \<open>mmapRead\<close> and \<open>mmapWrite\<close> do to the file, the client's
  buffer, the mapping and the descriptor on every branch, that a pool thread's steps compute them,
  and what a write leaves in the file.
\<close>

section \<open>A pool thread computes the task's function\<close>

lemma set_thread_twice [simp]: "set_thread i a (set_thread i b s) = set_thread i a s"
  by (simp add: set_thread_def)

lemma set_thread_get_req [simp]: "get_req p (set_thread i pc s) = get_req p s"
  by (simp add: get_req_def)

lemma set_thread_put_req: "put_req p r (set_thread i pc s) = set_thread i pc (put_req p r s)"
  by (simp add: put_req_def set_thread_def)

lemma set_thread_os: "(set_thread i pc s)\<lparr>os := w\<rparr> = set_thread i pc (s\<lparr>os := w\<rparr>)"
  by (simp add: set_thread_def)

lemma task_call_set_thread [simp]: "task_call t (set_thread i pc s) = task_call t s"
  by (simp add: task_call_def)

lemmas thread_commutes = set_thread_put_req set_thread_os

lemma io_set_thread:
  "task_io f p (set_thread i pc s) =
     and_then (task_io f p s) (\<lambda>(ok, a, u). Inr (ok, a, set_thread i pc u))"
proof (cases "get_req p s")
  case (Inr r)
  then show ?thesis
    by (cases f) (simp_all add: mmapRead_io_def mmapWrite_io_def thread_commutes and_then_assoc
        Let_def split: prod.split)
qed (cases f; simp add: mmapRead_io_def mmapWrite_io_def)

lemma enter_set_thread:
  "task_enter f p (set_thread i pc s) =
     and_then (task_enter f p s) (\<lambda>(go, u). Inr (go, set_thread i pc u))"
proof (cases "get_req p s")
  case (Inr r)
  then show ?thesis
    by (cases f) (simp_all add: mmapRead_enter_def mmapWrite_enter_def mmap_unmap_buf_def thread_commutes)
qed (cases f; simp add: mmapRead_enter_def mmapWrite_enter_def)

lemma record_set_thread:
  "mmap_record_status p ok (set_thread i pc s) =
     and_then (mmap_record_status p ok s) (\<lambda>u. Inr (set_thread i pc u))"
  by (simp add: mmap_record_status_def thread_commutes and_then_assoc)

lemma close_set_thread:
  "mmap_close_fd p (set_thread i pc s) = and_then (mmap_close_fd p s) (\<lambda>u. Inr (set_thread i pc u))"
  by (cases "get_req p s") (simp_all add: mmap_close_fd_def thread_commutes)

lemma unmap_set_thread:
  "mmap_unmap_buf p (set_thread i pc s) = and_then (mmap_unmap_buf p s) (\<lambda>u. Inr (set_thread i pc u))"
  by (cases "get_req p s") (simp_all add: mmap_unmap_buf_def thread_commutes)

lemma cleanup_set_thread:
  "task_cleanup f p a (set_thread i pc s) =
     and_then (task_cleanup f p a s) (\<lambda>u. Inr (set_thread i pc u))"
proof (cases f)
  case FnMmapRead
  then show ?thesis
    by (cases "get_req p s") (simp_all add: mmapRead_cleanup_def set_thread_os close_set_thread Let_def)
next
  case FnMmapWrite
  then show ?thesis
    by (cases "mmap_unmap_buf p s")
       (simp_all add: mmapWrite_cleanup_def unmap_set_thread close_set_thread)
qed

lemmas phases_set_thread = enter_set_thread io_set_thread record_set_thread cleanup_set_thread

text \<open>The function of a task is its phases in order.\<close>

lemma call_task_phases:
  "call_task f p s =
     and_then (task_enter f p s) (\<lambda>(go, s1).
       if \<not> go then Inr s1
       else and_then (task_io f p s1) (\<lambda>(ok, a, s2).
            and_then (mmap_record_status p ok s2) (\<lambda>s3. task_cleanup f p a s3)))"
  by (induct f) (simp_all add: mmapRead_def mmapWrite_def cong: if_cong)

text \<open>The tasks themselves are not touched by the phases.\<close>

lemma phase_task_call:
  "quiet s s' \<Longrightarrow> task_call t s' = task_call t s"
  by (simp add: task_call_def quiet_same(3))

lemma phase_threads: "quiet s s' \<Longrightarrow> threads s' = threads s"
  by (simp add: quiet_same(5))

lemma step_at:
  "i < length (threads s) \<Longrightarrow>
   mmap_exec (EvWorker i) (set_thread i pc s) = worker_at i pc (set_thread i pc s)"
  by (simp add: worker_step_def)

text \<open>
  What a pool thread does between counting itself busy and idle again is the function of its
  task: where the function returns, the thread's steps, run without interference, lead to the
  state it returns; there are one or four of them.
\<close>
lemma pool_thread_computes_the_function:
  assumes i: "i < length (threads s)" "threads s ! i = WEnter t"
    and c: "task_call t s = Inr (f, p)" and r: "call_task f p s = Inr s'"
  shows "\<exists>k \<in> {1, 4}. run mmap_exec (replicate k (EvWorker i)) s = Some (set_thread i WFinish s')"
proof -
  have s: "set_thread i (WEnter t) s = s" using i by (simp add: set_thread_def list_update_same_conv)
  from r obtain go s1 where e: "task_enter f p s = Inr (go, s1)"
    by (auto simp: call_task_phases)
  note q1 = quiet_enter [OF e]
  have len1: "i < length (threads s1)" using i phase_threads [OF q1] by simp
  have st1: "mmap_exec (EvWorker i) s = Some (Inr (set_thread i (if go then WIo t else WFinish) s1))"
    using i c e by (simp add: worker_step_def)
  show ?thesis
  proof (cases go)
    case False
    with r e have "s' = s1" by (simp add: call_task_phases)
    with st1 False show ?thesis by simp
  next
    case True
    with r e obtain ok a s2 s3 where io: "task_io f p s1 = Inr (ok, a, s2)"
      and rec: "mmap_record_status p ok s2 = Inr s3" and cl: "task_cleanup f p a s3 = Inr s'"
      by (auto simp: call_task_phases)
    note q2 = quiet_io [OF io] and q3 = quiet_record [OF rec]
    have th: "threads s2 = threads s1" "threads s3 = threads s1"
      using phase_threads [OF q2] phase_threads [OF q3] by simp_all
    have tc: "task_call t s1 = Inr (f, p)" "task_call t s2 = Inr (f, p)" "task_call t s3 = Inr (f, p)"
      using c phase_task_call [OF q1] phase_task_call [OF q2] phase_task_call [OF q3] by simp_all
    have "mmap_exec (EvWorker i) (set_thread i (WIo t) s1) = Some (Inr (set_thread i (WStat t ok a) s2))"
      using len1 io tc by (simp add: step_at io_set_thread del: mmap_exec.simps)
    moreover have "mmap_exec (EvWorker i) (set_thread i (WStat t ok a) s2) =
        Some (Inr (set_thread i (WClean t a) s3))"
      using len1 th rec tc by (simp add: step_at record_set_thread del: mmap_exec.simps)
    moreover have "mmap_exec (EvWorker i) (set_thread i (WClean t a) s3) =
        Some (Inr (set_thread i WFinish s'))"
      using len1 th cl tc by (simp add: step_at cleanup_set_thread del: mmap_exec.simps)
    moreover have "replicate 4 (EvWorker i) = [EvWorker i, EvWorker i, EvWorker i, EvWorker i]"
      by (simp add: numeral_eq_Suc)
    ultimately have "run mmap_exec (replicate 4 (EvWorker i)) s = Some (set_thread i WFinish s')"
      using st1 True by (simp del: mmap_exec.simps)
    then show ?thesis by blast
  qed
qed

section \<open>Reading\<close>

lemma put_req_os: "(put_req p r s)\<lparr>os := w\<rparr> = put_req p r (s\<lparr>os := w\<rparr>)"
  by (simp add: put_req_def)

lemma put_req_twice [simp]: "put_req p r (put_req p q s) = put_req p r s"
  by (simp add: put_req_def)

lemma record_result:
  assumes "get_req p s = Inr r" "r_status r \<noteq> REQUEST_STAT_CANCEL"
  shows "mmap_record_status p ok s =
     Inr (put_req p (r\<lparr>r_status := if ok then REQUEST_STAT_IOSUCCESS else REQUEST_STAT_IOFAIL\<rparr>) s)"
  using assms by (simp add: mmap_record_status_def)

lemma close_result:
  assumes "get_req p s = Inr r" "mmap_close_fd p s = Inr s'"
  shows "get_req p s' = Inr (if 0 < r_fd r then r\<lparr>r_fd := - 1\<rparr> else r) \<and>
         files (os s') = files (os s) \<and> heap (os s') = heap (os s) \<and> mmaps (os s') = mmaps (os s) \<and>
         (\<forall>k. fd_lookup (os s') k =
            (if 0 < r_fd r \<and> k = r_fd r then None else fd_lookup (os s) k))"
proof -
  obtain x w where c: "sys_close (r_fd r) (os s) = (x, w)" by fastforce
  from assms(1) obtain a where "p = Addr a" by (auto simp: get_req_Inr_iff)
  with assms c sys_close_lookup [OF c] sys_close_frame [OF c] show ?thesis
    by (auto simp: mmap_close_fd_def split: if_splits)
qed

text \<open>The address the next mapping gets is free.\<close>

definition mem_ok :: "world \<Rightarrow> bool" where
  "mem_ok w \<longleftrightarrow> heap w (brk w) = None \<and> mmaps w (brk w) = None"

text \<open>The copy from a fresh private mapping of a file to a block.\<close>

lemma copy_mapped:
  assumes m: "mapped n False fd off a w w1" and ok: "mem_ok w"
    and same: "files w1 = files w" "heap w1 = heap w"
    and d: "fd_lookup w fd = Some d" and f: "files w (o_path d) = Some f"
    and b: "heap w b = Some old" and c: "c_memcpy (Addr b) a n w1 = Inr w2"
  shows "heap w2 = (heap w)(b := Some (overwrite 0 (file_bytes (f_content f) off n) old)) \<and>
         mmaps w2 = mmaps w1 \<and> files w2 = files w \<and> fds w2 = fds w1 \<and>
         off mod PAGE = 0 \<and> off + n \<le> page_ceil (length (f_content f)) \<and> n \<le> length old"
proof -
  from m d have a: "a = Addr (brk w)" "off mod PAGE = 0"
    "mmaps w1 (brk w) = Some \<lparr>m_path = o_path d, m_off = off, m_len = n, m_shared = False\<rparr>"
    by (auto simp: mapped_def)
  have "heap w (brk w) = None" using ok by (simp add: mem_ok_def)
  with a same f have "mem_load a n w1 =
      (if page_ceil (length (f_content f)) < off + n then Inl BusError
       else Inr (file_bytes (f_content f) off n))"
    by (simp add: mem_load_def)
  with c have "off + n \<le> page_ceil (length (f_content f))"
    "mem_store (Addr b) (file_bytes (f_content f) off n) w1 = Inr w2"
    by (auto simp: c_memcpy_def split: if_splits)
  then show ?thesis using a b same by (auto simp: mem_store_def split: if_splits)
qed

lemma mmapRead_outcome:
  assumes r: "get_req p s = Inr r" "r_status r \<noteq> REQUEST_STAT_CANCEL" "0 < r_fd r" "r_buf r = Addr b"
    and ok: "mem_ok (os s)" and b: "heap (os s) b = Some old"
    and d: "fd_lookup (os s) (r_fd r) = Some d" and f: "files (os s) (o_path d) = Some f"
    and run: "mmapRead p s = Inr s'"
  shows "(\<exists>r'. get_req p s' = Inr r' \<and> r_fd r' = - 1 \<and>
            (r_status r' = REQUEST_STAT_IOSUCCESS \<and>
               heap (os s') = (heap (os s))(b := Some (overwrite 0
                 (file_bytes (f_content f) (unat (r_offset r)) (unat (r_nbytes r))) old)) \<or>
             r_status r' = REQUEST_STAT_IOFAIL \<and> heap (os s') = heap (os s))) \<and>
         files (os s') = files (os s) \<and> mmaps (os s') = mmaps (os s) \<and>
         (\<forall>k. fd_lookup (os s') k = (if k = r_fd r then None else fd_lookup (os s) k))"
proof -
  let ?n = "unat (r_nbytes r)" and ?off = "unat (r_offset r)"
  from r(1) obtain i where p: "p = Addr i" by (auto simp: get_req_Inr_iff)
  from run r obtain ok' a s1 s2 where io: "mmapRead_io p s = Inr (ok', a, s1)"
    and rec: "mmap_record_status p ok' s1 = Inr s2" and cl: "mmapRead_cleanup p a s2 = Inr s'"
    by (auto simp: mmapRead_def mmapRead_enter_def)
  let ?r = "r\<lparr>r_status := if ok' then REQUEST_STAT_IOSUCCESS else REQUEST_STAT_IOFAIL\<rparr>"
  have fin: "(\<exists>r'. get_req p s' = Inr r' \<and> r_fd r' = - 1 \<and> r_status r' = r_status ?r) \<and>
      files (os s') = files v \<and> heap (os s') = heap v \<and> mmaps (os s') = mmaps v \<and>
      (\<forall>k. fd_lookup (os s') k = (if k = r_fd r then None else fd_lookup v k))"
    if "mmap_close_fd p (put_req p ?r (s\<lparr>os := v\<rparr>)) = Inr s'" for v
    using close_result [OF _ that, of ?r] p r(3) by simp
  from io show ?thesis
  proof (cases rule: mmapRead_io_cases)
    case (failed r0 w)
    with r have "r0 = r" by simp
    with failed rec r p have "s2 = put_req p ?r (s\<lparr>os := w\<rparr>)"
      by (simp add: record_result get_req_def)
    with cl failed(3) p have "mmap_close_fd p (put_req p ?r (s\<lparr>os := w\<rparr>)) = Inr s'"
      by (simp add: mmapRead_cleanup_def)
    note fin [OF this]
    moreover obtain k where "w = (os s)\<lparr>calls := k\<rparr>"
      using mmap_retry_spec [OF failed(4)] failed(3) by blast
    ultimately show ?thesis using failed(2) by (auto simp: fd_lookup_def)
  next
    case (copied r0 w w')
    with r have eq: "r0 = r" by simp
    from mmap_retry_spec [OF copied(3)] copied(4) eq have m: "mapped ?n False (r_fd r) ?off a (os s) w"
      and same: "fds w = fds (os s)" "files w = files (os s)" "heap w = heap (os s)" by auto
    from copied(5) eq r(4) have c: "c_memcpy (Addr b) a ?n w = Inr w'" by simp
    note cp = copy_mapped [OF m ok same(2,3) d f b c]
    from copied eq rec r p have s2: "s2 = put_req p ?r (s\<lparr>os := w'\<rparr>)"
      by (simp add: record_result get_req_def)
    let ?v = "snd (sys_munmap a ?n w')"
    from cl copied(4) s2 p have "mmap_close_fd p (put_req p ?r (s\<lparr>os := ?v\<rparr>)) = Inr s'"
      by (simp add: mmapRead_cleanup_def put_req_os)
    note fin [OF this]
    moreover have "mmaps (os s) (brk (os s)) = None"
      using ok by (simp add: mem_ok_def)
    with m cp have "mmaps ?v = mmaps (os s)" "heap ?v = heap w'" "files ?v = files w'" "fds ?v = fds w'"
      by (auto simp: sys_munmap_def mapped_def)
    ultimately show ?thesis using copied(2) cp same by (auto simp: fd_lookup_def)
  qed
qed

text \<open>
  C8: \<open>mmapRead\<close> of a request that is not cancelled either records \<open>IOSUCCESS\<close>, and then the client's
  buffer holds exactly the requested bytes of the file (zeros where they run past its end), or
  records \<open>IOFAIL\<close> and leaves the buffer alone. Both ways the file is unchanged, no mapping is left,
  and the request's descriptor is closed, no other.
\<close>
theorem mmapRead_reads_the_file:
  assumes r: "get_req p s = Inr r" "r_status r \<noteq> REQUEST_STAT_CANCEL" "0 < r_fd r" "r_buf r = Addr b"
    and ok: "mem_ok (os s)" and b: "heap (os s) b = Some old"
    and d: "fd_lookup (os s) (r_fd r) = Some d" and f: "files (os s) (o_path d) = Some f"
    and run: "mmapRead p s = Inr s'"
  shows "(\<exists>r'. get_req p s' = Inr r' \<and> r_fd r' = - 1 \<and>
            (r_status r' = REQUEST_STAT_IOSUCCESS \<and>
               heap (os s') = (heap (os s))(b := Some (overwrite 0
                 (file_bytes (f_content f) (unat (r_offset r)) (unat (r_nbytes r))) old)) \<or>
             r_status r' = REQUEST_STAT_IOFAIL \<and> heap (os s') = heap (os s))) \<and>
         files (os s') = files (os s) \<and> mmaps (os s') = mmaps (os s) \<and>
         (\<forall>k. fd_lookup (os s') k = (if k = r_fd r then None else fd_lookup (os s) k))"
  by (rule mmapRead_outcome [OF assms])

theorem mmapRead_reads_the_file_witness:
  "\<exists>s'. mmapRead (Addr 2) (demo_at (WEnter (Addr 4)) 1 3 REQUEST_STAT_SUBMITTED demo_os_queued) = Inr s' \<and>
     fd_lookup (os s') 3 = None \<and> mmaps (os s') = (\<lambda>_. None)"
proof -
  let ?s = "demo_at (WEnter (Addr 4)) 1 3 REQUEST_STAT_SUBMITTED demo_os_queued"
  let ?r = "demo_request\<lparr>r_status := REQUEST_STAT_SUBMITTED, r_fd := 3\<rparr>"
  let ?d = "\<lparr>o_path = ''in'', o_mode = Rdonly, o_pos = 0\<rparr>"
  have q: "heap demo_os_queued = [3 \<mapsto> [0, 0, 0]]" "mmaps demo_os_queued = (\<lambda>_. None)"
    "fd_lookup demo_os_queued 3 = Some ?d" "files demo_os_queued ''in'' = Some demo_file"
    "mem_ok demo_os_queued"
    by (simp_all add: demo_os_queued_def demo_os_def fd_lookup_def fd_at_def mem_ok_def)
  have r: "get_req (Addr 2) ?s = Inr ?r" "r_status ?r \<noteq> REQUEST_STAT_CANCEL" "0 < r_fd ?r"
    "r_buf ?r = Addr 3" by (simp_all add: demo_request_def)
  have "mmapRead (Addr 2) ?s = Inr (demo_at (WEnter (Addr 4)) 1 (- 1) REQUEST_STAT_IOSUCCESS demo_os_done)"
    by (rule demo_read) simp
  with mmapRead_reads_the_file [OF r _ _ _ _ this, of "[0, 0, 0]" ?d demo_file] q show ?thesis
    by (simp add: demo_request_def)
qed

section \<open>Writing\<close>

lemma store_mapped:
  assumes st: "mem_store (Addr b) bs w = Inr w'" and ok: "heap w b = None"
    and m: "mmaps w b = Some m" and f: "files w (m_path m) = Some f"
    and inside: "m_off m + length bs \<le> length (f_content f)"
  shows "files w' = (files w)(m_path m := Some (f\<lparr>f_content := overwrite (m_off m) bs (f_content f)\<rparr>)) \<and>
         heap w' = heap w \<and> mmaps w' = mmaps w \<and> fds w' = fds w"
proof -
  have "take (length (f_content f) - m_off m) bs = bs" using inside by simp
  with assms show ?thesis by (auto simp: mem_store_def split: if_splits)
qed

lemma msync_result:
  assumes "sys_msync (Addr b) n w = (res, w')" "mmaps w b = Some m" "files w (m_path m) = Some f"
    "m_len m = n"
  shows "fds w' = fds w \<and> mmaps w' = mmaps w \<and> heap w' = heap w \<and>
         (res = 0 \<and> files w' = (files w)(m_path m := Some (flush (m_off m) n f)) \<or>
          res = - 1 \<and> files w' = files w)"
  using assms by (auto simp: sys_msync_def ask_def Let_def split: if_splits)

lemma mmapWrite_outcome:
  assumes r: "get_req p s = Inr r" "r_status r \<noteq> REQUEST_STAT_CANCEL" "0 < r_fd r" "r_buf r = Addr b"
    and m: "heap (os s) b = None" "mmaps (os s) b = Some m" "m_len m = unat (r_nbytes r)"
    and f: "files (os s) (m_path m) = Some f" "m_off m + unat (r_nbytes r) \<le> length (f_content f)"
    and bs: "length bs = unat (r_nbytes r)" "mem_store (Addr b) bs (os s) = Inr w"
    and run: "mmapWrite p (s\<lparr>os := w\<rparr>) = Inr s'"
  shows "\<exists>r' f'. get_req p s' = Inr r' \<and> r_fd r' = - 1 \<and> r_buf r' = Null \<and> mmaps (os s') b = None \<and>
           (\<forall>k. fd_lookup (os s') k = (if k = r_fd r then None else fd_lookup (os s) k)) \<and>
           files (os s') (m_path m) = Some f' \<and>
           f_content f' = overwrite (m_off m) bs (f_content f) \<and>
           (r_status r' = REQUEST_STAT_IOSUCCESS \<and>
              take (length bs) (drop (m_off m) (f_durable f')) = bs \<or>
            r_status r' = REQUEST_STAT_IOFAIL \<and> f_durable f' = f_durable f)"
proof -
  let ?n = "unat (r_nbytes r)" and ?t = "s\<lparr>os := w\<rparr>"
  let ?g = "f\<lparr>f_content := overwrite (m_off m) bs (f_content f)\<rparr>"
  from r(1) obtain i where p: "p = Addr i" by (auto simp: get_req_Inr_iff)
  have inside: "m_off m + length bs \<le> length (f_content f)" using f(2) bs(1) by simp
  note st = store_mapped [OF bs(2) m(1,2) f(1) inside]
  have rt: "get_req p ?t = Inr r" using r(1) by (simp add: get_req_def)
  from run rt r(2) obtain ok a s1 s2 where io: "mmapWrite_io p ?t = Inr (ok, a, s1)"
    and rec: "mmap_record_status p ok s1 = Inr s2" and cl: "mmapWrite_cleanup p s2 = Inr s'"
    by (auto simp: mmapWrite_def mmapWrite_enter_def)
  obtain res v where sy: "sys_msync (Addr b) ?n w = (res, v)" by fastforce
  with io rt r(4) have s1: "s1 = s\<lparr>os := v\<rparr>" and okr: "ok \<longleftrightarrow> res \<noteq> - 1"
    by (auto simp: mmapWrite_io_def)
  from msync_result [OF sy _ _ m(3), of ?g] st m(2) have v: "fds v = fds (os s)" "mmaps v = mmaps (os s)"
    "res = 0 \<and> files v = (files w)(m_path m := Some (flush (m_off m) ?n ?g)) \<or> res = - 1 \<and> files v = files w"
    by auto
  let ?r = "r\<lparr>r_status := if ok then REQUEST_STAT_IOSUCCESS else REQUEST_STAT_IOFAIL\<rparr>"
  from rec r s1 p have s2: "s2 = put_req p ?r (s\<lparr>os := v\<rparr>)"
    by (simp add: record_result get_req_def)
  let ?u = "snd (sys_munmap (Addr b) ?n v)"
  have u: "mmaps ?u b = None" "files ?u = files v" "fds ?u = fds v"
    using v m by (simp_all add: sys_munmap_def)
  let ?q = "?r\<lparr>r_buf := Null\<rparr>"
  from cl s2 p r(4) have close: "mmap_close_fd p (put_req p ?q (s\<lparr>os := ?u\<rparr>)) = Inr s'"
    by (simp add: mmapWrite_cleanup_def mmap_unmap_buf_def put_req_os)
  have fin: "get_req p s' = Inr (?q\<lparr>r_fd := - 1\<rparr>)" "files (os s') = files v" "mmaps (os s') b = None"
    "\<forall>k. fd_lookup (os s') k = (if k = r_fd r then None else fd_lookup (os s) k)"
    using close_result [OF _ close, of ?q] p r(3) u v(1) by (simp_all add: fd_lookup_def)
  have len: "m_off m + length bs \<le> length (f_content ?g)"
    using inside length_overwrite [of "m_off m" bs "f_content f"] by simp
  from v(3) show ?thesis
  proof
    assume "res = 0 \<and> files v = (files w)(m_path m := Some (flush (m_off m) ?n ?g))"
    moreover have "take (length bs) (drop (m_off m) (f_durable (flush (m_off m) (length bs) ?g))) = bs"
      using flush_durable [OF len] overwrite_read [OF inside] by simp
    ultimately show ?thesis using fin okr bs(1) by (simp add: flush_def)
  next
    assume "res = - 1 \<and> files v = files w"
    with fin okr st show ?thesis by simp
  qed
qed

text \<open>
  C9: bytes the client stored in an allocated buffer reach the file: when \<open>mmapWrite\<close> records
  \<open>IOSUCCESS\<close>, the requested range of the file is exactly these bytes and durable; when it records
  \<open>IOFAIL\<close> the bytes are in the file but the device is as it was. Both ways the buffer is unmapped
  and forgotten and the request's descriptor closed, no other.
\<close>
theorem mmapWrite_stores_the_buffer:
  assumes r: "get_req p s = Inr r" "r_status r \<noteq> REQUEST_STAT_CANCEL" "0 < r_fd r" "r_buf r = Addr b"
    and m: "heap (os s) b = None" "mmaps (os s) b = Some m" "m_len m = unat (r_nbytes r)"
    and f: "files (os s) (m_path m) = Some f" "m_off m + unat (r_nbytes r) \<le> length (f_content f)"
    and bs: "length bs = unat (r_nbytes r)" "mem_store (Addr b) bs (os s) = Inr w"
    and run: "mmapWrite p (s\<lparr>os := w\<rparr>) = Inr s'"
  shows "\<exists>r' f'. get_req p s' = Inr r' \<and> r_fd r' = - 1 \<and> r_buf r' = Null \<and> mmaps (os s') b = None \<and>
           (\<forall>k. fd_lookup (os s') k = (if k = r_fd r then None else fd_lookup (os s) k)) \<and>
           files (os s') (m_path m) = Some f' \<and>
           f_content f' = overwrite (m_off m) bs (f_content f) \<and>
           (r_status r' = REQUEST_STAT_IOSUCCESS \<and>
              take (length bs) (drop (m_off m) (f_durable f')) = bs \<or>
            r_status r' = REQUEST_STAT_IOFAIL \<and> f_durable f' = f_durable f)"
  by (rule mmapWrite_outcome [OF assms])

text \<open>A request for writing three bytes whose buffer is mapped at 9.\<close>

definition demo_write :: "request_stat \<Rightarrow> mmap_sys" where
  "demo_write st = put_req (Addr 5)
     (zero_mmap_request\<lparr>r_info := write_info, r_isValid := True, r_isAlloced := True, r_fd := 3,
        r_nbytes := 3, r_buf := Addr 9, r_status := st\<rparr>)
     (g_mmapFileAccessor ((world0 [] ''out'' [0, 0, 0])\<lparr>
        fds := [None, None, None, Some \<lparr>o_path = ''out'', o_mode = RdwrCreatTrunc, o_pos = 0\<rparr>],
        mmaps := [9 \<mapsto> \<lparr>m_path = ''out'', m_off = 0, m_len = 3, m_shared = True\<rparr>], brk := 10\<rparr>))"

lemma demo_write_req:
  "get_req (Addr 5) (demo_write st) = Inr (zero_mmap_request\<lparr>r_info := write_info, r_isValid := True,
     r_isAlloced := True, r_fd := 3, r_nbytes := 3, r_buf := Addr 9, r_status := st\<rparr>)"
  by (simp add: demo_write_def)

theorem mmapWrite_stores_the_buffer_witness:
  "\<exists>w s'. mem_store (Addr 9) [1, 2, 3] (os (demo_write REQUEST_STAT_SUBMITTED)) = Inr w \<and>
     mmapWrite (Addr 5) ((demo_write REQUEST_STAT_SUBMITTED)\<lparr>os := w\<rparr>) = Inr s' \<and>
     map_option f_content (files (os s') ''out'') = Some [1, 2, 3]"
proof -
  let ?s = "demo_write REQUEST_STAT_SUBMITTED"
  have "case mem_store (Addr 9) [1, 2, 3] (os ?s) of Inl f \<Rightarrow> False
    | Inr w \<Rightarrow> (case mmapWrite (Addr 5) (?s\<lparr>os := w\<rparr>) of Inl f \<Rightarrow> False | Inr s' \<Rightarrow> True)"
    by code_simp
  then obtain w s' where w: "mem_store (Addr 9) [1, 2, 3] (os ?s) = Inr w"
    and s': "mmapWrite (Addr 5) (?s\<lparr>os := w\<rparr>) = Inr s'"
    by (auto split: sum.splits)
  let ?f = "\<lparr>f_content = [0, 0, 0], f_durable = [0, 0, 0]\<rparr> :: inode"
  have w0: "heap (os ?s) 9 = None" "files (os ?s) ''out'' = Some ?f"
    "mmaps (os ?s) 9 = Some \<lparr>m_path = ''out'', m_off = 0, m_len = 3, m_shared = True\<rparr>"
    by (simp_all add: demo_write_def g_mmapFileAccessor_def world0_def Let_def)
  from mmapWrite_stores_the_buffer [OF demo_write_req _ _ _ w0(1,3) _ _ _ _ w s', of ?f] w0(2)
  have "\<exists>f'. files (os s') ''out'' = Some f' \<and> f_content f' = overwrite 0 [1, 2, 3] [0, 0, 0]" by auto
  then show ?thesis using w s' by (auto simp: overwrite_def)
qed

section \<open>Cancelled tasks\<close>

text \<open>
  the task of a cancelled request does no input or output, but it never closes the request's
  descriptor: \<open>mmapRead\<close> changes nothing at all, \<open>mmapWrite\<close> only removes the buffer's mapping; in
  both cases the descriptor table is as before and the request still holds its descriptor.
\<close>
theorem cancelled_task_keeps_the_descriptor:
  assumes r: "get_req p s = Inr r" "r_status r = REQUEST_STAT_CANCEL"
  shows "mmapRead p s = Inr s \<and>
         (\<exists>s'. mmapWrite p s = Inr s' \<and> get_req p s' = Inr (r\<lparr>r_buf := Null\<rparr>) \<and>
               fds (os s') = fds (os s) \<and> files (os s') = files (os s) \<and>
               os s' = snd (sys_munmap (r_buf r) (unat (r_nbytes r)) (os s)))"
proof -
  from r(1) obtain a where "p = Addr a" by (auto simp: get_req_Inr_iff)
  moreover have "fds (snd (sys_munmap q n w)) = fds w" "files (snd (sys_munmap q n w)) = files w" for q n w
    by (simp_all add: sys_munmap_def split: ptr.split option.split)
  ultimately show ?thesis using r
    by (simp add: mmapRead_def mmapRead_enter_def mmapWrite_def mmapWrite_enter_def mmap_unmap_buf_def)
qed

theorem cancelled_task_keeps_the_descriptor_witness:
  "mmapRead (Addr 5) (demo_write REQUEST_STAT_CANCEL) = Inr (demo_write REQUEST_STAT_CANCEL) \<and>
   (\<exists>s'. mmapWrite (Addr 5) (demo_write REQUEST_STAT_CANCEL) = Inr s' \<and>
         fds (os s') = fds (os (demo_write REQUEST_STAT_CANCEL)))"
  using cancelled_task_keeps_the_descriptor [OF demo_write_req [of REQUEST_STAT_CANCEL]] by auto

end
