(* ===== verification/Condvar.thy ===== *)
theory Condvar
  imports Prelude
begin

text \<open>
  Condition variables. The other theories let a thread look at its condition again after every event; here a
  thread that finds its condition false goes to sleep at a condition variable and moves again only
  when it is woken, by a signal, which wakes one of the sleepers, or for no reason at all. The machine
  is described once, over any system with events; the accessors are instances.
\<close>

section \<open>Sleeping and waking\<close>

text \<open>
  \<open>performs t e\<close>: thread \<open>t\<close> can be the one that does \<open>e\<close>. \<open>signals e s s'\<close>: the condition variable that
  \<open>e\<close> signals on its way from \<open>s\<close> to \<open>s'\<close>. \<open>waits t c s\<close>: thread \<open>t\<close> may find itself in front of
  \<open>pthread_cond_wait\<close> at \<open>c\<close> with its loop's condition true. The label is the list of events of
  the system in the step: one, or none.
\<close>

record ('s, 't, 'c) cv =
  cv_sys :: 's
  asleep :: "'t \<Rightarrow> 'c option"

inductive cv_step ::
  "('e \<Rightarrow> 's \<Rightarrow> (fault + 's) option) \<Rightarrow> ('t \<Rightarrow> 'e \<Rightarrow> bool) \<Rightarrow> ('e \<Rightarrow> 's \<Rightarrow> 's \<Rightarrow> 'c option) \<Rightarrow>
   ('t \<Rightarrow> 'c \<Rightarrow> 's \<Rightarrow> bool) \<Rightarrow> ('s, 't, 'c) cv \<Rightarrow> 'e list \<Rightarrow> ('s, 't, 'c) cv \<Rightarrow> bool"
  for exec performs signals waits
where
  act: "exec e s = Some (Inr s') \<Longrightarrow> performs t e \<Longrightarrow> W t = None \<Longrightarrow> signals e s s' = None \<Longrightarrow>
    cv_step exec performs signals waits \<lparr>cv_sys = s, asleep = W\<rparr> [e] \<lparr>cv_sys = s', asleep = W\<rparr>"
| wake: "exec e s = Some (Inr s') \<Longrightarrow> performs t e \<Longrightarrow> W t = None \<Longrightarrow> signals e s s' = Some c \<Longrightarrow>
    W u = Some c \<Longrightarrow>
    cv_step exec performs signals waits \<lparr>cv_sys = s, asleep = W\<rparr> [e] \<lparr>cv_sys = s', asleep = W(u := None)\<rparr>"
| nobody: "exec e s = Some (Inr s') \<Longrightarrow> performs t e \<Longrightarrow> W t = None \<Longrightarrow> signals e s s' = Some c \<Longrightarrow>
    (\<And>u. W u \<noteq> Some c) \<Longrightarrow>
    cv_step exec performs signals waits \<lparr>cv_sys = s, asleep = W\<rparr> [e] \<lparr>cv_sys = s', asleep = W\<rparr>"
| sleep: "W t = None \<Longrightarrow> waits t c s \<Longrightarrow>
    cv_step exec performs signals waits \<lparr>cv_sys = s, asleep = W\<rparr> [] \<lparr>cv_sys = s, asleep = W(t := Some c)\<rparr>"
| spurious: "W t = Some c \<Longrightarrow>
    cv_step exec performs signals waits \<lparr>cv_sys = s, asleep = W\<rparr> [] \<lparr>cv_sys = s, asleep = W(t := None)\<rparr>"

inductive cv_trace ::
  "(('s, 't, 'c) cv \<Rightarrow> 'e list \<Rightarrow> ('s, 't, 'c) cv \<Rightarrow> bool) \<Rightarrow>
   ('s, 't, 'c) cv \<Rightarrow> 'e list \<Rightarrow> ('s, 't, 'c) cv \<Rightarrow> bool"
  for step
where
  start: "cv_trace step x [] x"
| more: "cv_trace step x es y \<Longrightarrow> step y fs z \<Longrightarrow> cv_trace step x (es @ fs) z"

definition all_awake :: "'s \<Rightarrow> ('s, 't, 'c) cv" where
  "all_awake s = \<lparr>cv_sys = s, asleep = (\<lambda>_. None)\<rparr>"

lemma all_awake_simps [simp]: "cv_sys (all_awake s) = s" "asleep (all_awake s) t = None"
  by (simp_all add: all_awake_def)

section \<open>The machine refines the system\<close>

lemma cv_step_run:
  "cv_step exec performs signals waits x es y \<Longrightarrow> run exec es (cv_sys x) = Some (cv_sys y)"
  by (induction rule: cv_step.induct) auto

lemma cv_step_performed:
  "cv_step exec performs signals waits x es y \<Longrightarrow> e \<in> set es \<Longrightarrow>
   \<exists>t. performs t e \<and> asleep x t = None"
  by (induction rule: cv_step.induct) auto

lemma cv_trace_run:
  "cv_trace (cv_step exec performs signals waits) x es y \<Longrightarrow> run exec es (cv_sys x) = Some (cv_sys y)"
  by (induction rule: cv_trace.induct) (auto simp: run_append dest: cv_step_run)

lemma cv_trace_performed:
  "cv_trace (cv_step exec performs signals waits) x es y \<Longrightarrow> e \<in> set es \<Longrightarrow> \<exists>t. performs t e"
  by (induction rule: cv_trace.induct) (auto dest: cv_step_performed)

text \<open>An invariant of the steps is one of the traces.\<close>

lemma cv_trace_inv:
  assumes "cv_trace step x es y" "I x" "\<And>u fs v. I u \<Longrightarrow> step u fs v \<Longrightarrow> I v"
  shows "I y"
  using assms by (induction rule: cv_trace.induct) blast+

text \<open>What a step of the machine does, by what its event signals.\<close>

lemma cv_step_cases:
  assumes "cv_step exec performs signals waits x es y"
  obtains (event) e t where "es = [e]" "exec e (cv_sys x) = Some (Inr (cv_sys y))" "performs t e"
      "asleep x t = None"
      "(\<forall>c. signals e (cv_sys x) (cv_sys y) \<noteq> Some c \<or> (\<forall>u. asleep x u \<noteq> Some c)) \<and> asleep y = asleep x \<or>
       (\<exists>c u. signals e (cv_sys x) (cv_sys y) = Some c \<and> asleep x u = Some c \<and>
          asleep y = (asleep x)(u := None))"
  | (falls) t c where "es = []" "cv_sys y = cv_sys x" "asleep x t = None" "waits t c (cv_sys x)"
      "asleep y = (asleep x)(t := Some c)"
  | (wakes) t c where "es = []" "cv_sys y = cv_sys x" "asleep x t = Some c" "asleep y = (asleep x)(t := None)"
  using assms by cases auto

text \<open>Building traces: what nobody sleeps for changes the system only.\<close>

lemma quiet_step:
  assumes "exec e s = Some (Inr s')" "performs t e" "W t = None"
    and "\<And>c u. signals e s s' = Some c \<Longrightarrow> W u \<noteq> Some c"
  shows "cv_step exec performs signals waits \<lparr>cv_sys = s, asleep = W\<rparr> [e] \<lparr>cv_sys = s', asleep = W\<rparr>"
  using assms by (cases "signals e s s'") (auto intro: act nobody)

lemma cv_trace_one: "cv_trace step x es y \<Longrightarrow> step y [e] z \<Longrightarrow> cv_trace step x (es @ [e]) z"
  by (rule more)

lemma cv_trace_none: "cv_trace step x es y \<Longrightarrow> step y [] z \<Longrightarrow> cv_trace step x es z"
  using more [of step x es y "[]" z] by simp

lemma awake_run_from:
  assumes "cv_trace (cv_step exec performs signals waits) x es (all_awake s)"
    and "run exec fs s = Some t" "\<And>e. e \<in> set fs \<Longrightarrow> \<exists>u. performs u e"
  shows "cv_trace (cv_step exec performs signals waits) x (es @ fs) (all_awake t)"
  using assms
proof (induction fs arbitrary: es s)
  case Nil
  then show ?case by simp
next
  case (Cons e fs)
  from Cons.prems(2) obtain s' where e: "exec e s = Some (Inr s')" and r: "run exec fs s' = Some t"
    by (auto simp: run_Cons_Some simp del: run.simps)
  from Cons.prems(3) obtain u where "performs u e" by auto
  then have "cv_step exec performs signals waits (all_awake s) [e] (all_awake s')"
    unfolding all_awake_def by (intro quiet_step [where t = u] e) auto
  from Cons.IH [OF cv_trace_one [OF Cons.prems(1) this] r] Cons.prems(3) show ?case by simp
qed

lemmas awake_run = awake_run_from [OF start, unfolded append_Nil]

section \<open>One waiter per condition\<close>

text \<open>
  Where only one thread ever waits at a condition variable, and everything the others do that ends the wait
  also signals, nobody sleeps longer than necessary: who is asleep still has to wait. The others may be
  known to keep an invariant.
\<close>

locale sole_waiter = step_invariant exec inv ok bound
  for exec :: "'e \<Rightarrow> 's \<Rightarrow> (fault + 's) option" and inv :: "nat \<Rightarrow> 's \<Rightarrow> bool"
    and ok :: "'e \<Rightarrow> bool" and bound :: nat +
  fixes performs :: "'t \<Rightarrow> 'e \<Rightarrow> bool"
    and signals :: "'e \<Rightarrow> 's \<Rightarrow> 's \<Rightarrow> 'c option"
    and waits :: "'t \<Rightarrow> 'c \<Rightarrow> 's \<Rightarrow> bool"
    and sole :: "'c \<Rightarrow> bool"
  assumes well_behaved: "performs t e \<Longrightarrow> ok e"
    and one: "sole c \<Longrightarrow> waits u c s \<Longrightarrow> waits v c s' \<Longrightarrow> u = v"
    and told: "inv n s \<Longrightarrow> sole c \<Longrightarrow> waits u c s \<Longrightarrow> exec e s = Some (Inr s') \<Longrightarrow> performs t e \<Longrightarrow> t \<noteq> u \<Longrightarrow>
      waits u c s' \<or> signals e s s' = Some c"
begin

definition rested :: "('s, 't, 'c) cv \<Rightarrow> bool" where
  "rested x \<longleftrightarrow> (\<forall>u c. sole c \<longrightarrow> asleep x u = Some c \<longrightarrow> waits u c (cv_sys x))"

lemma rested_step:
  assumes x: "rested x" and inv: "inv n (cv_sys x)" and st: "cv_step exec performs signals waits x es y"
  shows "rested y"
  unfolding rested_def
proof (intro allI impI)
  fix u c assume c: "sole c" and u: "asleep y u = Some c"
  from st show "waits u c (cv_sys y)"
  proof (cases rule: cv_step_cases)
    case (event e t)
    then have a: "asleep x u = Some c" using u by (auto split: if_splits)
    then have w: "waits u c (cv_sys x)" using x c by (simp add: rested_def)
    have "t \<noteq> u" using event(4) a by auto
    from told [OF inv c w event(2,3) this] show ?thesis
    proof
      assume s: "signals e (cv_sys x) (cv_sys y) = Some c"
      with event(5) a obtain v where v: "asleep x v = Some c" "asleep y = (asleep x)(v := None)" by auto
      with x c have "waits v c (cv_sys x)" by (simp add: rested_def)
      with w c have "u = v" by (blast intro: one)
      with v u show ?thesis by simp
    qed
  next
    case (falls t d)
    with x c u show ?thesis by (cases "u = t") (auto simp: rested_def)
  next
    case (wakes t d)
    with x c u show ?thesis by (cases "u = t") (auto simp: rested_def)
  qed
qed

lemma trace_ok: "cv_trace (cv_step exec performs signals waits) x es y \<Longrightarrow> list_all ok es"
  using cv_trace_performed well_behaved by (fastforce simp: list_all_iff)

lemma trace_inv:
  assumes "cv_trace (cv_step exec performs signals waits) x es y" "inv 0 (cv_sys x)" "length es \<le> bound"
  shows "inv (length es) (cv_sys y)"
  using inv_run [OF assms(2) _ trace_ok [OF assms(1)] cv_trace_run [OF assms(1)]] assms(3) by simp

lemma trace_rested:
  "cv_trace (cv_step exec performs signals waits) x es y \<Longrightarrow> rested x \<Longrightarrow> inv 0 (cv_sys x) \<Longrightarrow>
   length es \<le> bound \<Longrightarrow> rested y"
proof (induction rule: cv_trace.induct)
  case (start x)
  then show ?case by simp
next
  case (more x es y fs z)
  then have "rested y" by simp
  moreover have "inv (length es) (cv_sys y)" using more.prems by (intro trace_inv [OF more.hyps(1)]) auto
  ultimately show ?case using more.hyps(2) by (rule rested_step)
qed

lemma asleep_still_waits:
  assumes "cv_trace (cv_step exec performs signals waits) (all_awake s) es y" "inv 0 s" "length es \<le> bound"
    "sole c" "asleep y u = Some c"
  shows "waits u c (cv_sys y)"
proof -
  have "rested y" by (rule trace_rested [OF assms(1)]) (use assms(2,3) in \<open>simp_all add: rested_def\<close>)
  with assms(4,5) show ?thesis by (simp add: rested_def)
qed

end

end
