(* ===== verification/Mmap_Wakeups.thy ===== *)
theory Mmap_Wakeups
  imports Mmap_Status Mmap_Demo Condvar
begin

text \<open>
  The condition variables of the mmap accessor: \<open>not_empty\<close> of the task queue, at which pool threads wait
  for a task, and \<open>isFinished\<close> of each request, at which clients wait. \<open>pthread_cond_signal\<close> wakes one
  waiter, where the other theories let every waiter look again.
\<close>

section \<open>Threads and signals\<close>

datatype mmap_thread = Pool nat | Timer | Client nat

datatype mmap_cond = NotEmpty | Finished ptr

text \<open>Pool threads and timeout threads do their own events; everything else is a client's call.\<close>

fun mmap_performs :: "mmap_thread \<Rightarrow> mmap_event \<Rightarrow> bool" where
  "mmap_performs (Pool i) (EvWorker j) \<longleftrightarrow> i = j"
| "mmap_performs (Pool i) e \<longleftrightarrow> False"
| "mmap_performs Timer (EvTimeout p) \<longleftrightarrow> True"
| "mmap_performs Timer e \<longleftrightarrow> False"
| "mmap_performs (Client k) (EvWorker j) \<longleftrightarrow> False"
| "mmap_performs (Client k) (EvTimeout p) \<longleftrightarrow> False"
| "mmap_performs (Client k) e \<longleftrightarrow> True"

text \<open>Does \<open>mmap_cancel_request\<close> reach its locked region, which ends with a signal?\<close>

definition cancel_signals :: "ptr \<Rightarrow> mmap_sys \<Rightarrow> bool" where
  "cancel_signals p s =
     (case mmap_check_request_valid p s of
        Inl f \<Rightarrow> False
      | Inr (res, s1) \<Rightarrow>
          res = RET_OK \<and>
          (case get_req p s1 of
             Inl f \<Rightarrow> False
           | Inr r \<Rightarrow> \<not> (r_status r \<le> REQUEST_STAT_INIT \<or> REQUEST_STAT_CANCEL \<le> r_status r)))"

text \<open>
  The calls of \<open>pthread_cond_signal\<close>: where an outcome is recorded, a timeout or a cancellation ends, and
  where \<open>thread_pool_submit\<close> puts a task into the queue, which is when its total count changes.
\<close>

definition queue_signals :: "mmap_sys \<Rightarrow> mmap_sys \<Rightarrow> mmap_cond option" where
  "queue_signals s s' =
     (if q_totoalCnt (tqueue s') = q_totoalCnt (tqueue s) then None else Some NotEmpty)"

definition worker_signals :: "nat \<Rightarrow> mmap_sys \<Rightarrow> mmap_cond option" where
  "worker_signals i s =
     (case threads s ! i of
        WStat t ok a \<Rightarrow> (case task_call t s of Inr (f, p) \<Rightarrow> Some (Finished p) | Inl f \<Rightarrow> None)
      | _ \<Rightarrow> None)"

declare worker_signals_def [simp]

fun mmap_signals :: "mmap_event \<Rightarrow> mmap_sys \<Rightarrow> mmap_sys \<Rightarrow> mmap_cond option" where
  "mmap_signals (EvWorker i) s s' = worker_signals i s"
| "mmap_signals (EvTimeout p) s s' = Some (Finished p)"
| "mmap_signals (EvCancelOne p) s s' = Some (Finished p)"
| "mmap_signals (EvCancel p) s s' = (if cancel_signals p s then Some (Finished p) else None)"
| "mmap_signals (EvPut p) s s' = queue_signals s s'"
| "mmap_signals (EvPutSubmit p) s s' = queue_signals s s'"
| "mmap_signals (EvEnqueue t) s s' = queue_signals s s'"
| "mmap_signals EvSentinel s s' = queue_signals s s'"
| "mmap_signals _ s s' = None"

text \<open>
  The loops around \<open>pthread_cond_wait\<close>: a pool thread while \<open>todoCnt\<close> is 0, a client while the request it
  waits for is \<open>SUBMITTED\<close>.
\<close>

definition pool_waits :: "nat \<Rightarrow> mmap_sys \<Rightarrow> bool" where
  "pool_waits i s \<longleftrightarrow> i < length (threads s) \<and> threads s ! i = WAcquire \<and> q_todoCnt (tqueue s) = 0"

definition client_waits :: "ptr \<Rightarrow> mmap_sys \<Rightarrow> bool" where
  "client_waits p s \<longleftrightarrow>
     (case get_req p s of Inl f \<Rightarrow> False | Inr r \<Rightarrow> r_status r = REQUEST_STAT_SUBMITTED)"

declare pool_waits_def [simp] client_waits_def [simp]

fun mmap_waits :: "mmap_thread \<Rightarrow> mmap_cond \<Rightarrow> mmap_sys \<Rightarrow> bool" where
  "mmap_waits (Pool i) NotEmpty s \<longleftrightarrow> pool_waits i s"
| "mmap_waits (Client k) (Finished p) s \<longleftrightarrow> client_waits p s"
| "mmap_waits _ _ s \<longleftrightarrow> False"

type_synonym mmap_cv = "(mmap_sys, mmap_thread, mmap_cond) cv"

definition mmap_cv_step :: "mmap_cv \<Rightarrow> mmap_event list \<Rightarrow> mmap_cv \<Rightarrow> bool" where
  "mmap_cv_step = cv_step mmap_exec mmap_performs mmap_signals mmap_waits"

section \<open>The queue's condition variable\<close>

text \<open>What an event that is not a pool thread's does to the number of tasks and to who is at the queue.\<close>

definition at_queue :: "mmap_sys \<Rightarrow> nat \<Rightarrow> bool" where
  "at_queue s i \<longleftrightarrow> i < length (threads s) \<and> threads s ! i = WAcquire"

abbreviation todon :: "mmap_sys \<Rightarrow> nat" where "todon s \<equiv> unat (q_todoCnt (tqueue s))"

definition queue_step :: "mmap_cond option \<Rightarrow> mmap_sys \<Rightarrow> mmap_sys \<Rightarrow> bool" where
  "queue_step c s s' \<longleftrightarrow> at_queue s' = at_queue s \<and>
     (if c = Some NotEmpty then todon s' \<le> Suc (todon s) else todon s' = todon s)"

lemma quiet_queue_step: "quiet s s' \<Longrightarrow> c \<noteq> Some NotEmpty \<Longrightarrow> queue_step c s s'"
  by (simp add: queue_step_def at_queue_def quiet_same fun_eq_iff)

lemma enqueue_counts:
  assumes "enqueue_task t s = Inr (res, s')"
  shows "threads s' = threads s \<and> q_todoCnt (tqueue s') = q_todoCnt (tqueue s) + 1 \<and>
         q_totoalCnt (tqueue s') = q_totoalCnt (tqueue s) + 1"
proof -
  from assms obtain r s1 w where g: "grow_queue s = Inr (r, s1)" and s': "s' = s1\<lparr>os := w,
      tqueue := (tqueue s1)\<lparr>q_tail := q_tail (tqueue s1) + 1, q_todoCnt := q_todoCnt (tqueue s1) + 1,
                            q_totoalCnt := q_totoalCnt (tqueue s1) + 1\<rparr>\<rparr>"
    by (auto simp: enqueue_task_def Let_def)
  from grow_queue_frame [OF g] show ?thesis by (simp add: s')
qed

lemma unat_plus_one: "unat (x + 1) \<le> Suc (unat x)" for x :: u32
  using unat_word_ariths(1) [of x 1] by simp

lemma enqueue_queue_step:
  assumes "enqueue_task t s = Inr (res, s')"
  shows "queue_step (queue_signals s s') s s'"
proof -
  from unat_plus_one enqueue_counts [OF assms] show ?thesis
    by (simp add: queue_step_def at_queue_def queue_signals_def fun_eq_iff)
qed

lemma submit_queue_step:
  assumes a: "submit_new_task tk s = Inr (res, s')"
  shows "queue_step (queue_signals s s') s s'"
proof -
  obtain t v where "c_new (os s) = (t, v)" by fastforce
  with a have "thread_pool_submit t (s\<lparr>os := v, tasks := (tasks s)(addr_of t := Some tk)\<rparr>) = Inr (res, s')"
    by (simp add: submit_new_task_def split: if_splits)
  then consider "threads s' = threads s" "tqueue s' = tqueue s" | "threads s' = threads s"
      "q_todoCnt (tqueue s') = q_todoCnt (tqueue s) + 1" "q_totoalCnt (tqueue s') = q_totoalCnt (tqueue s) + 1"
    by (auto simp: thread_pool_submit_def split: if_splits dest!: enqueue_counts)
  then show ?thesis
    by cases (simp_all add: queue_step_def at_queue_def queue_signals_def fun_eq_iff unat_plus_one)
qed

lemma put_submit_queue_step:
  "mmap_put_submit p s = Inr (res, s') \<Longrightarrow> queue_step (queue_signals s s') s s'"
  by (auto simp: mmap_put_submit_def dest: submit_queue_step)

lemma put_finish_same_queue:
  assumes "mmap_put_finish p res s = Inr (res', s')"
  shows "threads s' = threads s \<and> tqueue s' = tqueue s"
  using assms by (cases rule: put_finish_cases) (auto dest: quiet_same)

lemma put_queue_step:
  assumes a: "mmap_put_request p s = Inr (res, s')"
  shows "queue_step (queue_signals s s') s s'"
proof -
  from a obtain res0 s1 where c: "mmap_check_request_valid p s = Inr (res0, s1)"
    by (auto simp: mmap_put_request_def)
  note q = quiet_same [OF quiet_check [OF c]]
  show ?thesis
  proof (cases "res0 = RET_OK")
    case True
    with a c obtain res1 s2 where su: "mmap_put_submit p s1 = Inr (res1, s2)"
      and f: "mmap_put_finish p res1 s2 = Inr (res, s')" by (auto simp: mmap_put_request_def)
    have "at_queue s' = at_queue s2" "at_queue s1 = at_queue s"
      using put_finish_same_queue [OF f] q by (simp_all add: at_queue_def fun_eq_iff)
    with put_submit_queue_step [OF su] put_finish_same_queue [OF f] q show ?thesis
      by (simp add: queue_step_def queue_signals_def split: if_splits)
  next
    case False
    with a c q show ?thesis
      by (simp add: mmap_put_request_def queue_step_def queue_signals_def at_queue_def fun_eq_iff)
  qed
qed

lemma put_task_same_queue:
  assumes "mmap_put_task p s = Inr (res, t, s')"
  shows "threads s' = threads s \<and> tqueue s' = tqueue s"
  using assms by (cases rule: put_task_cases) (auto dest: quiet_same [OF quiet_check])

lemma client_queue_step:
  assumes e: "mmap_exec e s = Some (Inr s')" and n: "\<And>i. e \<noteq> EvWorker i"
  shows "queue_step (mmap_signals e s s') s s'"
proof (cases e)
  case (EvWorker i)
  with n [of i] show ?thesis by simp
next
  case (EvPut p)
  with e show ?thesis by (auto simp: only_state_def dest: put_queue_step)
next
  case (EvPutSubmit p)
  with e show ?thesis by (auto simp: only_state_def dest: put_submit_queue_step)
next
  case (EvPutTask p)
  with e show ?thesis by (auto simp: queue_step_def at_queue_def fun_eq_iff dest!: put_task_same_queue)
next
  case (EvEnqueue t)
  with e show ?thesis by (auto simp: only_state_def dest: enqueue_queue_step)
next
  case (EvStoreIdle v)
  with e show ?thesis by (auto simp: store_idle_def queue_step_def at_queue_def fun_eq_iff)
next
  case (EvStoreAlive v)
  with e show ?thesis by (auto simp: store_alive_def queue_step_def at_queue_def fun_eq_iff)
next
  case EvTurn
  with e show ?thesis by (auto simp: queue_step_def)
next
  case EvSentinel
  with e show ?thesis by (auto simp: only_state_def dest: submit_queue_step)
next
  case (EvPutFinish p res)
  with e show ?thesis
    by (auto simp: only_state_def queue_step_def at_queue_def fun_eq_iff dest!: put_finish_same_queue)
next
  case EvStop
  with e show ?thesis by (auto simp: set_running_def queue_step_def at_queue_def fun_eq_iff)
next
  case (EvJoin i)
  with e show ?thesis
    by (auto simp: join_thread_def queue_step_def at_queue_def fun_eq_iff nth_list_update
        split: if_splits wpc.splits)
next
  case (EvTimeout p)
  with e show ?thesis by (auto intro: quiet_queue_step quiets)
next
  case (EvGet ci)
  with e show ?thesis by (auto intro: quiet_queue_step quiets)
next
  case (EvAlloc p)
  with e show ?thesis by (auto intro: quiet_queue_step quiets)
next
  case (EvImport p b)
  with e show ?thesis by (auto simp: only_state_def intro: quiet_queue_step quiets)
next
  case (EvCancel p)
  with e show ?thesis by (auto simp: only_state_def intro: quiet_queue_step quiets)
next
  case (EvCancelOne p)
  with e show ?thesis by (auto intro: quiet_queue_step quiets)
next
  case (EvMalloc n)
  with e show ?thesis by (auto simp: queue_step_def at_queue_def fun_eq_iff)
next
  case (EvStore p bs)
  with e show ?thesis by (auto simp: queue_step_def at_queue_def fun_eq_iff)
qed

text \<open>A pool thread: at the queue it takes a task, elsewhere it leaves the queue alone.\<close>

lemma worker_queue_step:
  assumes st: "worker_step i s = Some (Inr s')"
  shows "length (threads s') = length (threads s) \<and> (\<forall>j. j \<noteq> i \<longrightarrow> threads s' ! j = threads s ! j) \<and>
         (if at_queue s i then todon s = Suc (todon s') else todon s' = todon s)"
proof -
  from st have i: "i < length (threads s)" and w: "worker_at i (threads s ! i) s = Some (Inr s')"
    by (auto simp: worker_step_def split: if_splits)
  show ?thesis
  proof (cases "threads s ! i = WAcquire")
    case True
    with w obtain t u where u: "acquire_task s = Some (Inr (t, u))" "s' = set_thread i (WGot t) u"
      by auto
    have "x \<noteq> 0 \<Longrightarrow> unat x = Suc (unat (x - 1))" for x :: u32
      by (simp add: unat_pred_32 unat_gt_0)
    then have "todon s = Suc (todon u)" "threads u = threads s"
      using u(1) by (auto simp: acquire_task_def Let_def split: if_splits)
    with u(2) True i show ?thesis by (simp add: at_queue_def)
  next
    case False
    from w have "\<exists>pc. threads s' = (threads s)[i := pc] \<and> tqueue s' = tqueue s"
      by (cases "threads s ! i") (use False in \<open>auto simp: count_alive_def count_busy_def count_idle_def
        quiet_same dest!: quiets split: if_splits\<close>)
    with False show ?thesis by (auto simp: at_queue_def)
  qed
qed

subsection \<open>No wake-up is lost\<close>

text \<open>
  The threads at the queue that are not asleep. As long as one is asleep, they are at least as many as
  the tasks: a thread falls asleep only where there is no task, and each task that comes wakes one.
\<close>

definition awake_at_queue :: "mmap_cv \<Rightarrow> nat set" where
  "awake_at_queue x = {i. at_queue (cv_sys x) i \<and> asleep x (Pool i) = None}"

definition pool_rested :: "mmap_cv \<Rightarrow> bool" where
  "pool_rested x \<longleftrightarrow>
     (\<forall>i c. asleep x (Pool i) = Some c \<longrightarrow> c = NotEmpty \<and> at_queue (cv_sys x) i) \<and>
     (\<forall>u. asleep x u = Some NotEmpty \<longrightarrow> (\<exists>i. u = Pool i)) \<and>
     ((\<exists>i. asleep x (Pool i) \<noteq> None) \<longrightarrow> todon (cv_sys x) \<le> card (awake_at_queue x))"

lemma awake_finite [simp]: "finite (awake_at_queue x)"
  by (rule finite_subset [of _ "{..<length (threads (cv_sys x))}"])
    (auto simp: awake_at_queue_def at_queue_def)

lemma worker_signals: "mmap_signals (EvWorker i) s s' \<noteq> Some NotEmpty"
  by (auto split: wpc.split sum.split)

lemma pool_rested_more:
  assumes x: "pool_rested x" and todo: "todon (cv_sys y) \<le> todon (cv_sys x)"
    and a: "awake_at_queue x \<subseteq> awake_at_queue y"
    and p: "\<And>i c. asleep y (Pool i) = Some c \<Longrightarrow> asleep x (Pool i) = Some c \<and> at_queue (cv_sys y) i"
    and u: "\<And>u. asleep y u = Some NotEmpty \<Longrightarrow> \<exists>i. u = Pool i"
  shows "pool_rested y"
proof -
  have "card (awake_at_queue x) \<le> card (awake_at_queue y)" by (rule card_mono [OF _ a]) simp
  moreover have "(\<exists>i. asleep y (Pool i) \<noteq> None) \<Longrightarrow> (\<exists>i. asleep x (Pool i) \<noteq> None)" using p by blast
  ultimately show ?thesis using x todo p u unfolding pool_rested_def by (meson le_trans)
qed

lemma pool_rested_worker:
  assumes x: "pool_rested x" and st: "worker_step i (cv_sys x) = Some (Inr (cv_sys y))"
    and i: "asleep x (Pool i) = None"
    and a: "\<And>j. asleep y (Pool j) = asleep x (Pool j)" "\<And>u. asleep y u = Some NotEmpty \<Longrightarrow> asleep x u = Some NotEmpty"
  shows "pool_rested y"
proof -
  note q = worker_queue_step [OF st]
  have keep: "at_queue (cv_sys y) j \<longleftrightarrow> at_queue (cv_sys x) j" if "j \<noteq> i" for j
    using q that by (simp add: at_queue_def)
  have others: "awake_at_queue x - {i} \<subseteq> awake_at_queue y"
    using keep a by (auto simp: awake_at_queue_def)
  have sl: "asleep x (Pool j) = Some c \<and> c = NotEmpty \<and> at_queue (cv_sys y) j"
    if "asleep y (Pool j) = Some c" for j c
  proof -
    from that a i have "asleep x (Pool j) = Some c" "j \<noteq> i" by auto
    with x keep show ?thesis by (simp add: pool_rested_def)
  qed
  have u: "\<exists>j. u = Pool j" if "asleep y u = Some NotEmpty" for u
    using a(2) [OF that] x unfolding pool_rested_def by blast
  show ?thesis
  proof (cases "at_queue (cv_sys x) i")
    case True
    with i have "i \<in> awake_at_queue x" by (simp add: awake_at_queue_def)
    then have "card (awake_at_queue x) \<le> Suc (card (awake_at_queue y))"
      using card_mono [OF awake_finite others] by (simp add: card_Diff_singleton)
    moreover have "todon (cv_sys x) = Suc (todon (cv_sys y))" using q True by simp
    ultimately have "todon (cv_sys y) \<le> card (awake_at_queue y)" if "\<exists>j. asleep y (Pool j) \<noteq> None"
      using x that a(1) unfolding pool_rested_def by fastforce
    then show ?thesis unfolding pool_rested_def using sl u by blast
  next
    case False
    then have "awake_at_queue x \<subseteq> awake_at_queue y" using others by (auto simp: awake_at_queue_def)
    moreover have "todon (cv_sys y) \<le> todon (cv_sys x)" using q False by simp
    ultimately show ?thesis using sl u by (intro pool_rested_more [OF x]) blast+
  qed
qed

lemma pool_rested_client:
  assumes x: "pool_rested x" and e: "mmap_exec e (cv_sys x) = Some (Inr (cv_sys y))"
    and n: "\<And>i. e \<noteq> EvWorker i"
    and a: "(\<forall>c. mmap_signals e (cv_sys x) (cv_sys y) \<noteq> Some c \<or> (\<forall>u. asleep x u \<noteq> Some c)) \<and> asleep y = asleep x \<or>
       (\<exists>c u. mmap_signals e (cv_sys x) (cv_sys y) = Some c \<and> asleep x u = Some c \<and>
          asleep y = (asleep x)(u := None))"
  shows "pool_rested y"
proof -
  note q = client_queue_step [OF e n]
  then have at: "at_queue (cv_sys y) = at_queue (cv_sys x)" by (simp add: queue_step_def)
  have less: "asleep y u = Some c \<Longrightarrow> asleep x u = Some c" for u c using a by (auto split: if_splits)
  then have more: "awake_at_queue x \<subseteq> awake_at_queue y"
    using a unfolding awake_at_queue_def at by auto
  have p: "asleep x (Pool i) = Some c \<and> at_queue (cv_sys y) i" if "asleep y (Pool i) = Some c" for i c
    using less [OF that] x at unfolding pool_rested_def by metis
  have u: "\<exists>i. u = Pool i" if "asleep y u = Some NotEmpty" for u
    using less [OF that] x unfolding pool_rested_def by blast
  show ?thesis
  proof (cases "mmap_signals e (cv_sys x) (cv_sys y) = Some NotEmpty")
    case False
    with q have "todon (cv_sys y) \<le> todon (cv_sys x)" by (simp add: queue_step_def)
    then show ?thesis using more p u by (intro pool_rested_more [OF x]) blast+
  next
    case True
    with q have t: "todon (cv_sys y) \<le> Suc (todon (cv_sys x))" by (simp add: queue_step_def)
    have "todon (cv_sys y) \<le> card (awake_at_queue y)" if s: "\<exists>i. asleep y (Pool i) \<noteq> None"
    proof -
      from s x p obtain i where i: "asleep x (Pool i) = Some NotEmpty" unfolding pool_rested_def by blast
      with a True obtain v where v: "asleep x v = Some NotEmpty" "asleep y = (asleep x)(v := None)" by auto
      with x obtain j where j: "v = Pool j" "at_queue (cv_sys x) j" unfolding pool_rested_def by blast
      then have "insert j (awake_at_queue x) \<subseteq> awake_at_queue y" "j \<notin> awake_at_queue x"
        using more v at by (auto simp: awake_at_queue_def)
      then have "Suc (card (awake_at_queue x)) \<le> card (awake_at_queue y)"
        using card_mono [OF awake_finite, of "insert j (awake_at_queue x)" y] by simp
      moreover have "todon (cv_sys x) \<le> card (awake_at_queue x)" using x i unfolding pool_rested_def by blast
      ultimately show ?thesis using t by simp
    qed
    then show ?thesis using x p u unfolding pool_rested_def by blast
  qed
qed

lemma pool_rested_step:
  assumes x: "pool_rested x" and st: "mmap_cv_step x es y"
  shows "pool_rested y"
  using st unfolding mmap_cv_step_def
proof (cases rule: cv_step_cases)
  case (event e t)
  show ?thesis
  proof (cases "\<exists>i. e = EvWorker i")
    case True
    then obtain i where e: "e = EvWorker i" by blast
    with event(3) have "t = Pool i" by (cases t) auto
    moreover have n: "mmap_signals e (cv_sys x) (cv_sys y) \<noteq> Some NotEmpty"
      unfolding e by (rule worker_signals)
    then have "asleep y (Pool j) = asleep x (Pool j)" for j
      using event(5) x unfolding pool_rested_def by (metis fun_upd_apply)
    moreover have "asleep y u = Some NotEmpty \<Longrightarrow> asleep x u = Some NotEmpty" for u
      using event(5) by (auto split: if_splits)
    ultimately show ?thesis using event(2,4) e by (intro pool_rested_worker [OF x, of i]) auto
  next
    case False
    then show ?thesis using event(5) by (intro pool_rested_client [OF x event(2)]) blast
  qed
next
  case (falls t c)
  show ?thesis
  proof (cases t)
    case (Pool i)
    with falls have "c = NotEmpty" "at_queue (cv_sys x) i" "todon (cv_sys x) = 0"
      by (cases c; simp add: at_queue_def)+
    with falls x Pool show ?thesis unfolding pool_rested_def by auto
  next
    case Timer
    with falls show ?thesis by simp
  next
    case (Client k)
    with falls obtain p where "c = Finished p" by (cases c) auto
    with falls Client have "awake_at_queue y = awake_at_queue x" by (simp add: awake_at_queue_def)
    with falls x Client \<open>c = Finished p\<close> show ?thesis unfolding pool_rested_def by auto
  qed
next
  case (wakes t c)
  have "asleep y u = Some d \<Longrightarrow> asleep x u = Some d" for u d using wakes by (auto split: if_splits)
  moreover have "awake_at_queue x \<subseteq> awake_at_queue y" using wakes by (auto simp: awake_at_queue_def)
  ultimately show ?thesis using wakes(2) x
    by (intro pool_rested_more [OF x]) (auto simp: pool_rested_def)
qed

text \<open>Where some pool thread could go on, one that is not asleep can.\<close>

lemma some_awake:
  assumes x: "pool_rested x" and k: "worker_step k (cv_sys x) \<noteq> None"
  shows "\<exists>j. asleep x (Pool j) = None \<and> worker_step j (cv_sys x) \<noteq> None"
proof (cases "asleep x (Pool k) = None")
  case False
  with x have at: "at_queue (cv_sys x) k" "todon (cv_sys x) \<le> card (awake_at_queue x)"
    unfolding pool_rested_def by blast+
  have step: "worker_step i (cv_sys x) \<noteq> None \<longleftrightarrow> q_todoCnt (tqueue (cv_sys x)) \<noteq> 0"
    if "at_queue (cv_sys x) i" for i
  proof -
    have "acquire_task (cv_sys x) = None \<longleftrightarrow> q_todoCnt (tqueue (cv_sys x)) = 0"
      by (simp add: acquire_task_def Let_def)
    with that show ?thesis by (simp add: worker_step_def at_queue_def)
  qed
  from step [OF at(1)] k have q: "q_todoCnt (tqueue (cv_sys x)) \<noteq> 0" by blast
  then have "0 < todon (cv_sys x)" by (simp add: unat_gt_0)
  with at have "awake_at_queue x \<noteq> {}" by auto
  then obtain j where "asleep x (Pool j) = None" "at_queue (cv_sys x) j" by (auto simp: awake_at_queue_def)
  with q step show ?thesis by blast
qed (use k in blast)

lemma mmap_trace_rested:
  assumes "cv_trace mmap_cv_step (all_awake s) es x"
  shows "pool_rested x"
  by (rule cv_trace_inv [OF assms]) (auto simp: pool_rested_def [of "all_awake s"] intro: pool_rested_step)

section \<open>The run, with sleepers\<close>

text \<open>
  The demonstration run up to where thread 0 has read the file and is about to record it: clients that wait
  at the request fall asleep here.
\<close>

definition demo_until_record :: "mmap_event list" where
  "demo_until_record = demo_events @ replicate 6 (EvWorker 0)"

abbreviation demo_recording :: mmap_sys where
  "demo_recording \<equiv> demo_at (WStat (Addr 4) True (Addr 6)) 1 3 REQUEST_STAT_SUBMITTED demo_os_copied"

abbreviation demo_recorded :: mmap_sys where
  "demo_recorded \<equiv> demo_at (WClean (Addr 4) (Addr 6)) 1 3 REQUEST_STAT_IOSUCCESS demo_os_copied"

abbreviation demo_served :: mmap_sys where
  "demo_served \<equiv> demo_at WAcquire 0 (- 1) REQUEST_STAT_IOSUCCESS demo_os_done"

lemma demo_until_record_run: "run mmap_exec demo_until_record (mmap_start demo_world) = Some demo_recording"
proof -
  have io: "run mmap_exec [EvWorker 0, EvWorker 0]
      (demo_at (WEnter (Addr 4)) 1 3 REQUEST_STAT_SUBMITTED demo_os_queued) = Some demo_recording"
    unfolding run.simps by (simp only: demo_enter [OF request_stat.distinct(15)] demo_io option.case sum.case)
  have l: "demo_until_record = demo_events @ [EvWorker 0, EvWorker 0] @ [EvWorker 0, EvWorker 0] @ [EvWorker 0, EvWorker 0]"
    by (simp add: demo_until_record_def numeral_eq_Suc)
  show ?thesis unfolding l run_append demo_events_run demo_take demo_mark option.case io ..
qed

lemma demo_clients_act:
  assumes "e \<in> set demo_until_record"
  shows "e = EvWorker 0 \<or> mmap_performs (Client 0) e \<and> orderly e"
  using assms by (auto simp: demo_until_record_def demo_events_def demo_prepare_def)

lemma demo_performed: "e \<in> set demo_until_record \<Longrightarrow> \<exists>t. mmap_performs t e"
  using demo_clients_act mmap_performs.simps(1) by metis

lemma demo_until_record_trace: "cv_trace mmap_cv_step (all_awake (mmap_start demo_world)) demo_until_record (all_awake demo_recording)"
  unfolding mmap_cv_step_def
  by (rule awake_run [OF demo_until_record_run]) (use demo_performed in blast)

lemma demo_last_steps:
  "mmap_exec (EvWorker 0) demo_recording = Some (Inr demo_recorded)"
  "mmap_exec (EvWorker 0) demo_recorded = Some (Inr (demo_at WFinish 1 (- 1) REQUEST_STAT_IOSUCCESS demo_os_done))"
  "mmap_exec (EvWorker 0) (demo_at WFinish 1 (- 1) REQUEST_STAT_IOSUCCESS demo_os_done) = Some (Inr demo_served)"
  using demo_record demo_clean
  by (simp_all add: worker_step_def) (simp add: demo_at_def count_idle_def set_thread_def)

lemma demo_until_served_run:
  "run mmap_exec (demo_until_record @ replicate 3 (EvWorker 0)) (mmap_start demo_world) = Some demo_served"
  unfolding run_append demo_until_record_run option.case
  by (simp only: numeral_3_eq_3 replicate.simps run.simps demo_last_steps option.case sum.case)

text \<open>Thread 0 has nothing more to do and falls asleep, before the others have started.\<close>

lemma demo_pool_asleep:
  "cv_trace mmap_cv_step (all_awake (mmap_start demo_world)) (demo_until_record @ replicate 3 (EvWorker 0))
     \<lparr>cv_sys = demo_served, asleep = [Pool 0 \<mapsto> NotEmpty]\<rparr>"
proof -
  have "\<exists>t. mmap_performs t e" if "e \<in> set (demo_until_record @ replicate 3 (EvWorker 0))" for e
  proof (cases "e = EvWorker 0")
    case True
    then show ?thesis by (intro exI [of _ "Pool 0"]) simp
  next
    case False
    with that demo_performed [of e] show ?thesis by auto
  qed
  then have "cv_trace mmap_cv_step (all_awake (mmap_start demo_world)) (demo_until_record @ replicate 3 (EvWorker 0))
      (all_awake demo_served)"
    unfolding mmap_cv_step_def by (intro awake_run [OF demo_until_served_run])
  moreover have "mmap_cv_step (all_awake demo_served) [] \<lparr>cv_sys = demo_served, asleep = [Pool 0 \<mapsto> NotEmpty]\<rparr>"
    unfolding mmap_cv_step_def all_awake_def by (rule cv_step.sleep) simp_all
  ultimately show ?thesis by (rule cv_trace_none)
qed

section \<open>What the wake-ups do not cost\<close>

text \<open>
  C5: with condition variables as they are, the pool never sleeps on its work: in everything that can
  happen, interrupted submissions and closing the pool included, a pool thread that falls asleep
  has left the queue empty, and whenever some pool thread could take a step, one that is not asleep can.
  The machine with wake-ups does nothing the other theories do not know: its events are a run.
\<close>
theorem pool_never_oversleeps:
  assumes "cv_trace mmap_cv_step (all_awake (mmap_start w)) es x"
  shows "run mmap_exec es (mmap_start w) = Some (cv_sys x) \<and>
         (\<forall>k. worker_step k (cv_sys x) = None \<or>
              (\<exists>j. asleep x (Pool j) = None \<and> worker_step j (cv_sys x) \<noteq> None))"
proof (intro conjI allI)
  show "run mmap_exec es (mmap_start w) = Some (cv_sys x)"
    using cv_trace_run [OF assms [unfolded mmap_cv_step_def]] by simp
  show "worker_step k (cv_sys x) = None \<or>
        (\<exists>j. asleep x (Pool j) = None \<and> worker_step j (cv_sys x) \<noteq> None)" for k
    using some_awake [OF mmap_trace_rested [OF assms]] by blast
qed

theorem pool_never_oversleeps_witness:
  "\<exists>j. j \<noteq> 0 \<and> worker_step j demo_served \<noteq> None"
proof -
  let ?x = "\<lparr>cv_sys = demo_served, asleep = [Pool 0 \<mapsto> NotEmpty]\<rparr>"
  have w: "worker_step 1 demo_served \<noteq> None" by (simp add: worker_step_def)
  from pool_never_oversleeps [OF demo_pool_asleep] w
  obtain j where "asleep ?x (Pool j) = None" "worker_step j demo_served \<noteq> None" by auto
  then show ?thesis by (intro exI [of _ j]) (simp split: if_splits)
qed

section \<open>One waiter per request\<close>

text \<open>
  Any number of clients, each request belonging to one of them: only \<open>owner p\<close> prepares, submits and waits
  for \<open>p\<close>, and does nothing else while it waits. Anyone may cancel it. The calls may be interrupted anywhere,
  short of the two races of \<open>in_time\<close>.
\<close>

fun prepares :: "mmap_event \<Rightarrow> ptr option" where
  "prepares (EvAlloc p) = Some p"
| "prepares (EvImport p b) = Some p"
| "prepares (EvPut p) = Some p"
| "prepares (EvPutSubmit p) = Some p"
| "prepares (EvPutTask p) = Some p"
| "prepares (EvPutFinish p res) = Some p"
| "prepares _ = None"

definition owned_performs :: "(ptr \<Rightarrow> nat) \<Rightarrow> mmap_thread \<Rightarrow> mmap_event \<Rightarrow> bool" where
  "owned_performs owner t e \<longleftrightarrow>
     mmap_performs t e \<and> (\<forall>p. prepares e = Some p \<longrightarrow> t = Client (owner p))"

definition owned_waits :: "(ptr \<Rightarrow> nat) \<Rightarrow> mmap_thread \<Rightarrow> mmap_cond \<Rightarrow> mmap_sys \<Rightarrow> bool" where
  "owned_waits owner t c s \<longleftrightarrow> mmap_waits t c s \<and> (\<forall>p. c = Finished p \<longrightarrow> t = Client (owner p))"

definition owned_cv_step :: "(ptr \<Rightarrow> nat) \<Rightarrow> mmap_cv \<Rightarrow> mmap_event list \<Rightarrow> mmap_cv \<Rightarrow> bool" where
  "owned_cv_step owner = cv_step timely (owned_performs owner) mmap_signals (owned_waits owner)"

lemma owned_is_step: "owned_cv_step owner x es y \<Longrightarrow> mmap_cv_step x es y"
  unfolding owned_cv_step_def mmap_cv_step_def
  by (induction rule: cv_step.induct)
    (auto intro: cv_step.intros simp: owned_performs_def owned_waits_def dest!: timely_exec)

lemma owned_is_trace: "cv_trace (owned_cv_step owner) x es y \<Longrightarrow> cv_trace mmap_cv_step x es y"
  by (induction rule: cv_trace.induct) (auto intro: cv_trace.intros owned_is_step)

lemma waits_cong: "get_req p s' = get_req p s \<Longrightarrow> client_waits p s' = client_waits p s"
  by simp

lemma still_submitted:
  assumes "req_step (\<lambda>a b. False) s s'" "client_waits p s"
  shows "client_waits p s'"
proof -
  from assms(2) obtain a r where p: "p = Addr a" and r: "requests s a = Some r" "r_status r = REQUEST_STAT_SUBMITTED"
    by (auto simp: get_req_Inr_iff split: sum.splits)
  with assms(1) obtain r' where "requests s' a = Some r'" "r_status r' = REQUEST_STAT_SUBMITTED"
    unfolding req_step_def by metis
  then show ?thesis by (simp add: p get_req_def)
qed

text \<open>An operation on \<open>q\<close> leaves the other requests alone.\<close>

definition others :: "ptr \<Rightarrow> mmap_sys \<Rightarrow> mmap_sys \<Rightarrow> bool" where
  "others q s s' \<longleftrightarrow> (\<forall>p. p \<noteq> q \<longrightarrow> get_req p s' = get_req p s)"

lemma others_trans: "others q s t \<Longrightarrow> others q t u \<Longrightarrow> others q s u"
  by (simp add: others_def)

lemma others_same: "requests s' = requests s \<Longrightarrow> others q s s'"
  by (simp add: others_def get_req_def)

lemma others_refl [simp]: "others q s s"
  by (simp add: others_def)

lemma others_put: "get_req q s = Inr r \<Longrightarrow> requests t = requests s \<Longrightarrow> others q s (put_req q r' t)"
  using get_put_req [of q t r] by (simp add: others_def get_req_def)

lemma others_check: "mmap_check_request_valid q s = Inr (res, s') \<Longrightarrow> others q s s'"
  by (erule check_cases) (auto intro: others_same others_put)

lemma others_alloc:
  assumes a: "mmap_request_alloc_write_buffer q b0 s = Inr (res, b, s')"
  shows "others q s s'"
proof -
  from a obtain res0 s1 r0 where c: "mmap_check_request_valid q s = Inr (res0, s1)" "get_req q s1 = Inr r0"
    by (auto simp: mmap_request_alloc_write_buffer_def)
  have "others q s1 s'" using a c
    by (auto simp: mmap_request_alloc_write_buffer_def Let_def intro!: others_put
        split: if_splits prod.splits)
  with others_check [OF c(1)] show ?thesis by (rule others_trans)
qed

lemma others_import:
  assumes a: "mmap_request_import_read_buffer q b s = Inr (res, s')"
  shows "others q s s'"
proof -
  from a obtain res0 s1 where c: "mmap_check_request_valid q s = Inr (res0, s1)"
    by (auto simp: mmap_request_import_read_buffer_def)
  have "others q s1 s'" using a c
    by (auto simp: mmap_request_import_read_buffer_def intro!: others_put split: if_splits)
  with others_check [OF c] show ?thesis by (rule others_trans)
qed

lemma others_put_finish: "mmap_put_finish q res s = Inr (res', s') \<Longrightarrow> others q s s'"
  by (auto simp: mmap_put_finish_def Let_def intro!: others_put split: if_splits)

lemma others_put_request:
  assumes a: "mmap_put_request q s = Inr (res, s')"
  shows "others q s s'"
proof -
  from a obtain res0 s1 where c: "mmap_check_request_valid q s = Inr (res0, s1)"
    by (auto simp: mmap_put_request_def)
  have "others q s1 s'"
  proof (cases "res0 = RET_OK")
    case True
    with a c obtain res2 s2 where p: "mmap_put_submit q s1 = Inr (res2, s2)"
      and f: "mmap_put_finish q res2 s2 = Inr (res, s')" by (auto simp: mmap_put_request_def)
    from others_same [OF put_submit_requests [OF p]] others_put_finish [OF f] show ?thesis by (rule others_trans)
  next
    case False
    with a c show ?thesis by (auto simp: mmap_put_request_def intro: others_same)
  qed
  with others_check [OF c] show ?thesis by (rule others_trans)
qed

lemma others_timeout: "timeout_region q s = Inr s' \<Longrightarrow> others q s s'"
  by (auto simp: timeout_region_def intro!: others_put)

lemma others_waits: "others q s s' \<Longrightarrow> p \<noteq> q \<Longrightarrow> client_waits p s \<Longrightarrow> client_waits p s'"
  by (simp add: others_def)

text \<open>What is done to the request a client waits for is signalled.\<close>

lemma worker_tells:
  assumes st: "worker_step i s = Some (Inr s')" and w: "client_waits p s"
  shows "client_waits p s' \<or> mmap_signals (EvWorker i) s s' = Some (Finished p)"
proof (cases "\<exists>t ok a. threads s ! i = WStat t ok a")
  case False
  then have "req_step (\<lambda>a b. False) s s'" by (intro worker_silent_step [OF st]) blast
  with w show ?thesis by (blast intro: still_submitted)
next
  case True
  then obtain t ok a where t: "threads s ! i = WStat t ok a" by blast
  with st obtain f q u where c: "task_call t s = Inr (f, q)" and u: "mmap_record_status q ok s = Inr u"
    "requests s' = requests u"
    by (auto simp: worker_step_def split: if_splits)
  show ?thesis
  proof (cases "q = p")
    case True
    with t c show ?thesis by simp
  next
    case False
    from u(1) have "others q s u" by (auto simp: mmap_record_status_def intro!: others_put)
    with others_same [OF u(2)] have "others q s s'" by (blast intro: others_trans)
    with False w show ?thesis by (blast intro: others_waits)
  qed
qed

lemma cancel_tells:
  assumes e: "mmap_cancel_request q s = Inr (res, s')" and w: "client_waits p s"
  shows "client_waits p s' \<or> mmap_signals (EvCancel q) s s' = Some (Finished p)"
proof -
  from e obtain res0 s1 where c: "mmap_check_request_valid q s = Inr (res0, s1)"
    by (auto simp: mmap_cancel_request_def)
  have w1: "client_waits p s1" using still_submitted [OF check_step [OF c] w] .
  show ?thesis
  proof (cases "cancel_signals q s")
    case False
    with e c have "s' = s1" by (auto simp: mmap_cancel_request_def cancel_signals_def split: if_splits)
    with w1 show ?thesis by simp
  next
    case True
    show ?thesis
    proof (cases "q = p")
      case False
      have "others q s1 s'" using e c
        by (auto simp: mmap_cancel_request_def mmap_cancel_region_def intro!: others_put split: if_splits)
      with False w1 show ?thesis by (blast intro: others_waits)
    qed (use True in simp)
  qed
qed

lemma others_tell:
  assumes inv: "mmap_inv n s" and w: "client_waits p s" and e: "mmap_exec e s = Some (Inr s')"
    and o: "prepares e \<noteq> Some p"
  shows "client_waits p s' \<or> mmap_signals e s s' = Some (Finished p)"
proof -
  have still: "client_waits p s'" if "\<And>a b. \<not> may_change e a b"
    by (rule still_submitted [OF req_step_mono [OF exec_req_step [OF inv e]] w]) (use that in blast)
  show ?thesis
  proof (cases e)
    case (EvWorker i)
    with e have "worker_step i s = Some (Inr s')" by simp
    from worker_tells [OF this w] show ?thesis by (simp only: EvWorker)
  next
    case (EvTimeout q)
    with e w others_waits [OF others_timeout, of q s s' p] show ?thesis by (cases "p = q") auto
  next
    case (EvCancelOne q)
    with e w others_waits [OF others_timeout, of q s s' p] show ?thesis by (cases "p = q") auto
  next
    case (EvCancel q)
    with e obtain res where "mmap_cancel_request q s = Inr (res, s')" by (auto simp: only_state_def)
    from cancel_tells [OF this w] show ?thesis by (simp only: EvCancel)
  next
    case (EvAlloc q)
    with e o obtain res b where "mmap_request_alloc_write_buffer q Null s = Inr (res, b, s')" "p \<noteq> q" by auto
    then show ?thesis using others_waits [OF others_alloc _ w] by blast
  next
    case (EvImport q b)
    with e o obtain res where "mmap_request_import_read_buffer q b s = Inr (res, s')" "p \<noteq> q"
      by (auto simp: only_state_def)
    then show ?thesis using others_waits [OF others_import _ w] by blast
  next
    case (EvPut q)
    with e o obtain res where "mmap_put_request q s = Inr (res, s')" "p \<noteq> q" by (auto simp: only_state_def)
    then show ?thesis using others_waits [OF others_put_request _ w] by blast
  next
    case (EvPutFinish q res)
    with e o obtain res' where "mmap_put_finish q res s = Inr (res', s')" "p \<noteq> q" by (auto simp: only_state_def)
    then show ?thesis using others_waits [OF others_put_finish _ w] by blast
  qed (use o still in simp_all)
qed

interpretation owned: sole_waiter timely mmap_inv "\<lambda>_. True" LIST_LIMIT
  "owned_performs owner" mmap_signals "owned_waits owner" "\<lambda>c. c \<noteq> NotEmpty" for owner
proof unfold_locales
  show True ..
next
  fix c u v s s' assume "c \<noteq> NotEmpty" "owned_waits owner u c s" "owned_waits owner v c s'"
  then show "u = v" by (cases c) (auto simp: owned_waits_def)
next
  fix n c u s e s' t
  assume inv: "mmap_inv n s" and c: "c \<noteq> NotEmpty" and w: "owned_waits owner u c s"
    and "timely e s = Some (Inr s')" and t: "owned_performs owner t e" "t \<noteq> u"
  then have e: "mmap_exec e s = Some (Inr s')" using timely_exec by blast
  from c w obtain p where u: "c = Finished p" "u = Client (owner p)" by (cases c) (auto simp: owned_waits_def)
  with w have w': "client_waits p s" by (simp add: owned_waits_def)
  from t u have "prepares e \<noteq> Some p" by (auto simp: owned_performs_def)
  from others_tell [OF inv w' e this] show "owned_waits owner u c s' \<or> mmap_signals e s s' = Some c"
    by (auto simp: u owned_waits_def)
qed



section \<open>Two clients\<close>

text \<open>The other threads start: \<open>demo_idle k\<close> with \<open>k\<close> of them.\<close>

definition demo_idle :: "nat \<Rightarrow> mmap_sys" where
  "demo_idle k = demo_served
     \<lparr>pinfo := \<lparr>maxThreadIdx = 1 + of_nat k, busyThreadNum = 0, idleThreadNum = 1 + of_nat k,
               aliveThreadNum = 1 + of_nat k, isInitialized = True, isRunning = True\<rparr>,
      threads := replicate (Suc k) WAcquire @ replicate (4 - k) WStart\<rparr>"

lemma demo_idle_0: "demo_idle 0 = demo_served"
  by (simp add: demo_idle_def demo_at_def numeral_eq_Suc)

lemma demo_register:
  assumes "k < 4"
  shows "threads (demo_idle k) ! Suc k = WStart"
    "mmap_exec (EvWorker (Suc k)) (demo_idle k) = Some (Inr (demo_idle (Suc k)))"
proof -
  from assms obtain j where j: "4 - k = Suc j" "j = 4 - Suc k" by (metis Suc_diff_Suc)
  show t: "threads (demo_idle k) ! Suc k = WStart" using assms by (simp add: demo_idle_def nth_append)
  moreover have "Suc k < length (threads (demo_idle k))" using assms by (simp add: demo_idle_def)
  ultimately show "mmap_exec (EvWorker (Suc k)) (demo_idle k) = Some (Inr (demo_idle (Suc k)))" using assms
    by (simp add: worker_step_def)
       (simp add: demo_idle_def count_alive_def set_thread_def list_update_append j replicate_app_Cons_same)
qed

lemma demo_register_trace:
  assumes "cv_trace mmap_cv_step x es \<lparr>cv_sys = demo_idle 0, asleep = [Client 1 \<mapsto> Finished (Addr 2)]\<rparr>"
  shows "k \<le> 4 \<Longrightarrow> \<exists>fs. cv_trace mmap_cv_step x (es @ fs)
           \<lparr>cv_sys = demo_idle k, asleep = [Client 1 \<mapsto> Finished (Addr 2)]\<rparr>"
proof (induction k)
  case 0
  have "es = es @ []" by simp
  with assms show ?case by metis
next
  case (Suc k)
  then have "\<exists>fs. cv_trace mmap_cv_step x (es @ fs) \<lparr>cv_sys = demo_idle k, asleep = [Client 1 \<mapsto> Finished (Addr 2)]\<rparr>"
    by (metis Suc_leD)
  then obtain fs where "cv_trace mmap_cv_step x (es @ fs)
      \<lparr>cv_sys = demo_idle k, asleep = [Client 1 \<mapsto> Finished (Addr 2)]\<rparr>" by blast
  moreover have "mmap_cv_step \<lparr>cv_sys = demo_idle k, asleep = [Client 1 \<mapsto> Finished (Addr 2)]\<rparr> [EvWorker (Suc k)]
      \<lparr>cv_sys = demo_idle (Suc k), asleep = [Client 1 \<mapsto> Finished (Addr 2)]\<rparr>"
    unfolding mmap_cv_step_def using demo_register [of k] Suc.prems
    by (intro quiet_step [where t = "Pool (Suc k)"]) auto
  ultimately have "cv_trace mmap_cv_step x ((es @ fs) @ [EvWorker (Suc k)])
      \<lparr>cv_sys = demo_idle (Suc k), asleep = [Client 1 \<mapsto> Finished (Addr 2)]\<rparr>" by (rule cv_trace_one)
  then show ?case by (metis append_assoc)
qed

lemma demo_idle_stuck: "worker_step i (demo_idle 4) = None"
proof -
  have "threads (demo_idle 4) = replicate 5 WAcquire"
    by (simp add: demo_idle_def numeral_eq_Suc)
  moreover have "acquire_task (demo_idle 4) = None"
    by (simp add: acquire_task_def Let_def demo_idle_def)
  ultimately show ?thesis by (simp add: worker_step_def)
qed

text \<open>Two clients wait for the request; the signal of its outcome wakes one of them.\<close>

lemma demo_two_asleep:
  "\<exists>es. cv_trace mmap_cv_step (all_awake (mmap_start demo_world)) es
     \<lparr>cv_sys = demo_idle 0, asleep = [Client 1 \<mapsto> Finished (Addr 2)]\<rparr>"
proof -
  let ?W = "[Client 1 \<mapsto> Finished (Addr 2)] :: mmap_thread \<rightharpoonup> mmap_cond"
  let ?W2 = "?W(Client 0 \<mapsto> Finished (Addr 2))"
  have a: "mmap_cv_step (all_awake demo_recording) [] \<lparr>cv_sys = demo_recording, asleep = ?W\<rparr>"
    unfolding mmap_cv_step_def all_awake_def by (rule cv_step.sleep) simp_all
  have b: "mmap_cv_step \<lparr>cv_sys = demo_recording, asleep = ?W\<rparr> [] \<lparr>cv_sys = demo_recording, asleep = ?W2\<rparr>"
    unfolding mmap_cv_step_def by (rule cv_step.sleep) simp_all
  have w: "?W2(Client 0 := None) = ?W" by auto
  have c: "mmap_cv_step \<lparr>cv_sys = demo_recording, asleep = ?W2\<rparr> [EvWorker 0]
      \<lparr>cv_sys = demo_recorded, asleep = ?W2(Client 0 := None)\<rparr>"
    unfolding mmap_cv_step_def
    by (rule cv_step.wake [where t = "Pool 0" and c = "Finished (Addr 2)"], rule demo_last_steps) simp_all
  let ?f = "demo_at WFinish 1 (- 1) REQUEST_STAT_IOSUCCESS demo_os_done"
  have d: "mmap_cv_step \<lparr>cv_sys = demo_recorded, asleep = ?W\<rparr> [EvWorker 0] \<lparr>cv_sys = ?f, asleep = ?W\<rparr>"
    unfolding mmap_cv_step_def by (rule quiet_step [where t = "Pool 0"], rule demo_last_steps) simp_all
  have e: "mmap_cv_step \<lparr>cv_sys = ?f, asleep = ?W\<rparr> [EvWorker 0] \<lparr>cv_sys = demo_served, asleep = ?W\<rparr>"
    unfolding mmap_cv_step_def by (rule quiet_step [where t = "Pool 0"], rule demo_last_steps) simp_all
  note t = cv_trace_none [OF cv_trace_none [OF demo_until_record_trace a] b]
  show ?thesis unfolding demo_idle_0
    using cv_trace_one [OF cv_trace_one [OF cv_trace_one [OF t c [unfolded w]] d] e] by blast
qed

text \<open>
  C28: two clients that wait for the same request are not both woken: the outcome is announced with
  \<open>pthread_cond_signal\<close>, which wakes one of them. There is a run, from the start, after which the request is
  \<open>IOSUCCESS\<close>, no pool thread has anything left to do, and client 1 is still asleep at the request, although
  it no longer has a reason to wait.
\<close>
theorem second_waiter_sleeps_on:
  "\<exists>es x. cv_trace mmap_cv_step (all_awake (mmap_start demo_world)) es x \<and>
     map_option r_status (requests (cv_sys x) 2) = Some REQUEST_STAT_IOSUCCESS \<and>
     (\<forall>i. worker_step i (cv_sys x) = None) \<and>
     asleep x (Client 1) = Some (Finished (Addr 2)) \<and> \<not> mmap_waits (Client 1) (Finished (Addr 2)) (cv_sys x)"
proof -
  from demo_two_asleep obtain es where "cv_trace mmap_cv_step (all_awake (mmap_start demo_world)) es
      \<lparr>cv_sys = demo_idle 0, asleep = [Client 1 \<mapsto> Finished (Addr 2)]\<rparr>" by blast
  from demo_register_trace [OF this, of 4] obtain fs where
    t: "cv_trace mmap_cv_step (all_awake (mmap_start demo_world)) (es @ fs)
      \<lparr>cv_sys = demo_idle 4, asleep = [Client 1 \<mapsto> Finished (Addr 2)]\<rparr>" by blast
  have r: "requests (demo_idle 4) 2 = Some (demo_request\<lparr>r_status := REQUEST_STAT_IOSUCCESS, r_fd := - 1\<rparr>)"
    by (simp add: demo_idle_def)
  show ?thesis
    by (rule exI, rule exI, rule conjI [OF t]) (simp add: r demo_idle_stuck get_req_def)
qed

end
