(* ===== verification/Aio_State.thy ===== *)
theory Aio_State
  imports Posix
begin

text \<open>
  The data of the AIO accessor (\<open>aio_file_accessor.h\<close>) and the POSIX asynchronous I/O calls it is
  built on. The system keeps one operation for each submitted control block, named by the address of
  the request the control block lies in; it reads the control block when it carries the operation
  out, so the request must still exist then. Completed and cancelled operations notify the program
  once, by a thread that runs \<open>aio_callback\<close>.
\<close>

section \<open>Structures\<close>

datatype aio_sync = AioSyncZero | AioSyncReady

record aiocb =
  aio_fildes :: int
  aio_buf :: ptr
  aio_nbytes :: nat
  aio_offset :: int
  aio_sival :: ptr                \<comment> \<open>\<open>sigev_value.sival_ptr\<close>, once the notification is set up\<close>

record aio_request =
  ar_info :: async_file_access_request_info
  ar_fd :: int
  ar_fsb :: nat                   \<comment> \<open>\<open>fsb.st_size\<close>\<close>
  ar_cb :: aiocb
  ar_buf :: ptr
  ar_isValid :: bool
  ar_isAlloced :: bool
  ar_status :: request_stat
  ar_lock :: aio_sync
  ar_isFinished :: aio_sync

definition zero_aiocb :: aiocb where
  "zero_aiocb = \<lparr>aio_fildes = 0, aio_buf = Null, aio_nbytes = 0, aio_offset = 0, aio_sival = Null\<rparr>"

text \<open>\<open>memset(*pRequest, 0, sizeof(aio_request_t))\<close>\<close>

definition zero_aio_request :: aio_request where
  "zero_aio_request =
     \<lparr>ar_info = \<lparr>direction = 0, fn = replicate MAX_FILE_NAME_LEN (CHR 0x00), req_size = 0,
                 req_offset = 0\<rparr>,
      ar_fd = 0, ar_fsb = 0, ar_cb = zero_aiocb, ar_buf = Null, ar_isValid = False,
      ar_isAlloced = False, ar_status = REQUEST_STAT_INIT, ar_lock = AioSyncZero,
      ar_isFinished = AioSyncZero\<rparr>"

text \<open>An operation of the system: in progress, or finished with an error number (0 is success).\<close>

datatype aio_progress = InProgress | Finished int

record aio_op =
  op_write :: bool
  op_progress :: aio_progress
  op_notify :: bool               \<comment> \<open>finished, the notification has not run yet\<close>

record aio_sys =
  aos :: world
  areqs :: "nat \<Rightarrow> aio_request option"
  aops :: "nat \<Rightarrow> aio_op option"
  req_list :: ptr
  req_count :: u32

text \<open>The static initialiser of \<open>g_aioFileAccessor\<close>, in a process with memory and files \<open>w\<close>.\<close>

definition g_aioFileAccessor :: "world \<Rightarrow> aio_sys" where
  "g_aioFileAccessor w =
     \<lparr>aos = w, areqs = (\<lambda>_. None), aops = (\<lambda>_. None), req_list = Null, req_count = 0\<rparr>"

definition AIO_File_Accessor_Get_Instance :: "aio_sys \<Rightarrow> aio_sys" where
  "AIO_File_Accessor_Get_Instance s = s"

definition aget :: "ptr \<Rightarrow> aio_sys \<Rightarrow> fault + aio_request" where
  "aget p s = deref (areqs s) p"

fun aio_addr :: "ptr \<Rightarrow> nat" where
  "aio_addr (Addr a) = a"
| "aio_addr _ = 0"

definition aput :: "ptr \<Rightarrow> aio_request \<Rightarrow> aio_sys \<Rightarrow> aio_sys" where
  "aput p r s = s\<lparr>areqs := (areqs s)(aio_addr p := Some r)\<rparr>"

lemma aput_simps [simp]:
  "aos (aput p r s) = aos s" "aops (aput p r s) = aops s" "req_list (aput p r s) = req_list s"
  "req_count (aput p r s) = req_count s" "aput p r (aput p q s) = aput p r s"
  by (simp_all add: aput_def)

lemma aget_Inr_iff: "aget p s = Inr r \<longleftrightarrow> (\<exists>a. p = Addr a \<and> areqs s a = Some r)"
  by (simp add: aget_def deref_Inr_iff)

lemma aget_put:
  "aget p s = Inr r \<Longrightarrow> aget q (aput p r' s) = (if q = p then Inr r' else aget q s)"
  by (cases q; cases p) (auto simp: aget_def aput_def deref_def split: option.splits)

lemma aget_os [simp]: "aget p (s\<lparr>aos := w\<rparr>) = aget p s" "aget p (s\<lparr>aops := m\<rparr>) = aget p s"
  by (simp_all add: aget_def)

section \<open>Asynchronous I/O\<close>

text \<open>The error numbers and results of Linux.\<close>

definition EINPROGRESS :: int where "EINPROGRESS = 115"
definition ECANCELED :: int where "ECANCELED = 125"
definition EINVAL :: int where "EINVAL = 22"
definition EBADF :: int where "EBADF = 9"
definition EIO :: int where "EIO = 5"
definition EFAULT :: int where "EFAULT = 14"

definition AIO_CANCELED :: int where "AIO_CANCELED = 0"
definition AIO_NOTCANCELED :: int where "AIO_NOTCANCELED = 1"
definition AIO_ALLDONE :: int where "AIO_ALLDONE = 2"

lemmas aio_numbers = EINPROGRESS_def ECANCELED_def EINVAL_def EBADF_def EIO_def EFAULT_def
  AIO_CANCELED_def AIO_NOTCANCELED_def AIO_ALLDONE_def

text \<open>
  \<open>aio_read(cb)\<close> and \<open>aio_write(cb)\<close>: the request is queued, or refused with -1; a refused control
  block that is not in progress names no operation any more.
\<close>

definition sys_aio_submit :: "bool \<Rightarrow> ptr \<Rightarrow> aio_sys \<Rightarrow> int \<times> aio_sys" where
  "sys_aio_submit wr p s =
     (let (bad, w) = ask (aos s)
      in if bad
         then (- 1, s\<lparr>aos := w, aops := (aops s)(aio_addr p :=
                      (case aops s (aio_addr p) of
                         None \<Rightarrow> None
                       | Some x \<Rightarrow> if op_progress x = InProgress then Some x else None))\<rparr>)
         else (0, s\<lparr>aos := w, aops := (aops s)(aio_addr p :=
                     Some \<lparr>op_write = wr, op_progress = InProgress, op_notify = False\<rparr>)\<rparr>))"

text \<open>\<open>aio_error(cb)\<close>; a control block that was never queued is not valid.\<close>

definition sys_aio_error :: "ptr \<Rightarrow> aio_sys \<Rightarrow> int" where
  "sys_aio_error p s =
     (case aops s (aio_addr p) of
        None \<Rightarrow> EINVAL
      | Some x \<Rightarrow> (case op_progress x of InProgress \<Rightarrow> EINPROGRESS | Finished e \<Rightarrow> e))"

text \<open>
  \<open>aio_cancel(fd, cb)\<close>: -1 for a bad or a different descriptor, all done where nothing is in progress;
  otherwise the system cancels the operation, which notifies, or does not.
\<close>

definition sys_aio_cancel :: "int \<Rightarrow> ptr \<Rightarrow> aiocb \<Rightarrow> aio_sys \<Rightarrow> int \<times> aio_sys" where
  "sys_aio_cancel fd p cb s =
     (if fd_lookup (aos s) fd = None \<or> aio_fildes cb \<noteq> fd then (- 1, s)
      else (case aops s (aio_addr p) of
              None \<Rightarrow> (AIO_ALLDONE, s)
            | Some x \<Rightarrow>
                (case op_progress x of
                   Finished e \<Rightarrow> (AIO_ALLDONE, s)
                 | InProgress \<Rightarrow>
                     (let (bad, w) = ask (aos s)
                      in if bad then (AIO_NOTCANCELED, s\<lparr>aos := w\<rparr>)
                         else (AIO_CANCELED, s\<lparr>aos := w, aops := (aops s)(aio_addr p :=
                                 Some (x\<lparr>op_progress := Finished ECANCELED, op_notify := True\<rparr>))\<rparr>)))))"

text \<open>The transfers: \<open>pread\<close> and \<open>pwrite\<close> of the control block's range.\<close>

definition file_write :: "nat \<Rightarrow> u8 list \<Rightarrow> u8 list \<Rightarrow> u8 list" where
  "file_write off bs c = overwrite off bs (resize (max (length c) (off + length bs)) c)"

definition aio_transfer :: "bool \<Rightarrow> aiocb \<Rightarrow> world \<Rightarrow> fault + (int \<times> world)" where
  "aio_transfer wr cb w =
     (let (bad, w1) = ask w
      in case fd_lookup w1 (aio_fildes cb) of
           None \<Rightarrow> Inr (EBADF, w1)
         | Some d \<Rightarrow>
             (case files w1 (o_path d) of
                None \<Rightarrow> Inr (EIO, w1)
              | Some f \<Rightarrow>
                  if bad then Inr (EIO, w1)
                  else if aio_offset cb < 0 then Inr (EINVAL, w1)
                  else if \<not> (if wr then can_write (o_mode d) else can_read (o_mode d))
                  then Inr (EBADF, w1)
                  else if aio_buf cb = Null then Inr (EFAULT, w1)
                  else if wr
                  then and_then (mem_load (aio_buf cb) (aio_nbytes cb) w1) (\<lambda>bs.
                         Inr (0, w1\<lparr>files := (files w1)(o_path d :=
                           Some (f\<lparr>f_content := file_write (nat (aio_offset cb)) bs (f_content f)\<rparr>))\<rparr>))
                  else and_then (mem_store (aio_buf cb)
                                   (take (aio_nbytes cb) (drop (nat (aio_offset cb)) (f_content f))) w1)
                         (\<lambda>w2. Inr (0, w2))))"

text \<open>The system finishes the operation of the request at \<open>a\<close>; \<open>None\<close> if none is in progress.\<close>

definition aio_complete :: "nat \<Rightarrow> aio_sys \<Rightarrow> (fault + aio_sys) option" where
  "aio_complete a s =
     (case aops s a of
        None \<Rightarrow> None
      | Some x \<Rightarrow>
          if op_progress x \<noteq> InProgress then None
          else Some (and_then (deref (areqs s) (Addr a)) (\<lambda>r.
                     and_then (aio_transfer (op_write x) (ar_cb r) (aos s)) (\<lambda>(e, w).
                       Inr (s\<lparr>aos := w, aops := (aops s)(a :=
                              Some (x\<lparr>op_progress := Finished e, op_notify := True\<rparr>))\<rparr>)))))"

end
