(* ===== verification/Aio_Requests.thy ===== *)
theory Aio_Requests
  imports Aio_State
begin

text \<open>
  Creating and preparing a request of the AIO accessor: \<open>aio_check_request_valid\<close> (which opens the
  file to see whether it can), \<open>aio_get_request\<close>, \<open>aio_request_alloc_write_buffer\<close> and
  \<open>aio_request_import_read_buffer\<close>, with what they do on every branch.
\<close>

section \<open>Operations\<close>

definition aio_open_mode :: "async_file_access_request_info \<Rightarrow> open_mode" where
  "aio_open_mode ci = (if direction ci = ASYNC_FILE_ACCESS_READ then Rdonly else WronlyCreat)"

definition aio_check_request_valid :: "ptr \<Rightarrow> aio_sys \<Rightarrow> fault + (ret_t \<times> aio_sys)" where
  "aio_check_request_valid p s =
     (if p = Null then Inr (RET_BAD_VALUE, s)
      else and_then (aget p s) (\<lambda>r.
        if \<not> ar_isValid r
        then let i = ar_info r
             in if req_size i \<le> 0 \<or> (direction i < 0 \<or> ASYNC_FILE_ACCESS_MAX \<le> direction i)
                then Inr (RET_BAD_VALUE, s)
                else and_then (file_name (fn i)) (\<lambda>path.
                  let (fd, w) = sys_open path (aio_open_mode i) (aos s)
                  in if fd < 0 then Inr (RET_BAD_VALUE, s\<lparr>aos := w\<rparr>)
                     else Inr (RET_OK, aput p (r\<lparr>ar_isValid := True\<rparr>)
                                         (s\<lparr>aos := snd (sys_close fd w)\<rparr>)))
        else Inr (RET_OK, s)))"

text \<open>The fields of a request once \<open>open\<close> returned \<open>fd\<close>, also where \<open>fd\<close> is -1.\<close>

definition aio_request_setup ::
  "async_file_access_request_info \<Rightarrow> int \<Rightarrow> aio_request \<Rightarrow> world \<Rightarrow> aio_request \<times> world" where
  "aio_request_setup ci fd r w =
     (let (off, w1) = sys_lseek_cur fd (unat (req_offset ci)) w
      in (r\<lparr>ar_fd := fd, ar_buf := Null, ar_isAlloced := False, ar_status := REQUEST_STAT_INIT,
            ar_cb := (ar_cb r)\<lparr>aio_buf := Null, aio_fildes := fd,
                               aio_nbytes := unat (req_size ci), aio_offset := off\<rparr>,
            ar_fsb := (case sys_fstat fd w1 of Some n \<Rightarrow> n | None \<Rightarrow> ar_fsb r),
            ar_lock := AioSyncReady, ar_isFinished := AioSyncReady\<rparr>, w1))"

definition aio_copied_info :: "async_file_access_request_info \<Rightarrow> async_file_access_request_info" where
  "aio_copied_info ci = ci\<lparr>fn := take MAX_FILE_NAME_LEN (fn ci)\<rparr>"

definition aio_get_request ::
  "async_file_access_request_info \<Rightarrow> aio_sys \<Rightarrow> fault + (ret_t \<times> ptr \<times> aio_sys)" where
  "aio_get_request ci s =
     (let (p, w1) = c_new (aos s)
      in if p = Null then Inl NullDeref
         else
           let s1 = aput p (zero_aio_request\<lparr>ar_info := aio_copied_info ci\<rparr>) (s\<lparr>aos := w1\<rparr>)
           in and_then (aio_check_request_valid p s1) (\<lambda>(res, s2).
                if res \<noteq> RET_OK then Inr (res, p, s2)
                else and_then (file_name (fn ci)) (\<lambda>path. and_then (aget p s2) (\<lambda>r.
                  let (fd, w2) = retry_for (sys_open path (aio_open_mode ci)) (\<lambda>fd. fd = - 1)
                                   MAX_RETRY_TIMES (aos s2);
                      (r2, w3) = aio_request_setup ci fd r w2
                  in Inr (res, p, aput p r2 (s2\<lparr>aos := w3\<rparr>))))))"

text \<open>The buffer is the caller's old one where the code does not store a new one.\<close>

definition aio_request_alloc_write_buffer ::
  "ptr \<Rightarrow> ptr \<Rightarrow> aio_sys \<Rightarrow> fault + (ret_t \<times> ptr \<times> aio_sys)" where
  "aio_request_alloc_write_buffer p buffer s =
     and_then (aio_check_request_valid p s) (\<lambda>(res, s1).
       if res = RET_OK
       then and_then (aget p s1) (\<lambda>r.
         if 0 < aio_nbytes (ar_cb r)
         then let (b, w) = retry_for (c_malloc (aio_nbytes (ar_cb r))) (\<lambda>b. b = Null)
                             MAX_RETRY_TIMES (aos s1)
              in Inr (res, b, aput p (r\<lparr>ar_buf := b, ar_cb := (ar_cb r)\<lparr>aio_buf := b\<rparr>,
                                        ar_isAlloced := True\<rparr>) (s1\<lparr>aos := w\<rparr>))
         else Inr (RET_BAD_VALUE, buffer, s1))
       else Inr (res, buffer, s1))"

definition aio_request_import_read_buffer ::
  "ptr \<Rightarrow> ptr \<Rightarrow> aio_sys \<Rightarrow> fault + (ret_t \<times> aio_sys)" where
  "aio_request_import_read_buffer p buffer s =
     and_then (aio_check_request_valid p s) (\<lambda>(res, s1).
       if res = RET_OK
       then if buffer \<noteq> Null
            then and_then (aget p s1) (\<lambda>r.
                   Inr (res, aput p (r\<lparr>ar_buf := buffer, ar_cb := (ar_cb r)\<lparr>aio_buf := buffer\<rparr>\<rparr>) s1))
            else Inr (RET_BAD_VALUE, s1)
       else Inr (res, s1))"

section \<open>Validity\<close>

definition aio_info_ok :: "async_file_access_request_info \<Rightarrow> bool" where
  "aio_info_ok i \<longleftrightarrow> 0 < req_size i \<and>
     (direction i = ASYNC_FILE_ACCESS_READ \<or> direction i = ASYNC_FILE_ACCESS_WRITE)"

lemma aio_info_ok_iff:
  "aio_info_ok i \<longleftrightarrow> req_size i \<noteq> 0 \<and> \<not> ASYNC_FILE_ACCESS_MAX \<le> direction i"
proof -
  have "direction i < ASYNC_FILE_ACCESS_MAX \<longleftrightarrow>
        direction i = ASYNC_FILE_ACCESS_READ \<or> direction i = ASYNC_FILE_ACCESS_WRITE"
    using direction_cases [of "direction i"]
    by (auto simp: ASYNC_FILE_ACCESS_READ_def ASYNC_FILE_ACCESS_WRITE_def ASYNC_FILE_ACCESS_MAX_def)
  then show ?thesis by (auto simp: aio_info_ok_def not_le word_neq_0_conv)
qed

lemma acheck_Null [simp]: "aio_check_request_valid Null s = Inr (RET_BAD_VALUE, s)"
  by (simp add: aio_check_request_valid_def)

lemma acheck_valid:
  "aget p s = Inr r \<Longrightarrow> ar_isValid r \<Longrightarrow> aio_check_request_valid p s = Inr (RET_OK, s)"
  by (cases p) (auto simp: aio_check_request_valid_def aget_def)

lemma acheck_fresh:
  "aget p s = Inr r \<Longrightarrow> \<not> ar_isValid r \<Longrightarrow>
   aio_check_request_valid p s =
     (if \<not> aio_info_ok (ar_info r) then Inr (RET_BAD_VALUE, s)
      else and_then (file_name (fn (ar_info r))) (\<lambda>path.
        let (fd, w) = sys_open path (aio_open_mode (ar_info r)) (aos s)
        in if fd < 0 then Inr (RET_BAD_VALUE, s\<lparr>aos := w\<rparr>)
           else Inr (RET_OK, aput p (r\<lparr>ar_isValid := True\<rparr>) (s\<lparr>aos := snd (sys_close fd w)\<rparr>))))"
  by (cases p) (auto simp: aio_check_request_valid_def aio_info_ok_iff aget_def Let_def)

text \<open>
  What every returning check has in common: it answers, at most marks the request valid, and opens
  and closes a descriptor at most.
\<close>

lemma acheck_cases:
  assumes "aio_check_request_valid p s = Inr (res, s')"
  obtains (null) "p = Null" "res = RET_BAD_VALUE" "s' = s"
  | (valid) r where "aget p s = Inr r" "ar_isValid r" "res = RET_OK" "s' = s"
  | (invalid) r w where "aget p s = Inr r" "\<not> ar_isValid r" "res = RET_BAD_VALUE" "s' = s\<lparr>aos := w\<rparr>"
      "same_store (aos s) w" "fds w = fds (aos s)" "files w = files (aos s)"
  | (made) r fd w path where "aget p s = Inr r" "\<not> ar_isValid r" "aio_info_ok (ar_info r)"
      "res = RET_OK" "cstr (fn (ar_info r)) = Some path"
      "sys_open path (aio_open_mode (ar_info r)) (aos s) = (fd, w)" "0 \<le> fd"
      "s' = aput p (r\<lparr>ar_isValid := True\<rparr>) (s\<lparr>aos := snd (sys_close fd w)\<rparr>)"
proof (cases "p = Null")
  case True
  with assms null show thesis by simp
next
  case False
  with assms obtain r where r: "aget p s = Inr r" by (auto simp: aio_check_request_valid_def)
  show thesis
  proof (cases "ar_isValid r")
    case True
    from assms have "res = RET_OK" "s' = s" unfolding acheck_valid [OF r True] by auto
    from valid [OF r True this] show thesis .
  next
    case nv: False
    show thesis
    proof (cases "aio_info_ok (ar_info r)")
      case False
      from assms have res: "res = RET_BAD_VALUE \<and> s' = s"
        unfolding acheck_fresh [OF r nv] using False by auto
      have "s = s\<lparr>aos := aos s\<rparr>" by simp
      with res invalid [OF r nv, of "aos s"] show thesis by (simp add: same_store_def)
    next
      case True
      with assms r nv obtain path where path: "cstr (fn (ar_info r)) = Some path"
        by (auto simp: acheck_fresh file_name_def split: option.splits)
      obtain fd w where o: "sys_open path (aio_open_mode (ar_info r)) (aos s) = (fd, w)" by fastforce
      show thesis
      proof (cases "fd < 0")
        case neg: True
        with True assms r nv path o have "res = RET_BAD_VALUE" "s' = s\<lparr>aos := w\<rparr>"
          by (simp_all add: acheck_fresh file_name_def)
        from invalid [OF r nv this] sys_open_spec [OF o] sys_open_frame [OF o] neg show thesis
          by (auto simp: same_store_def)
      next
        case False
        with True assms r nv path o have "res = RET_OK"
          "s' = aput p (r\<lparr>ar_isValid := True\<rparr>) (s\<lparr>aos := snd (sys_close fd w)\<rparr>)"
          by (simp_all add: acheck_fresh file_name_def)
        with made [OF r nv True _ path o] False show thesis by simp
      qed
    qed
  qed
qed

end
