(* ===== verification/Aio_Accessor.thy ===== *)
theory Aio_Accessor
  imports Aio_Requests
begin

text \<open>
  The AIO accessor after a request exists: \<open>aio_put_request\<close>, \<open>aio_callback\<close>, the operations that
  cancel, wait and release, and the events of the process: the client's calls, the system finishing
  operations, and the notifications. Operations that wait take a schedule, the events that happen
  while they wait, and are \<open>None\<close> where it ends before they do.
\<close>

section \<open>\<open>aio_put_request\<close>\<close>

text \<open>
  \<open>free((void* )pRequest->cb.aio_buf)\<close> with the two stores after it, in \<open>aio_put_request\<close>,
  \<open>aio_callback\<close> and \<open>aio_cancel_request\<close>.
\<close>

definition aio_free_buffer :: "ptr \<Rightarrow> aio_sys \<Rightarrow> fault + aio_sys" where
  "aio_free_buffer p s =
     and_then (aget p s) (\<lambda>r.
     and_then (c_free (aio_buf (ar_cb r)) (aos s)) (\<lambda>w.
       Inr (aput p (r\<lparr>ar_buf := Null, ar_cb := (ar_cb r)\<lparr>aio_buf := Null\<rparr>\<rparr>) (s\<lparr>aos := w\<rparr>))))"

text \<open>Up to the result of \<open>aio_read\<close> or \<open>aio_write\<close> and what follows a refusal.\<close>

definition aio_put_submit :: "ptr \<Rightarrow> aio_sys \<Rightarrow> fault + (ret_t \<times> aio_sys)" where
  "aio_put_submit p s =
     and_then (aget p s) (\<lambda>r.
       let s1 = aput p (r\<lparr>ar_cb := (ar_cb r)\<lparr>aio_sival := p\<rparr>\<rparr>) s;
           (res, s2) = sys_aio_submit (ASYNC_FILE_ACCESS_WRITE = direction (ar_info r)) p s1
       in if res \<noteq> RET_OK \<and> ar_isAlloced r
          then and_then (aio_free_buffer p s2) (\<lambda>s3. Inr (res, s3))
          else Inr (res, s2))"

definition aio_put_mark :: "ptr \<Rightarrow> aio_sys \<Rightarrow> fault + aio_sys" where
  "aio_put_mark p s =
     and_then (aget p s) (\<lambda>r. Inr (aput p (r\<lparr>ar_status := REQUEST_STAT_SUBMITTED\<rparr>) s))"

text \<open>Growing the list of requests, eight bytes per entry.\<close>

definition aio_grow_list :: "aio_sys \<Rightarrow> fault + (ret_t \<times> aio_sys)" where
  "aio_grow_list s =
     (if req_count s mod REQ_LIST_BUFSIZE = 0
      then and_then (c_realloc_arr (req_list s) (unat (new_list_bufsize (req_count s)) div 8) (aos s))
             (\<lambda>(q, w). if q = Null then Inr (RET_NO_MEMORY, s\<lparr>aos := w\<rparr>)
                       else Inr (RET_OK, s\<lparr>aos := w, req_list := q\<rparr>))
      else Inr (RET_OK, s))"

definition aio_list_request :: "ptr \<Rightarrow> aio_sys \<Rightarrow> fault + (ret_t \<times> aio_sys)" where
  "aio_list_request p s =
     and_then (aio_grow_list s) (\<lambda>(res, s1).
       if res = RET_OK
       then and_then (arr_set (req_list s1) (unat (req_count s1)) p (aos s1)) (\<lambda>w.
              Inr (res, s1\<lparr>aos := w, req_count := req_count s1 + 1\<rparr>))
       else Inr (res, s1))"

text \<open>The rest of \<open>aio_put_request\<close>, given the result of the submission.\<close>

definition aio_put_finish :: "ptr \<Rightarrow> ret_t \<Rightarrow> aio_sys \<Rightarrow> fault + (ret_t \<times> aio_sys)" where
  "aio_put_finish p res s =
     and_then (aio_put_mark p s) (\<lambda>s1.
       if res = RET_OK then aio_list_request p s1 else Inr (res, s1))"

definition aio_put_request :: "ptr \<Rightarrow> aio_sys \<Rightarrow> fault + (ret_t \<times> aio_sys)" where
  "aio_put_request p s =
     and_then (aio_check_request_valid p s) (\<lambda>(res, s1).
       if res = RET_OK
       then and_then (aio_put_submit p s1) (\<lambda>(res', s2). aio_put_finish p res' s2)
       else Inr (res, s1))"

section \<open>\<open>aio_callback\<close>\<close>

text \<open>
  The function holds the request's lock throughout, but other threads open and close files
  meanwhile: it is cut between its two calls of \<open>close\<close>.
\<close>

definition aio_callback_outcome :: "ptr \<Rightarrow> aio_sys \<Rightarrow> fault + aio_sys" where
  "aio_callback_outcome p s =
     and_then (aget p s) (\<lambda>r.
       let s1 = (if sys_aio_error p s = 0
                 then aput p (r\<lparr>ar_status := REQUEST_STAT_IOSUCCESS\<rparr>) s else s)
       in if ar_isAlloced r \<and> ar_buf r \<noteq> Null then aio_free_buffer p s1 else Inr s1)"

definition aio_callback_close1 :: "ptr \<Rightarrow> aio_sys \<Rightarrow> fault + aio_sys" where
  "aio_callback_close1 p s =
     and_then (aget p s) (\<lambda>r.
       if 0 < ar_fd r
       then Inr (aput p (r\<lparr>ar_fd := - 1\<rparr>) (s\<lparr>aos := snd (sys_close (ar_fd r) (aos s))\<rparr>))
       else Inr s)"

definition aio_callback_close2 :: "ptr \<Rightarrow> aio_sys \<Rightarrow> fault + aio_sys" where
  "aio_callback_close2 p s =
     and_then (aget p s) (\<lambda>r.
       if 0 < aio_fildes (ar_cb r)
       then Inr (aput p (r\<lparr>ar_cb := (ar_cb r)\<lparr>aio_fildes := - 1\<rparr>\<rparr>)
                   (s\<lparr>aos := snd (sys_close (aio_fildes (ar_cb r)) (aos s))\<rparr>))
       else Inr s)"

definition aio_callback :: "ptr \<Rightarrow> aio_sys \<Rightarrow> fault + aio_sys" where
  "aio_callback p s =
     and_then (aio_callback_outcome p s) (\<lambda>s1.
     and_then (aio_callback_close1 p s1) (aio_callback_close2 p))"

text \<open>
  The system's notification for the operation at \<open>a\<close>: it reads the control block and calls the
  function with its \<open>sival_ptr\<close>; \<open>None\<close> where no notification is due.
\<close>

definition aio_notify :: "(ptr \<Rightarrow> aio_sys \<Rightarrow> fault + aio_sys) \<Rightarrow> nat \<Rightarrow> aio_sys \<Rightarrow> (fault + aio_sys) option" where
  "aio_notify callback a s =
     (case aops s a of
        None \<Rightarrow> None
      | Some x \<Rightarrow>
          if \<not> op_notify x then None
          else Some (and_then (deref (areqs s) (Addr a)) (\<lambda>r.
                     callback (aio_sival (ar_cb r)) (s\<lparr>aops := (aops s)(a := Some (x\<lparr>op_notify := False\<rparr>))\<rparr>))))"

section \<open>Cancelling and releasing\<close>

definition aio_cancel_request :: "ptr \<Rightarrow> aio_sys \<Rightarrow> fault + (ret_t \<times> aio_sys)" where
  "aio_cancel_request p s =
     and_then (aio_check_request_valid p s) (\<lambda>(res, s1).
     and_then (aget p s1) (\<lambda>r.
       if res \<noteq> RET_OK \<or> ar_status r \<le> REQUEST_STAT_INIT \<or> REQUEST_STAT_CANCEL \<le> ar_status r
       then Inr (res, s1)
       else let (res', s2) = sys_aio_cancel (ar_fd r) p (ar_cb r) s1
            in and_then (if ar_isAlloced r then aio_free_buffer p s2 else Inr s2) (\<lambda>s3.
               and_then (aget p s3) (\<lambda>r'.
                 Inr (res', aput p (r'\<lparr>ar_status := REQUEST_STAT_CANCEL\<rparr>) s3)))))"

text \<open>
  One round of \<open>aio_cancel_all_requests\<close> and of \<open>aio_release_all_resources\<close>, for entry \<open>i\<close> of the list.
\<close>

definition aio_cancel_one :: "nat \<Rightarrow> aio_sys \<Rightarrow> fault + aio_sys" where
  "aio_cancel_one i s =
     and_then (arr_get (req_list s) i (aos s)) (\<lambda>p.
     and_then (aget p s) (\<lambda>r. Inr (snd (sys_aio_cancel (ar_fd r) p (ar_cb r) s))))"

fun aio_cancel_loop :: "nat list \<Rightarrow> aio_sys \<Rightarrow> fault + aio_sys" where
  "aio_cancel_loop [] s = Inr s"
| "aio_cancel_loop (i # is) s = and_then (aio_cancel_one i s) (aio_cancel_loop is)"

definition aio_cancel_all_requests :: "aio_sys \<Rightarrow> fault + (ret_t \<times> aio_sys)" where
  "aio_cancel_all_requests s =
     (if req_list s = Null \<or> req_count s = 0 then Inr (RET_OK, s)
      else and_then (aio_cancel_loop [0..<unat (req_count s)] s) (\<lambda>s'. Inr (RET_OK, s')))"

definition aio_release_one :: "nat \<Rightarrow> aio_sys \<Rightarrow> fault + aio_sys" where
  "aio_release_one i s =
     and_then (arr_get (req_list s) i (aos s)) (\<lambda>p.
       if p = Null then Inr s
       else and_then (aget p s) (\<lambda>r.
         let s1 = (if ar_status r = REQUEST_STAT_SUBMITTED
                   then snd (sys_aio_cancel (ar_fd r) p (ar_cb r) s) else s);
             w1 = (if aio_fildes (ar_cb r) \<noteq> - 1
                   then snd (sys_close (aio_fildes (ar_cb r)) (aos s1)) else aos s1)
         in and_then (if ar_isAlloced r \<and> ar_buf r \<noteq> Null then c_free (ar_buf r) w1 else Inr w1) (\<lambda>w2.
            and_then (arr_set (req_list s) i Null w2) (\<lambda>w3.
              Inr (s1\<lparr>aos := w3, areqs := (areqs s1)(aio_addr p := None)\<rparr>)))))"

fun aio_release_loop :: "nat list \<Rightarrow> aio_sys \<Rightarrow> fault + aio_sys" where
  "aio_release_loop [] s = Inr s"
| "aio_release_loop (i # is) s = and_then (aio_release_one i s) (aio_release_loop is)"

definition aio_release_all_resources :: "aio_sys \<Rightarrow> fault + (ret_t \<times> aio_sys)" where
  "aio_release_all_resources s =
     (if req_list s = Null \<or> req_count s = 0 then Inr (RET_OK, s)
      else and_then (aio_release_loop [0..<unat (req_count s)] s) (\<lambda>s'. Inr (RET_OK, s')))"

section \<open>Events\<close>

datatype aio_event =
    AEvComplete nat                  \<comment> \<open>the system finishes an operation\<close>
  | AEvNotify nat                    \<comment> \<open>its notification runs\<close>
  | AEvNotifyFirst nat               \<comment> \<open>up to its first \<open>close\<close>\<close>
  | AEvNotifySecond ptr              \<comment> \<open>the rest of it\<close>
  | AEvGet async_file_access_request_info
  | AEvAlloc ptr
  | AEvImport ptr ptr
  | AEvPut ptr                       \<comment> \<open>\<open>aio_put_request\<close> in one piece\<close>
  | AEvPutSubmit ptr
  | AEvPutFinish ptr ret_t
  | AEvCancel ptr
  | AEvCancelAll
  | AEvReleaseAll
  | AEvMalloc nat
  | AEvStore ptr "u8 list"
  | AEvExpire                        \<comment> \<open>the timer of a wait expires\<close>

definition aio_only_state :: "fault + (ret_t \<times> aio_sys) \<Rightarrow> (fault + aio_sys) option" where
  "aio_only_state m = Some (and_then m (\<lambda>(r, s). Inr s))"

fun aio_exec :: "aio_event \<Rightarrow> aio_sys \<Rightarrow> (fault + aio_sys) option" where
  "aio_exec (AEvComplete a) s = aio_complete a s"
| "aio_exec (AEvNotify a) s = aio_notify aio_callback a s"
| "aio_exec (AEvNotifyFirst a) s =
     aio_notify (\<lambda>p s. and_then (aio_callback_outcome p s) (aio_callback_close1 p)) a s"
| "aio_exec (AEvNotifySecond p) s = Some (aio_callback_close2 p s)"
| "aio_exec (AEvGet ci) s = Some (and_then (aio_get_request ci s) (\<lambda>(r, p, s'). Inr s'))"
| "aio_exec (AEvAlloc p) s =
     Some (and_then (aio_request_alloc_write_buffer p Null s) (\<lambda>(r, b, s'). Inr s'))"
| "aio_exec (AEvImport p b) s = aio_only_state (aio_request_import_read_buffer p b s)"
| "aio_exec (AEvPut p) s = aio_only_state (aio_put_request p s)"
| "aio_exec (AEvPutSubmit p) s = aio_only_state (aio_put_submit p s)"
| "aio_exec (AEvPutFinish p res) s = aio_only_state (aio_put_finish p res s)"
| "aio_exec (AEvCancel p) s = aio_only_state (aio_cancel_request p s)"
| "aio_exec AEvCancelAll s = aio_only_state (aio_cancel_all_requests s)"
| "aio_exec AEvReleaseAll s = aio_only_state (aio_release_all_resources s)"
| "aio_exec (AEvMalloc n) s = Some (Inr (s\<lparr>aos := snd (c_malloc n (aos s))\<rparr>))"
| "aio_exec (AEvStore p bs) s = Some (and_then (mem_store p bs (aos s)) (\<lambda>w. Inr (s\<lparr>aos := w\<rparr>)))"
| "aio_exec AEvExpire s = Some (Inr s)"

section \<open>Waiting\<close>

text \<open>\<open>aio_suspend\<close> on one control block: 0 once it is not in progress, -1 when the timer expires.\<close>

fun aio_suspend ::
  "ptr \<Rightarrow> timespec option \<Rightarrow> aio_event list \<Rightarrow> aio_sys \<Rightarrow> (fault + (int \<times> aio_sys)) option" where
  "aio_suspend p timeout sch s =
     (if sys_aio_error p s \<noteq> EINPROGRESS then Some (Inr (0, s))
      else (case sch of
              [] \<Rightarrow> None
            | e # es \<Rightarrow>
                if e = AEvExpire \<and> timeout \<noteq> None then Some (Inr (- 1, s))
                else (case aio_exec e s of
                        None \<Rightarrow> aio_suspend p timeout es s
                      | Some (Inl f) \<Rightarrow> Some (Inl f)
                      | Some (Inr s') \<Rightarrow> aio_suspend p timeout es s')))"

declare aio_suspend.simps [simp del]

definition aio_wait_request ::
  "ptr \<Rightarrow> u32 \<Rightarrow> aio_event list \<Rightarrow> aio_sys \<Rightarrow> (fault + (ret_t \<times> aio_sys)) option" where
  "aio_wait_request p timeout_ms sch s =
     (case aio_check_request_valid p s of
        Inl f \<Rightarrow> Some (Inl f)
      | Inr (res, s1) \<Rightarrow>
          if res \<noteq> RET_OK then Some (Inr (RET_INVALID_OPERATION, s1))
          else (case aget p s1 of
                  Inl f \<Rightarrow> Some (Inl f)
                | Inr r \<Rightarrow>
                    if ar_status r \<le> REQUEST_STAT_INIT \<or> REQUEST_STAT_CANCEL \<le> ar_status r
                    then Some (Inr (RET_INVALID_OPERATION, s1))
                    else if ar_status r = REQUEST_STAT_SUBMITTED
                    then map_option (\<lambda>m. and_then m (\<lambda>(res', s2).
                             Inr (if res' = RET_OK then sys_aio_error p s2 else res', s2)))
                           (aio_suspend p (if 0 < timeout_ms then Some (timespec_of_ms timeout_ms)
                                           else None) sch s1)
                    else Some (Inr (res, s1))))"

text \<open>\<open>while (REQUEST_STAT_SUBMITTED == pRequest->status) pthread_cond_wait(..)\<close>\<close>

fun aio_wait_status ::
  "ptr \<Rightarrow> aio_event list \<Rightarrow> aio_sys \<Rightarrow> (fault + (aio_event list \<times> aio_sys)) option" where
  "aio_wait_status p sch s =
     (case aget p s of
        Inl f \<Rightarrow> Some (Inl f)
      | Inr r \<Rightarrow>
          if ar_status r \<noteq> REQUEST_STAT_SUBMITTED then Some (Inr (sch, s))
          else (case sch of
                  [] \<Rightarrow> None
                | e # es \<Rightarrow>
                    (case aio_exec e s of
                       None \<Rightarrow> aio_wait_status p es s
                     | Some (Inl f) \<Rightarrow> Some (Inl f)
                     | Some (Inr s') \<Rightarrow> aio_wait_status p es s')))"

declare aio_wait_status.simps [simp del]

text \<open>
  The loop of \<open>aio_wait_all_requests\<close> from entry \<open>i\<close>: list and count are read again in each round, and
  the error numbers are combined bit by bit.
\<close>

function aio_wait_all_loop ::
  "nat \<Rightarrow> int \<Rightarrow> aio_event list \<Rightarrow> aio_sys \<Rightarrow> (fault + (ret_t \<times> aio_sys)) option" where
  "aio_wait_all_loop i res sch s =
     (if unat (req_count s) \<le> i then Some (Inr (res, s))
      else (case arr_get (req_list s) i (aos s) of
              Inl f \<Rightarrow> Some (Inl f)
            | Inr p \<Rightarrow>
                if p = Null then aio_wait_all_loop (Suc i) res sch s
                else (case aio_wait_status p sch s of
                        None \<Rightarrow> None
                      | Some (Inl f) \<Rightarrow> Some (Inl f)
                      | Some (Inr (sch', s')) \<Rightarrow>
                          aio_wait_all_loop (Suc i) (Bit_Operations.or res (sys_aio_error p s')) sch' s')))"
  by pat_completeness auto
termination
proof (relation "measure (\<lambda>(i, res, sch, s). 2 ^ 32 - i)", goal_cases)
  case (2 i res sch s)
  then show ?case using unat_less_2_32 [of "req_count s"] by simp
next
  case (3 i res sch s)
  then show ?case using unat_less_2_32 [of "req_count s"] by simp
qed simp

declare aio_wait_all_loop.simps [simp del]

definition aio_wait_all_requests ::
  "aio_event list \<Rightarrow> aio_sys \<Rightarrow> (fault + (ret_t \<times> aio_sys)) option" where
  "aio_wait_all_requests sch s =
     (if req_list s = Null \<or> req_count s = 0 then Some (Inr (RET_OK, s))
      else aio_wait_all_loop 0 RET_OK sch s)"

end
