(* ===== verification/Aio_Invariants.thy ===== *)
theory Aio_Invariants
  imports Aio_Accessor
begin

text \<open>
  The invariant of the AIO accessor under every interleaving of the client's calls, the system and
  the notifications. A submitted request is still in progress, or its notification is due, or its
  operation failed or was refused: these last two are the ones nobody ever settles.
\<close>

section \<open>The invariant\<close>

text \<open>The state of a submitted request with operation \<open>x\<close>.\<close>

fun unsettled :: "aio_op option \<Rightarrow> bool" where
  "unsettled None = True"
| "unsettled (Some x) \<longleftrightarrow> op_progress x = InProgress \<or> op_notify x \<or>
     (\<exists>e. op_progress x = Finished e \<and> e \<noteq> 0)"

definition request_inv :: "aio_sys \<Rightarrow> nat \<Rightarrow> aio_request \<Rightarrow> bool" where
  "request_inv s a r \<longleftrightarrow>
     (aops s a \<noteq> None \<longrightarrow> aio_sival (ar_cb r) = Addr a) \<and>
     (ar_status r = REQUEST_STAT_SUBMITTED \<longrightarrow> unsettled (aops s a))"

definition aio_inv :: "aio_sys \<Rightarrow> bool" where
  "aio_inv s \<longleftrightarrow>
     (\<forall>a. aops s a \<noteq> None \<longrightarrow> a < brk (aos s)) \<and>
     (\<forall>a. areqs s a \<noteq> None \<longrightarrow> a < brk (aos s)) \<and>
     (\<forall>a r. areqs s a = Some r \<longrightarrow> request_inv s a r) \<and>
     (\<forall>a x. aops s a = Some x \<longrightarrow> op_notify x \<longrightarrow> op_progress x \<noteq> InProgress)"

text \<open>Steps that only change the operating system's side.\<close>

lemma ainv_os: "aio_inv s \<Longrightarrow> brk (aos s) \<le> brk w \<Longrightarrow> aio_inv (s\<lparr>aos := w\<rparr>)"
  by (auto simp: aio_inv_def request_inv_def intro: less_le_trans)

text \<open>Storing a request.\<close>

lemma ainv_put:
  assumes inv: "aio_inv s" and r: "aget p s = Inr r"
    and q: "aio_sival (ar_cb q) = aio_sival (ar_cb r)"
      "ar_status q = REQUEST_STAT_SUBMITTED \<Longrightarrow>
         ar_status r = REQUEST_STAT_SUBMITTED \<or> unsettled (aops s (aio_addr p))"
  shows "aio_inv (aput p q s)"
proof -
  from r obtain a where a: "p = Addr a" "areqs s a = Some r" by (auto simp: aget_Inr_iff)
  with inv have "request_inv s a r" by (simp add: aio_inv_def)
  with q a have "request_inv s a q" by (auto simp: request_inv_def)
  with inv a show ?thesis by (auto simp: aio_inv_def aput_def request_inv_def)
qed

lemma ainv_put_os:
  assumes inv: "aio_inv s" and r: "aget p s = Inr r" and w: "brk (aos s) \<le> brk w"
    and q: "aio_sival (ar_cb q) = aio_sival (ar_cb r)"
      "ar_status q = REQUEST_STAT_SUBMITTED \<Longrightarrow>
         ar_status r = REQUEST_STAT_SUBMITTED \<or> unsettled (aops s (aio_addr p))"
  shows "aio_inv (aput p q (s\<lparr>aos := w\<rparr>))"
  by (rule ainv_put [OF ainv_os [OF inv w]]) (use r q in auto)

text \<open>Changing an operation.\<close>

lemma ainv_op:
  assumes inv: "aio_inv s" and a: "aops s a \<noteq> None" and u: "unsettled (Some x)"
    "op_notify x \<longrightarrow> op_progress x \<noteq> InProgress"
  shows "aio_inv (s\<lparr>aops := (aops s)(a := Some x)\<rparr>)"
  using assms by (auto simp: aio_inv_def request_inv_def)

lemma close_brk: "brk (snd (sys_close fd w)) = brk w"
  by (simp add: sys_close_def split: option.split)

lemma free_brk: "c_free q w = Inr w' \<Longrightarrow> brk w' = brk w"
  by (auto simp: c_free_def split: ptr.splits option.splits)

section \<open>Every operation keeps it\<close>

lemma ainv_check:
  assumes inv: "aio_inv s" and c: "aio_check_request_valid p s = Inr (res, s')"
  shows "aio_inv s'"
  using c
proof (cases rule: acheck_cases)
  case (invalid r w)
  with inv show ?thesis by (auto intro: ainv_os simp: same_store_def)
next
  case (made r fd w path)
  with sys_open_frame [OF made(6)] show ?thesis
    by (auto intro!: ainv_put_os [OF inv] simp: close_brk)
qed (use inv in auto)

lemma malloc_retry_brk:
  assumes "retry_do (c_malloc k) (\<lambda>b. b = Null) l j w = (q, w')"
  shows "brk w \<le> brk w'"
proof (rule retry_do_rule [OF assms, where P = "\<lambda>v. brk w \<le> brk v"])
  fix v x v' assume "brk w \<le> brk v" "c_malloc k v = (x, v')"
  then show "brk w \<le> brk v'" by (auto simp: c_malloc_def ask_def Let_def split: if_splits)
qed auto

lemma ainv_alloc:
  assumes inv: "aio_inv s" and c: "aio_request_alloc_write_buffer p b0 s = Inr (res, b, s')"
  shows "aio_inv s'"
proof -
  from c obtain res1 s1 where c1: "aio_check_request_valid p s = Inr (res1, s1)"
    by (auto simp: aio_request_alloc_write_buffer_def)
  note inv1 = ainv_check [OF inv c1]
  show ?thesis using c c1 inv1
    by (auto simp: aio_request_alloc_write_buffer_def retry_for_eq_do
        intro!: ainv_put_os [OF inv1] dest!: malloc_retry_brk split: if_splits prod.splits)
qed

lemma ainv_import:
  assumes inv: "aio_inv s" and c: "aio_request_import_read_buffer p b s = Inr (res, s')"
  shows "aio_inv s'"
proof -
  from c obtain res1 s1 where c1: "aio_check_request_valid p s = Inr (res1, s1)"
    by (auto simp: aio_request_import_read_buffer_def)
  note inv1 = ainv_check [OF inv c1]
  show ?thesis using c c1 inv1
    by (auto simp: aio_request_import_read_buffer_def intro!: ainv_put [OF inv1] split: if_splits)
qed

lemma ainv_free_buffer:
  assumes inv: "aio_inv s" and c: "aio_free_buffer p s = Inr s'"
  shows "aio_inv s'"
  using c by (auto simp: aio_free_buffer_def dest!: free_brk intro!: ainv_put_os [OF inv])

lemma ainv_submit:
  assumes inv: "aio_inv s" and r: "aget p s = Inr r" and sv: "aio_sival (ar_cb r) = p"
    and c: "sys_aio_submit wr p s = (res, s')"
  shows "aio_inv s' \<and> unsettled (aops s' (aio_addr p)) \<and> (\<exists>r'. aget p s' = Inr r')"
proof -
  from r obtain a where a: "p = Addr a" "areqs s a = Some r" by (auto simp: aget_Inr_iff)
  with inv have "a < brk (aos s)" by (auto simp: aio_inv_def)
  with inv a sv c show ?thesis
    by (auto simp: sys_aio_submit_def ask_def Let_def aio_inv_def request_inv_def aget_def
        split: if_splits option.splits)
qed

lemma ainv_put_submit:
  assumes inv: "aio_inv s" and c: "aio_put_submit p s = Inr (res, s')"
  shows "aio_inv s' \<and> unsettled (aops s' (aio_addr p))"
proof -
  from c obtain r where r: "aget p s = Inr r" by (auto simp: aio_put_submit_def)
  then obtain a where a: "p = Addr a" "areqs s a = Some r" by (auto simp: aget_Inr_iff)
  let ?r = "r\<lparr>ar_cb := (ar_cb r)\<lparr>aio_sival := p\<rparr>\<rparr>"
  have inv1: "aio_inv (aput p ?r s)"
    using inv a by (auto simp: aio_inv_def aput_def request_inv_def)
  have r1: "aget p (aput p ?r s) = Inr ?r" using r by (simp add: aget_put)
  obtain res2 s2 where su: "sys_aio_submit (ASYNC_FILE_ACCESS_WRITE = direction (ar_info r)) p
      (aput p ?r s) = (res2, s2)" by fastforce
  from ainv_submit [OF inv1 r1 _ su] have inv2: "aio_inv s2" "unsettled (aops s2 (aio_addr p))" by auto
  have "aops s3 = aops s2" if "aio_free_buffer p s2 = Inr s3" for s3
    using that by (auto simp: aio_free_buffer_def)
  with c r su inv2 ainv_free_buffer [OF inv2(1), of p] show ?thesis
    by (auto simp: aio_put_submit_def split: if_splits)
qed

lemma ainv_same:
  assumes "aio_inv s" "areqs s' = areqs s" "aops s' = aops s" "brk (aos s) \<le> brk (aos s')"
  shows "aio_inv s'"
  using assms by (auto simp: aio_inv_def request_inv_def intro: less_le_trans)

lemma realloc_brk:
  "c_realloc_arr q n w = Inr (q', w') \<Longrightarrow> brk w \<le> brk w'"
  by (auto simp: c_realloc_arr_def c_malloc_arr_def ask_def Let_def split: ptr.splits option.splits if_splits)

lemma arr_set_brk: "arr_set q i x w = Inr w' \<Longrightarrow> brk w' = brk w"
  by (auto simp: arr_set_def split: ptr.splits option.splits if_splits)

lemma grow_list_frame:
  "aio_grow_list s = Inr (res, s') \<Longrightarrow>
   areqs s' = areqs s \<and> aops s' = aops s \<and> brk (aos s) \<le> brk (aos s') \<and> req_count s' = req_count s"
  by (auto simp: aio_grow_list_def dest: realloc_brk split: if_splits)

lemma list_request_frame:
  assumes "aio_list_request p s = Inr (res, s')"
  shows "areqs s' = areqs s \<and> aops s' = aops s \<and> brk (aos s) \<le> brk (aos s')"
proof -
  from assms obtain res1 s1 where g: "aio_grow_list s = Inr (res1, s1)"
    by (auto simp: aio_list_request_def)
  with assms grow_list_frame [OF g] show ?thesis
    by (auto simp: aio_list_request_def dest!: arr_set_brk split: if_splits)
qed

lemma ainv_put_finish:
  assumes inv: "aio_inv s" and u: "unsettled (aops s (aio_addr p))"
    and c: "aio_put_finish p res s = Inr (res', s')"
  shows "aio_inv s'"
proof -
  from c obtain r where r: "aget p s = Inr r" by (auto simp: aio_put_finish_def aio_put_mark_def)
  let ?s = "aput p (r\<lparr>ar_status := REQUEST_STAT_SUBMITTED\<rparr>) s"
  have "aio_inv ?s" by (rule ainv_put [OF inv r]) (use u in auto)
  with c r list_request_frame [of p ?s res' s'] show ?thesis
    by (auto simp: aio_put_finish_def aio_put_mark_def intro: ainv_same split: if_splits)
qed

lemma ainv_put_request:
  assumes inv: "aio_inv s" and c: "aio_put_request p s = Inr (res, s')"
  shows "aio_inv s'"
proof -
  from c obtain res1 s1 where c1: "aio_check_request_valid p s = Inr (res1, s1)"
    by (auto simp: aio_put_request_def)
  note inv1 = ainv_check [OF inv c1]
  show ?thesis
  proof (cases "res1 = RET_OK")
    case True
    with c c1 obtain res2 s2 where p: "aio_put_submit p s1 = Inr (res2, s2)"
      and f: "aio_put_finish p res2 s2 = Inr (res, s')"
      by (auto simp: aio_put_request_def)
    from ainv_put_submit [OF inv1 p] ainv_put_finish [OF _ _ f] show ?thesis by blast
  next
    case False
    with c c1 inv1 show ?thesis by (auto simp: aio_put_request_def)
  qed
qed

lemma ainv_cancel_call:
  assumes inv: "aio_inv s" and c: "sys_aio_cancel fd p cb s = (res, s')"
  shows "aio_inv s'" "areqs s' = areqs s"
proof -
  have "aio_inv s' \<and> areqs s' = areqs s"
    using c inv
    by (auto simp: sys_aio_cancel_def ask_def Let_def aio_inv_def request_inv_def ECANCELED_def
        split: if_splits option.splits aio_progress.splits)
  then show "aio_inv s'" "areqs s' = areqs s" by auto
qed

lemma ainv_cancel_request:
  assumes inv: "aio_inv s" and c: "aio_cancel_request p s = Inr (res, s')"
  shows "aio_inv s'"
proof -
  from c obtain res1 s1 r where c1: "aio_check_request_valid p s = Inr (res1, s1)"
    and r: "aget p s1 = Inr r" by (auto simp: aio_cancel_request_def)
  note inv1 = ainv_check [OF inv c1]
  obtain res2 s2 where k: "sys_aio_cancel (ar_fd r) p (ar_cb r) s1 = (res2, s2)" by fastforce
  note inv2 = ainv_cancel_call [OF inv1 k]
  show ?thesis using c c1 r k inv1
    by (auto simp: aio_cancel_request_def intro!: ainv_put
        intro: inv2(1) ainv_free_buffer [OF inv2(1)] split: if_splits)
qed

lemma ainv_cancel_one:
  assumes inv: "aio_inv s" and c: "aio_cancel_one i s = Inr s'"
  shows "aio_inv s'"
  using c ainv_cancel_call [OF inv surjective_pairing]
  by (auto simp: aio_cancel_one_def)

lemma ainv_cancel_loop: "aio_inv s \<Longrightarrow> aio_cancel_loop is s = Inr s' \<Longrightarrow> aio_inv s'"
  by (induction "is" arbitrary: s) (auto dest: ainv_cancel_one)

lemma ainv_release_one:
  assumes inv: "aio_inv s" and c: "aio_release_one i s = Inr s'"
  shows "aio_inv s'"
proof (cases "arr_get (req_list s) i (aos s)")
  case (Inl f)
  with c show ?thesis by (simp add: aio_release_one_def)
next
  case (Inr p)
  show ?thesis
  proof (cases "p = Null")
    case True
    with c Inr inv show ?thesis by (simp add: aio_release_one_def)
  next
    case False
    with c Inr obtain r where r: "aget p s = Inr r" by (auto simp: aio_release_one_def)
    let ?s1 = "if ar_status r = REQUEST_STAT_SUBMITTED
               then snd (sys_aio_cancel (ar_fd r) p (ar_cb r) s) else s"
    have inv1: "aio_inv ?s1" using inv ainv_cancel_call(1) [OF inv surjective_pairing] by auto
    from c Inr False r obtain w where
      s': "s' = ?s1\<lparr>aos := w, areqs := (areqs ?s1)(aio_addr p := None)\<rparr>" and
      w: "brk w = brk (aos ?s1)"
      by (auto simp: aio_release_one_def Let_def close_brk dest!: arr_set_brk free_brk split: if_splits)
    show ?thesis using inv1 w unfolding s' by (auto simp: aio_inv_def request_inv_def)
  qed
qed

lemma ainv_release_loop: "aio_inv s \<Longrightarrow> aio_release_loop is s = Inr s' \<Longrightarrow> aio_inv s'"
  by (induction "is" arbitrary: s) (auto dest: ainv_release_one)

lemma ainv_get_request:
  assumes inv: "aio_inv s" and c: "aio_get_request ci s = Inr (res, p, s')"
  shows "aio_inv s'"
proof -
  obtain q w1 where n: "c_new (aos s) = (q, w1)" by fastforce
  from c n have q: "q \<noteq> Null" by (auto simp: aio_get_request_def split: if_splits)
  with n have qa: "q = Addr (brk (aos s))" "brk w1 = Suc (brk (aos s))" by (auto elim: c_new_cases)
  let ?r = "zero_aio_request\<lparr>ar_info := aio_copied_info ci\<rparr>"
  let ?s1 = "aput q ?r (s\<lparr>aos := w1\<rparr>)"
  have fresh: "aops s (brk (aos s)) = None" using inv unfolding aio_inv_def by (metis less_irrefl)
  have inv1: "aio_inv ?s1"
    using inv qa fresh
    by (auto simp: aio_inv_def aput_def request_inv_def zero_aio_request_def less_Suc_eq)
  from c n q obtain res2 s2 where c2: "aio_check_request_valid q ?s1 = Inr (res2, s2)"
    by (auto simp: aio_get_request_def)
  note inv2 = ainv_check [OF inv1 c2]
  show ?thesis
  proof (cases "res2 = RET_OK")
    case False
    with c n q c2 inv2 show ?thesis by (auto simp: aio_get_request_def)
  next
    case True
    with c n q c2 obtain path r where path: "file_name (fn ci) = Inr path" and r: "aget q s2 = Inr r"
      by (auto simp: aio_get_request_def)
    obtain fd w2 where o: "retry_for (sys_open path (aio_open_mode ci)) (\<lambda>fd. fd = - 1)
        MAX_RETRY_TIMES (aos s2) = (fd, w2)" by fastforce
    obtain r2 w3 where st: "aio_request_setup ci fd r w2 = (r2, w3)" by fastforce
    from c n q c2 True path r o st have s': "s' = aput q r2 (s2\<lparr>aos := w3\<rparr>)"
      by (auto simp: aio_get_request_def)
    from open_retry_spec [OF o [unfolded retry_for_eq_do]] have "brk w2 = brk (aos s2)"
      by (auto simp: same_store_def)
    moreover from st have "brk w3 = brk w2" "aio_sival (ar_cb r2) = aio_sival (ar_cb r)"
      "ar_status r2 = REQUEST_STAT_INIT"
      by (auto simp: aio_request_setup_def sys_lseek_cur_def split: option.splits prod.splits)
    ultimately show ?thesis unfolding s' by (intro ainv_put_os [OF inv2 r]) simp_all
  qed
qed

lemma transfer_brk: "aio_transfer wr cb w = Inr (e, w') \<Longrightarrow> brk w' = brk w"
  by (auto simp: aio_transfer_def ask_def Let_def dest!: mem_store_frame split: option.splits if_splits)

lemma ainv_complete:
  assumes inv: "aio_inv s" and c: "aio_complete a s = Some (Inr s')"
  shows "aio_inv s'"
proof -
  from c obtain x r e w where x: "aops s a = Some x" and r: "areqs s a = Some r"
    and t: "aio_transfer (op_write x) (ar_cb r) (aos s) = Inr (e, w)"
    and s': "s' = s\<lparr>aos := w, aops := (aops s)(a := Some (x\<lparr>op_progress := Finished e, op_notify := True\<rparr>))\<rparr>"
    by (auto simp: aio_complete_def deref_Inr_iff split: option.splits if_splits)
  from inv x transfer_brk [OF t] show ?thesis unfolding s' by (auto simp: aio_inv_def request_inv_def)
qed

text \<open>
  The notification: its first phase records a success before anything else, so that clearing the
  mark keeps the invariant.
\<close>

lemma ainv_close1: "aio_inv s \<Longrightarrow> aio_callback_close1 p s = Inr s' \<Longrightarrow> aio_inv s'"
  by (auto simp: aio_callback_close1_def close_brk intro!: ainv_put_os split: if_splits)

lemma ainv_close2: "aio_inv s \<Longrightarrow> aio_callback_close2 p s = Inr s' \<Longrightarrow> aio_inv s'"
  by (auto simp: aio_callback_close2_def close_brk intro!: ainv_put_os split: if_splits)

lemma ainv_outcome:
  assumes inv: "aio_inv s" and x: "aops s a = Some x" "op_notify x" and r: "areqs s a = Some r"
    and fin: "op_progress x \<noteq> InProgress"
    and c: "aio_callback_outcome (aio_sival (ar_cb r))
              (s\<lparr>aops := (aops s)(a := Some (x\<lparr>op_notify := False\<rparr>))\<rparr>) = Inr s'"
  shows "aio_inv s'"
proof -
  let ?t = "s\<lparr>aops := (aops s)(a := Some (x\<lparr>op_notify := False\<rparr>))\<rparr>"
  from inv r x have sv: "aio_sival (ar_cb r) = Addr a"
    unfolding aio_inv_def request_inv_def by blast
  from fin obtain e where e: "op_progress x = Finished e" by (cases "op_progress x") auto
  have err: "sys_aio_error (Addr a) ?t = e" using e by (simp add: sys_aio_error_def)
  let ?u = "if e = 0 then aput (Addr a) (r\<lparr>ar_status := REQUEST_STAT_IOSUCCESS\<rparr>) ?t else ?t"
  have "aio_inv ?u"
    using inv x e r by (auto simp: aio_inv_def request_inv_def aput_def)
  moreover have "?u = s' \<or> aio_free_buffer (Addr a) ?u = Inr s'"
    using c r unfolding sv by (auto simp: aio_callback_outcome_def aget_def err Let_def split: if_splits)
  ultimately show ?thesis using ainv_free_buffer by blast
qed

lemma ainv_notify:
  assumes inv: "aio_inv s" and c: "aio_notify cb a s = Some (Inr s')"
    and cb: "\<And>p t u. cb p t = Inr u \<Longrightarrow> \<exists>v. aio_callback_outcome p t = Inr v \<and> (aio_inv v \<longrightarrow> aio_inv u)"
  shows "aio_inv s'"
proof -
  from c obtain x r where x: "aops s a = Some x" "op_notify x" and r: "areqs s a = Some r"
    and u: "cb (aio_sival (ar_cb r)) (s\<lparr>aops := (aops s)(a := Some (x\<lparr>op_notify := False\<rparr>))\<rparr>) = Inr s'"
    by (auto simp: aio_notify_def deref_Inr_iff split: option.splits if_splits)
  from inv x have "op_progress x \<noteq> InProgress" by (auto simp: aio_inv_def)
  with cb [OF u] ainv_outcome [OF inv x r] show ?thesis by blast
qed

lemma callback_phases:
  "aio_callback p t = Inr u \<Longrightarrow> \<exists>v. aio_callback_outcome p t = Inr v \<and> (aio_inv v \<longrightarrow> aio_inv u)"
  by (auto simp: aio_callback_def dest: ainv_close1 ainv_close2)

lemma callback_first_phases:
  "and_then (aio_callback_outcome p t) (aio_callback_close1 p) = Inr u \<Longrightarrow>
   \<exists>v. aio_callback_outcome p t = Inr v \<and> (aio_inv v \<longrightarrow> aio_inv u)"
  by (auto dest: ainv_close1)

section \<open>Runs\<close>

text \<open>Events that keep \<open>aio_put_request\<close> in one piece.\<close>

fun aio_orderly :: "aio_event \<Rightarrow> bool" where
  "aio_orderly (AEvPutSubmit p) = False"
| "aio_orderly (AEvPutFinish p r) = False"
| "aio_orderly _ = True"

text \<open>
  \<open>aio_put_request\<close> may be interrupted between the system call and the store of the state. The store
  is in time unless it runs into the call's race: the operation has succeeded and its notification has run, so
  that nothing will ever replace \<open>SUBMITTED\<close>.
\<close>

fun aio_in_time :: "aio_event \<Rightarrow> aio_sys \<Rightarrow> bool" where
  "aio_in_time (AEvPutFinish p res) s \<longleftrightarrow> unsettled (aops s (aio_addr p))"
| "aio_in_time _ s \<longleftrightarrow> True"

definition aio_timely :: "aio_event \<Rightarrow> aio_sys \<Rightarrow> (fault + aio_sys) option" where
  "aio_timely e s = (if aio_in_time e s then aio_exec e s else None)"

lemma aio_orderly_in_time: "aio_orderly e \<Longrightarrow> aio_in_time e s"
  by (cases e) auto

lemma aio_timely_exec: "aio_timely e s = Some m \<Longrightarrow> aio_in_time e s \<and> aio_exec e s = Some m"
  by (simp add: aio_timely_def split: if_splits)

lemma aio_orderly_timely: "list_all aio_orderly es \<Longrightarrow> run aio_timely es s = run aio_exec es s"
proof (induction es arbitrary: s)
  case (Cons e es)
  then have "aio_timely e u = aio_exec e u" for u by (simp add: aio_timely_def aio_orderly_in_time)
  with Cons show ?case by (simp split: option.split sum.split)
qed simp

lemma ainv_exec:
  assumes inv: "aio_inv s" and o: "aio_in_time e s" and c: "aio_exec e s = Some (Inr s')"
  shows "aio_inv s'"
proof (cases e)
  case (AEvComplete a)
  with c ainv_complete [OF inv] show ?thesis by simp
next
  case (AEvNotify a)
  with c ainv_notify [OF inv _ callback_phases] show ?thesis by simp
next
  case (AEvNotifyFirst a)
  with c have "aio_notify (\<lambda>p s. and_then (aio_callback_outcome p s) (aio_callback_close1 p)) a s =
      Some (Inr s')" by simp
  from ainv_notify [OF inv this callback_first_phases] show ?thesis .
next
  case (AEvNotifySecond p)
  with c ainv_close2 [OF inv] show ?thesis by simp
next
  case (AEvGet ci)
  with c ainv_get_request [OF inv] show ?thesis by auto
next
  case (AEvAlloc p)
  with c ainv_alloc [OF inv] show ?thesis by auto
next
  case (AEvImport p b)
  with c ainv_import [OF inv] show ?thesis by (auto simp: aio_only_state_def)
next
  case (AEvPut p)
  with c ainv_put_request [OF inv] show ?thesis by (auto simp: aio_only_state_def)
next
  case (AEvCancel p)
  with c ainv_cancel_request [OF inv] show ?thesis by (auto simp: aio_only_state_def)
next
  case AEvCancelAll
  with c inv ainv_cancel_loop [OF inv] show ?thesis
    by (auto simp: aio_only_state_def aio_cancel_all_requests_def split: if_splits)
next
  case AEvReleaseAll
  with c inv ainv_release_loop [OF inv] show ?thesis
    by (auto simp: aio_only_state_def aio_release_all_resources_def split: if_splits)
next
  case (AEvMalloc n)
  with c have "s' = s\<lparr>aos := snd (c_malloc n (aos s))\<rparr>" by simp
  then show ?thesis by (auto intro!: ainv_os [OF inv] simp: c_malloc_def ask_def Let_def)
next
  case (AEvStore p bs)
  with c show ?thesis by (auto intro!: ainv_os [OF inv] dest: mem_store_frame)
next
  case (AEvPutSubmit p)
  with c ainv_put_submit [OF inv] show ?thesis by (auto simp: aio_only_state_def)
next
  case (AEvPutFinish p res)
  with c o ainv_put_finish [OF inv] show ?thesis by (auto simp: aio_only_state_def)
next
  case AEvExpire
  with c inv show ?thesis by simp
qed

interpretation aio_runs: step_invariant aio_timely "\<lambda>_. aio_inv" "\<lambda>_. True" n for n
  by unfold_locales (use ainv_exec aio_timely_exec in blast)

lemma aio_start_inv: "aio_inv (g_aioFileAccessor w)"
  by (simp add: aio_inv_def g_aioFileAccessor_def)

text \<open>A run from the start in which every event is in time.\<close>

definition aio_timely_run :: "world \<Rightarrow> aio_event list \<Rightarrow> aio_sys \<Rightarrow> bool" where
  "aio_timely_run w es s \<longleftrightarrow> run aio_timely es (AIO_File_Accessor_Get_Instance (g_aioFileAccessor w)) = Some s"

lemma aio_timely_run_inv: "aio_timely_run w es s \<Longrightarrow> aio_inv s"
  unfolding aio_timely_run_def AIO_File_Accessor_Get_Instance_def
  by (rule aio_runs.inv_run [OF aio_start_inv, where n = 0 and na = "length es"]) (simp_all add: list_all_iff)

lemma aio_timely_runI:
  "list_all aio_orderly es \<Longrightarrow> run aio_exec es (AIO_File_Accessor_Get_Instance (g_aioFileAccessor w)) = Some s \<Longrightarrow>
   aio_timely_run w es s"
  by (simp add: aio_timely_run_def aio_orderly_timely)

end
