(* ===== verification/Aio_Completion.thy ===== *)
theory Aio_Completion
  imports Aio_Invariants
begin

text \<open>
  How an operation of the AIO accessor ends: the transfer the system does, the notification that runs
  \<open>aio_callback\<close>, what becomes of the request, its buffer and its descriptor, and which requests a
  wait never returns for.
\<close>

section \<open>The callback\<close>

text \<open>Each phase, given the request it works on.\<close>

lemma outcome_result:
  assumes r: "aget p s = Inr r" and c: "aio_callback_outcome p s = Inr s'"
  shows "\<exists>r' w. s' = aput p r' (s\<lparr>aos := w\<rparr>) \<and>
           r' = r\<lparr>ar_status := (if sys_aio_error p s = 0 then REQUEST_STAT_IOSUCCESS else ar_status r),
                  ar_buf := (if ar_isAlloced r then Null else ar_buf r),
                  ar_cb := (if ar_isAlloced r \<and> ar_buf r \<noteq> Null then (ar_cb r)\<lparr>aio_buf := Null\<rparr>
                            else ar_cb r)\<rparr> \<and>
           fds w = fds (aos s) \<and> files w = files (aos s) \<and>
           (if ar_isAlloced r \<and> ar_buf r \<noteq> Null then c_free (aio_buf (ar_cb r)) (aos s) = Inr w
            else w = aos s)"
proof -
  let ?st = "if sys_aio_error p s = 0 then REQUEST_STAT_IOSUCCESS else ar_status r"
  let ?s1 = "aput p (r\<lparr>ar_status := ?st\<rparr>) s"
  have self: "aput p r s = s" using r by (auto simp: aget_Inr_iff aput_def fun_upd_idem)
  then have s1: "(if sys_aio_error p s = 0 then aput p (r\<lparr>ar_status := REQUEST_STAT_IOSUCCESS\<rparr>) s
                  else s) = ?s1" by simp
  have r1: "aget p ?s1 = Inr (r\<lparr>ar_status := ?st\<rparr>)" using r by (simp add: aget_put)
  have os: "aput p q (t\<lparr>aos := aos t\<rparr>) = aput p q t" for q t by (simp add: aput_def)
  show ?thesis
  proof (cases "ar_isAlloced r \<and> ar_buf r \<noteq> Null")
    case True
    with c r r1 obtain w where w: "c_free (aio_buf (ar_cb r)) (aos s) = Inr w"
      and s': "s' = aput p (r\<lparr>ar_status := ?st, ar_buf := Null, ar_cb := (ar_cb r)\<lparr>aio_buf := Null\<rparr>\<rparr>)
                      (?s1\<lparr>aos := w\<rparr>)"
      by (auto simp: aio_callback_outcome_def s1 aio_free_buffer_def)
    have "s' = aput p (r\<lparr>ar_status := ?st, ar_buf := Null, ar_cb := (ar_cb r)\<lparr>aio_buf := Null\<rparr>\<rparr>)
                 (s\<lparr>aos := w\<rparr>)" unfolding s' by (simp add: aput_def)
    moreover have "fds w = fds (aos s)" "files w = files (aos s)"
      using w by (auto simp: c_free_def split: ptr.splits option.splits)
    ultimately show ?thesis using True w by fastforce
  next
    case False
    with c r have s': "s' = ?s1" by (auto simp: aio_callback_outcome_def s1)
    from False have "ar_isAlloced r \<Longrightarrow> ar_buf r = Null" by simp
    then have "r\<lparr>ar_status := ?st\<rparr> = r\<lparr>ar_status := ?st,
        ar_buf := (if ar_isAlloced r then Null else ar_buf r), ar_cb := ar_cb r\<rparr>" by simp
    with False s' show ?thesis by (intro exI [of _ "r\<lparr>ar_status := ?st\<rparr>"] exI [of _ "aos s"]) (auto simp: os)
  qed
qed

definition closed_unless_low :: "int \<Rightarrow> world \<Rightarrow> world" where
  "closed_unless_low k w = (if 0 < k then snd (sys_close k w) else w)"

lemma closed_lookup:
  "fd_lookup (closed_unless_low k w) j = (if 0 < k \<and> j = k then None else fd_lookup w j)"
  using sys_close_lookup [OF surjective_pairing, of k w] by (auto simp: closed_unless_low_def)

lemma closed_frame:
  "files (closed_unless_low k w) = files w \<and> heap (closed_unless_low k w) = heap w \<and>
   mmaps (closed_unless_low k w) = mmaps w \<and> parrs (closed_unless_low k w) = parrs w \<and>
   brk (closed_unless_low k w) = brk w"
  using sys_close_frame [OF surjective_pairing, of k w] by (simp add: closed_unless_low_def)

lemma close1_result:
  assumes "aget p s = Inr r"
  shows "aio_callback_close1 p s = Inr (aput p (r\<lparr>ar_fd := (if 0 < ar_fd r then - 1 else ar_fd r)\<rparr>)
           (s\<lparr>aos := closed_unless_low (ar_fd r) (aos s)\<rparr>))"
  using assms
  by (auto simp: aio_callback_close1_def closed_unless_low_def aget_Inr_iff aput_def fun_upd_idem)

lemma close2_result:
  assumes "aget p s = Inr r"
  shows "aio_callback_close2 p s = Inr (aput p
           (r\<lparr>ar_cb := (ar_cb r)\<lparr>aio_fildes := (if 0 < aio_fildes (ar_cb r) then - 1
                                            else aio_fildes (ar_cb r))\<rparr>\<rparr>)
           (s\<lparr>aos := closed_unless_low (aio_fildes (ar_cb r)) (aos s)\<rparr>))"
  using assms
  by (auto simp: aio_callback_close2_def closed_unless_low_def aget_Inr_iff aput_def fun_upd_idem)

lemma aput_over: "aput p q ((aput p r s)\<lparr>aos := w\<rparr>) = aput p q (s\<lparr>aos := w\<rparr>)"
  by (simp add: aput_def)

lemma aos_twice: "s\<lparr>aos := v, aos := w\<rparr> = s\<lparr>aos := w\<rparr>" for s :: aio_sys
  by simp

lemma closes_result:
  assumes r: "aget p s = Inr r"
  shows "and_then (aio_callback_close1 p s) (aio_callback_close2 p) = Inr (aput p
           (r\<lparr>ar_fd := (if 0 < ar_fd r then - 1 else ar_fd r),
              ar_cb := (ar_cb r)\<lparr>aio_fildes := (if 0 < aio_fildes (ar_cb r) then - 1
                                            else aio_fildes (ar_cb r))\<rparr>\<rparr>)
           (s\<lparr>aos := closed_unless_low (aio_fildes (ar_cb r)) (closed_unless_low (ar_fd r) (aos s))\<rparr>))"
proof -
  let ?r2 = "r\<lparr>ar_fd := (if 0 < ar_fd r then - 1 else ar_fd r)\<rparr>"
  let ?s2 = "aput p ?r2 (s\<lparr>aos := closed_unless_low (ar_fd r) (aos s)\<rparr>)"
  have g2: "aget p ?s2 = Inr ?r2" using r by (simp add: aget_put)
  have cb: "ar_cb ?r2 = ar_cb r" by simp
  have os: "aos ?s2 = closed_unless_low (ar_fd r) (aos s)" by simp
  show ?thesis unfolding close1_result [OF r] and_then_simps close2_result [OF g2] cb os aput_over
    by (simp add: aput_def)
qed

lemma callback_result:
  assumes r: "aget p s = Inr r" and c: "aio_callback p s = Inr s'"
  shows "\<exists>r' w. s' = aput p r' (s\<lparr>aos := closed_unless_low (aio_fildes (ar_cb r)) (closed_unless_low (ar_fd r) w)\<rparr>) \<and>
           ar_status r' = (if sys_aio_error p s = 0 then REQUEST_STAT_IOSUCCESS else ar_status r) \<and>
           ar_buf r' = (if ar_isAlloced r then Null else ar_buf r) \<and> ar_isAlloced r' = ar_isAlloced r \<and>
           ar_fd r' = (if 0 < ar_fd r then - 1 else ar_fd r) \<and>
           aio_fildes (ar_cb r') = (if 0 < aio_fildes (ar_cb r) then - 1 else aio_fildes (ar_cb r)) \<and>
           fds w = fds (aos s) \<and> files w = files (aos s) \<and>
           (if ar_isAlloced r \<and> ar_buf r \<noteq> Null then c_free (aio_buf (ar_cb r)) (aos s) = Inr w
            else w = aos s)"
proof -
  from c obtain s1 where o: "aio_callback_outcome p s = Inr s1"
    and cl: "and_then (aio_callback_close1 p s1) (aio_callback_close2 p) = Inr s'"
    by (auto simp: aio_callback_def)
  from outcome_result [OF r o] obtain r1 w where s1: "s1 = aput p r1 (s\<lparr>aos := w\<rparr>)"
    and r1: "r1 = r\<lparr>ar_status := (if sys_aio_error p s = 0 then REQUEST_STAT_IOSUCCESS else ar_status r),
                  ar_buf := (if ar_isAlloced r then Null else ar_buf r),
                  ar_cb := (if ar_isAlloced r \<and> ar_buf r \<noteq> Null then (ar_cb r)\<lparr>aio_buf := Null\<rparr>
                            else ar_cb r)\<rparr>"
    and w: "fds w = fds (aos s)" "files w = files (aos s)"
      "if ar_isAlloced r \<and> ar_buf r \<noteq> Null then c_free (aio_buf (ar_cb r)) (aos s) = Inr w
       else w = aos s" by auto
  have g1: "aget p s1 = Inr r1" using r by (simp add: s1 aget_put)
  have cb: "aio_fildes (ar_cb r1) = aio_fildes (ar_cb r)" "ar_fd r1 = ar_fd r" by (simp_all add: r1)
  have os: "aos s1 = w" by (simp add: s1)
  let ?r3 = "r1\<lparr>ar_fd := (if 0 < ar_fd r then - 1 else ar_fd r),
      ar_cb := (ar_cb r1)\<lparr>aio_fildes := (if 0 < aio_fildes (ar_cb r) then - 1
                                    else aio_fildes (ar_cb r))\<rparr>\<rparr>"
  from cl closes_result [OF g1] have "s' = aput p ?r3
      (s1\<lparr>aos := closed_unless_low (aio_fildes (ar_cb r)) (closed_unless_low (ar_fd r) w)\<rparr>)"
    unfolding cb os by simp
  then have "s' = aput p ?r3
      (s\<lparr>aos := closed_unless_low (aio_fildes (ar_cb r)) (closed_unless_low (ar_fd r) w)\<rparr>)"
    by (simp only: s1 aput_over aos_twice)
  with w show ?thesis by (intro exI [of _ ?r3] exI [of _ w]) (simp add: r1)
qed

section \<open>Transfers\<close>

text \<open>What the system does with a request in progress, given everything it needs.\<close>

definition transfer_ready :: "aio_request \<Rightarrow> world \<Rightarrow> ofd \<Rightarrow> inode \<Rightarrow> bool" where
  "transfer_ready r w d f \<longleftrightarrow>
     \<not> refuse w (calls w) \<and> fd_lookup w (aio_fildes (ar_cb r)) = Some d \<and>
     files w (o_path d) = Some f \<and> 0 \<le> aio_offset (ar_cb r)"

lemma fd_lookup_calls: "fd_lookup (w\<lparr>calls := n\<rparr>) k = fd_lookup w k"
  by (simp add: fd_lookup_def)

lemma read_transfer:
  assumes t: "transfer_ready r w d f" and d: "can_read (o_mode d)"
    and b: "aio_buf (ar_cb r) = Addr b" "heap w b = Some old"
    and n: "aio_nbytes (ar_cb r) \<le> length old"
  shows "aio_transfer False (ar_cb r) w = Inr (0, w\<lparr>calls := Suc (calls w), heap := (heap w)(b :=
           Some (overwrite 0 (take (aio_nbytes (ar_cb r))
                   (drop (nat (aio_offset (ar_cb r))) (f_content f))) old))\<rparr>)"
  using assms
  by (simp add: transfer_ready_def aio_transfer_def ask_def fd_lookup_calls mem_store_def)

lemma write_transfer:
  assumes t: "transfer_ready r w d f" and d: "can_write (o_mode d)"
    and b: "aio_buf (ar_cb r) = Addr b" "heap w b = Some bs"
    and n: "aio_nbytes (ar_cb r) \<le> length bs"
  shows "aio_transfer True (ar_cb r) w = Inr (0, w\<lparr>calls := Suc (calls w), files := (files w)(o_path d :=
           Some (f\<lparr>f_content := file_write (nat (aio_offset (ar_cb r)))
                   (take (aio_nbytes (ar_cb r)) bs) (f_content f)\<rparr>))\<rparr>)"
  using assms
  by (simp add: transfer_ready_def aio_transfer_def ask_def fd_lookup_calls mem_load_def)

lemma complete_result:
  assumes x: "aops s a = Some x" "op_progress x = InProgress" and r: "areqs s a = Some r"
    and t: "aio_transfer (op_write x) (ar_cb r) (aos s) = Inr (e, w)"
  shows "aio_complete a s = Some (Inr (s\<lparr>aos := w,
           aops := (aops s)(a := Some (x\<lparr>op_progress := Finished e, op_notify := True\<rparr>))\<rparr>))"
  using assms by (simp add: aio_complete_def)

text \<open>The notification of a finished operation, whenever the callback does not fault.\<close>

lemma notify_result:
  assumes x: "aops s a = Some x" "op_notify x" and r: "areqs s a = Some r" "aio_sival (ar_cb r) = Addr a"
    and fr: "ar_isAlloced r \<and> ar_buf r \<noteq> Null \<Longrightarrow> \<exists>w. c_free (aio_buf (ar_cb r)) (aos s) = Inr w"
  shows "\<exists>s'. aio_notify aio_callback a s = Some (Inr s') \<and>
           aio_callback (Addr a) (s\<lparr>aops := (aops s)(a := Some (x\<lparr>op_notify := False\<rparr>))\<rparr>) = Inr s'"
proof -
  let ?t = "s\<lparr>aops := (aops s)(a := Some (x\<lparr>op_notify := False\<rparr>))\<rparr>"
  have g: "aget (Addr a) ?t = Inr r" using r by (simp add: aget_Inr_iff)
  have "\<exists>s1. aio_callback_outcome (Addr a) ?t = Inr s1"
    using g fr by (auto simp: aio_callback_outcome_def aio_free_buffer_def aget_put Let_def)
  then obtain s1 where o: "aio_callback_outcome (Addr a) ?t = Inr s1" by blast
  from outcome_result [OF g o] g obtain r1 where g1: "aget (Addr a) s1 = Inr r1"
    by (auto simp: aget_put)
  from o closes_result [OF g1] obtain s' where "aio_callback (Addr a) ?t = Inr s'"
    by (auto simp: aio_callback_def)
  with x r show ?thesis by (auto simp: aio_notify_def)
qed

text \<open>
  A completed operation and its notification, one after the other: every successful transfer ends
  this way.
\<close>

lemma completed:
  assumes x: "aops s a = Some x" "op_progress x = InProgress"
    and r: "areqs s a = Some r" "aio_sival (ar_cb r) = Addr a"
    and t: "aio_transfer (op_write x) (ar_cb r) (aos s) = Inr (0, w)" and fd: "fds w = fds (aos s)"
    and fr: "ar_isAlloced r \<and> ar_buf r \<noteq> Null \<Longrightarrow> \<exists>v. c_free (aio_buf (ar_cb r)) w = Inr v"
  shows "\<exists>s1 s2 r' v. aio_complete a s = Some (Inr s1) \<and> aio_notify aio_callback a s1 = Some (Inr s2) \<and>
           areqs s2 a = Some r' \<and> ar_status r' = REQUEST_STAT_IOSUCCESS \<and>
           (ar_isAlloced r \<longrightarrow> ar_buf r' = Null) \<and>
           files (aos s2) = files w \<and> heap (aos s2) = heap v \<and>
           (if ar_isAlloced r \<and> ar_buf r \<noteq> Null then c_free (aio_buf (ar_cb r)) w = Inr v else v = w) \<and>
           (\<forall>k. fd_lookup (aos s2) k =
              (if 0 < k \<and> (k = ar_fd r \<or> k = aio_fildes (ar_cb r)) then None else fd_lookup (aos s) k))"
proof -
  let ?x = "x\<lparr>op_progress := Finished 0, op_notify := True\<rparr>"
  let ?s1 = "s\<lparr>aos := w, aops := (aops s)(a := Some ?x)\<rparr>"
  let ?t = "?s1\<lparr>aops := (aops ?s1)(a := Some (?x\<lparr>op_notify := False\<rparr>))\<rparr>"
  note c = complete_result [OF x r(1) t]
  have "aops ?s1 a = Some ?x" "op_notify ?x" "areqs ?s1 a = Some r" by (simp_all add: r)
  from notify_result [OF this r(2)] fr obtain s2 where n: "aio_notify aio_callback a ?s1 = Some (Inr s2)"
    and cb: "aio_callback (Addr a) ?t = Inr s2" by auto
  have g: "aget (Addr a) ?t = Inr r" using r by (simp add: aget_Inr_iff)
  have e: "sys_aio_error (Addr a) ?t = 0" by (simp add: sys_aio_error_def)
  have os: "aos ?t = w" by simp
  from callback_result [OF g cb, unfolded e os] obtain r' v where
    s2: "s2 = aput (Addr a) r' (?t\<lparr>aos := closed_unless_low (aio_fildes (ar_cb r)) (closed_unless_low (ar_fd r) v)\<rparr>)"
    and r': "ar_status r' = REQUEST_STAT_IOSUCCESS" "ar_buf r' = (if ar_isAlloced r then Null else ar_buf r)"
    and v: "fds v = fds w" "files v = files w"
      "if ar_isAlloced r \<and> ar_buf r \<noteq> Null then c_free (aio_buf (ar_cb r)) w = Inr v else v = w"
    by (simp only: simp_thms if_True) blast
  have "areqs s2 a = Some r'" by (simp add: s2 aput_def)
  moreover have "fd_lookup v k = fd_lookup (aos s) k" for k using v(1) fd by (simp add: fd_lookup_def)
  ultimately show ?thesis
    using c n r' v closed_frame
    by (intro exI [of _ ?s1] exI [of _ s2] exI [of _ r'] exI [of _ v])
      (auto simp: s2 closed_lookup)
qed

section \<open>Requests nobody settles\<close>

text \<open>What the system does by itself: operations end and notifications run.\<close>

fun system_event :: "aio_event \<Rightarrow> bool" where
  "system_event (AEvComplete a) = True"
| "system_event (AEvNotify a) = True"
| "system_event (AEvNotifyFirst a) = True"
| "system_event (AEvNotifySecond p) = True"
| "system_event _ = False"

lemma system_orderly: "system_event e \<Longrightarrow> aio_orderly e"
  by (cases e) auto

definition failed_unnoticed :: "nat \<Rightarrow> aio_sys \<Rightarrow> bool" where
  "failed_unnoticed a s \<longleftrightarrow>
     (\<exists>r x e. areqs s a = Some r \<and> ar_status r = REQUEST_STAT_SUBMITTED \<and>
        aops s a = Some x \<and> op_progress x = Finished e \<and> e \<noteq> 0)"

definition same_list :: "aio_sys \<Rightarrow> aio_sys \<Rightarrow> bool" where
  "same_list s s' \<longleftrightarrow> req_list s' = req_list s \<and> req_count s' = req_count s \<and>
     parrs (aos s') = parrs (aos s)"

text \<open>
  The phases of a notification store one request, whose state changes only where its operation
  succeeded.
\<close>

definition settles_at_most :: "ptr \<Rightarrow> aio_sys \<Rightarrow> aio_sys \<Rightarrow> bool" where
  "settles_at_most p s s' \<longleftrightarrow> same_list s s' \<and> aops s' = aops s \<and>
     (\<exists>r r'. aget p s = Inr r \<and> areqs s' = (areqs s)(aio_addr p := Some r') \<and>
        aio_sival (ar_cb r') = aio_sival (ar_cb r) \<and>
        (ar_status r' = ar_status r \<or> sys_aio_error p s = 0))"

lemma free_parrs: "c_free q w = Inr w' \<Longrightarrow> parrs w' = parrs w"
  by (auto simp: c_free_def split: ptr.splits option.splits)

lemma outcome_settles:
  assumes c: "aio_callback_outcome p s = Inr s'"
  shows "settles_at_most p s s'"
proof -
  from c obtain r where r: "aget p s = Inr r" by (auto simp: aio_callback_outcome_def)
  from outcome_result [OF r c] r show ?thesis
    by (auto simp: settles_at_most_def same_list_def aput_def dest: free_parrs split: if_splits)
qed

lemma close1_settles:
  assumes c: "aio_callback_close1 p s = Inr s'"
  shows "settles_at_most p s s'"
proof -
  from c obtain r where r: "aget p s = Inr r" by (auto simp: aio_callback_close1_def)
  with c close1_result [OF r] closed_frame show ?thesis
    by (auto simp: settles_at_most_def same_list_def aput_def)
qed

lemma close2_settles:
  assumes c: "aio_callback_close2 p s = Inr s'"
  shows "settles_at_most p s s'"
proof -
  from c obtain r where r: "aget p s = Inr r" by (auto simp: aio_callback_close2_def)
  with c close2_result [OF r] closed_frame show ?thesis
    by (auto simp: settles_at_most_def same_list_def aput_def)
qed

lemma settles_trans:
  assumes "settles_at_most p s t" "settles_at_most p t u"
  shows "settles_at_most p s u"
proof -
  from assms(1) obtain r r' where r: "aget p s = Inr r" "areqs t = (areqs s)(aio_addr p := Some r')"
    "ar_status r' = ar_status r \<or> sys_aio_error p s = 0" "aio_sival (ar_cb r') = aio_sival (ar_cb r)" and t: "aops t = aops s"
    by (auto simp: settles_at_most_def)
  from r(1) obtain a where "p = Addr a" by (auto simp: aget_Inr_iff)
  with r(2) have g: "aget p t = Inr r'" by (simp add: aget_Inr_iff)
  from t have e: "sys_aio_error p t = sys_aio_error p s" by (simp add: sys_aio_error_def)
  from assms(2) g obtain q where q: "areqs u = (areqs t)(aio_addr p := Some q)"
    "ar_status q = ar_status r' \<or> sys_aio_error p s = 0" "aio_sival (ar_cb q) = aio_sival (ar_cb r')" and u: "aops u = aops t"
    by (auto simp: settles_at_most_def e)
  have "same_list s u" using assms by (simp add: settles_at_most_def same_list_def)
  moreover have "areqs u = (areqs s)(aio_addr p := Some q)" by (simp add: q(1) r(2))
  moreover have "ar_status q = ar_status r \<or> sys_aio_error p s = 0" using q(2) r(3) by auto
  ultimately show ?thesis unfolding settles_at_most_def using r(1,4) q(3) t u by auto
qed

lemma settles_keeps_failed:
  assumes "settles_at_most p s s'" "failed_unnoticed a s"
  shows "failed_unnoticed a s' \<and> same_list s s'"
  using assms
  by (auto simp: settles_at_most_def failed_unnoticed_def sys_aio_error_def aget_Inr_iff)

lemma notify_keeps_failed:
  assumes inv: "aio_inv s" and f: "failed_unnoticed a s" and c: "aio_notify cb b s = Some (Inr s')"
    and cb: "\<And>p t u. cb p t = Inr u \<Longrightarrow> settles_at_most p t u"
  shows "failed_unnoticed a s' \<and> same_list s s'"
proof -
  from c obtain x where x: "aops s b = Some x" by (auto simp: aio_notify_def split: option.splits)
  with c obtain r :: aio_request where u: "cb (aio_sival (ar_cb r)) (s\<lparr>aops := (aops s)(b := Some (x\<lparr>op_notify := False\<rparr>))\<rparr>) = Inr s'"
    by (auto simp: aio_notify_def deref_Inr_iff split: option.splits if_splits)
  let ?t = "s\<lparr>aops := (aops s)(b := Some (x\<lparr>op_notify := False\<rparr>))\<rparr>"
  from f x have "failed_unnoticed a ?t" by (auto simp: failed_unnoticed_def)
  from settles_keeps_failed [OF cb [OF u] this] show ?thesis by (auto simp: same_list_def)
qed

lemma callback_settles: "aio_callback p t = Inr u \<Longrightarrow> settles_at_most p t u"
  by (auto simp: aio_callback_def
      dest!: outcome_settles close1_settles close2_settles intro: settles_trans)

lemma transfer_parrs: "aio_transfer wr cb w = Inr (e, w') \<Longrightarrow> parrs w' = parrs w"
  by (auto simp: aio_transfer_def ask_def Let_def dest!: mem_store_frame split: option.splits if_splits)

lemma system_keeps_failed:
  assumes inv: "aio_inv s" and f: "failed_unnoticed a s"
    and e: "system_event e" "aio_exec e s = Some (Inr s')"
  shows "failed_unnoticed a s' \<and> same_list s s'"
proof (cases e)
  case (AEvComplete b)
  with e(2) f show ?thesis
    by (auto simp: aio_complete_def failed_unnoticed_def same_list_def deref_Inr_iff
        dest!: transfer_parrs split: option.splits if_splits)
next
  case (AEvNotify b)
  with e(2) notify_keeps_failed [OF inv f _ callback_settles] show ?thesis by simp
next
  case (AEvNotifyFirst b)
  with e(2) have c: "aio_notify (\<lambda>p s. and_then (aio_callback_outcome p s) (aio_callback_close1 p)) b s =
      Some (Inr s')" by simp
  show ?thesis
    by (rule notify_keeps_failed [OF inv f c])
      (auto dest!: outcome_settles close1_settles intro: settles_trans)
next
  case (AEvNotifySecond p)
  with e(2) settles_keeps_failed [OF close2_settles f] show ?thesis by simp
qed (use e in auto)

text \<open>What the events keep, a wait for a request keeps.\<close>

lemma aio_wait_status_keeps:
  assumes step: "\<And>e s s'. ok e \<Longrightarrow> P s \<Longrightarrow> aio_exec e s = Some (Inr s') \<Longrightarrow> P s'"
  shows "list_all ok sch \<Longrightarrow> P s \<Longrightarrow> aio_wait_status p sch s = Some (Inr (sch', s')) \<Longrightarrow>
         P s' \<and> list_all ok sch' \<and> (\<exists>r. aget p s' = Inr r \<and> ar_status r \<noteq> REQUEST_STAT_SUBMITTED)"
proof (induction p sch s rule: aio_wait_status.induct)
  case (1 p sch s)
  note w = 1(5) [unfolded aio_wait_status.simps [of p sch s]]
  from w obtain r where r: "aget p s = Inr r" by (auto split: sum.splits)
  show ?case
  proof (cases "ar_status r = REQUEST_STAT_SUBMITTED")
    case False
    with w r 1(3,4) show ?thesis by auto
  next
    case True
    with w r obtain e es where sch: "sch = e # es" by (auto split: list.splits)
    have sub: "\<not> ar_status r \<noteq> REQUEST_STAT_SUBMITTED" using True by simp
    from 1(3) sch have ok: "ok e" "list_all ok es" by simp_all
    show ?thesis
    proof (cases "aio_exec e s")
      case None
      with w r True sch have "aio_wait_status p es s = Some (Inr (sch', s'))" by simp
      with 1(1) [OF r sub sch None ok(2) 1(4)] show ?thesis by blast
    next
      case (Some m)
      with w r True sch obtain u where u: "m = Inr u" by (auto split: sum.splits)
      with Some step [OF ok(1) 1(4)] have P: "P u" by simp
      from w r True sch Some u have "aio_wait_status p es u = Some (Inr (sch', s'))" by simp
      with 1(2) [OF r sub sch Some u ok(2) P] show ?thesis by blast
    qed
  qed
qed

lemma list_read: "same_list s s' \<Longrightarrow> arr_get q i (aos s') = arr_get q i (aos s)"
  by (simp add: same_list_def arr_get_def)

lemma same_list_trans: "same_list s t \<Longrightarrow> same_list t u \<Longrightarrow> same_list s u"
  by (simp add: same_list_def)

text \<open>
  A request that stays \<open>SUBMITTED\<close> whatever the system does: who waits for all requests never returns.
\<close>

locale stuck_request =
  fixes a :: nat and stuck :: "aio_sys \<Rightarrow> bool"
  assumes submitted: "stuck s \<Longrightarrow> \<exists>r. areqs s a = Some r \<and> ar_status r = REQUEST_STAT_SUBMITTED"
    and kept: "system_event e \<Longrightarrow> stuck s \<Longrightarrow> aio_exec e s = Some (Inr s') \<Longrightarrow> stuck s' \<and> same_list s s'"
begin

lemma waits_for_wait:
  assumes "list_all system_event sch" "stuck s \<and> same_list s0 s" "aio_wait_status p sch s = Some (Inr (sch', s'))"
  shows "(stuck s' \<and> same_list s0 s') \<and> list_all system_event sch' \<and>
         (\<exists>r. aget p s' = Inr r \<and> ar_status r \<noteq> REQUEST_STAT_SUBMITTED)"
  by (rule aio_wait_status_keeps [where P = "\<lambda>s. stuck s \<and> same_list s0 s", OF _ assms])
    (blast dest: kept intro: same_list_trans)

lemma never_woken:
  assumes "list_all system_event sch" "stuck s \<and> same_list s0 s"
  shows "aio_wait_status (Addr a) sch s \<noteq> Some (Inr v)"
proof
  assume "aio_wait_status (Addr a) sch s = Some (Inr v)"
  with waits_for_wait [OF assms, of "Addr a" "fst v" "snd v"]
  have "stuck (snd v)" "\<exists>r. aget (Addr a) (snd v) = Inr r \<and> ar_status r \<noteq> REQUEST_STAT_SUBMITTED" by auto
  with submitted [of "snd v"] show False by (auto simp: aget_Inr_iff)
qed

lemma stuck_wait_all:
  assumes j: "arr_get (req_list s0) j (aos s0) = Inr (Addr a)" "j < unat (req_count s0)"
  shows "list_all system_event sch \<Longrightarrow> stuck s \<and> same_list s0 s \<Longrightarrow> i \<le> j \<Longrightarrow>
         aio_wait_all_loop i res sch s \<noteq> Some (Inr v)"
proof (induction i res sch s rule: aio_wait_all_loop.induct)
  case (1 i res sch s)
  from 1(4) have same: "same_list s0 s" by simp
  then have n: "\<not> unat (req_count s) \<le> i" using j(2) 1(5) by (simp add: same_list_def)
  show ?case
  proof (cases "arr_get (req_list s) i (aos s)")
    case (Inl f)
    with n show ?thesis by (simp add: aio_wait_all_loop.simps [of i res sch s])
  next
    case (Inr p)
    have next_i: "Suc i \<le> j" if "p \<noteq> Addr a"
      using that Inr j(1) 1(5) list_read [OF same] same
      by (cases "i = j") (auto simp: same_list_def)
    show ?thesis
    proof (cases "p = Null")
      case True
      with 1(1) [OF n Inr] 1(3,4) next_i n Inr show ?thesis
        by (simp add: aio_wait_all_loop.simps [of i res sch s])
    next
      case nn: False
      show ?thesis
      proof (cases "\<exists>sch' s'. aio_wait_status p sch s = Some (Inr (sch', s'))")
        case False
        with nn n Inr show ?thesis
          by (auto simp: aio_wait_all_loop.simps [of i res sch s] split: option.split sum.split)
      next
        case True
        then obtain sch' s' where w: "aio_wait_status p sch s = Some (Inr (sch', s'))" by blast
        with never_woken [OF 1(3,4)] have "p \<noteq> Addr a" by auto
        with next_i have "Suc i \<le> j" by simp
        moreover from waits_for_wait [OF 1(3,4) w]
        have "stuck s' \<and> same_list s0 s'" "list_all system_event sch'" by auto
        ultimately show ?thesis using 1(2) [OF n Inr nn w] nn n Inr w
          by (simp add: aio_wait_all_loop.simps [of i res sch s])
      qed
    qed
  qed
qed

lemma stuck_wait_all_requests:
  assumes "stuck s" "list_all system_event sch"
    and l: "arr_get (req_list s) j (aos s) = Inr (Addr a)" "j < unat (req_count s)"
  shows "aio_wait_all_requests sch s \<noteq> Some (Inr v)"
proof -
  have "stuck s \<and> same_list s s" using assms(1) by (simp add: same_list_def)
  from stuck_wait_all [OF l assms(2) this] have "aio_wait_all_loop 0 RET_OK sch s \<noteq> Some (Inr v)" by simp
  moreover have "req_list s \<noteq> Null" using l(1) by (auto simp: arr_get_def)
  moreover have "req_count s \<noteq> 0" using l(2) by auto
  ultimately show ?thesis by (simp add: aio_wait_all_requests_def)
qed

end

text \<open>One whose operation failed.\<close>

interpretation failed: stuck_request a "\<lambda>s. aio_inv s \<and> failed_unnoticed a s" for a
proof unfold_locales
  show "\<exists>r. areqs s a = Some r \<and> ar_status r = REQUEST_STAT_SUBMITTED" if "aio_inv s \<and> failed_unnoticed a s" for s
    using that by (auto simp: failed_unnoticed_def)
  show "(aio_inv s' \<and> failed_unnoticed a s') \<and> same_list s s'"
    if "system_event e" "aio_inv s \<and> failed_unnoticed a s" "aio_exec e s = Some (Inr s')" for e s s'
    using that system_keeps_failed [of s a e s'] ainv_exec [OF _ aio_orderly_in_time [OF system_orderly], of s e s'] by auto
qed

text \<open>One whose operation is over and was notified before its state was stored.\<close>

definition addressed :: "aio_sys \<Rightarrow> bool" where
  "addressed s \<longleftrightarrow> (\<forall>b r. areqs s b = Some r \<longrightarrow> aops s b \<noteq> None \<longrightarrow> aio_sival (ar_cb r) = Addr b)"

definition overtaken :: "nat \<Rightarrow> aio_sys \<Rightarrow> bool" where
  "overtaken a s \<longleftrightarrow> addressed s \<and>
     (\<exists>r x. areqs s a = Some r \<and> ar_status r = REQUEST_STAT_SUBMITTED \<and>
        aops s a = Some x \<and> op_progress x \<noteq> InProgress \<and> \<not> op_notify x)"

lemma notify_keeps_overtaken:
  assumes f: "overtaken a s" and c: "aio_notify cb b s = Some (Inr s')"
    and cb: "\<And>p t u. cb p t = Inr u \<Longrightarrow> settles_at_most p t u"
  shows "overtaken a s' \<and> same_list s s'"
proof -
  from c obtain x where x: "aops s b = Some x" "op_notify x"
    by (auto simp: aio_notify_def split: option.splits if_splits)
  with f have ab: "a \<noteq> b" by (auto simp: overtaken_def)
  let ?t = "s\<lparr>aops := (aops s)(b := Some (x\<lparr>op_notify := False\<rparr>))\<rparr>"
  from c x obtain r where r: "areqs s b = Some r" and u: "cb (aio_sival (ar_cb r)) ?t = Inr s'"
    by (auto simp: aio_notify_def deref_Inr_iff)
  from f r x have "aio_sival (ar_cb r) = Addr b" by (simp add: overtaken_def addressed_def)
  with cb [OF u] have st: "settles_at_most (Addr b) ?t s'" by simp
  with r obtain r' where "areqs s' = (areqs s)(b := Some r')" "aio_sival (ar_cb r') = aio_sival (ar_cb r)"
    "aops s' = aops ?t" "same_list s s'"
    by (auto simp: settles_at_most_def aget_Inr_iff same_list_def)
  with f ab x r show ?thesis by (auto simp: overtaken_def addressed_def)
qed

lemma system_keeps_overtaken:
  assumes f: "overtaken a s" and e: "system_event e" "aio_exec e s = Some (Inr s')"
  shows "overtaken a s' \<and> same_list s s'"
proof (cases e)
  case (AEvComplete b)
  with e(2) f show ?thesis
    by (auto simp: aio_complete_def overtaken_def addressed_def same_list_def deref_Inr_iff
        dest!: transfer_parrs split: option.splits if_splits)
next
  case (AEvNotify b)
  with e(2) notify_keeps_overtaken [OF f _ callback_settles] show ?thesis by simp
next
  case (AEvNotifyFirst b)
  with e(2) have c: "aio_notify (\<lambda>p s. and_then (aio_callback_outcome p s) (aio_callback_close1 p)) b s =
      Some (Inr s')" by simp
  show ?thesis
    by (rule notify_keeps_overtaken [OF f c])
      (auto dest!: outcome_settles close1_settles intro: settles_trans)
next
  case (AEvNotifySecond p)
  with e(2) have c: "aio_callback_close2 p s = Inr s'" by simp
  then obtain r b where r: "aget p s = Inr r" "p = Addr b" "areqs s b = Some r"
    by (auto simp: aio_callback_close2_def aget_Inr_iff)
  with c close2_result [OF r(1)] f closed_frame [of "aio_fildes (ar_cb r)" "aos s"] show ?thesis
    by (auto simp: overtaken_def addressed_def same_list_def aput_def)
qed (use e in auto)

interpretation overtaken: stuck_request a "overtaken a" for a
proof unfold_locales
  show "\<exists>r. areqs s a = Some r \<and> ar_status r = REQUEST_STAT_SUBMITTED" if "overtaken a s" for s
    using that by (auto simp: overtaken_def)
qed (rule system_keeps_overtaken)

end
