(* ===== verification/Aio_Demo.thy ===== *)
theory Aio_Demo
  imports Aio_Completion
begin

text \<open>
  A small run of the AIO accessor on a concrete process: a request for the three bytes of a file, its
  buffer, its submission. The flag \<open>bad\<close> says whether the system's input fails. The states are
  written out; the properties of the other theories are applied to them.
\<close>

definition aio_world :: "bool \<Rightarrow> world" where
  "aio_world bad = demo_world\<lparr>refuse := (\<lambda>n. bad \<and> n = 6)\<rparr>"

lemma aio_world_simps [simp]:
  "refuse (aio_world bad) n \<longleftrightarrow> bad \<and> n = 6" "brk (aio_world bad) = 1" "calls (aio_world bad) = 0"
  "fds (aio_world bad) = [Some tty, Some tty, Some tty]" "files (aio_world bad) = files demo_world"
  "heap (aio_world bad) = (\<lambda>_. None)" "mmaps (aio_world bad) = (\<lambda>_. None)"
  "parrs (aio_world bad) = (\<lambda>_. None)" "fill (aio_world bad) = 0"
  by (simp_all add: aio_world_def)

lemma aio_read_info:
  "aio_info_ok read_info" "aio_copied_info read_info = read_info" "aio_open_mode read_info = Rdonly"
  by code_simp+

text \<open>The request at 1, with its buffer, the address its notification is given and its state.\<close>

definition aio_demo_request :: "ptr \<Rightarrow> ptr \<Rightarrow> request_stat \<Rightarrow> aio_request" where
  "aio_demo_request b sv st =
     \<lparr>ar_info = read_info, ar_fd = 3, ar_fsb = 3,
      ar_cb = \<lparr>aio_fildes = 3, aio_buf = b, aio_nbytes = 3, aio_offset = 0, aio_sival = sv\<rparr>,
      ar_buf = b, ar_isValid = True, ar_isAlloced = False, ar_status = st,
      ar_lock = AioSyncReady, ar_isFinished = AioSyncReady\<rparr>"

definition aio_demo_os :: "bool \<Rightarrow> world" where
  "aio_demo_os bad = (aio_world bad)\<lparr>calls := 4, brk := 3, heap := [2 \<mapsto> [0, 0, 0]],
     fds := [Some tty, Some tty, Some tty, Some \<lparr>o_path = ''in'', o_mode = Rdonly, o_pos = 0\<rparr>]\<rparr>"

definition aio_prepared :: "bool \<Rightarrow> aio_sys" where
  "aio_prepared bad =
     \<lparr>aos = aio_demo_os bad, areqs = [1 \<mapsto> aio_demo_request (Addr 2) Null REQUEST_STAT_INIT],
      aops = (\<lambda>_. None), req_list = Null, req_count = 0\<rparr>"

lemma aio_demo_get:
  "aio_exec (AEvGet read_info) (g_aioFileAccessor (aio_world bad)) =
     Some (Inr ((aio_prepared bad)\<lparr>areqs := [1 \<mapsto> aio_demo_request Null Null REQUEST_STAT_INIT],
       aos := (aio_demo_os bad)\<lparr>calls := 3, brk := 2, heap := (\<lambda>_. None)\<rparr>\<rparr>))"
  by (simp add: aio_get_request_def c_new_def ask_def fresh_addr_def g_aioFileAccessor_def
      aio_check_request_valid_def aget_def aput_def aio_read_info read_info_fields zero_aio_request_def
      zero_aiocb_def file_name_def sys_open_def opened_file_def retry_for_def retry_for_loop.simps
      demo_files sys_close_def fd_lookup_def fd_at_def aio_request_setup_def sys_lseek_cur_def
      sys_fstat_def Let_def aio_prepared_def aio_demo_os_def aio_demo_request_def)
     (simp add: demo_file_def numeral_3_eq_3 ASYNC_FILE_ACCESS_MAX_def ASYNC_FILE_ACCESS_READ_def)

text \<open>Submitted: the operation in progress, the list of requests at 3.\<close>

definition aio_demo_list :: parr where
  "aio_demo_list = \<lparr>a_len = 1024, a_at = [0 \<mapsto> Addr 1]\<rparr>"

definition aio_submitted :: "bool \<Rightarrow> aio_sys" where
  "aio_submitted bad =
     \<lparr>aos = (aio_demo_os bad)\<lparr>calls := 6, brk := 4, parrs := [3 \<mapsto> aio_demo_list]\<rparr>,
      areqs = [1 \<mapsto> aio_demo_request (Addr 2) (Addr 1) REQUEST_STAT_SUBMITTED],
      aops = [1 \<mapsto> \<lparr>op_write = False, op_progress = InProgress, op_notify = False\<rparr>],
      req_list = Addr 3, req_count = 1\<rparr>"

lemma aio_demo_buffer:
  "aio_exec (AEvMalloc 3) ((aio_prepared bad)\<lparr>areqs := [1 \<mapsto> aio_demo_request Null Null REQUEST_STAT_INIT],
       aos := (aio_demo_os bad)\<lparr>calls := 3, brk := 2, heap := (\<lambda>_. None)\<rparr>\<rparr>) =
     Some (Inr ((aio_prepared bad)\<lparr>areqs := [1 \<mapsto> aio_demo_request Null Null REQUEST_STAT_INIT]\<rparr>))"
  by (simp add: c_malloc_def ask_def Let_def aio_prepared_def aio_demo_os_def numeral_3_eq_3)

lemma aio_demo_import:
  "aio_exec (AEvImport (Addr 1) (Addr 2))
     ((aio_prepared bad)\<lparr>areqs := [1 \<mapsto> aio_demo_request Null Null REQUEST_STAT_INIT]\<rparr>) =
   Some (Inr (aio_prepared bad))"
  by (simp add: aio_request_import_read_buffer_def aio_check_request_valid_def aget_def aput_def
      aio_only_state_def aio_demo_request_def aio_prepared_def)

text \<open>The operation handed to the system, the state not yet stored.\<close>

definition aio_half :: "bool \<Rightarrow> aio_sys" where
  "aio_half bad = (aio_prepared bad)
     \<lparr>areqs := [1 \<mapsto> aio_demo_request (Addr 2) (Addr 1) REQUEST_STAT_INIT], aos := (aio_demo_os bad)\<lparr>calls := 5\<rparr>,
      aops := [1 \<mapsto> \<lparr>op_write = False, op_progress = InProgress, op_notify = False\<rparr>]\<rparr>"

lemma aio_demo_put_submit: "aio_put_submit (Addr 1) (aio_prepared bad) = Inr (RET_OK, aio_half bad)"
  by (simp add: aio_put_submit_def aget_def aput_def sys_aio_submit_def ask_def aio_prepared_def
      aio_demo_request_def aio_demo_os_def read_info_fields RET_OK_def aio_half_def)

lemma aio_demo_put: "aio_put_request (Addr 1) (aio_prepared bad) = Inr (RET_OK, aio_submitted bad)"
proof -
  let ?r = "aio_demo_request (Addr 2) (Addr 1) REQUEST_STAT_INIT"
  let ?op = "[1 \<mapsto> \<lparr>op_write = False, op_progress = InProgress, op_notify = False\<rparr>]"
  let ?s2 = "(aio_prepared bad)\<lparr>areqs := [1 \<mapsto> ?r], aos := (aio_demo_os bad)\<lparr>calls := 5\<rparr>, aops := ?op\<rparr>"
  let ?s3 = "?s2\<lparr>areqs := [1 \<mapsto> aio_demo_request (Addr 2) (Addr 1) REQUEST_STAT_SUBMITTED]\<rparr>"
  have v: "aio_check_request_valid (Addr 1) (aio_prepared bad) = Inr (RET_OK, aio_prepared bad)"
    by (simp add: aio_check_request_valid_def aget_def aio_prepared_def aio_demo_request_def)
  have p: "aio_put_submit (Addr 1) (aio_prepared bad) = Inr (RET_OK, ?s2)"
    by (simp only: aio_demo_put_submit aio_half_def)
  have m: "aio_put_mark (Addr 1) ?s2 = Inr ?s3"
    by (simp add: aio_put_mark_def aget_def aput_def aio_demo_request_def)
  have "unat (new_list_bufsize 0) div 8 = 1024" by (simp add: new_list_bufsize_unat LIST_LIMIT_def)
  then have g: "aio_grow_list ?s3 = Inr (RET_OK, ?s3\<lparr>req_list := Addr 3, aos := (aio_demo_os bad)
      \<lparr>calls := 6, brk := 4, parrs := [3 \<mapsto> \<lparr>a_len = 1024, a_at = (\<lambda>_. None)\<rparr>]\<rparr>\<rparr>)"
    by (simp add: aio_grow_list_def c_realloc_arr_def c_malloc_arr_def ask_def Let_def aio_prepared_def
        aio_demo_os_def)
  have "aio_list_request (Addr 1) ?s3 = Inr (RET_OK, aio_submitted bad)"
    unfolding aio_list_request_def g
    by (simp add: arr_set_def aio_submitted_def aio_prepared_def aio_demo_os_def aio_demo_list_def
        fun_eq_iff)
  with v p m show ?thesis by (simp add: aio_put_request_def aio_put_finish_def)
qed

definition aio_demo_events :: "aio_event list" where
  "aio_demo_events =
     [AEvGet read_info, AEvMalloc 3, AEvImport (Addr 1) (Addr 2), AEvPut (Addr 1)]"

lemma aio_demo_run: "aio_timely_run (aio_world bad) aio_demo_events (aio_submitted bad)"
proof -
  have e4: "aio_exec (AEvPut (Addr 1)) (aio_prepared bad) = Some (Inr (aio_submitted bad))"
    unfolding aio_exec.simps aio_only_state_def aio_demo_put and_then_simps by simp
  show ?thesis
    by (rule aio_timely_runI, simp add: aio_demo_events_def)
      (unfold AIO_File_Accessor_Get_Instance_def aio_demo_events_def run.simps
        aio_demo_get option.case sum.case aio_demo_buffer aio_demo_import e4, simp)
qed

section \<open>The operation ends\<close>

definition aio_ended :: "bool \<Rightarrow> bool \<Rightarrow> aio_sys" where
  "aio_ended bad due = (aio_submitted bad)
     \<lparr>aos := (aos (aio_submitted bad))\<lparr>calls := 7,
              heap := [2 \<mapsto> (if bad then [0, 0, 0] else [7, 8, 9])]\<rparr>,
      aops := [1 \<mapsto> \<lparr>op_write = False, op_progress = Finished (if bad then EIO else 0),
                     op_notify = due\<rparr>]\<rparr>"

lemma aio_demo_complete: "aio_exec (AEvComplete 1) (aio_submitted bad) = Some (Inr (aio_ended bad True))"
  by (auto simp: aio_complete_def aio_transfer_def aio_submitted_def aio_demo_os_def ask_def fd_lookup_def
      fd_at_def aio_demo_request_def can_read_def demo_file_def mem_store_def overwrite_def
      aio_ended_def numeral_3_eq_3 fun_eq_iff)

lemma aio_demo_failed:
  "aio_timely_run (aio_world True) (aio_demo_events @ [AEvComplete 1]) (aio_ended True True)"
proof -
  have "run aio_timely [AEvComplete 1] (aio_submitted True) = Some (aio_ended True True)"
    using aio_demo_complete [of True] by (simp add: aio_timely_def del: aio_exec.simps)
  with aio_demo_run [of True] show ?thesis
    unfolding aio_timely_run_def run_append by (simp only: option.case)
qed

lemma aio_demo_failed_run:
  "run aio_exec (aio_demo_events @ [AEvComplete 1]) (AIO_File_Accessor_Get_Instance (g_aioFileAccessor (aio_world True))) =
     Some (aio_ended True True)"
proof -
  have "list_all aio_orderly (aio_demo_events @ [AEvComplete 1])" by (simp add: aio_demo_events_def)
  with aio_demo_failed show ?thesis by (simp only: aio_timely_run_def aio_orderly_timely)
qed

lemma aio_demo_callback: "\<exists>s'. aio_callback (Addr 1) (aio_ended False True) = Inr s'"
  by (simp add: aio_callback_def aio_callback_outcome_def aio_callback_close1_def aio_callback_close2_def
      aget_def aput_def aio_ended_def aio_submitted_def aio_demo_request_def sys_aio_error_def Let_def)

lemma aio_demo_close1:
  "\<exists>s1. aio_callback_close1 (Addr 1) (aio_ended False True) = Inr s1 \<and>
     refuse (aos s1) (calls (aos s1)) = False"
  by (simp add: aio_callback_close1_def aget_def aput_def aio_ended_def aio_submitted_def aio_demo_os_def
      aio_demo_request_def sys_close_def fd_lookup_def fd_at_def)

text \<open>
  The same submission, with the operation carried out and its callback run before \<open>aio_put_request\<close> stores
  the state: the callback has recorded the success.
\<close>

definition aio_overtaken_events :: "aio_event list" where
  "aio_overtaken_events =
     [AEvGet read_info, AEvMalloc 3, AEvImport (Addr 1) (Addr 2), AEvPutSubmit (Addr 1),
      AEvComplete 1, AEvNotify 1]"

definition aio_called_back :: "request_stat \<Rightarrow> aio_sys" where
  "aio_called_back st = (aio_half False)
     \<lparr>areqs := [1 \<mapsto> (aio_demo_request (Addr 2) (Addr 1) st)
         \<lparr>ar_fd := - 1, ar_cb := \<lparr>aio_fildes = - 1, aio_buf = Addr 2, aio_nbytes = 3, aio_offset = 0,
            aio_sival = Addr 1\<rparr>\<rparr>],
      aos := (aio_demo_os False)\<lparr>calls := 6, heap := [2 \<mapsto> [7, 8, 9]],
         fds := [Some tty, Some tty, Some tty, None]\<rparr>,
      aops := [1 \<mapsto> \<lparr>op_write = False, op_progress = Finished 0, op_notify = False\<rparr>]\<rparr>"

lemma aio_overtaken_run:
  "run aio_exec aio_overtaken_events (AIO_File_Accessor_Get_Instance (g_aioFileAccessor (aio_world False))) =
     Some (aio_called_back REQUEST_STAT_IOSUCCESS)"
proof -
  let ?done = "(aio_half False)\<lparr>aos := (aio_demo_os False)\<lparr>calls := 6, heap := [2 \<mapsto> [7, 8, 9]]\<rparr>,
      aops := [1 \<mapsto> \<lparr>op_write = False, op_progress = Finished 0, op_notify = True\<rparr>]\<rparr>"
  have p: "aio_exec (AEvPutSubmit (Addr 1)) (aio_prepared False) = Some (Inr (aio_half False))"
    by (simp add: aio_only_state_def aio_demo_put_submit del: and_then_Inr_iff One_nat_def)
  have c: "aio_exec (AEvComplete 1) (aio_half False) = Some (Inr ?done)"
    by (auto simp: aio_complete_def aio_transfer_def aio_half_def aio_prepared_def aio_demo_os_def ask_def
        fd_lookup_def fd_at_def aio_demo_request_def can_read_def demo_file_def mem_store_def overwrite_def
        numeral_3_eq_3 fun_eq_iff)
  have n: "aio_exec (AEvNotify 1) ?done = Some (Inr (aio_called_back REQUEST_STAT_IOSUCCESS))"
    by (simp add: aio_notify_def aio_callback_def aio_callback_outcome_def aio_callback_close1_def
        aio_callback_close2_def aget_def aput_def aio_half_def aio_prepared_def aio_demo_request_def
        aio_called_back_def sys_aio_error_def sys_close_def fd_lookup_def fd_at_def aio_demo_os_def Let_def)
  show ?thesis
    unfolding AIO_File_Accessor_Get_Instance_def aio_overtaken_events_def run.simps
      aio_demo_get option.case sum.case aio_demo_buffer aio_demo_import p c n by simp
qed

lemma aio_late_finish:
  "\<exists>s'. aio_exec (AEvPutFinish (Addr 1) RET_OK) (aio_called_back st) = Some (Inr s') \<and>
     areqs s' = areqs (aio_called_back REQUEST_STAT_SUBMITTED) \<and> aops s' = aops (aio_called_back st) \<and>
     heap (aos s') = [2 \<mapsto> [7, 8, 9]] \<and> arr_get (req_list s') 0 (aos s') = Inr (Addr 1) \<and> req_count s' = 1"
proof -
  have "unat (new_list_bufsize 0) div 8 = 1024" by (simp add: new_list_bufsize_unat LIST_LIMIT_def)
  then show ?thesis
    by (simp add: aio_put_finish_def aio_put_mark_def aio_list_request_def aio_grow_list_def aget_def aput_def
        aio_called_back_def aio_half_def aio_prepared_def aio_demo_request_def aio_only_state_def
        c_realloc_arr_def c_malloc_arr_def ask_def Let_def aio_demo_os_def arr_set_def arr_get_def)
qed

text \<open>A write of an allocated buffer, in progress.\<close>

definition aio_writing :: aio_sys where
  "aio_writing = (aio_submitted False)
     \<lparr>aos := (aio_demo_os False)\<lparr>calls := 6, heap := [2 \<mapsto> [4, 5, 6]],
        fds := [Some tty, Some tty, Some tty, Some \<lparr>o_path = ''in'', o_mode = WronlyCreat, o_pos = 0\<rparr>]\<rparr>,
      areqs := [1 \<mapsto> (aio_demo_request (Addr 2) (Addr 1) REQUEST_STAT_SUBMITTED)\<lparr>ar_isAlloced := True\<rparr>],
      aops := [1 \<mapsto> \<lparr>op_write = True, op_progress = InProgress, op_notify = False\<rparr>]\<rparr>"

end
