(* ===== verification/Aio_Safety.thy ===== *)
theory Aio_Safety
  imports Aio_Demo
begin

text \<open>
  What the AIO accessor guarantees about operations under way, and where it does not: which requests
  stay submitted, what the callback does, what completed transfers leave behind.
\<close>

section \<open>Requests under way\<close>

text \<open>
  C21: what keeps a request \<open>SUBMITTED\<close>: in every timely run such a request has an operation in progress, or
  one whose notification is due, or one that failed, or none at all because the system refused it. Other clients,
  completions and callbacks may come in between the system call of \<open>aio_put_request\<close> (line 227) and its
  store of the state (line 240); what a timely run leaves out is a store behind the callback of a
  success, which does lose the completion (see \<open>aio_put_loses_the_completion\<close>).
\<close>
theorem aio_submitted_request:
  assumes "aio_timely_run w es s" "areqs s a = Some r" "ar_status r = REQUEST_STAT_SUBMITTED"
  shows "aops s a = None \<or>
         (\<exists>x. aops s a = Some x \<and> aio_sival (ar_cb r) = Addr a \<and>
            (op_progress x = InProgress \<or> op_notify x \<or> (\<exists>e. op_progress x = Finished e \<and> e \<noteq> 0)))"
proof -
  from aio_timely_run_inv [OF assms(1)] assms(2) have i: "request_inv s a r" by (simp add: aio_inv_def)
  show ?thesis
  proof (cases "aops s a")
    case (Some x)
    with i assms(3) show ?thesis by (simp add: request_inv_def)
  qed simp
qed

theorem aio_submitted_request_witness:
  "\<exists>x. aops (aio_submitted False) 1 = Some x \<and>
     (op_progress x = InProgress \<or> op_notify x \<or> (\<exists>e. op_progress x = Finished e \<and> e \<noteq> 0))"
proof -
  let ?s = "aio_submitted False"
  have r: "areqs ?s 1 = Some (aio_demo_request (Addr 2) (Addr 1) REQUEST_STAT_SUBMITTED)"
    "ar_status (aio_demo_request (Addr 2) (Addr 1) REQUEST_STAT_SUBMITTED) = REQUEST_STAT_SUBMITTED"
    by (simp_all add: aio_submitted_def aio_demo_request_def)
  have "aops ?s 1 \<noteq> None" by (simp add: aio_submitted_def)
  with aio_submitted_request [OF aio_demo_run r] show ?thesis by blast
qed

text \<open>
  C30: a failed operation hangs \<open>aio_wait_all_requests\<close>: its callback leaves the request
  \<open>SUBMITTED\<close>, so that waiting for all requests never returns once a listed request failed,
  whatever operations end and whatever notifications run meanwhile.
\<close>
theorem aio_failure_hangs_the_wait:
  assumes o: "aio_timely_run w es s"
    and r: "areqs s a = Some r" "ar_status r = REQUEST_STAT_SUBMITTED"
    and x: "aops s a = Some x" "op_progress x = Finished e" "e \<noteq> 0"
    and l: "arr_get (req_list s) j (aos s) = Inr (Addr a)" "j < unat (req_count s)"
    and sch: "list_all system_event sch"
  shows "aio_wait_all_requests sch s \<noteq> Some (Inr v)"
proof -
  have "aio_inv s \<and> failed_unnoticed a s"
    using aio_timely_run_inv [OF o] r x by (auto simp: failed_unnoticed_def)
  from failed.stuck_wait_all_requests [OF this sch l] show ?thesis .
qed

theorem aio_failure_hangs_the_wait_witness:
  "\<not> (\<exists>v. aio_wait_all_requests [AEvNotify 1, AEvComplete 1] (aio_ended True True) = Some (Inr v))"
proof -
  let ?s = "aio_ended True True"
  have r: "areqs ?s 1 = Some (aio_demo_request (Addr 2) (Addr 1) REQUEST_STAT_SUBMITTED)"
    "ar_status (aio_demo_request (Addr 2) (Addr 1) REQUEST_STAT_SUBMITTED) = REQUEST_STAT_SUBMITTED"
    by (simp_all add: aio_ended_def aio_submitted_def aio_demo_request_def)
  have x: "aops ?s 1 = Some \<lparr>op_write = False, op_progress = Finished EIO, op_notify = True\<rparr>"
    "op_progress \<lparr>op_write = False, op_progress = Finished EIO, op_notify = True\<rparr> = Finished EIO"
    "EIO \<noteq> 0" by (simp_all add: aio_ended_def EIO_def)
  have l: "arr_get (req_list ?s) 0 (aos ?s) = Inr (Addr 1)" "0 < unat (req_count ?s)"
    by (simp_all add: arr_get_def aio_ended_def aio_submitted_def aio_demo_list_def)
  show ?thesis using aio_failure_hangs_the_wait [OF aio_demo_failed r x l] by simp
qed

text \<open>
  C20: \<open>aio_put_request\<close> stores \<open>SUBMITTED\<close> (line 240) after it has handed the operation to the system (line 227),
  and overwrites what the callback of a fast operation has recorded meanwhile. In a run of one client the read is
  carried out and its callback sets \<open>IOSUCCESS\<close> before the state is stored: then the request is \<open>SUBMITTED\<close>, with the
  data in the client's buffer, its operation over and no notification due, and \<open>aio_wait_all_requests\<close> never
  returns, whatever operations end and whatever notifications run meanwhile.
\<close>
theorem aio_put_loses_the_completion:
  "\<exists>s s'. run aio_exec aio_overtaken_events (AIO_File_Accessor_Get_Instance (g_aioFileAccessor (aio_world False))) = Some s \<and>
     map_option ar_status (areqs s 1) = Some REQUEST_STAT_IOSUCCESS \<and>
     aio_exec (AEvPutFinish (Addr 1) RET_OK) s = Some (Inr s') \<and>
     map_option ar_status (areqs s' 1) = Some REQUEST_STAT_SUBMITTED \<and>
     aops s' = [1 \<mapsto> \<lparr>op_write = False, op_progress = Finished 0, op_notify = False\<rparr>] \<and>
     heap (aos s') 2 = Some [7, 8, 9] \<and>
     (\<forall>sch v. list_all system_event sch \<longrightarrow> aio_wait_all_requests sch s' \<noteq> Some (Inr v))"
proof -
  let ?s = "aio_called_back REQUEST_STAT_IOSUCCESS"
  from aio_late_finish obtain s' where f: "aio_exec (AEvPutFinish (Addr 1) RET_OK) ?s = Some (Inr s')"
    and r: "areqs s' = areqs (aio_called_back REQUEST_STAT_SUBMITTED)" and x: "aops s' = aops ?s"
    and h: "heap (aos s') = [2 \<mapsto> [7, 8, 9]]"
    and l: "arr_get (req_list s') 0 (aos s') = Inr (Addr 1)" "req_count s' = 1" by blast
  have "overtaken 1 s'"
    by (auto simp: overtaken_def addressed_def r x aio_called_back_def aio_demo_request_def)
  then have "aio_wait_all_requests sch s' \<noteq> Some (Inr v)" if "list_all system_event sch" for sch v
    using overtaken.stuck_wait_all_requests [OF _ that l(1)] l(2) by simp
  moreover have "map_option ar_status (areqs ?s 1) = Some REQUEST_STAT_IOSUCCESS"
    "map_option ar_status (areqs s' 1) = Some REQUEST_STAT_SUBMITTED"
    "aops s' = [1 \<mapsto> \<lparr>op_write = False, op_progress = Finished 0, op_notify = False\<rparr>]"
    by (simp_all add: r x aio_called_back_def aio_demo_request_def)
  ultimately show ?thesis using aio_overtaken_run f h
    by (intro exI [of _ ?s] exI [of _ s'] conjI) (simp_all del: aio_exec.simps run.simps)
qed

theorem aio_put_loses_the_completion_witness:
  "\<exists>s'. map_option ar_status (areqs s' 1) = Some REQUEST_STAT_SUBMITTED \<and>
     heap (aos s') 2 = Some [7, 8, 9] \<and> \<not> (\<exists>v. aio_wait_all_requests [AEvNotify 1, AEvComplete 1] s' = Some (Inr v))"
proof -
  have "list_all system_event [AEvNotify 1, AEvComplete 1]" by simp
  with aio_put_loses_the_completion show ?thesis by blast
qed

section \<open>Completions\<close>

text \<open>
  a read completes: when the system carries out a read in progress and then notifies, the client's buffer
  starts with the requested bytes of the file, only as many as the file has, the request is
  \<open>IOSUCCESS\<close>, no file changes, and the request's descriptors above 0 are closed, no other.
\<close>
theorem aio_read_completes:
  assumes x: "aops s a = Some x" "op_progress x = InProgress" "\<not> op_write x"
    and r: "areqs s a = Some r" "aio_sival (ar_cb r) = Addr a" "\<not> ar_isAlloced r"
    and t: "transfer_ready r (aos s) d f" "can_read (o_mode d)"
    and b: "aio_buf (ar_cb r) = Addr b" "heap (aos s) b = Some old" "aio_nbytes (ar_cb r) \<le> length old"
  shows "\<exists>s1 s2 r'. aio_complete a s = Some (Inr s1) \<and> aio_notify aio_callback a s1 = Some (Inr s2) \<and>
           areqs s2 a = Some r' \<and> ar_status r' = REQUEST_STAT_IOSUCCESS \<and>
           heap (aos s2) = (heap (aos s))(b := Some (overwrite 0 (take (aio_nbytes (ar_cb r))
             (drop (nat (aio_offset (ar_cb r))) (f_content f))) old)) \<and>
           files (aos s2) = files (aos s) \<and>
           (\<forall>k. fd_lookup (aos s2) k =
              (if 0 < k \<and> (k = ar_fd r \<or> k = aio_fildes (ar_cb r)) then None else fd_lookup (aos s) k))"
proof -
  from read_transfer [OF t b] x(3)
  have tr: "aio_transfer (op_write x) (ar_cb r) (aos s) = Inr (0, (aos s)\<lparr>calls := Suc (calls (aos s)),
      heap := (heap (aos s))(b := Some (overwrite 0 (take (aio_nbytes (ar_cb r))
         (drop (nat (aio_offset (ar_cb r))) (f_content f))) old))\<rparr>)" by simp
  from completed [OF x(1,2) r(1,2) tr] r(3) show ?thesis by auto
qed

theorem aio_read_completes_witness:
  "\<exists>s1 s2. aio_complete 1 (aio_submitted False) = Some (Inr s1) \<and>
     aio_notify aio_callback 1 s1 = Some (Inr s2) \<and> heap (aos s2) 2 = Some [7, 8, 9]"
proof -
  let ?s = "aio_submitted False"
  let ?r = "aio_demo_request (Addr 2) (Addr 1) REQUEST_STAT_SUBMITTED"
  let ?d = "\<lparr>o_path = ''in'', o_mode = Rdonly, o_pos = 0\<rparr>"
  have x: "aops ?s 1 = Some \<lparr>op_write = False, op_progress = InProgress, op_notify = False\<rparr>"
    and r: "areqs ?s 1 = Some ?r" and b: "heap (aos ?s) 2 = Some [0, 0, 0]"
    by (simp_all add: aio_submitted_def aio_demo_os_def)
  have t: "transfer_ready ?r (aos ?s) ?d demo_file"
    by (simp add: transfer_ready_def aio_submitted_def aio_demo_os_def aio_demo_request_def
        fd_lookup_def fd_at_def)
  have o: "overwrite 0 (take 3 (drop (nat 0) (f_content demo_file))) [0, 0, 0] = [7, 8, 9]"
    by (simp add: overwrite_def demo_file_def)
  from aio_read_completes [OF x _ _ r _ _ t _ _ b] o show ?thesis
    by (auto simp: aio_demo_request_def can_read_def)
qed

text \<open>
  a write completes: when the system carries out a write in progress of an allocated buffer and
  then notifies, the file holds the buffer's bytes at the request's offset, every other file is as
  before, the request is \<open>IOSUCCESS\<close> and its buffer freed, and the request's descriptors above 0
  are closed, no other.
\<close>
theorem aio_write_completes:
  assumes x: "aops s a = Some x" "op_progress x = InProgress" "op_write x"
    and r: "areqs s a = Some r" "aio_sival (ar_cb r) = Addr a" "ar_isAlloced r" "ar_buf r = Addr b"
    and t: "transfer_ready r (aos s) d f" "can_write (o_mode d)"
    and b: "aio_buf (ar_cb r) = Addr b" "heap (aos s) b = Some bs" "aio_nbytes (ar_cb r) \<le> length bs"
  shows "\<exists>s1 s2 r'. aio_complete a s = Some (Inr s1) \<and> aio_notify aio_callback a s1 = Some (Inr s2) \<and>
           areqs s2 a = Some r' \<and> ar_status r' = REQUEST_STAT_IOSUCCESS \<and> ar_buf r' = Null \<and>
           files (aos s2) = (files (aos s))(o_path d := Some (f\<lparr>f_content :=
             file_write (nat (aio_offset (ar_cb r))) (take (aio_nbytes (ar_cb r)) bs) (f_content f)\<rparr>)) \<and>
           heap (aos s2) = (heap (aos s))(b := None) \<and>
           (\<forall>k. fd_lookup (aos s2) k =
              (if 0 < k \<and> (k = ar_fd r \<or> k = aio_fildes (ar_cb r)) then None else fd_lookup (aos s) k))"
proof -
  from write_transfer [OF t b] x(3)
  have tr: "aio_transfer (op_write x) (ar_cb r) (aos s) = Inr (0, (aos s)\<lparr>calls := Suc (calls (aos s)),
      files := (files (aos s))(o_path d := Some (f\<lparr>f_content := file_write (nat (aio_offset (ar_cb r)))
         (take (aio_nbytes (ar_cb r)) bs) (f_content f)\<rparr>))\<rparr>)" by simp
  from completed [OF x(1,2) r(1,2) tr] r(3,4) b show ?thesis by (auto simp: c_free_def)
qed

theorem aio_write_completes_witness:
  "\<exists>s1 s2. aio_complete 1 aio_writing = Some (Inr s1) \<and> aio_notify aio_callback 1 s1 = Some (Inr s2) \<and>
     files (aos s2) ''in'' = Some (demo_file\<lparr>f_content := [4, 5, 6]\<rparr>)"
proof -
  let ?r = "(aio_demo_request (Addr 2) (Addr 1) REQUEST_STAT_SUBMITTED)\<lparr>ar_isAlloced := True\<rparr>"
  let ?d = "\<lparr>o_path = ''in'', o_mode = WronlyCreat, o_pos = 0\<rparr>"
  have x: "aops aio_writing 1 = Some \<lparr>op_write = True, op_progress = InProgress, op_notify = False\<rparr>"
    and r: "areqs aio_writing 1 = Some ?r" and b: "heap (aos aio_writing) 2 = Some [4, 5, 6]"
    by (simp_all add: aio_writing_def)
  have t: "transfer_ready ?r (aos aio_writing) ?d demo_file"
    by (simp add: transfer_ready_def aio_writing_def aio_demo_os_def aio_demo_request_def
        fd_lookup_def fd_at_def)
  have o: "file_write (nat 0) (take 3 [4, 5, 6]) (f_content demo_file) = [4, 5, 6]"
    by (simp add: file_write_def overwrite_def resize_def demo_file_def)
  from aio_write_completes [OF x _ _ r _ _ _ t _ _ b] o show ?thesis
    by (auto simp: aio_demo_request_def can_write_def)
qed

text \<open>
  what the notification of an operation does: a success sets \<open>IOSUCCESS\<close>, whatever the state was
  before, a cancelled request included; a failure leaves the state alone, so it never becomes
  \<open>IOFAIL\<close>. An allocated buffer is forgotten, the request's descriptors above 0 are closed, no
  other, and no file changes.
\<close>
theorem aio_callback_spec:
  assumes r: "aget p s = Inr r" and c: "aio_callback p s = Inr s'"
  shows "\<exists>r'. aget p s' = Inr r' \<and>
           ar_status r' = (if sys_aio_error p s = 0 then REQUEST_STAT_IOSUCCESS else ar_status r) \<and>
           (ar_isAlloced r \<longrightarrow> ar_buf r' = Null) \<and> ar_fd r' \<le> 0 \<and> aio_fildes (ar_cb r') \<le> 0 \<and>
           (\<forall>k. fd_lookup (aos s') k =
              (if 0 < k \<and> (k = ar_fd r \<or> k = aio_fildes (ar_cb r)) then None else fd_lookup (aos s) k)) \<and>
           files (aos s') = files (aos s) \<and> (\<forall>q. q \<noteq> p \<longrightarrow> aget q s' = aget q s)"
proof -
  from callback_result [OF r c] obtain r' w where
    s': "s' = aput p r' (s\<lparr>aos := closed_unless_low (aio_fildes (ar_cb r)) (closed_unless_low (ar_fd r) w)\<rparr>)"
    and r': "ar_status r' = (if sys_aio_error p s = 0 then REQUEST_STAT_IOSUCCESS else ar_status r)"
      "ar_buf r' = (if ar_isAlloced r then Null else ar_buf r)"
      "ar_fd r' = (if 0 < ar_fd r then - 1 else ar_fd r)"
      "aio_fildes (ar_cb r') = (if 0 < aio_fildes (ar_cb r) then - 1 else aio_fildes (ar_cb r))"
    and w: "fds w = fds (aos s)" "files w = files (aos s)" by blast
  have "fd_lookup w k = fd_lookup (aos s) k" for k using w by (simp add: fd_lookup_def)
  then have "\<forall>k. fd_lookup (aos s') k =
      (if 0 < k \<and> (k = ar_fd r \<or> k = aio_fildes (ar_cb r)) then None else fd_lookup (aos s) k)"
    by (auto simp: s' closed_lookup)
  moreover have "aget q s' = (if q = p then Inr r' else aget q s)" for q
    using r by (simp add: s' aget_put)
  moreover have "files (aos s') = files (aos s)" using w closed_frame by (simp add: s')
  ultimately show ?thesis using r' by (intro exI [of _ r']) auto
qed

theorem aio_callback_spec_witness:
  "\<exists>s' r'. aio_callback (Addr 1) (aio_ended False True) = Inr s' \<and> aget (Addr 1) s' = Inr r' \<and>
     ar_status r' = REQUEST_STAT_IOSUCCESS \<and> fd_lookup (aos s') 3 = None"
proof -
  let ?r = "aio_demo_request (Addr 2) (Addr 1) REQUEST_STAT_SUBMITTED"
  have r: "aget (Addr 1) (aio_ended False True) = Inr ?r"
    by (simp add: aget_def aio_ended_def aio_submitted_def)
  have e: "sys_aio_error (Addr 1) (aio_ended False True) = 0"
    by (simp add: sys_aio_error_def aio_ended_def)
  obtain s' where c: "aio_callback (Addr 1) (aio_ended False True) = Inr s'"
    using aio_demo_callback by blast
  from aio_callback_spec [OF r c] c e show ?thesis by (force simp: aio_demo_request_def)
qed

text \<open>
  C31: the second \<open>close\<close> of the callback hits a stranger: \<open>aio_callback\<close> closes its request's
  descriptor twice, under two names. When another thread opens a file in between and the number is the lowest
  free one, the file gets the number just closed, and the callback closes it.
\<close>
theorem aio_callback_closes_a_stranger:
  assumes r: "aget p s = Inr r" "ar_fd r = k" "aio_fildes (ar_cb r) = k" "0 < k"
    and low: "\<forall>j. 0 \<le> j \<and> j < k \<longrightarrow> fd_lookup (aos s) j \<noteq> None"
    and c1: "aio_callback_close1 p s = Inr s1"
    and o: "sys_open path m (aos s1) = (fd, w)" "fd \<noteq> - 1"
  shows "fd = k \<and> fd_lookup w fd = Some \<lparr>o_path = path, o_mode = m, o_pos = 0\<rparr> \<and>
         (\<exists>s2. aio_callback_close2 p (s1\<lparr>aos := w\<rparr>) = Inr s2 \<and> fd_lookup (aos s2) fd = None)"
proof -
  let ?r = "r\<lparr>ar_fd := (if 0 < ar_fd r then - 1 else ar_fd r)\<rparr>"
  from c1 have s1: "s1 = aput p ?r (s\<lparr>aos := closed_unless_low k (aos s)\<rparr>)"
    using close1_result [OF r(1)] r(2) by simp
  then have free: "fd_lookup (aos s1) k = None"
    and used: "\<forall>j. 0 \<le> j \<and> j < k \<longrightarrow> fd_lookup (aos s1) j \<noteq> None"
    using r(4) low by (auto simp: closed_lookup)
  from sys_open_spec [OF o(1)] o(2) have fd: "0 \<le> fd" "fd_lookup (aos s1) fd = None"
    "fd_lookup w fd = Some \<lparr>o_path = path, o_mode = m, o_pos = 0\<rparr>" by auto
  from sys_open_reuses_lowest [OF o(1) _ free o(2)] r(4) have "fd \<le> k" by simp
  with used fd(1,2) have eq: "fd = k" by (metis order_less_le)
  have "aget p (s1\<lparr>aos := w\<rparr>) = Inr ?r" using r(1) by (simp add: s1 aget_put)
  from close2_result [OF this] r(3,4) eq fd(3) show ?thesis by (simp add: closed_lookup)
qed

theorem aio_callback_closes_a_stranger_witness:
  "\<exists>s1 fd w. aio_callback_close1 (Addr 1) (aio_ended False True) = Inr s1 \<and>
     sys_open ''out'' WronlyCreat (aos s1) = (fd, w) \<and> fd = 3"
proof -
  let ?s = "aio_ended False True"
  let ?r = "aio_demo_request (Addr 2) (Addr 1) REQUEST_STAT_SUBMITTED"
  have r: "aget (Addr 1) ?s = Inr ?r" by (simp add: aget_def aio_ended_def aio_submitted_def)
  have f: "ar_fd ?r = 3" "aio_fildes (ar_cb ?r) = 3" by (simp_all add: aio_demo_request_def)
  have fds: "fds (aos ?s) = [Some tty, Some tty, Some tty, Some \<lparr>o_path = ''in'', o_mode = Rdonly, o_pos = 0\<rparr>]"
    by (simp add: aio_ended_def aio_submitted_def aio_demo_os_def)
  have low: "\<forall>j. 0 \<le> j \<and> j < 3 \<longrightarrow> fd_lookup (aos ?s) j \<noteq> None"
  proof (intro allI impI)
    fix j :: int assume "0 \<le> j \<and> j < 3"
    then have "j = 0 \<or> j = 1 \<or> j = 2" by auto
    then show "fd_lookup (aos ?s) j \<noteq> None" by (auto simp: fd_lookup_def fd_at_def fds)
  qed
  obtain s1 where c: "aio_callback_close1 (Addr 1) ?s = Inr s1" and w: "refuse (aos s1) (calls (aos s1)) = False"
    using aio_demo_close1 by blast
  obtain fd v where o: "sys_open ''out'' WronlyCreat (aos s1) = (fd, v)" by fastforce
  have "fd \<noteq> - 1" using o w
    by (auto simp: sys_open_def ask_def opened_file_def Let_def split: option.splits prod.splits)
  from aio_callback_closes_a_stranger [OF r f _ low c o this] c o show ?thesis by auto
qed

end
