(* ===== verification/Aio_Clients.thy ===== *)
theory Aio_Clients
  imports Aio_Demo
begin

text \<open>
  The client's calls of the AIO accessor on every branch: what a successful \<open>aio_get_request\<close>
  returns, the three outcomes of \<open>aio_put_request\<close>, the answers of \<open>aio_wait_request\<close>, and the
  cancellation the system does not follow.
\<close>

section \<open>\<open>aio_get_request\<close>\<close>

text \<open>The check leaves the descriptors as they were: what it opened it closed.\<close>

lemma acheck_descriptors:
  assumes "aio_check_request_valid p s = Inr (res, s')"
  shows "fd_lookup (aos s') k = fd_lookup (aos s) k"
  using assms
proof (cases rule: acheck_cases)
  case (invalid r w)
  then show ?thesis by (simp add: fd_lookup_def)
next
  case (made r fd w path)
  from sys_open_spec [OF made(6)] made(7)
  have "fd_lookup (aos s) fd = None" "\<forall>k. k \<noteq> fd \<longrightarrow> fd_lookup w k = fd_lookup (aos s) k" by auto
  then show ?thesis unfolding made(8)
    using sys_close_lookup [OF surjective_pairing, of fd w k] by (cases "k = fd") auto
qed auto

lemma acheck_others:
  assumes "aio_check_request_valid p s = Inr (RET_OK, s')" "aget p s = Inr r"
  shows "aget p s' = Inr (r\<lparr>ar_isValid := True\<rparr>) \<and> (\<forall>q. q \<noteq> p \<longrightarrow> aget q s' = aget q s)"
  using assms(1)
proof (cases rule: acheck_cases)
  case (valid r')
  with assms(2) have "r\<lparr>ar_isValid := True\<rparr> = r" by simp
  with valid assms(2) show ?thesis by simp
next
  case (made r' fd w path)
  with assms(2) show ?thesis by (auto simp: aget_put)
qed auto

lemma aio_setup_spec:
  assumes st: "aio_request_setup ci fd r w = (r', w')"
  shows "ar_fd r' = fd \<and> ar_buf r' = Null \<and> \<not> ar_isAlloced r' \<and> ar_status r' = REQUEST_STAT_INIT \<and>
         ar_isValid r' = ar_isValid r \<and> ar_info r' = ar_info r \<and> aio_fildes (ar_cb r') = fd \<and>
         aio_nbytes (ar_cb r') = unat (req_size ci) \<and>
         (fd_lookup w fd = None \<longrightarrow> aio_offset (ar_cb r') = - 1 \<and> w' = w) \<and>
         (\<forall>d. fd_lookup w fd = Some d \<longrightarrow>
            aio_offset (ar_cb r') = int (o_pos d + unat (req_offset ci)) \<and>
            (\<forall>k. fd_lookup w' k = (if k = fd then Some (d\<lparr>o_pos := o_pos d + unat (req_offset ci)\<rparr>)
                                   else fd_lookup w k)))"
proof -
  obtain off w1 where l: "sys_lseek_cur fd (unat (req_offset ci)) w = (off, w1)" by fastforce
  with st have r': "r' = r\<lparr>ar_fd := fd, ar_buf := Null, ar_isAlloced := False,
      ar_status := REQUEST_STAT_INIT,
      ar_cb := (ar_cb r)\<lparr>aio_buf := Null, aio_fildes := fd, aio_nbytes := unat (req_size ci), aio_offset := off\<rparr>,
      ar_fsb := (case sys_fstat fd w1 of Some n \<Rightarrow> n | None \<Rightarrow> ar_fsb r),
      ar_lock := AioSyncReady, ar_isFinished := AioSyncReady\<rparr>" and w': "w' = w1"
    by (auto simp: aio_request_setup_def Let_def)
  have "fd_lookup w fd = None \<Longrightarrow> off = - 1 \<and> w1 = w" using l by (simp add: sys_lseek_cur_def)
  with r' w' show ?thesis by (auto dest: sys_lseek_cur_spec [OF l])
qed

text \<open>The second open, repeated, and the fields it leads to.\<close>

lemma aio_open_setup:
  assumes op: "retry_do (sys_open path (aio_open_mode ci)) (\<lambda>fd. fd = - 1) MAX_RETRY_TIMES 0 w = (fd, w2)"
    and st: "aio_request_setup ci fd v w2 = (r2, w3)"
  shows "fd = - 1 \<and> aio_offset (ar_cb r2) = - 1 \<and> (\<forall>k. fd_lookup w3 k = fd_lookup w k) \<or>
    0 \<le> fd \<and> fd_lookup w fd = None \<and> aio_offset (ar_cb r2) = int (unat (req_offset ci)) \<and>
    (\<forall>k. fd_lookup w3 k = (if k = fd
       then Some \<lparr>o_path = path, o_mode = aio_open_mode ci, o_pos = unat (req_offset ci)\<rparr>
       else fd_lookup w k))"
proof -
  have "fds w2 = fds w \<Longrightarrow> fd_lookup w2 k = fd_lookup w k" for k by (simp add: fd_lookup_def)
  then have "fd = - 1 \<and> (\<forall>k. fd_lookup w2 k = fd_lookup w k) \<or>
    0 \<le> fd \<and> fd_lookup w fd = None \<and> (\<forall>k. fd_lookup w2 k =
      (if k = fd then Some \<lparr>o_path = path, o_mode = aio_open_mode ci, o_pos = 0\<rparr> else fd_lookup w k))"
    using open_retry_spec [OF op] by (auto simp: opened_def)
  then show ?thesis
  proof (elim disjE conjE)
    assume "fd = - 1" "\<forall>k. fd_lookup w2 k = fd_lookup w k"
    moreover have "fd_lookup w2 (- 1) = None" by (simp add: fd_lookup_def)
    ultimately show ?thesis using aio_setup_spec [OF st] by simp
  next
    assume f: "0 \<le> fd" "fd_lookup w fd = None" and l: "\<forall>k. fd_lookup w2 k =
      (if k = fd then Some \<lparr>o_path = path, o_mode = aio_open_mode ci, o_pos = 0\<rparr> else fd_lookup w k)"
    then have "fd_lookup w2 fd = Some \<lparr>o_path = path, o_mode = aio_open_mode ci, o_pos = 0\<rparr>" by simp
    with aio_setup_spec [OF st] f l show ?thesis by simp
  qed
qed

text \<open>
  C34: a successful \<open>aio_get_request\<close> returns a fresh request in state \<open>INIT\<close>, marked valid, with no
  buffer, that carries a copy of the description, and leaves every other request alone. Its
  descriptor is a new one for the named file with the access the direction needs, at the requested
  offset; or it is -1: when the file could be opened for the check but not again, no error is
  reported.
\<close>
theorem aio_get_request_success:
  assumes g: "aio_get_request ci s = Inr (RET_OK, p, s')"
  shows "\<exists>path r. p = Addr (brk (aos s)) \<and> aget p s' = Inr r \<and> cstr (fn ci) = Some path \<and>
           ar_status r = REQUEST_STAT_INIT \<and> ar_isValid r \<and> \<not> ar_isAlloced r \<and> ar_buf r = Null \<and>
           ar_info r = aio_copied_info ci \<and> aio_nbytes (ar_cb r) = unat (req_size ci) \<and>
           aio_fildes (ar_cb r) = ar_fd r \<and> (\<forall>q. q \<noteq> p \<longrightarrow> aget q s' = aget q s) \<and>
           (ar_fd r = - 1 \<and> aio_offset (ar_cb r) = - 1 \<and>
              (\<forall>k. fd_lookup (aos s') k = fd_lookup (aos s) k) \<or>
            0 \<le> ar_fd r \<and> fd_lookup (aos s) (ar_fd r) = None \<and>
              aio_offset (ar_cb r) = int (unat (req_offset ci)) \<and>
              (\<forall>k. fd_lookup (aos s') k =
                 (if k = ar_fd r
                  then Some \<lparr>o_path = path, o_mode = aio_open_mode ci, o_pos = unat (req_offset ci)\<rparr>
                  else fd_lookup (aos s) k)))"
proof -
  obtain q w1 where n: "c_new (aos s) = (q, w1)" by fastforce
  with g have q: "q \<noteq> Null" by (auto simp: aio_get_request_def split: if_splits)
  with n have qa: "q = Addr (brk (aos s))" by (auto elim: c_new_cases)
  let ?r = "zero_aio_request\<lparr>ar_info := aio_copied_info ci\<rparr>"
  let ?s1 = "aput q ?r (s\<lparr>aos := w1\<rparr>)"
  from g n q obtain res s2 where c: "aio_check_request_valid q ?s1 = Inr (res, s2)"
    by (auto simp: aio_get_request_def)
  with g n q have res: "res = RET_OK" by (auto simp: aio_get_request_def split: if_splits)
  note c = c [unfolded res]
  have g1: "aget q ?s1 = Inr ?r" by (simp add: qa aget_def aput_def)
  note o = acheck_others [OF c g1]
  from g n q c o obtain path where path: "cstr (fn ci) = Some path"
    by (auto simp: aio_get_request_def file_name_def split: option.splits)
  obtain fd w2 where op: "retry_do (sys_open path (aio_open_mode ci)) (\<lambda>fd. fd = - 1)
      MAX_RETRY_TIMES 0 (aos s2) = (fd, w2)" by fastforce
  let ?v = "?r\<lparr>ar_isValid := True\<rparr>"
  obtain r2 w3 where st: "aio_request_setup ci fd ?v w2 = (r2, w3)" by fastforce
  from g n q c o path op st have s': "s' = aput q r2 (s2\<lparr>aos := w3\<rparr>)" "p = q"
    by (auto simp: aio_get_request_def file_name_def retry_for_eq_do Let_def)
  have "fd_lookup (aos ?s1) k = fd_lookup (aos s) k" for k
    using c_new_frame [OF n] by (simp add: fd_lookup_def)
  with acheck_descriptors [OF c] have look: "fd_lookup (aos s2) k = fd_lookup (aos s) k" for k by simp
  have get: "aget p s' = Inr r2" "\<forall>q. q \<noteq> p \<longrightarrow> aget q s' = aget q s"
    using o qa by (auto simp: s' aget_put) (auto simp: aget_def aput_def deref_def split: ptr.splits)
  note sp = aio_setup_spec [OF st] and fd = aio_open_setup [OF op st, unfolded look]
  from sp fd get path qa show ?thesis
    by (intro exI [of _ path] exI [of _ r2] conjI) (simp_all add: s')
qed

text \<open>The second open and its two repetitions fail: the request has the descriptor -1.\<close>

theorem aio_get_request_success_witness:
  "\<exists>p s' r. aio_get_request read_info (g_aioFileAccessor (world0 [2, 3, 4] ''in'' [7, 8, 9])) =
     Inr (RET_OK, p, s') \<and> aget p s' = Inr r \<and> ar_isValid r \<and> ar_fd r = - 1"
  (is "\<exists>p s' r. ?g = _ \<and> _")
proof -
  have "case ?g of Inr (r, p, s') \<Rightarrow> r = RET_OK \<and> (case aget p s' of Inr q \<Rightarrow> ar_fd q = - 1 | _ \<Rightarrow> False)
        | Inl f \<Rightarrow> False" by code_simp
  then obtain p s' where g: "?g = Inr (RET_OK, p, s')"
    and fd: "case aget p s' of Inr q \<Rightarrow> ar_fd q = - 1 | _ \<Rightarrow> False"
    by (auto split: sum.splits prod.splits)
  from aio_get_request_success [OF g] g fd show ?thesis by auto
qed

section \<open>\<open>aio_put_request\<close>\<close>

lemma free_buffer_result:
  assumes "aget p s = Inr r" "aio_free_buffer p s = Inr s'"
  shows "\<exists>w. c_free (aio_buf (ar_cb r)) (aos s) = Inr w \<and>
           s' = aput p (r\<lparr>ar_buf := Null, ar_cb := (ar_cb r)\<lparr>aio_buf := Null\<rparr>\<rparr>) (s\<lparr>aos := w\<rparr>)"
  using assms by (auto simp: aio_free_buffer_def)

lemma put_submit_result:
  assumes r: "aget p s = Inr r" and c: "aio_put_submit p s = Inr (res, s')"
  shows "req_list s' = req_list s \<and> req_count s' = req_count s \<and> parrs (aos s') = parrs (aos s) \<and>
         (\<exists>r'. aget p s' = Inr r') \<and>
         (res = RET_OK \<and> aops s' (aio_addr p) =
            Some \<lparr>op_write = (ASYNC_FILE_ACCESS_WRITE = direction (ar_info r)),
                  op_progress = InProgress, op_notify = False\<rparr> \<or>
          res = - 1 \<and> (\<forall>x. aops s' (aio_addr p) = Some x \<longrightarrow> aops s (aio_addr p) = Some x \<and> op_progress x = InProgress))"
proof -
  let ?r = "r\<lparr>ar_cb := (ar_cb r)\<lparr>aio_sival := p\<rparr>\<rparr>"
  let ?s1 = "aput p ?r s"
  obtain res2 s2 where su: "sys_aio_submit (ASYNC_FILE_ACCESS_WRITE = direction (ar_info r)) p ?s1 = (res2, s2)"
    by fastforce
  have g2: "aget p s2 = Inr ?r" using su r
    by (auto simp: sys_aio_submit_def ask_def Let_def aget_put split: if_splits)
  from c r su have "res = res2"
    and s': "s' = s2 \<or> res \<noteq> RET_OK \<and> aio_free_buffer p s2 = Inr s'"
    by (auto simp: aio_put_submit_def split: if_splits)
  moreover from s' g2 free_buffer_result [OF g2, of s']
  have "aops s' = aops s2 \<and> req_list s' = req_list s2 \<and> req_count s' = req_count s2 \<and>
      parrs (aos s') = parrs (aos s2) \<and> (\<exists>r'. aget p s' = Inr r')"
    by (auto simp: aget_put dest!: free_parrs)
  moreover from su have "req_list s2 = req_list s \<and> req_count s2 = req_count s \<and> parrs (aos s2) = parrs (aos s) \<and>
      (res2 = RET_OK \<and> aops s2 (aio_addr p) =
            Some \<lparr>op_write = (ASYNC_FILE_ACCESS_WRITE = direction (ar_info r)),
                  op_progress = InProgress, op_notify = False\<rparr> \<or>
       res2 = - 1 \<and> (\<forall>x. aops s2 (aio_addr p) = Some x \<longrightarrow> aops s (aio_addr p) = Some x \<and> op_progress x = InProgress))"
    by (auto simp: sys_aio_submit_def ask_def Let_def RET_OK_def split: if_splits option.splits)
  ultimately show ?thesis by auto
qed

lemma arr_get_set: "arr_set q i x w = Inr w' \<Longrightarrow> arr_get q j w' = (if j = i then Inr x else arr_get q j w)"
  by (auto simp: arr_set_def arr_get_def simp del: and_then_Inr_iff split: ptr.splits option.splits if_splits)

lemma grow_list_results:
  "aio_grow_list s = Inr (res, s') \<Longrightarrow> res = RET_OK \<or> res = RET_NO_MEMORY"
  by (auto simp: aio_grow_list_def split: if_splits)

text \<open>The list that could not grow is as before, unless its new size has wrapped to 0 and \<open>realloc\<close> frees it.\<close>

lemma grow_list_refused:
  assumes "aio_grow_list s = Inr (RET_NO_MEMORY, s')"
  shows "req_list s' = req_list s \<and>
         (8 \<le> unat (new_list_bufsize (req_count s)) \<longrightarrow>
            (\<forall>i. arr_get (req_list s') i (aos s') = arr_get (req_list s) i (aos s)))"
  using assms
  by (auto simp: aio_grow_list_def c_realloc_arr_def c_malloc_arr_def ask_def arr_get_def Let_def RET_OK_def
      RET_NO_MEMORY_def split: if_splits ptr.splits option.splits)

lemma list_request_result:
  assumes "aio_list_request p s = Inr (res, s')"
  shows "areqs s' = areqs s \<and> aops s' = aops s \<and>
         (res = RET_OK \<and> req_count s' = req_count s + 1 \<and>
            arr_get (req_list s') (unat (req_count s)) (aos s') = Inr p \<or>
          res = RET_NO_MEMORY \<and> req_count s' = req_count s \<and> req_list s' = req_list s \<and>
            (8 \<le> unat (new_list_bufsize (req_count s)) \<longrightarrow>
               (\<forall>i. arr_get (req_list s') i (aos s') = arr_get (req_list s) i (aos s))))"
proof -
  from assms obtain res1 s1 where g: "aio_grow_list s = Inr (res1, s1)"
    by (auto simp: aio_list_request_def)
  show ?thesis
  proof (cases "res1 = RET_OK")
    case True
    with assms g grow_list_frame [OF g] show ?thesis by (auto simp: aio_list_request_def arr_get_set)
  next
    case False
    with grow_list_results [OF g] have n: "res1 = RET_NO_MEMORY" by simp
    from False assms g have "res = res1" "s' = s1" by (simp_all add: aio_list_request_def)
    with n grow_list_frame [OF g] grow_list_refused [of s s1] g show ?thesis by auto
  qed
qed

text \<open>
  C35: the outcomes of \<open>aio_put_request\<close>: \<open>RET_OK\<close> with the operation in progress and the request at the
  end of the list; \<open>RET_NO_MEMORY\<close> with the operation in progress and the list as it was, in length and entries
  (but for a new size that wraps below one entry, where \<open>realloc\<close> frees the old array), so that this call has put the
  request on no list; -1 where the system refused it, the list as it was. In all three the request is
  \<open>SUBMITTED\<close>, also where it was refused.
\<close>
theorem aio_put_request_outcomes:
  assumes r: "aget p s = Inr r" "ar_isValid r" and c: "aio_put_request p s = Inr (res, s')"
  shows "(\<exists>r'. aget p s' = Inr r' \<and> ar_status r' = REQUEST_STAT_SUBMITTED) \<and>
         (res = RET_OK \<and> (\<exists>x. aops s' (aio_addr p) = Some x \<and> op_progress x = InProgress) \<and>
            req_count s' = req_count s + 1 \<and>
            arr_get (req_list s') (unat (req_count s)) (aos s') = Inr p \<or>
          res = RET_NO_MEMORY \<and> (\<exists>x. aops s' (aio_addr p) = Some x \<and> op_progress x = InProgress) \<and>
            req_count s' = req_count s \<and> req_list s' = req_list s \<and>
            (8 \<le> unat (new_list_bufsize (req_count s)) \<longrightarrow>
               (\<forall>i. arr_get (req_list s') i (aos s') = arr_get (req_list s) i (aos s))) \<or>
          res = - 1 \<and> req_count s' = req_count s \<and> req_list s' = req_list s \<and>
            (\<forall>i. arr_get (req_list s') i (aos s') = arr_get (req_list s) i (aos s)) \<and>
            (\<forall>x. aops s' (aio_addr p) = Some x \<longrightarrow> aops s (aio_addr p) = Some x \<and> op_progress x = InProgress))"
proof -
  from c r obtain res1 s1 where p: "aio_put_submit p s = Inr (res1, s1)"
    and f: "aio_put_finish p res1 s1 = Inr (res, s')"
    by (auto simp: aio_put_request_def acheck_valid)
  note sub = put_submit_result [OF r(1) p]
  then obtain r1 where r1: "aget p s1 = Inr r1" by blast
  let ?s2 = "aput p (r1\<lparr>ar_status := REQUEST_STAT_SUBMITTED\<rparr>) s1"
  have g2: "aget p ?s2 = Inr (r1\<lparr>ar_status := REQUEST_STAT_SUBMITTED\<rparr>)" using r1 by (simp add: aget_put)
  show ?thesis
  proof (cases "res1 = RET_OK")
    case True
    with f r1 have l: "aio_list_request p ?s2 = Inr (res, s')"
      by (simp add: aio_put_finish_def aio_put_mark_def)
    have fr: "req_list ?s2 = req_list s" "req_count ?s2 = req_count s" "aops ?s2 = aops s1"
      "arr_get q i (aos ?s2) = arr_get q i (aos s)" for q i
      using sub by (simp_all add: arr_get_def)
    note l' = list_request_result [OF l, unfolded fr]
    then have "aget p s' = aget p ?s2" by (simp add: aget_def)
    with l' sub True g2 show ?thesis by (auto simp: RET_OK_def)
  next
    case False
    with f r1 have "res = res1" "s' = ?s2" by (simp_all add: aio_put_finish_def aio_put_mark_def)
    with sub False g2 show ?thesis by (auto simp: arr_get_def)
  qed
qed

theorem aio_put_request_outcomes_witness:
  "arr_get (req_list (aio_submitted False)) 0 (aos (aio_submitted False)) = Inr (Addr 1) \<and>
   req_count (aio_submitted False) = 1"
proof -
  let ?r = "aio_demo_request (Addr 2) Null REQUEST_STAT_INIT"
  have r: "aget (Addr 1) (aio_prepared False) = Inr ?r" "ar_isValid ?r"
    by (simp_all add: aget_def aio_prepared_def aio_demo_request_def)
  from aio_put_request_outcomes [OF r aio_demo_put] show ?thesis
    by (auto simp: aio_prepared_def RET_OK_def RET_NO_MEMORY_def)
qed

section \<open>\<open>aio_wait_request\<close>\<close>

lemma transfer_errors: "aio_transfer wr cb w = Inr (e, w') \<Longrightarrow> e \<noteq> EINPROGRESS"
  by (auto simp: aio_transfer_def ask_def Let_def aio_numbers split: option.splits if_splits)

lemma suspend_done: "sys_aio_error p s \<noteq> EINPROGRESS \<Longrightarrow> aio_suspend p t sch s = Some (Inr (0, s))"
  by (simp add: aio_suspend.simps [of p t sch])

lemma suspend_step:
  "sys_aio_error p s = EINPROGRESS \<Longrightarrow> aio_suspend p t (e # es) s =
     (if e = AEvExpire \<and> t \<noteq> None then Some (Inr (- 1, s))
      else (case aio_exec e s of
              None \<Rightarrow> aio_suspend p t es s
            | Some (Inl f) \<Rightarrow> Some (Inl f)
            | Some (Inr s') \<Rightarrow> aio_suspend p t es s'))"
  by (simp add: aio_suspend.simps [of p t "e # es"])

lemma aio_wait_submitted:
  assumes "aget p s = Inr r" "ar_isValid r" "ar_status r = REQUEST_STAT_SUBMITTED"
  shows "aio_wait_request p t sch s =
           map_option (\<lambda>m. and_then m (\<lambda>(res', s2). Inr (if res' = RET_OK then sys_aio_error p s2 else res', s2)))
             (aio_suspend p (if 0 < t then Some (timespec_of_ms t) else None) sch s)"
  using assms acheck_valid [OF assms(1,2)]
  by (simp add: aio_wait_request_def stat_range)

text \<open>
  \<open>aio_wait_request\<close> by the state of a valid request: one that was never submitted or is
  cancelled cannot be waited for; a settled one gives \<open>RET_OK\<close> at once; for a submitted one the answer
  is the operation's error number, so that a failure is reported as a positive number; an expired
  timer gives -1, and with a timeout of 0 the timer never ends the wait.
\<close>
theorem aio_wait_request_results:
  assumes r: "aget p s = Inr r" "ar_isValid r"
  shows "(ar_status r \<in> {REQUEST_STAT_INIT, REQUEST_STAT_CANCEL, REQUEST_STAT_MAX} \<longrightarrow>
            aio_wait_request p t sch s = Some (Inr (RET_INVALID_OPERATION, s))) \<and>
         (ar_status r \<in> {REQUEST_STAT_IOSUCCESS, REQUEST_STAT_IOFAIL} \<longrightarrow>
            aio_wait_request p t sch s = Some (Inr (RET_OK, s))) \<and>
         (ar_status r = REQUEST_STAT_SUBMITTED \<and> sys_aio_error p s \<noteq> EINPROGRESS \<longrightarrow>
            aio_wait_request p t sch s = Some (Inr (sys_aio_error p s, s))) \<and>
         (ar_status r = REQUEST_STAT_SUBMITTED \<and> sys_aio_error p s = EINPROGRESS \<longrightarrow>
            (0 < t \<longrightarrow> aio_wait_request p t (AEvExpire # sch) s = Some (Inr (- 1, s))) \<and>
            aio_wait_request p 0 (AEvExpire # sch) s = aio_wait_request p 0 sch s \<and>
            (\<forall>a s1. aio_complete a s = Some (Inr s1) \<and> p = Addr a \<longrightarrow>
               aio_wait_request p t (AEvComplete a # sch) s = Some (Inr (sys_aio_error p s1, s1))))"
proof (intro conjI impI allI)
  assume "ar_status r \<in> {REQUEST_STAT_INIT, REQUEST_STAT_CANCEL, REQUEST_STAT_MAX}"
  then show "aio_wait_request p t sch s = Some (Inr (RET_INVALID_OPERATION, s))"
    using r acheck_valid [OF r] by (auto simp: aio_wait_request_def stat_range)
next
  assume "ar_status r \<in> {REQUEST_STAT_IOSUCCESS, REQUEST_STAT_IOFAIL}"
  then show "aio_wait_request p t sch s = Some (Inr (RET_OK, s))"
    using r acheck_valid [OF r] by (auto simp: aio_wait_request_def stat_range)
next
  assume "ar_status r = REQUEST_STAT_SUBMITTED \<and> sys_aio_error p s \<noteq> EINPROGRESS"
  then show "aio_wait_request p t sch s = Some (Inr (sys_aio_error p s, s))"
    using aio_wait_submitted [OF r] by (simp add: suspend_done RET_OK_def)
next
  assume st: "ar_status r = REQUEST_STAT_SUBMITTED \<and> sys_aio_error p s = EINPROGRESS" and "0 < t"
  then show "aio_wait_request p t (AEvExpire # sch) s = Some (Inr (- 1, s))"
    using aio_wait_submitted [OF r] by (simp add: suspend_step RET_OK_def)
next
  assume st: "ar_status r = REQUEST_STAT_SUBMITTED \<and> sys_aio_error p s = EINPROGRESS"
  then show "aio_wait_request p 0 (AEvExpire # sch) s = aio_wait_request p 0 sch s"
    using aio_wait_submitted [OF r] by (simp add: suspend_step)
next
  fix a s1
  assume st: "ar_status r = REQUEST_STAT_SUBMITTED \<and> sys_aio_error p s = EINPROGRESS"
    and c: "aio_complete a s = Some (Inr s1) \<and> p = Addr a"
  then obtain e where "sys_aio_error p s1 = e" and e: "e \<noteq> EINPROGRESS"
    using transfer_errors by (fastforce simp: aio_complete_def sys_aio_error_def split: option.splits if_splits)
  with st c show "aio_wait_request p t (AEvComplete a # sch) s = Some (Inr (sys_aio_error p s1, s1))"
    using aio_wait_submitted [OF r] by (simp add: suspend_step suspend_done RET_OK_def)
qed

theorem aio_wait_request_results_witness:
  "aio_wait_request (Addr 1) 5 [AEvExpire] (aio_submitted True) = Some (Inr (- 1, aio_submitted True)) \<and>
   aio_wait_request (Addr 1) 5 [AEvComplete 1] (aio_submitted True) = Some (Inr (EIO, aio_ended True True))"
proof -
  let ?r = "aio_demo_request (Addr 2) (Addr 1) REQUEST_STAT_SUBMITTED"
  have r: "aget (Addr 1) (aio_submitted True) = Inr ?r" "ar_isValid ?r"
    and st: "ar_status ?r = REQUEST_STAT_SUBMITTED"
    by (simp_all add: aget_def aio_submitted_def aio_demo_request_def)
  have e: "sys_aio_error (Addr 1) (aio_submitted True) = EINPROGRESS"
    "sys_aio_error (Addr 1) (aio_ended True True) = EIO"
    by (simp_all add: sys_aio_error_def aio_submitted_def aio_ended_def)
  have c: "aio_complete 1 (aio_submitted True) = Some (Inr (aio_ended True True))"
    using aio_demo_complete [of True] by simp
  from aio_wait_request_results [OF r, of 5 "[]"] st e c show ?thesis by simp
qed

section \<open>Cancelling\<close>

lemma transfer_fds: "aio_transfer wr cb w = Inr (e, w') \<Longrightarrow> fds w' = fds w"
  by (auto simp: aio_transfer_def ask_def Let_def dest!: mem_store_frame split: option.splits if_splits)

lemma cancel_refused:
  assumes r: "aget p s = Inr r" "ar_isValid r" "ar_status r = REQUEST_STAT_SUBMITTED" "\<not> ar_isAlloced r"
    and fd: "aio_fildes (ar_cb r) = ar_fd r" "fd_lookup (aos s) (ar_fd r) \<noteq> None"
    and x: "aops s (aio_addr p) = Some x" "op_progress x = InProgress"
    and bad: "refuse (aos s) (calls (aos s))"
  shows "aio_cancel_request p s = Inr (AIO_NOTCANCELED,
           aput p (r\<lparr>ar_status := REQUEST_STAT_CANCEL\<rparr>) (s\<lparr>aos := (aos s)\<lparr>calls := Suc (calls (aos s))\<rparr>\<rparr>))"
proof -
  have "sys_aio_cancel (ar_fd r) p (ar_cb r) s =
      (AIO_NOTCANCELED, s\<lparr>aos := (aos s)\<lparr>calls := Suc (calls (aos s))\<rparr>\<rparr>)"
    using fd x bad by (auto simp: sys_aio_cancel_def ask_def)
  with r acheck_valid [OF r(1,2)] show ?thesis by (simp add: aio_cancel_request_def stat_range)
qed

text \<open>
  C36: cancelling may come to nothing: when the system does not cancel the operation of a request with
  an imported buffer, \<open>aio_cancel_request\<close> marks the request \<open>CANCEL\<close> and returns the system's 1; once
  the transfer succeeds all the same, the notification turns the request into \<open>IOSUCCESS\<close>.
\<close>
theorem aio_cancel_is_overridden:
  assumes r: "areqs s a = Some r" "ar_isValid r" "ar_status r = REQUEST_STAT_SUBMITTED" "\<not> ar_isAlloced r"
      "aio_sival (ar_cb r) = Addr a"
    and fd: "aio_fildes (ar_cb r) = ar_fd r" "fd_lookup (aos s) (ar_fd r) \<noteq> None"
    and x: "aops s a = Some x" "op_progress x = InProgress"
    and bad: "refuse (aos s) (calls (aos s))"
    and t: "aio_transfer (op_write x) (ar_cb r) ((aos s)\<lparr>calls := Suc (calls (aos s))\<rparr>) = Inr (0, w)"
  shows "\<exists>s1 s2 s3 r1 r3. aio_cancel_request (Addr a) s = Inr (AIO_NOTCANCELED, s1) \<and>
           areqs s1 a = Some r1 \<and> ar_status r1 = REQUEST_STAT_CANCEL \<and>
           aio_complete a s1 = Some (Inr s2) \<and> aio_notify aio_callback a s2 = Some (Inr s3) \<and>
           areqs s3 a = Some r3 \<and> ar_status r3 = REQUEST_STAT_IOSUCCESS"
proof -
  let ?r = "r\<lparr>ar_status := REQUEST_STAT_CANCEL\<rparr>"
  let ?s1 = "aput (Addr a) ?r (s\<lparr>aos := (aos s)\<lparr>calls := Suc (calls (aos s))\<rparr>\<rparr>)"
  have g: "aget (Addr a) s = Inr r" using r(1) by (simp add: aget_Inr_iff)
  have c: "aio_cancel_request (Addr a) s = Inr (AIO_NOTCANCELED, ?s1)"
    by (rule cancel_refused [OF g r(2-4) fd _ x(2) bad]) (simp add: x(1))
  have x1: "aops ?s1 a = Some x" and r1: "areqs ?s1 a = Some ?r" using x(1) by (simp_all add: aput_def)
  have t1: "aio_transfer (op_write x) (ar_cb ?r) (aos ?s1) = Inr (0, w)" using t by simp
  have f1: "fds w = fds (aos ?s1)" using transfer_fds [OF t1] .
  from completed [OF x1 x(2) r1 _ t1 f1] r(4,5) obtain s2 s3 r3 where
    "aio_complete a ?s1 = Some (Inr s2)" "aio_notify aio_callback a s2 = Some (Inr s3)"
    "areqs s3 a = Some r3" "ar_status r3 = REQUEST_STAT_IOSUCCESS" by auto
  with c r1 show ?thesis by fastforce
qed

theorem aio_cancel_is_overridden_witness:
  "\<exists>s1 s2 s3 r3. aio_cancel_request (Addr 1) (aio_submitted True) = Inr (AIO_NOTCANCELED, s1) \<and>
     aio_complete 1 s1 = Some (Inr s2) \<and> aio_notify aio_callback 1 s2 = Some (Inr s3) \<and>
     areqs s3 1 = Some r3 \<and> ar_status r3 = REQUEST_STAT_IOSUCCESS"
proof -
  let ?s = "aio_submitted True"
  let ?r = "aio_demo_request (Addr 2) (Addr 1) REQUEST_STAT_SUBMITTED"
  let ?d = "\<lparr>o_path = ''in'', o_mode = Rdonly, o_pos = 0\<rparr>"
  let ?x = "\<lparr>op_write = False, op_progress = InProgress, op_notify = False\<rparr>"
  let ?w = "(aos ?s)\<lparr>calls := Suc (calls (aos ?s))\<rparr>"
  have r: "areqs ?s 1 = Some ?r" "ar_isValid ?r" "ar_status ?r = REQUEST_STAT_SUBMITTED"
    "\<not> ar_isAlloced ?r" "aio_sival (ar_cb ?r) = Addr 1" "aio_fildes (ar_cb ?r) = ar_fd ?r"
    by (simp_all add: aio_submitted_def aio_demo_request_def)
  have fd: "fd_lookup (aos ?s) (ar_fd ?r) \<noteq> None"
    by (simp add: fd_lookup_def fd_at_def aio_submitted_def aio_demo_os_def aio_demo_request_def)
  have x: "aops ?s 1 = Some ?x" and bad: "refuse (aos ?s) (calls (aos ?s))"
    and b: "heap ?w 2 = Some [0, 0, 0]"
    by (simp_all add: aio_submitted_def aio_demo_os_def)
  have t: "transfer_ready ?r ?w ?d demo_file"
    by (simp add: transfer_ready_def aio_submitted_def aio_demo_os_def aio_demo_request_def
        fd_lookup_def fd_at_def)
  have "\<exists>w. aio_transfer False (ar_cb ?r) ?w = Inr (0, w)"
    using read_transfer [OF t _ _ b] by (auto simp: aio_demo_request_def can_read_def)
  then obtain w where tr: "aio_transfer (op_write ?x) (ar_cb ?r) ?w = Inr (0, w)" by auto
  have p: "op_progress ?x = InProgress" by simp
  from aio_cancel_is_overridden [OF r fd x p bad tr] show ?thesis by blast
qed

end
