(* ===== verification/Aio_Release.thy ===== *)
theory Aio_Release
  imports Aio_Demo
begin

text \<open>
  \<open>aio_release_all_resources\<close>: what is left of the accessor once it returned, and what the operations
  that may still follow do then.
\<close>

section \<open>One round, and the loop\<close>

definition entry :: "nat \<Rightarrow> aio_sys \<Rightarrow> fault + ptr" where
  "entry i s = arr_get (req_list s) i (aos s)"

text \<open>What a round of the loop for entry \<open>i\<close> does to the list and to the requests.\<close>

definition released :: "nat set \<Rightarrow> aio_sys \<Rightarrow> aio_sys \<Rightarrow> bool" where
  "released I s s' \<longleftrightarrow>
     req_list s' = req_list s \<and> req_count s' = req_count s \<and>
     (\<forall>j. entry j s' = (if j \<in> I then Inr Null else entry j s)) \<and>
     (\<forall>j \<in> I. \<forall>a. entry j s = Inr (Addr a) \<longrightarrow> areqs s' a = None) \<and>
     (\<forall>a. areqs s a = None \<longrightarrow> areqs s' a = None)"

lemma released_none: "released {} s s"
  by (simp add: released_def)

lemma released_step:
  assumes "released {i} s t" "released I t u" "i \<notin> I"
  shows "released (insert i I) s u"
  unfolding released_def
proof (intro conjI allI ballI impI)
  fix j show "entry j u = (if j \<in> insert i I then Inr Null else entry j s)"
    using assms by (auto simp: released_def)
next
  fix j a assume "j \<in> insert i I" "entry j s = Inr (Addr a)"
  with assms show "areqs u a = None" by (cases "j = i") (auto simp: released_def)
qed (use assms in \<open>auto simp: released_def\<close>)

lemma arr_get_parrs: "parrs w' = parrs w \<Longrightarrow> arr_get q i w' = arr_get q i w"
  by (simp add: arr_get_def)

lemma arr_set_get: "arr_set q i x w = Inr w' \<Longrightarrow> arr_get q j w' = (if j = i then Inr x else arr_get q j w)"
  by (auto simp: arr_set_def arr_get_def simp del: and_then_Inr_iff split: ptr.splits option.splits if_splits)

lemma cancel_call_frame:
  "areqs (snd (sys_aio_cancel fd p cb s)) = areqs s \<and>
   req_list (snd (sys_aio_cancel fd p cb s)) = req_list s \<and>
   req_count (snd (sys_aio_cancel fd p cb s)) = req_count s \<and>
   parrs (aos (snd (sys_aio_cancel fd p cb s))) = parrs (aos s)"
  by (auto simp: sys_aio_cancel_def ask_def Let_def split: option.splits aio_progress.splits)

lemma release_one_released:
  assumes c: "aio_release_one i s = Inr s'"
  shows "released {i} s s'"
proof -
  from c obtain p where p: "entry i s = Inr p" by (auto simp: aio_release_one_def entry_def)
  show ?thesis
  proof (cases "p = Null")
    case True
    with c p have "s' = s" by (simp add: aio_release_one_def entry_def)
    with p True show ?thesis by (auto simp: released_def)
  next
    case False
    from c p False obtain r where r: "aget p s = Inr r" by (auto simp: aio_release_one_def entry_def)
    let ?s1 = "if ar_status r = REQUEST_STAT_SUBMITTED then snd (sys_aio_cancel (ar_fd r) p (ar_cb r) s) else s"
    let ?w1 = "if aio_fildes (ar_cb r) \<noteq> - 1 then snd (sys_close (aio_fildes (ar_cb r)) (aos ?s1)) else aos ?s1"
    from c p False r obtain w2 w3 where
      f: "(if ar_isAlloced r \<and> ar_buf r \<noteq> Null then c_free (ar_buf r) ?w1 else Inr ?w1) = Inr w2"
      and a: "arr_set (req_list s) i Null w2 = Inr w3"
      and s': "s' = ?s1\<lparr>aos := w3, areqs := (areqs ?s1)(aio_addr p := None)\<rparr>"
      by (auto simp: aio_release_one_def entry_def Let_def)
    have "parrs ?w1 = parrs (aos s)"
      using cancel_call_frame sys_close_frame [OF surjective_pairing] by simp
    moreover have "parrs w2 = parrs ?w1" using f
      by (auto simp: c_free_def split: if_splits ptr.splits option.splits)
    ultimately have "parrs w2 = parrs (aos s)" by simp
    then have "arr_get q j w2 = arr_get q j (aos s)" for q j by (rule arr_get_parrs)
    with arr_set_get [OF a] p r show ?thesis
      by (auto simp: released_def s' entry_def cancel_call_frame aget_Inr_iff)
  qed
qed

lemma release_loop_released:
  "distinct is \<Longrightarrow> aio_release_loop is s = Inr s' \<Longrightarrow> released (set is) s s'"
proof (induction "is" arbitrary: s)
  case (Cons i "is")
  then obtain t where t: "aio_release_one i s = Inr t" "aio_release_loop is t = Inr s'" by auto
  from Cons.prems Cons.IH [OF _ t(2)] release_one_released [OF t(1)] show ?case
    by (simp add: released_step)
qed (simp add: released_none)

lemma aio_demo_release:
  "\<exists>s' x. aio_release_all_resources (aio_submitted True) = Inr (RET_OK, s') \<and>
     aops s' 1 = Some x \<and> op_progress x = InProgress"
proof -
  let ?s = "aio_submitted True"
  let ?r = "aio_demo_request (Addr 2) (Addr 1) REQUEST_STAT_SUBMITTED"
  have e: "arr_get (req_list ?s) 0 (aos ?s) = Inr (Addr 1)"
    by (simp add: arr_get_def aio_submitted_def aio_demo_list_def)
  have r: "aget (Addr 1) ?s = Inr ?r" by (simp add: aget_def aio_submitted_def)
  have c: "snd (sys_aio_cancel (ar_fd ?r) (Addr 1) (ar_cb ?r) ?s) = ?s\<lparr>aos := (aos ?s)\<lparr>calls := 7\<rparr>\<rparr>"
    by (simp add: sys_aio_cancel_def ask_def aio_submitted_def aio_demo_os_def aio_demo_request_def
        fd_lookup_def fd_at_def)
  have st: "ar_status ?r = REQUEST_STAT_SUBMITTED" "\<not> ar_isAlloced ?r" "aio_fildes (ar_cb ?r) = 3"
    by (simp_all add: aio_demo_request_def)
  have "\<exists>w. arr_set (req_list ?s) 0 Null (snd (sys_close 3 ((aos ?s)\<lparr>calls := 7\<rparr>))) = Inr w"
    by (simp add: arr_set_def aio_submitted_def aio_demo_os_def aio_demo_list_def sys_close_def
        fd_lookup_def fd_at_def)
  then obtain w where w: "arr_set (req_list ?s) 0 Null (snd (sys_close 3 ((aos ?s)\<lparr>calls := 7\<rparr>))) = Inr w"
    by blast
  have "aio_release_one 0 ?s = Inr (?s\<lparr>aos := w, areqs := (areqs ?s)(1 := None)\<rparr>)"
    unfolding aio_release_one_def e r and_then_simps c using st w by simp
  then have "aio_release_all_resources ?s = Inr (RET_OK, ?s\<lparr>aos := w, areqs := (areqs ?s)(1 := None)\<rparr>)"
    by (simp add: aio_release_all_resources_def) (simp add: aio_submitted_def)
  then show ?thesis by (simp add: aio_submitted_def)
qed

section \<open>Afterwards\<close>

lemma cancel_null_entry: "entry i s = Inr Null \<Longrightarrow> aio_cancel_one i s = Inl NullDeref"
  by (simp add: aio_cancel_one_def entry_def aget_def)

lemma upt_first: "0 < n \<Longrightarrow> [0..<n] = 0 # [1..<n]"
  by (simp add: upt_conv_Cons)

lemma wait_all_null_entries:
  assumes "\<forall>j < unat (req_count s). entry j s = Inr Null"
  shows "aio_wait_all_loop i res sch s = Some (Inr (res, s))"
proof (induction "unat (req_count s) - i" arbitrary: i)
  case 0
  then show ?case by (simp add: aio_wait_all_loop.simps [of i])
next
  case (Suc n)
  then have i: "i < unat (req_count s)" "n = unat (req_count s) - Suc i" by auto
  with Suc(1) [OF i(2)] assms show ?case
    by (simp add: aio_wait_all_loop.simps [of i] entry_def)
qed

lemma release_null_entries:
  assumes "\<forall>j \<in> set is. entry j s = Inr Null"
  shows "aio_release_loop is s = Inr s"
  using assms by (induction "is") (auto simp: aio_release_one_def entry_def)

text \<open>
  C39: after \<open>aio_release_all_resources\<close>: every entry of the list is null and every listed request is
  freed, but the count stays. A second release and \<open>aio_wait_all_requests\<close> skip the entries and
  return \<open>RET_OK\<close>; \<open>aio_cancel_all_requests\<close> dereferences the first one.
\<close>
theorem aio_after_release:
  assumes ne: "req_list s \<noteq> Null" "req_count s \<noteq> 0"
    and rel: "aio_release_all_resources s = Inr (res, s')"
  shows "res = RET_OK \<and> req_count s' = req_count s \<and>
         (\<forall>i < unat (req_count s). arr_get (req_list s') i (aos s') = Inr Null) \<and>
         (\<forall>i a. i < unat (req_count s) \<and> arr_get (req_list s) i (aos s) = Inr (Addr a) \<longrightarrow> areqs s' a = None) \<and>
         aio_release_all_resources s' = Inr (RET_OK, s') \<and>
         aio_wait_all_requests sch s' = Some (Inr (RET_OK, s')) \<and>
         aio_cancel_all_requests s' = Inl NullDeref"
proof -
  let ?n = "unat (req_count s)"
  from rel ne have l: "aio_release_loop [0..<?n] s = Inr s'" and res: "res = RET_OK"
    by (auto simp: aio_release_all_resources_def)
  from release_loop_released [OF _ l] have r: "released {0..<?n} s s'" by simp
  then have same: "req_list s' = req_list s" "req_count s' = req_count s"
    and null: "\<forall>j < ?n. entry j s' = Inr Null"
    and freed: "\<forall>j < ?n. \<forall>a. entry j s = Inr (Addr a) \<longrightarrow> areqs s' a = None"
    by (auto simp: released_def)
  from ne(2) have n: "0 < ?n" by (simp add: unat_gt_0)
  have "aio_release_loop [0..<?n] s' = Inr s'" by (rule release_null_entries) (use null in simp)
  then have "aio_release_all_resources s' = Inr (RET_OK, s')"
    by (simp add: aio_release_all_resources_def same)
  moreover have "aio_wait_all_requests sch s' = Some (Inr (RET_OK, s'))"
    using wait_all_null_entries [of s'] null ne by (simp add: aio_wait_all_requests_def same)
  moreover have "aio_cancel_all_requests s' = Inl NullDeref"
    using cancel_null_entry [of 0 s'] null n ne
    by (simp add: aio_cancel_all_requests_def same upt_first [OF n])
  ultimately show ?thesis using null freed same res by (auto simp: entry_def)
qed

theorem aio_after_release_witness:
  "\<exists>s'. aio_release_all_resources (aio_submitted True) = Inr (RET_OK, s') \<and> areqs s' 1 = None \<and>
     aio_wait_all_requests [] s' = Some (Inr (RET_OK, s')) \<and>
     aio_cancel_all_requests s' = Inl NullDeref"
proof -
  have ne: "req_list (aio_submitted True) \<noteq> Null" "req_count (aio_submitted True) \<noteq> 0"
    by (simp_all add: aio_submitted_def)
  obtain s' where rel: "aio_release_all_resources (aio_submitted True) = Inr (RET_OK, s')"
    using aio_demo_release by blast
  have "arr_get (req_list (aio_submitted True)) 0 (aos (aio_submitted True)) = Inr (Addr 1)"
    "0 < unat (req_count (aio_submitted True))"
    by (simp_all add: arr_get_def aio_submitted_def aio_demo_list_def)
  with aio_after_release [OF ne rel, of "[]"] rel show ?thesis by blast
qed

text \<open>
  C37: releasing does not wait: an operation that was in progress, or whose notification was due, when
  its request was freed is carried out on freed memory: if the system or the notification gets to
  it, it uses the control block after the free.
\<close>
theorem aio_release_frees_too_early:
  assumes ne: "req_list s \<noteq> Null"
    and i: "i < unat (req_count s)" "arr_get (req_list s) i (aos s) = Inr (Addr a)"
    and rel: "aio_release_all_resources s = Inr (res, s')"
  shows "(\<forall>x. aops s' a = Some x \<and> op_progress x = InProgress \<longrightarrow>
            aio_complete a s' = Some (Inl UseAfterFree)) \<and>
         (\<forall>x. aops s' a = Some x \<and> op_notify x \<longrightarrow>
            aio_notify aio_callback a s' = Some (Inl UseAfterFree))"
proof -
  from i(1) have "req_count s \<noteq> 0" by auto
  with rel ne have l: "aio_release_loop [0..<unat (req_count s)] s = Inr s'"
    by (auto simp: aio_release_all_resources_def)
  from release_loop_released [OF _ l] i have "areqs s' a = None"
    by (auto simp: released_def entry_def)
  then show ?thesis by (simp add: aio_complete_def aio_notify_def)
qed

theorem aio_release_frees_too_early_witness:
  "\<exists>s'. aio_release_all_resources (aio_submitted True) = Inr (RET_OK, s') \<and>
     aio_complete 1 s' = Some (Inl UseAfterFree)"
proof -
  obtain s' x where rel: "aio_release_all_resources (aio_submitted True) = Inr (RET_OK, s')"
    and x: "aops s' 1 = Some x" "op_progress x = InProgress"
    using aio_demo_release by blast
  have "req_list (aio_submitted True) \<noteq> Null" "0 < unat (req_count (aio_submitted True))"
    "arr_get (req_list (aio_submitted True)) 0 (aos (aio_submitted True)) = Inr (Addr 1)"
    by (simp_all add: arr_get_def aio_submitted_def aio_demo_list_def)
  from aio_release_frees_too_early [OF this rel] x rel show ?thesis by blast
qed

end
