(* ===== verification/Aio_Wakeups.thy ===== *)
theory Aio_Wakeups
  imports Aio_Demo Condvar
begin

text \<open>
  The condition variables of the AIO accessor: \<open>isFinished\<close> of each request, at which clients wait in
  \<open>aio_wait_all_requests\<close>. Only \<open>aio_callback\<close> signals it, at its end; \<open>aio_cancel_request\<close>, which also
  ends the reason to wait, does not.
\<close>

section \<open>Threads and signals\<close>

datatype aio_thread = ASystem | AClient nat

text \<open>The system finishes operations, runs notifications and timers; everything else is a client's call.\<close>

definition by_system :: "aio_event \<Rightarrow> bool" where
  "by_system e \<longleftrightarrow> system_event e \<or> e = AEvExpire"

fun aio_performs :: "aio_thread \<Rightarrow> aio_event \<Rightarrow> bool" where
  "aio_performs ASystem e \<longleftrightarrow> by_system e"
| "aio_performs (AClient k) e \<longleftrightarrow> \<not> by_system e"

text \<open>The end of \<open>aio_callback\<close>, for the request that the notification names.\<close>

fun aio_signals :: "aio_event \<Rightarrow> aio_sys \<Rightarrow> aio_sys \<Rightarrow> ptr option" where
  "aio_signals (AEvNotify a) s s' = map_option (\<lambda>r. aio_sival (ar_cb r)) (areqs s a)"
| "aio_signals (AEvNotifySecond p) s s' = Some p"
| "aio_signals _ s s' = None"

text \<open>\<open>while (REQUEST_STAT_SUBMITTED == pRequest->status)\<close> in \<open>aio_wait_all_requests\<close>.\<close>

fun aio_waits :: "aio_thread \<Rightarrow> ptr \<Rightarrow> aio_sys \<Rightarrow> bool" where
  "aio_waits ASystem p s \<longleftrightarrow> False"
| "aio_waits (AClient k) p s \<longleftrightarrow>
     (case aget p s of Inl f \<Rightarrow> False | Inr r \<Rightarrow> ar_status r = REQUEST_STAT_SUBMITTED)"

type_synonym aio_cv = "(aio_sys, aio_thread, ptr) cv"

definition aio_cv_step :: "aio_cv \<Rightarrow> aio_event list \<Rightarrow> aio_cv \<Rightarrow> bool" where
  "aio_cv_step = cv_step aio_exec aio_performs aio_signals aio_waits"

section \<open>One client\<close>

text \<open>
  One client thread, and notifications in one piece: \<open>aio_callback\<close> holds the request's lock, so that a
  client that has been woken meets its outcome only once it is over. The system may come in between the two
  halves of \<open>aio_put_request\<close>, short of the race that \<open>aio_in_time\<close> leaves out.
\<close>

fun in_halves :: "aio_event \<Rightarrow> bool" where
  "in_halves (AEvNotifyFirst a) \<longleftrightarrow> True"
| "in_halves (AEvNotifySecond p) \<longleftrightarrow> True"
| "in_halves e \<longleftrightarrow> False"

definition single_aio_performs :: "aio_thread \<Rightarrow> aio_event \<Rightarrow> bool" where
  "single_aio_performs t e \<longleftrightarrow> aio_performs t e \<and> \<not> in_halves e \<and> (\<forall>k. t = AClient k \<longrightarrow> k = 0)"

definition single_aio_waits :: "aio_thread \<Rightarrow> ptr \<Rightarrow> aio_sys \<Rightarrow> bool" where
  "single_aio_waits t p s \<longleftrightarrow> aio_waits t p s \<and> (\<forall>k. t = AClient k \<longrightarrow> k = 0)"

definition single_aio_step :: "aio_cv \<Rightarrow> aio_event list \<Rightarrow> aio_cv \<Rightarrow> bool" where
  "single_aio_step = cv_step aio_timely single_aio_performs aio_signals single_aio_waits"

lemma settles_others:
  assumes "settles_at_most q s s'" "p \<noteq> q"
  shows "aget p s' = aget p s"
proof -
  from assms(1) obtain r r' where "aget q s = Inr r" "areqs s' = (areqs s)(aio_addr q := Some r')"
    by (auto simp: settles_at_most_def)
  moreover then obtain a where "q = Addr a" by (auto simp: aget_Inr_iff)
  ultimately show ?thesis using assms(2) by (cases p) (auto simp: aget_def deref_def)
qed

lemma notify_tells:
  assumes "aio_exec (AEvNotify a) s = Some (Inr s')" "aio_waits t p s"
  shows "aio_waits t p s' \<or> aio_signals (AEvNotify a) s s' = Some p"
proof -
  from assms(1) obtain x r where x: "aops s a = Some x" "areqs s a = Some r"
    and c: "aio_callback (aio_sival (ar_cb r)) (s\<lparr>aops := (aops s)(a := Some (x\<lparr>op_notify := False\<rparr>))\<rparr>) = Inr s'"
    by (auto simp: aio_notify_def deref_Inr_iff split: option.splits if_splits)
  show ?thesis
  proof (cases "aio_sival (ar_cb r) = p")
    case True
    with x(2) show ?thesis by simp
  next
    case False
    with settles_others [OF callback_settles [OF c], of p] have "aget p s' = aget p s" by simp
    with assms(2) show ?thesis by (cases t) auto
  qed
qed

lemma complete_keeps_requests: "aio_complete a s = Some (Inr s') \<Longrightarrow> areqs s' = areqs s"
  by (auto simp: aio_complete_def split: option.splits if_splits)

interpretation single_aio_client: sole_waiter aio_timely "\<lambda>_. aio_inv" "\<lambda>_. True" n
  single_aio_performs aio_signals single_aio_waits "\<lambda>_. True" for n
proof unfold_locales
  show True ..
next
  fix p u v s s' assume "single_aio_waits u p s" "single_aio_waits v p s'"
  then show "u = v" by (cases u; cases v) (auto simp: single_aio_waits_def)
next
  fix p u s e s' t
  assume w: "single_aio_waits u p s" and "aio_timely e s = Some (Inr s')"
    and t: "single_aio_performs t e" "t \<noteq> u"
  then have e: "aio_exec e s = Some (Inr s')" using aio_timely_exec by blast
  from w have u: "u = AClient 0" by (cases u) (auto simp: single_aio_waits_def)
  with w have w': "aio_waits (AClient 0) p s" by (simp add: single_aio_waits_def)
  from t u have "t = ASystem" by (cases t) (auto simp: single_aio_performs_def)
  with t(1) have "(\<exists>a. e = AEvComplete a) \<or> (\<exists>a. e = AEvNotify a) \<or> e = AEvExpire"
    by (cases e) (auto simp: single_aio_performs_def by_system_def)
  then have "aio_waits (AClient 0) p s' \<or> aio_signals e s s' = Some p"
  proof (elim disjE exE)
    fix a assume "e = AEvComplete a"
    with e have "areqs s' = areqs s" by (auto dest: complete_keeps_requests)
    with w' show ?thesis by (simp add: aget_def)
  next
    fix a assume "e = AEvNotify a"
    with notify_tells e w' show ?thesis by blast
  next
    assume "e = AEvExpire"
    with e w' show ?thesis by simp
  qed
  then show "single_aio_waits u p s' \<or> aio_signals e s s' = Some p" by (simp add: u single_aio_waits_def)
qed

lemma aio_demo_performed: "e \<in> set aio_demo_events \<Longrightarrow> aio_performs (AClient 0) e \<and> \<not> in_halves e"
  by (auto simp: aio_demo_events_def by_system_def)

text \<open>
  C27: a program with one client thread, whose calls of \<open>aio_put_request\<close> store the state before the callback of
  a success has run, loses no wake-up of the AIO accessor (\<open>aio_put_loses_the_completion\<close> shows the other order;
  everything else, completions and callbacks of failures included, may come in between the two halves of the
  call): whenever the client is asleep in \<open>aio_wait_all_requests\<close>, the request is still \<open>SUBMITTED\<close>, and its operation is in progress, or its
  notification, which names this request and so will wake the client, is due, unless the operation failed
  or was refused.
\<close>
theorem aio_client_sleeps_for_a_reason:
  assumes "cv_trace single_aio_step (all_awake (AIO_File_Accessor_Get_Instance (g_aioFileAccessor w))) es x"
    and "asleep x (AClient 0) = Some p"
  shows "\<exists>a r. p = Addr a \<and> areqs (cv_sys x) a = Some r \<and> ar_status r = REQUEST_STAT_SUBMITTED \<and>
           (case aops (cv_sys x) a of
              None \<Rightarrow> True
            | Some y \<Rightarrow> aio_sival (ar_cb r) = p \<and>
                (op_progress y = InProgress \<or> op_notify y \<or> (\<exists>e. op_progress y = Finished e \<and> e \<noteq> 0)))"
proof -
  note t = assms(1) [unfolded single_aio_step_def]
  have i: "aio_inv (AIO_File_Accessor_Get_Instance (g_aioFileAccessor w))"
    by (simp add: AIO_File_Accessor_Get_Instance_def aio_start_inv)
  from single_aio_client.asleep_still_waits [OF t i order_refl _ assms(2)]
  obtain a r where r: "p = Addr a" "areqs (cv_sys x) a = Some r" "ar_status r = REQUEST_STAT_SUBMITTED"
    by (auto simp: single_aio_waits_def aget_Inr_iff split: sum.splits)
  from single_aio_client.trace_inv [OF t _ order_refl] i have "aio_inv (cv_sys x)" by simp
  with r(2) have "request_inv (cv_sys x) a r" by (simp add: aio_inv_def)
  with r show ?thesis by (auto simp: request_inv_def split: option.splits)
qed

theorem aio_client_sleeps_for_a_reason_witness:
  "\<exists>y. aops (aio_submitted False) 1 = Some y \<and>
     (op_progress y = InProgress \<or> op_notify y \<or> (\<exists>e. op_progress y = Finished e \<and> e \<noteq> 0))"
proof -
  let ?s = "aio_submitted False"
  let ?x = "\<lparr>cv_sys = ?s, asleep = [AClient 0 \<mapsto> Addr 1]\<rparr>"
  have "run aio_timely aio_demo_events (AIO_File_Accessor_Get_Instance (g_aioFileAccessor (aio_world False))) = Some ?s"
    using aio_demo_run by (simp add: aio_timely_run_def)
  then have "cv_trace single_aio_step
      (all_awake (AIO_File_Accessor_Get_Instance (g_aioFileAccessor (aio_world False)))) aio_demo_events (all_awake ?s)"
    unfolding single_aio_step_def
    by (rule awake_run, intro exI [of _ "AClient 0"])
      (use aio_demo_performed in \<open>auto simp: single_aio_performs_def\<close>)
  moreover have "single_aio_step (all_awake ?s) [] ?x"
    unfolding single_aio_step_def all_awake_def
    by (rule cv_step.sleep) (simp_all add: single_aio_waits_def aget_def aio_submitted_def aio_demo_request_def)
  ultimately have t: "cv_trace single_aio_step
      (all_awake (AIO_File_Accessor_Get_Instance (g_aioFileAccessor (aio_world False)))) aio_demo_events ?x"
    by (rule cv_trace_none)
  have "aops ?s 1 \<noteq> None" by (simp add: aio_submitted_def)
  with aio_client_sleeps_for_a_reason [OF t, of "Addr 1"] show ?thesis by (auto split: option.splits)
qed

section \<open>Two clients\<close>

text \<open>Cancelling a request whose operation is over.\<close>

lemma cancel_after_end:
  assumes r: "areqs s a = Some r" "ar_isValid r" "ar_status r = REQUEST_STAT_SUBMITTED" "\<not> ar_isAlloced r"
    and x: "aops s a = Some x" "op_progress x = Finished e"
  shows "\<exists>s'. aio_exec (AEvCancel (Addr a)) s = Some (Inr s') \<and> aops s' = aops s \<and>
     areqs s' a = Some (r\<lparr>ar_status := REQUEST_STAT_CANCEL\<rparr>)"
proof -
  from r(1) have g: "aget (Addr a) s = Inr r" by (simp add: aget_Inr_iff)
  have "\<exists>res. sys_aio_cancel (ar_fd r) (Addr a) (ar_cb r) s = (res, s)"
    using x by (simp add: sys_aio_cancel_def)
  then obtain res where "sys_aio_cancel (ar_fd r) (Addr a) (ar_cb r) s = (res, s)" ..
  with g r(3,4) acheck_valid [OF g r(2)]
  show ?thesis by (simp add: aio_cancel_request_def aio_only_state_def stat_range aput_def)
qed

text \<open>The notification of the failed operation: the request stays \<open>SUBMITTED\<close>.\<close>

lemma demo_failed_notified:
  "\<exists>s r. aio_exec (AEvNotify 1) (aio_ended True True) = Some (Inr s) \<and> areqs s 1 = Some r \<and> ar_isValid r \<and>
     ar_status r = REQUEST_STAT_SUBMITTED \<and> \<not> ar_isAlloced r \<and>
     aops s = [1 \<mapsto> \<lparr>op_write = False, op_progress = Finished EIO, op_notify = False\<rparr>]"
  by (simp add: aio_notify_def aio_callback_def aio_callback_outcome_def aio_callback_close1_def
      aio_callback_close2_def aget_def aput_def aio_ended_def aio_submitted_def aio_demo_request_def
      sys_aio_error_def EIO_def Let_def)

text \<open>
  C29: cancelling does not wake: \<open>aio_cancel_request\<close> sets \<open>CANCEL\<close> without a signal. There is a run, from the
  start, in which an operation fails and its notification runs, client 0 falls asleep at the request, which is
  still \<open>SUBMITTED\<close>, and client 1 cancels it: the reason to wait is gone, but client 0 is still asleep, and
  no operation is in progress and no notification is due that would wake it.
\<close>
theorem aio_cancel_does_not_wake:
  "\<exists>es x. cv_trace aio_cv_step (all_awake (AIO_File_Accessor_Get_Instance (g_aioFileAccessor (aio_world True)))) es x \<and>
     map_option ar_status (areqs (cv_sys x) 1) = Some REQUEST_STAT_CANCEL \<and>
     asleep x (AClient 0) = Some (Addr 1) \<and> \<not> aio_waits (AClient 0) (Addr 1) (cv_sys x) \<and>
     (\<exists>y. aops (cv_sys x) = [1 \<mapsto> y] \<and> op_progress y \<noteq> InProgress \<and> \<not> op_notify y)"
proof -
  let ?i = "all_awake (AIO_File_Accessor_Get_Instance (g_aioFileAccessor (aio_world True))) :: aio_cv"
  let ?es = "(aio_demo_events @ [AEvComplete 1]) @ [AEvNotify 1]"
  let ?W = "[AClient 0 \<mapsto> Addr 1]"
  from demo_failed_notified obtain s r where s: "aio_exec (AEvNotify 1) (aio_ended True True) = Some (Inr s)"
    and r: "areqs s 1 = Some r" "ar_isValid r" "ar_status r = REQUEST_STAT_SUBMITTED" "\<not> ar_isAlloced r"
    and x: "aops s = [1 \<mapsto> \<lparr>op_write = False, op_progress = Finished EIO, op_notify = False\<rparr>]" by blast
  from cancel_after_end [OF r, of "\<lparr>op_write = False, op_progress = Finished EIO, op_notify = False\<rparr>" EIO] x
  obtain s' where s': "aio_exec (AEvCancel (Addr 1)) s = Some (Inr s')" "aops s' = aops s"
    "areqs s' 1 = Some (r\<lparr>ar_status := REQUEST_STAT_CANCEL\<rparr>)" by auto
  have "run aio_exec ?es (cv_sys ?i) = Some s"
    using aio_demo_failed_run s unfolding run_append all_awake_simps by simp
  moreover have "\<exists>t. aio_performs t e" if "e \<in> set ?es" for e
    by (metis aio_performs.simps)
  ultimately have t: "cv_trace aio_cv_step ?i ?es (all_awake s)"
    unfolding aio_cv_step_def all_awake_simps by (rule awake_run)
  have g: "aget (Addr 1) s = Inr r" using r(1) by (simp add: aget_Inr_iff)
  have a: "aio_cv_step (all_awake s) [] \<lparr>cv_sys = s, asleep = ?W\<rparr>"
    unfolding aio_cv_step_def all_awake_def by (rule cv_step.sleep) (simp_all add: g r del: One_nat_def)
  have b: "aio_cv_step \<lparr>cv_sys = s, asleep = ?W\<rparr> [AEvCancel (Addr 1)] \<lparr>cv_sys = s', asleep = ?W\<rparr>"
    unfolding aio_cv_step_def
    by (rule quiet_step [where t = "AClient 1"], rule s') (simp_all add: by_system_def)
  from cv_trace_one [OF cv_trace_none [OF t a] b] s' x show ?thesis
    by (intro exI [of _ "?es @ [AEvCancel (Addr 1)]"] exI [of _ "\<lparr>cv_sys = s', asleep = ?W\<rparr>"])
      (auto simp: aget_def simp del: One_nat_def)
qed

end
