(* ===== verification/Exchange.thy ===== *)
theory Exchange
  imports Mmap_IO Aio_Demo
begin

text \<open>
  The two accessors on the same files: they read the same bytes, and each reads what the other wrote.
  An mmap request is worked off by \<open>mmapRead\<close> or \<open>mmapWrite\<close>, an AIO request by the system's transfer and
  \<open>aio_callback\<close>.
\<close>

section \<open>Bytes of a written file\<close>

lemma length_file_write: "off + length bs \<le> length (file_write off bs c)"
  by (simp add: file_write_def length_overwrite)

lemma file_write_read: "take (length bs) (drop off (file_write off bs c)) = bs"
  unfolding file_write_def by (rule overwrite_read) simp

lemma file_write_bytes: "file_bytes (file_write off bs c) off (length bs) = bs"
  using file_bytes_inside [OF length_file_write] file_write_read by metis

section \<open>A read of the AIO accessor\<close>

lemma aio_read_done:
  assumes x: "aops t a = Some x" "op_progress x = InProgress" "\<not> op_write x"
    and r: "areqs t a = Some r" "aio_sival (ar_cb r) = Addr a" "\<not> ar_isAlloced r"
    and tr: "transfer_ready r (aos t) d f" "can_read (o_mode d)"
    and b: "aio_buf (ar_cb r) = Addr b" "heap (aos t) b = Some old" "aio_nbytes (ar_cb r) \<le> length old"
  shows "\<exists>t1 t2 r'. aio_complete a t = Some (Inr t1) \<and> aio_notify aio_callback a t1 = Some (Inr t2) \<and>
           areqs t2 a = Some r' \<and> ar_status r' = REQUEST_STAT_IOSUCCESS \<and> files (aos t2) = files (aos t) \<and>
           heap (aos t2) = (heap (aos t))(b := Some (overwrite 0 (take (aio_nbytes (ar_cb r))
             (drop (nat (aio_offset (ar_cb r))) (f_content f))) old))"
proof -
  from read_transfer [OF tr b] x(3)
  have t: "aio_transfer (op_write x) (ar_cb r) (aos t) = Inr (0, (aos t)\<lparr>calls := Suc (calls (aos t)),
      heap := (heap (aos t))(b := Some (overwrite 0 (take (aio_nbytes (ar_cb r))
         (drop (nat (aio_offset (ar_cb r))) (f_content f))) old))\<rparr>)" by simp
  from completed [OF x(1,2) r(1,2) t] r(3) show ?thesis by auto
qed

section \<open>The same bytes\<close>

text \<open>
  C10: the two accessors read alike: given the same range inside a file and the same buffer, an mmap
  request that \<open>mmapRead\<close> works off with success and an AIO request whose operation the system
  carries out and notifies end with the same memory and the same files, and both are \<open>IOSUCCESS\<close>.
\<close>
theorem accessors_read_alike:
  assumes q: "get_req p s = Inr q" "r_status q \<noteq> REQUEST_STAT_CANCEL" "0 < r_fd q" "r_buf q = Addr b"
    and m: "mem_ok (os s)" "fd_lookup (os s) (r_fd q) = Some e" "files (os s) (o_path e) = Some f"
    and run: "mmapRead p s = Inr s'" "get_req p s' = Inr q'" "r_status q' = REQUEST_STAT_IOSUCCESS"
    and x: "aops t a = Some x" "op_progress x = InProgress" "\<not> op_write x"
    and r: "areqs t a = Some r" "aio_sival (ar_cb r) = Addr a" "\<not> ar_isAlloced r"
    and tr: "transfer_ready r (aos t) d f" "can_read (o_mode d)"
    and same: "heap (aos t) = heap (os s)" "files (aos t) = files (os s)" "heap (os s) b = Some old"
      "aio_buf (ar_cb r) = Addr b" "aio_nbytes (ar_cb r) = unat (r_nbytes q)"
      "aio_offset (ar_cb r) = int (unat (r_offset q))"
    and inside: "unat (r_offset q) + unat (r_nbytes q) \<le> length (f_content f)"
      "unat (r_nbytes q) \<le> length old"
  shows "\<exists>t1 t2 r'. aio_complete a t = Some (Inr t1) \<and> aio_notify aio_callback a t1 = Some (Inr t2) \<and>
           areqs t2 a = Some r' \<and> ar_status r' = r_status q' \<and>
           heap (aos t2) = heap (os s') \<and> files (aos t2) = files (os s')"
proof -
  from mmapRead_outcome [OF q m(1) same(3) m(2,3) run(1)] run(2,3)
  have "heap (os s') = (heap (os s))(b := Some (overwrite 0
      (file_bytes (f_content f) (unat (r_offset q)) (unat (r_nbytes q))) old))"
    and "files (os s') = files (os s)" by auto
  moreover have "heap (aos t) b = Some old" "aio_nbytes (ar_cb r) \<le> length old" using same inside by simp_all
  note aio_read_done [OF x r tr same(4) this]
  ultimately show ?thesis using same inside run(3) by (auto simp: file_bytes_inside)
qed

text \<open>An AIO request for the range and the buffer of the mmap request of the demonstration.\<close>

definition aio_alike :: aio_sys where
  "aio_alike = (aio_submitted False)
     \<lparr>aos := demo_os_queued,
      areqs := [1 \<mapsto> aio_demo_request (Addr 3) (Addr 1) REQUEST_STAT_SUBMITTED]\<rparr>"

theorem accessors_read_alike_witness:
  "\<exists>s' t1 t2. mmapRead (Addr 2) (demo_at (WEnter (Addr 4)) 1 3 REQUEST_STAT_SUBMITTED demo_os_queued) = Inr s' \<and>
     aio_complete 1 aio_alike = Some (Inr t1) \<and> aio_notify aio_callback 1 t1 = Some (Inr t2) \<and>
     heap (aos t2) = heap (os s')"
proof -
  let ?s = "demo_at (WEnter (Addr 4)) 1 3 REQUEST_STAT_SUBMITTED demo_os_queued"
  let ?s' = "demo_at (WEnter (Addr 4)) 1 (- 1) REQUEST_STAT_IOSUCCESS demo_os_done"
  let ?q = "demo_request\<lparr>r_status := REQUEST_STAT_SUBMITTED, r_fd := 3\<rparr>"
  let ?q' = "demo_request\<lparr>r_status := REQUEST_STAT_IOSUCCESS, r_fd := - 1\<rparr>"
  let ?r = "aio_demo_request (Addr 3) (Addr 1) REQUEST_STAT_SUBMITTED"
  let ?d = "\<lparr>o_path = ''in'', o_mode = Rdonly, o_pos = 0\<rparr>"
  have w: "heap demo_os_queued 3 = Some [0, 0, 0]" "mem_ok demo_os_queued"
    "fd_lookup demo_os_queued 3 = Some ?d" "files demo_os_queued ''in'' = Some demo_file"
    "\<not> refuse demo_os_queued (calls demo_os_queued)"
    by (simp_all add: demo_os_queued_def demo_os_def fd_lookup_def fd_at_def mem_ok_def)
  have q: "get_req (Addr 2) ?s = Inr ?q" "get_req (Addr 2) ?s' = Inr ?q'" "os ?s = demo_os_queued"
    by simp_all
  have run: "mmapRead (Addr 2) ?s = Inr ?s'" by (rule demo_read) simp
  have x: "aops aio_alike 1 = Some \<lparr>op_write = False, op_progress = InProgress, op_notify = False\<rparr>"
    and r: "areqs aio_alike 1 = Some ?r" "aos aio_alike = demo_os_queued"
    by (simp_all add: aio_alike_def aio_submitted_def)
  have tr: "transfer_ready ?r (aos aio_alike) ?d demo_file"
    using w r by (simp add: transfer_ready_def aio_demo_request_def)
  have "length (f_content demo_file) = 3" by (simp add: demo_file_def)
  with accessors_read_alike [OF q(1) _ _ _ _ _ _ run q(2) _ x _ _ r(1) _ _ tr, of 3 ?d "[0, 0, 0]"] w q(3) r(2) run
  show ?thesis by (auto simp: demo_request_def aio_demo_request_def can_read_def)
qed

section \<open>Reading what the other wrote\<close>

text \<open>A computation checked by evaluation, taken apart again.\<close>

lemma evaluated:
  "(case m of None \<Rightarrow> False | Some x \<Rightarrow> P x) \<longleftrightarrow> (\<exists>x. m = Some x \<and> P x)"
  "(case n of Inr y \<Rightarrow> Q y | Inl f \<Rightarrow> False) \<longleftrightarrow> (\<exists>y. n = Inr y \<and> Q y)"
  by (auto split: option.split sum.split)

text \<open>
  C22: what the AIO accessor wrote the mmap accessor reads: after the system carried out a write and
  notified, an mmap request for the same range of the file, with a buffer and a descriptor of its own,
  finds exactly the written bytes, unless its own mapping fails.
\<close>
theorem mmap_reads_what_aio_wrote:
  assumes x: "aops t a = Some x" "op_progress x = InProgress" "op_write x"
    and r: "areqs t a = Some r" "aio_sival (ar_cb r) = Addr a" "ar_isAlloced r" "ar_buf r = Addr b"
    and tr: "transfer_ready r (aos t) d f" "can_write (o_mode d)"
    and b: "aio_buf (ar_cb r) = Addr b" "heap (aos t) b = Some bs" "aio_nbytes (ar_cb r) \<le> length bs"
    and ends: "aio_complete a t = Some (Inr t1)" "aio_notify aio_callback a t1 = Some (Inr t2)"
    and q: "get_req p s = Inr q" "r_status q \<noteq> REQUEST_STAT_CANCEL" "0 < r_fd q" "r_buf q = Addr c"
    and m: "os s = aos t2" "mem_ok (os s)" "heap (os s) c = Some old"
      "fd_lookup (os s) (r_fd q) = Some e" "o_path e = o_path d"
    and same: "unat (r_nbytes q) = aio_nbytes (ar_cb r)" "int (unat (r_offset q)) = aio_offset (ar_cb r)"
    and run: "mmapRead p s = Inr s'"
  shows "\<exists>q'. get_req p s' = Inr q' \<and>
           (r_status q' = REQUEST_STAT_IOSUCCESS \<and>
              heap (os s') c = Some (overwrite 0 (take (aio_nbytes (ar_cb r)) bs) old) \<or>
            r_status q' = REQUEST_STAT_IOFAIL \<and> heap (os s') c = Some old)"
proof -
  let ?n = "aio_nbytes (ar_cb r)" and ?off = "nat (aio_offset (ar_cb r))"
  let ?g = "f\<lparr>f_content := file_write ?off (take ?n bs) (f_content f)\<rparr>"
  from write_transfer [OF tr b] x(3)
  have "aio_transfer (op_write x) (ar_cb r) (aos t) = Inr (0, (aos t)\<lparr>calls := Suc (calls (aos t)),
      files := (files (aos t))(o_path d := Some ?g)\<rparr>)" by simp
  from completed [OF x(1,2) r(1,2) this] r(3,4) b ends
  have "files (aos t2) (o_path d) = Some ?g" by (auto simp: c_free_def)
  then have g: "files (os s) (o_path e) = Some ?g" using m(1,5) by simp
  have "unat (r_offset q) = ?off" using same(2) [symmetric] by simp
  with mmapRead_outcome [OF q m(2,3,4) g run] same(1) file_write_bytes [of ?off "take ?n bs" "f_content f"] b(3)
  show ?thesis using m(3) by auto
qed

text \<open>A write in progress, with a block at 5 and the descriptor 4 for the reader, and its request.\<close>

definition aio_exchange :: aio_sys where
  "aio_exchange = aio_writing\<lparr>aos := (aos aio_writing)
     \<lparr>brk := 7, heap := [2 \<mapsto> [4, 5, 6], 5 \<mapsto> [0, 0, 0]],
      fds := [Some tty, Some tty, Some tty, Some \<lparr>o_path = ''in'', o_mode = WronlyCreat, o_pos = 0\<rparr>,
              Some \<lparr>o_path = ''in'', o_mode = Rdonly, o_pos = 0\<rparr>]\<rparr>\<rparr>"

definition exchange_reader :: "world \<Rightarrow> mmap_sys" where
  "exchange_reader w = put_req (Addr 2)
     (demo_request\<lparr>r_status := REQUEST_STAT_SUBMITTED, r_fd := 4, r_buf := Addr 5\<rparr>) (g_mmapFileAccessor w)"

theorem mmap_reads_what_aio_wrote_witness:
  "\<exists>t1 t2 s'. aio_complete 1 aio_exchange = Some (Inr t1) \<and> aio_notify aio_callback 1 t1 = Some (Inr t2) \<and>
     mmapRead (Addr 2) (exchange_reader (aos t2)) = Inr s' \<and> heap (os s') 5 = Some [4, 5, 6]"
proof -
  let ?e = "\<lparr>o_path = ''in'', o_mode = Rdonly, o_pos = 0\<rparr>"
  have "case aio_complete 1 aio_exchange of Some (Inr t1) \<Rightarrow>
      (case aio_notify aio_callback 1 t1 of Some (Inr t2) \<Rightarrow>
         mem_ok (aos t2) \<and> heap (aos t2) 5 = Some [0, 0, 0] \<and> fd_lookup (aos t2) 4 = Some ?e \<and>
         (case mmapRead (Addr 2) (exchange_reader (aos t2)) of Inr s' \<Rightarrow>
            (case get_req (Addr 2) s' of Inr q' \<Rightarrow> r_status q' = REQUEST_STAT_IOSUCCESS | Inl f \<Rightarrow> False)
          | Inl f \<Rightarrow> False)
       | _ \<Rightarrow> False) | _ \<Rightarrow> False" by code_simp
  then obtain t1 t2 s' q' where ends: "aio_complete 1 aio_exchange = Some (Inr t1)"
      "aio_notify aio_callback 1 t1 = Some (Inr t2)"
    and m: "mem_ok (aos t2)" "heap (aos t2) 5 = Some [0, 0, 0]" "fd_lookup (aos t2) 4 = Some ?e"
    and run: "mmapRead (Addr 2) (exchange_reader (aos t2)) = Inr s'"
    and q': "get_req (Addr 2) s' = Inr q'" "r_status q' = REQUEST_STAT_IOSUCCESS"
    unfolding evaluated by blast
  let ?r = "(aio_demo_request (Addr 2) (Addr 1) REQUEST_STAT_SUBMITTED)\<lparr>ar_isAlloced := True\<rparr>"
  let ?d = "\<lparr>o_path = ''in'', o_mode = WronlyCreat, o_pos = 0\<rparr>"
  let ?q = "demo_request\<lparr>r_status := REQUEST_STAT_SUBMITTED, r_fd := 4, r_buf := Addr 5\<rparr>"
  have x: "aops aio_exchange 1 = Some \<lparr>op_write = True, op_progress = InProgress, op_notify = False\<rparr>"
    and r: "areqs aio_exchange 1 = Some ?r" and b: "heap (aos aio_exchange) 2 = Some [4, 5, 6]"
    by (simp_all add: aio_exchange_def aio_writing_def)
  have tr: "transfer_ready ?r (aos aio_exchange) ?d demo_file"
    by (simp add: transfer_ready_def aio_exchange_def aio_writing_def aio_demo_os_def aio_demo_request_def
        fd_lookup_def fd_at_def)
  have q: "get_req (Addr 2) (exchange_reader (aos t2)) = Inr ?q" "os (exchange_reader (aos t2)) = aos t2"
    by (simp_all add: exchange_reader_def g_mmapFileAccessor_def)
  from mmap_reads_what_aio_wrote [where old = "[0, 0, 0]" and e = ?e and c = 5,
      OF x _ _ r _ _ _ tr _ _ b _ ends q(1) _ _ _ q(2) _ _ _ _ _ _ run] m q q'
  have "heap (os s') 5 = Some (overwrite 0 (take 3 [4, 5, 6]) [0, 0, 0])"
    by (simp add: aio_demo_request_def demo_request_def can_write_def)
  then show ?thesis using ends run by (simp add: overwrite_def)
qed

text \<open>
  C23: what the mmap accessor wrote the AIO accessor reads: bytes stored in an allocated buffer and
  worked off by \<open>mmapWrite\<close>, even one that reports \<open>IOFAIL\<close>, are what a later AIO read of the range
  leaves in its buffer.
\<close>
theorem aio_reads_what_mmap_wrote:
  assumes q: "get_req p s = Inr q" "r_status q \<noteq> REQUEST_STAT_CANCEL" "0 < r_fd q" "r_buf q = Addr b"
    and m: "heap (os s) b = None" "mmaps (os s) b = Some m" "m_len m = unat (r_nbytes q)"
    and f: "files (os s) (m_path m) = Some f" "m_off m + unat (r_nbytes q) \<le> length (f_content f)"
    and bs: "length bs = unat (r_nbytes q)" "mem_store (Addr b) bs (os s) = Inr w"
    and run: "mmapWrite p (s\<lparr>os := w\<rparr>) = Inr s'"
    and x: "aops t a = Some x" "op_progress x = InProgress" "\<not> op_write x"
    and r: "areqs t a = Some r" "aio_sival (ar_cb r) = Addr a" "\<not> ar_isAlloced r"
    and tr: "aos t = os s'" "transfer_ready r (aos t) d g" "can_read (o_mode d)" "o_path d = m_path m"
    and c: "aio_buf (ar_cb r) = Addr c" "heap (aos t) c = Some old" "length bs \<le> length old"
    and same: "aio_nbytes (ar_cb r) = length bs" "aio_offset (ar_cb r) = int (m_off m)"
  shows "\<exists>t1 t2 r'. aio_complete a t = Some (Inr t1) \<and> aio_notify aio_callback a t1 = Some (Inr t2) \<and>
           areqs t2 a = Some r' \<and> ar_status r' = REQUEST_STAT_IOSUCCESS \<and>
           heap (aos t2) c = Some (overwrite 0 bs old)"
proof -
  from mmapWrite_outcome [OF q m f bs run] obtain f' where "files (os s') (m_path m) = Some f'"
    and f': "f_content f' = overwrite (m_off m) bs (f_content f)" by blast
  with tr have "g = f'" by (simp add: transfer_ready_def)
  moreover have "m_off m + length bs \<le> length (f_content f)" using f(2) bs(1) by simp
  ultimately have "take (length bs) (drop (m_off m) (f_content g)) = bs"
    unfolding f' by (simp add: f' overwrite_read)
  moreover have "aio_nbytes (ar_cb r) \<le> length old" using c(3) same(1) by simp
  note aio_read_done [OF x r tr(2,3) c(1,2) this]
  ultimately show ?thesis unfolding same by auto
qed

text \<open>A write to map, with a block at 5 and the descriptor 4 for the reader, and its operation.\<close>

definition mmap_exchange :: mmap_sys where
  "mmap_exchange = (demo_write REQUEST_STAT_SUBMITTED)\<lparr>os := (os (demo_write REQUEST_STAT_SUBMITTED))
     \<lparr>heap := [6 \<mapsto> [0, 0, 0]],
      fds := [None, None, None, Some \<lparr>o_path = ''out'', o_mode = RdwrCreatTrunc, o_pos = 0\<rparr>,
              Some \<lparr>o_path = ''out'', o_mode = Rdonly, o_pos = 0\<rparr>]\<rparr>\<rparr>"

definition exchange_reading :: "world \<Rightarrow> aio_sys" where
  "exchange_reading w =
     \<lparr>aos = w,
      areqs = [1 \<mapsto> (aio_demo_request (Addr 6) (Addr 1) REQUEST_STAT_SUBMITTED)\<lparr>ar_fd := 4,
         ar_cb := \<lparr>aio_fildes = 4, aio_buf = Addr 6, aio_nbytes = 3, aio_offset = 0, aio_sival = Addr 1\<rparr>\<rparr>],
      aops = [1 \<mapsto> \<lparr>op_write = False, op_progress = InProgress, op_notify = False\<rparr>],
      req_list = Null, req_count = 0\<rparr>"

theorem aio_reads_what_mmap_wrote_witness:
  "\<exists>w s' t1 t2. mem_store (Addr 9) [1, 2, 3] (os mmap_exchange) = Inr w \<and>
     mmapWrite (Addr 5) (mmap_exchange\<lparr>os := w\<rparr>) = Inr s' \<and>
     aio_complete 1 (exchange_reading (os s')) = Some (Inr t1) \<and>
     aio_notify aio_callback 1 t1 = Some (Inr t2) \<and> heap (aos t2) 6 = Some [1, 2, 3]"
proof -
  let ?e = "\<lparr>o_path = ''out'', o_mode = Rdonly, o_pos = 0\<rparr>"
  have "case mem_store (Addr 9) [1, 2, 3] (os mmap_exchange) of Inl f \<Rightarrow> False
    | Inr w \<Rightarrow> (case mmapWrite (Addr 5) (mmap_exchange\<lparr>os := w\<rparr>) of Inl f \<Rightarrow> False
        | Inr s' \<Rightarrow> heap (os s') 6 = Some [0, 0, 0] \<and> fd_lookup (os s') 4 = Some ?e \<and>
            \<not> refuse (os s') (calls (os s')) \<and> files (os s') ''out'' \<noteq> None)"
    by code_simp
  then obtain w s' g where w: "mem_store (Addr 9) [1, 2, 3] (os mmap_exchange) = Inr w"
    and run: "mmapWrite (Addr 5) (mmap_exchange\<lparr>os := w\<rparr>) = Inr s'"
    and c: "heap (os s') 6 = Some [0, 0, 0]" and l: "fd_lookup (os s') 4 = Some ?e"
      "\<not> refuse (os s') (calls (os s'))" "files (os s') ''out'' = Some g"
    by (auto split: sum.splits)
  let ?f = "\<lparr>f_content = [0, 0, 0], f_durable = [0, 0, 0]\<rparr> :: inode"
  let ?q = "zero_mmap_request\<lparr>r_info := write_info, r_isValid := True, r_isAlloced := True, r_fd := 3,
     r_nbytes := 3, r_buf := Addr 9, r_status := REQUEST_STAT_SUBMITTED\<rparr>"
  let ?r = "(aio_demo_request (Addr 6) (Addr 1) REQUEST_STAT_SUBMITTED)\<lparr>ar_fd := 4,
         ar_cb := \<lparr>aio_fildes = 4, aio_buf = Addr 6, aio_nbytes = 3, aio_offset = 0, aio_sival = Addr 1\<rparr>\<rparr>"
  let ?x = "\<lparr>op_write = False, op_progress = InProgress, op_notify = False\<rparr>"
  have q: "get_req (Addr 5) mmap_exchange = Inr ?q"
    using demo_write_req [of REQUEST_STAT_SUBMITTED] by (simp add: mmap_exchange_def get_req_def)
  have w0: "heap (os mmap_exchange) 9 = None" "files (os mmap_exchange) ''out'' = Some ?f"
    "mmaps (os mmap_exchange) 9 = Some \<lparr>m_path = ''out'', m_off = 0, m_len = 3, m_shared = True\<rparr>"
    by (simp_all add: mmap_exchange_def demo_write_def g_mmapFileAccessor_def world0_def Let_def)
  have t: "aops (exchange_reading (os s')) 1 = Some ?x" "areqs (exchange_reading (os s')) 1 = Some ?r"
    "aos (exchange_reading (os s')) = os s'" by (simp_all add: exchange_reading_def)
  have tr: "transfer_ready ?r (aos (exchange_reading (os s'))) ?e g"
    using l t(3) by (simp add: transfer_ready_def)
  have rd: "can_read (o_mode ?e)" "o_path ?e = ''out''" by (simp_all add: can_read_def)
  from aio_reads_what_mmap_wrote [where f = ?f and c = 6 and old = "[0, 0, 0]",
      OF q _ _ _ w0(1,3) _ _ _ _ w run t(1) _ _ t(2) _ _ t(3) tr rd(1)]
    w0(2) c t(3) rd(2)
  obtain t1 t2 where "aio_complete 1 (exchange_reading (os s')) = Some (Inr t1)"
    "aio_notify aio_callback 1 t1 = Some (Inr t2)" "heap (aos t2) 6 = Some (overwrite 0 [1, 2, 3] [0, 0, 0])"
    by (auto simp: aio_demo_request_def)
  then show ?thesis using w run by (auto simp: overwrite_def)
qed

end
