(* ===== verification/Accessor.thy ===== *)
theory Accessor
  imports Mmap_System Aio_Accessor
begin

text \<open>
  The process with both accessors (\<open>async_file_accessor.h\<close>, \<open>async_file_accessor.c\<close>): they share the
  memory, the files and the descriptors of one operating system. Each fills the table of functions of
  the abstract accessor; \<open>Async_File_Accessor_Get_Instance\<close> selects one by its type. While a client
  waits, the events of the accessor it waits at are the ones that happen.
\<close>

section \<open>Two accessors in one process\<close>

record process =
  p_os :: world
  p_mmap :: mmap_sys        \<comment> \<open>its \<open>os\<close> field is not used\<close>
  p_aio :: aio_sys          \<comment> \<open>nor is its \<open>aos\<close> field\<close>

definition in_mmap :: "process \<Rightarrow> mmap_sys" where
  "in_mmap st = (p_mmap st)\<lparr>os := p_os st\<rparr>"

definition of_mmap :: "process \<Rightarrow> mmap_sys \<Rightarrow> process" where
  "of_mmap st s = st\<lparr>p_os := os s, p_mmap := s\<rparr>"

definition in_aio :: "process \<Rightarrow> aio_sys" where
  "in_aio st = (p_aio st)\<lparr>aos := p_os st\<rparr>"

definition of_aio :: "process \<Rightarrow> aio_sys \<Rightarrow> process" where
  "of_aio st s = st\<lparr>p_os := aos s, p_aio := s\<rparr>"

text \<open>The static initialisers, in a process with memory and files \<open>w\<close>.\<close>

definition process_start :: "world \<Rightarrow> process" where
  "process_start w = \<lparr>p_os = w, p_mmap = g_mmapFileAccessor w, p_aio = g_aioFileAccessor w\<rparr>"

section \<open>Events of the process\<close>

datatype process_event = MmapEvent mmap_event | AioEvent aio_event

fun process_exec :: "process_event \<Rightarrow> process \<Rightarrow> (fault + process) option" where
  "process_exec (MmapEvent e) st =
     map_option (\<lambda>m. and_then m (\<lambda>s. Inr (of_mmap st s))) (mmap_exec e (in_mmap st))"
| "process_exec (AioEvent e) st =
     map_option (\<lambda>m. and_then m (\<lambda>s. Inr (of_aio st s))) (aio_exec e (in_aio st))"

fun mmap_events :: "process_event list \<Rightarrow> mmap_event list" where
  "mmap_events [] = []"
| "mmap_events (MmapEvent e # es) = e # mmap_events es"
| "mmap_events (AioEvent e # es) = mmap_events es"

fun aio_events :: "process_event list \<Rightarrow> aio_event list" where
  "aio_events [] = []"
| "aio_events (AioEvent e # es) = e # aio_events es"
| "aio_events (MmapEvent e # es) = aio_events es"

section \<open>The table of functions\<close>

record async_file_accessor =
  acc_type :: async_file_accessor_type_t
  getRequest :: "async_file_access_request_info \<Rightarrow> process \<Rightarrow> fault + (ret_t \<times> ptr \<times> process)"
  allocWriteBuf :: "ptr \<Rightarrow> ptr \<Rightarrow> process \<Rightarrow> fault + (ret_t \<times> ptr \<times> process)"
  importReadBuf :: "ptr \<Rightarrow> ptr \<Rightarrow> process \<Rightarrow> fault + (ret_t \<times> process)"
  putRequest :: "ptr \<Rightarrow> process \<Rightarrow> fault + (ret_t \<times> process)"
  waitRequest :: "ptr \<Rightarrow> u32 \<Rightarrow> process_event list \<Rightarrow> process \<Rightarrow> (fault + (ret_t \<times> process)) option"
  cancelRequest :: "ptr \<Rightarrow> process \<Rightarrow> fault + (ret_t \<times> process)"
  waitAll :: "process_event list \<Rightarrow> process \<Rightarrow> (fault + (ret_t \<times> process)) option"
  cancelAll :: "process \<Rightarrow> fault + (ret_t \<times> process)"
  releaseAll :: "process_event list \<Rightarrow> process \<Rightarrow> (fault + (ret_t \<times> process)) option"

text \<open>An operation of one accessor, run in the process.\<close>

definition on_mmap :: "process \<Rightarrow> fault + ('a \<times> mmap_sys) \<Rightarrow> fault + ('a \<times> process)" where
  "on_mmap st m = and_then m (\<lambda>(x, s). Inr (x, of_mmap st s))"

definition on_aio :: "process \<Rightarrow> fault + ('a \<times> aio_sys) \<Rightarrow> fault + ('a \<times> process)" where
  "on_aio st m = and_then m (\<lambda>(x, s). Inr (x, of_aio st s))"

definition on_mmap2 :: "process \<Rightarrow> fault + ('a \<times> 'b \<times> mmap_sys) \<Rightarrow> fault + ('a \<times> 'b \<times> process)" where
  "on_mmap2 st m = and_then m (\<lambda>(x, y, s). Inr (x, y, of_mmap st s))"

definition on_aio2 :: "process \<Rightarrow> fault + ('a \<times> 'b \<times> aio_sys) \<Rightarrow> fault + ('a \<times> 'b \<times> process)" where
  "on_aio2 st m = and_then m (\<lambda>(x, y, s). Inr (x, y, of_aio st s))"

definition mmap_table :: async_file_accessor where
  "mmap_table =
     \<lparr>acc_type = ASYNC_FILE_ACCESSOR_MMAP,
      getRequest = (\<lambda>ci st. on_mmap2 st (mmap_get_request ci (in_mmap st))),
      allocWriteBuf = (\<lambda>p b st. on_mmap2 st (mmap_request_alloc_write_buffer p b (in_mmap st))),
      importReadBuf = (\<lambda>p b st. on_mmap st (mmap_request_import_read_buffer p b (in_mmap st))),
      putRequest = (\<lambda>p st. on_mmap st (mmap_put_request p (in_mmap st))),
      waitRequest = (\<lambda>p t es st. map_option (on_mmap st) (mmap_wait_request p t (mmap_events es) (in_mmap st))),
      cancelRequest = (\<lambda>p st. on_mmap st (mmap_cancel_request p (in_mmap st))),
      waitAll = (\<lambda>es st. map_option (on_mmap st) (mmap_wait_all_requests (mmap_events es) (in_mmap st))),
      cancelAll = (\<lambda>st. on_mmap st (mmap_cancel_all_requests (in_mmap st))),
      releaseAll = (\<lambda>es st. map_option (on_mmap st) (mmap_release_all_resources (mmap_events es) (in_mmap st)))\<rparr>"

definition aio_table :: async_file_accessor where
  "aio_table =
     \<lparr>acc_type = ASYNC_FILE_ACCESSOR_AIO,
      getRequest = (\<lambda>ci st. on_aio2 st (aio_get_request ci (in_aio st))),
      allocWriteBuf = (\<lambda>p b st. on_aio2 st (aio_request_alloc_write_buffer p b (in_aio st))),
      importReadBuf = (\<lambda>p b st. on_aio st (aio_request_import_read_buffer p b (in_aio st))),
      putRequest = (\<lambda>p st. on_aio st (aio_put_request p (in_aio st))),
      waitRequest = (\<lambda>p t es st. map_option (on_aio st) (aio_wait_request p t (aio_events es) (in_aio st))),
      cancelRequest = (\<lambda>p st. on_aio st (aio_cancel_request p (in_aio st))),
      waitAll = (\<lambda>es st. map_option (on_aio st) (aio_wait_all_requests (aio_events es) (in_aio st))),
      cancelAll = (\<lambda>st. on_aio st (aio_cancel_all_requests (in_aio st))),
      releaseAll = (\<lambda>es st. Some (on_aio st (aio_release_all_resources (in_aio st))))\<rparr>"

section \<open>The dispatcher\<close>

text \<open>The selected accessor, or nothing for a type out of range.\<close>

definition Async_File_Accessor_Get_Instance ::
  "async_file_accessor_type_t \<Rightarrow> process \<Rightarrow> async_file_accessor option \<times> process" where
  "Async_File_Accessor_Get_Instance type st =
     (if type = ASYNC_FILE_ACCESSOR_AIO
      then (Some aio_table, of_aio st (AIO_File_Accessor_Get_Instance (in_aio st)))
      else if type = ASYNC_FILE_ACCESSOR_MMAP
      then (Some mmap_table, of_mmap st (MMAP_File_Accessor_Get_Instance (in_mmap st)))
      else (None, st))"

lemma in_of_mmap [simp]: "in_mmap (of_mmap st s) = s" "p_aio (of_mmap st s) = p_aio st"
  "p_os (of_mmap st s) = os s"
  by (simp_all add: in_mmap_def of_mmap_def)

lemma in_of_aio [simp]: "in_aio (of_aio st s) = s" "p_mmap (of_aio st s) = p_mmap st"
  "p_os (of_aio st s) = aos s"
  by (simp_all add: in_aio_def of_aio_def)

lemma in_fields [simp]:
  "os (in_mmap st) = p_os st" "requests (in_mmap st) = requests (p_mmap st)"
  "pinfo (in_mmap st) = pinfo (p_mmap st)"
  "aos (in_aio st) = p_os st" "areqs (in_aio st) = areqs (p_aio st)" "aops (in_aio st) = aops (p_aio st)"
  by (simp_all add: in_mmap_def in_aio_def)

text \<open>
  What \<open>thread_pool_init\<close> has to leave: a running pool with an array of 1024 slots for its queue and a thread in
  each of its slots, for which the system did not refuse one.
\<close>

definition pool_started :: "mmap_sys \<Rightarrow> mmap_sys \<Rightarrow> bool" where
  "pool_started s s' \<longleftrightarrow>
     (let w = os s; full = refuse w (calls w)
      in pinfo s' = (pinfo s)\<lparr>isRunning := True, isInitialized := True\<rparr> \<and>
         tqueue s' = (tqueue s)\<lparr>request_queue := if full then Null else Addr (brk w)\<rparr> \<and>
         (full \<or> parrs (os s') (brk w) = Some \<lparr>a_len = 1024, a_at = (\<lambda>_. None)\<rparr>) \<and>
         length (threads s') = length (threads s) \<and>
         (\<forall>i < length (threads s). threads s' ! i =
            (if i < THREAD_POOL_SIZE \<and> \<not> refuse w (calls w + Suc i) then WStart else threads s ! i)))"

lemma threads_created:
  "os (fold create_thread [0..<k] s) = (os s)\<lparr>calls := calls (os s) + k\<rparr> \<and>
   pinfo (fold create_thread [0..<k] s) = pinfo s \<and> tqueue (fold create_thread [0..<k] s) = tqueue s \<and>
   requests (fold create_thread [0..<k] s) = requests s \<and>
   length (threads (fold create_thread [0..<k] s)) = length (threads s) \<and>
   (\<forall>i < length (threads s). threads (fold create_thread [0..<k] s) ! i =
      (if i < k \<and> \<not> refuse (os s) (calls (os s) + i) then WStart else threads s ! i))"
proof (induction k)
  case (Suc k)
  then show ?case
    by (auto simp: create_thread_def ask_def set_thread_def Let_def nth_list_update_if less_Suc_eq)
qed simp

lemma init_starts:
  assumes "\<not> isInitialized (pinfo s)"
  shows "pool_started s (MMAP_File_Accessor_Get_Instance s)" "requests (MMAP_File_Accessor_Get_Instance s) = requests s"
proof -
  obtain q w where q: "c_malloc_arr 1024 (os s) = (q, w)" by fastforce
  let ?s = "s\<lparr>pinfo := (pinfo s)\<lparr>isRunning := True\<rparr>, os := w, tqueue := (tqueue s)\<lparr>request_queue := q\<rparr>\<rparr>"
  have g: "MMAP_File_Accessor_Get_Instance s = (let t = fold create_thread [0..<THREAD_POOL_SIZE] ?s
      in t\<lparr>pinfo := (pinfo t)\<lparr>isRunning := True, isInitialized := True\<rparr>\<rparr>)"
    using assms q by (simp add: MMAP_File_Accessor_Get_Instance_def thread_pool_init_def set_running_def
        REQ_LIST_BUFSIZE_def Let_def)
  note c = threads_created [of THREAD_POOL_SIZE ?s]
  obtain t where t: "t = fold create_thread [0..<THREAD_POOL_SIZE] ?s" by blast
  note c = c [folded t] and g = g [folded t, unfolded Let_def]
  from q have w: "refuse w = refuse (os s)" "calls w = Suc (calls (os s))"
    "q = (if refuse (os s) (calls (os s)) then Null else Addr (brk (os s)))"
    "refuse (os s) (calls (os s)) \<or> parrs w (brk (os s)) = Some \<lparr>a_len = 1024, a_at = (\<lambda>_. None)\<rparr>"
    by (auto simp: c_malloc_arr_def ask_def split: if_splits)
  show "requests (MMAP_File_Accessor_Get_Instance s) = requests s" using c unfolding g by simp
  show "pool_started s (MMAP_File_Accessor_Get_Instance s)"
    using c w unfolding g pool_started_def Let_def by auto
qed

lemma init_again:
  "isInitialized (pinfo s) \<Longrightarrow> MMAP_File_Accessor_Get_Instance s = s"
  by (simp add: MMAP_File_Accessor_Get_Instance_def)

lemma started_initialized: "pool_started s s' \<Longrightarrow> isInitialized (pinfo s')"
  by (simp add: pool_started_def Let_def)

text \<open>
  C40: the dispatcher: the accessor returned has the requested type; every other type gets none, and nothing
  happens. The first request for the mmap accessor starts the thread pool (\<open>pool_started\<close>: it runs, its queue has an
  array of 1024 slots, every slot of the pool has a thread, but for what the system refused), and a second one changes
  nothing; asking for the AIO accessor never touches the pool, and neither touches a request.
\<close>
theorem dispatcher_spec:
  "(case Async_File_Accessor_Get_Instance type st of
      (None, st') \<Rightarrow> type \<noteq> ASYNC_FILE_ACCESSOR_AIO \<and> type \<noteq> ASYNC_FILE_ACCESSOR_MMAP \<and> st' = st
    | (Some A, st') \<Rightarrow>
        acc_type A = type \<and>
        (type = ASYNC_FILE_ACCESSOR_MMAP \<or> type = ASYNC_FILE_ACCESSOR_AIO) \<and>
        (if type = ASYNC_FILE_ACCESSOR_MMAP \<and> \<not> isInitialized (pinfo (p_mmap st))
         then pool_started (in_mmap st) (in_mmap st') else in_mmap st' = in_mmap st) \<and>
        in_aio st' = (in_aio st)\<lparr>aos := p_os st'\<rparr> \<and> requests (p_mmap st') = requests (p_mmap st) \<and>
        Async_File_Accessor_Get_Instance type st' = (Some A, st'))"
proof -
  have again: "MMAP_File_Accessor_Get_Instance (MMAP_File_Accessor_Get_Instance s) = MMAP_File_Accessor_Get_Instance s"
    and req: "requests (MMAP_File_Accessor_Get_Instance s) = requests s" for s
    using init_again init_starts started_initialized by metis+
  have same: "of_aio (of_aio st s) s' = of_aio st s'" "of_mmap (of_mmap st t) t' = of_mmap st t'" for s s' t t'
    by (simp_all add: of_aio_def of_mmap_def)
  have p: "p_mmap (of_mmap st t) = t" for t by (simp add: of_mmap_def)
  have starts: "pool_started (in_mmap st) (MMAP_File_Accessor_Get_Instance (in_mmap st))"
    if "\<not> isInitialized (pinfo (p_mmap st))" using that by (intro init_starts) simp
  have stays: "MMAP_File_Accessor_Get_Instance (in_mmap st) = in_mmap st"
    if "isInitialized (pinfo (p_mmap st))" using that by (intro init_again) simp
  show ?thesis
    by (auto simp: Async_File_Accessor_Get_Instance_def AIO_File_Accessor_Get_Instance_def mmap_table_def
        aio_table_def ASYNC_FILE_ACCESSOR_AIO_def ASYNC_FILE_ACCESSOR_MMAP_def same p req again starts stays)
      (simp_all add: in_aio_def in_mmap_def of_aio_def of_mmap_def)
qed

theorem dispatcher_spec_witness:
  "case Async_File_Accessor_Get_Instance ASYNC_FILE_ACCESSOR_MMAP (process_start (world0 [] ''in'' [])) of
     (None, st') \<Rightarrow> False
   | (Some A, st') \<Rightarrow> isRunning (pinfo (p_mmap st')) \<and> request_queue (tqueue (p_mmap st')) = Addr 1 \<and>
       threads (p_mmap st') ! 4 = WStart"
proof -
  let ?w = "world0 [] ''in'' []"
  let ?st = "process_start ?w"
  have st: "in_mmap ?st = g_mmapFileAccessor ?w" "\<not> isInitialized (pinfo (p_mmap ?st))"
    by (simp_all add: process_start_def in_mmap_def g_mmapFileAccessor_def)
  obtain A st' where d: "Async_File_Accessor_Get_Instance ASYNC_FILE_ACCESSOR_MMAP ?st = (Some A, st')"
    by (simp add: Async_File_Accessor_Get_Instance_def ASYNC_FILE_ACCESSOR_MMAP_def ASYNC_FILE_ACCESSOR_AIO_def)
  from dispatcher_spec [of ASYNC_FILE_ACCESSOR_MMAP ?st] st(2)
  have "pool_started (g_mmapFileAccessor ?w) (in_mmap st')" by (simp add: d st(1))
  then have "isRunning (pinfo (in_mmap st')) \<and> request_queue (tqueue (in_mmap st')) = Addr 1 \<and>
      threads (in_mmap st') ! 4 = WStart"
    by (simp add: pool_started_def g_mmapFileAccessor_def THREAD_POOL_SIZE_def Let_def)
  then show ?thesis by (simp add: d in_mmap_def)
qed

end
