(* ===== verification/Interface.thy ===== *)
theory Interface
  imports Accessor
begin

text \<open>
  The contract of the abstract accessor, as its clients use it: what each function of the table does to
  the states of the requests. Both accessors fulfil it (\<open>Mmap_Contract\<close>, \<open>Aio_Contract\<close>); what a client
  program can rely on is proved once, for the contract.
\<close>

section \<open>What a client sees\<close>

text \<open>The state of each request and whether it was found valid.\<close>

type_synonym view = "ptr \<Rightarrow> (request_stat \<times> bool) option"

text \<open>Requests lie below the allocation frontier; submitted ones were found valid.\<close>

definition below :: "nat \<Rightarrow> ptr \<Rightarrow> bool" where
  "below b q \<longleftrightarrow> (\<exists>a. q = Addr a \<and> a < b)"

lemma below_mono: "below b q \<Longrightarrow> b \<le> b' \<Longrightarrow> below b' q"
  by (auto simp: below_def)

definition view_ok :: "nat \<Rightarrow> view \<Rightarrow> bool" where
  "view_ok b v \<longleftrightarrow> (\<forall>q. v q \<noteq> None \<longrightarrow> below b q) \<and>
     (\<forall>q x. v q = Some (REQUEST_STAT_SUBMITTED, x) \<longrightarrow> x)"

definition at_most :: "ptr \<Rightarrow> view \<Rightarrow> view \<Rightarrow> bool" where
  "at_most p v v' \<longleftrightarrow> (\<forall>q. q \<noteq> p \<longrightarrow> v' q = v q)"

lemma at_most_refl [simp]: "at_most p v v"
  by (simp add: at_most_def)

lemma at_most_trans: "at_most p v v' \<Longrightarrow> at_most p v' v'' \<Longrightarrow> at_most p v v''"
  by (simp add: at_most_def)

lemma view_ok_mono: "view_ok b v \<Longrightarrow> b \<le> b' \<Longrightarrow> view_ok b' v"
  by (auto simp: view_ok_def intro: below_mono)

lemma view_ok_at:
  assumes "view_ok b v" "at_most p v v'" "b \<le> b'"
    "v' p \<noteq> None \<Longrightarrow> below b' p \<and> (\<forall>x. v' p = Some (REQUEST_STAT_SUBMITTED, x) \<longrightarrow> x)"
  shows "view_ok b' v'"
  unfolding view_ok_def
proof (intro conjI allI impI)
  fix q assume "v' q \<noteq> None"
  show "below b' q"
  proof (cases "q = p")
    case True
    with assms(4) \<open>v' q \<noteq> None\<close> show ?thesis by simp
  next
    case False
    with assms(1,2) \<open>v' q \<noteq> None\<close> have "below b q" by (simp add: view_ok_def at_most_def)
    with assms(3) show ?thesis by (rule below_mono [rotated])
  qed
next
  fix q x assume "v' q = Some (REQUEST_STAT_SUBMITTED, x)"
  with assms show x by (cases "q = p") (auto simp: view_ok_def at_most_def)
qed

section \<open>The contract\<close>

locale file_accessor =
  fixes A :: async_file_accessor
    and view :: "process \<Rightarrow> view"
  assumes view_os: "view (st\<lparr>p_os := w\<rparr>) = view st"
    and get_law: "view_ok (brk (p_os st)) (view st) \<Longrightarrow> getRequest A ci st = Inr (res, p, st') \<Longrightarrow>
      view st p = None \<and> (\<exists>x. view st' p = Some (REQUEST_STAT_INIT, x)) \<and>
      at_most p (view st) (view st') \<and> view_ok (brk (p_os st')) (view st')"
    and alloc_law: "view_ok (brk (p_os st)) (view st) \<Longrightarrow> allocWriteBuf A p b st = Inr (res, b', st') \<Longrightarrow>
      (res = RET_OK \<longrightarrow> map_option fst (view st' p) = map_option fst (view st p)) \<and>
      at_most p (view st) (view st') \<and> view_ok (brk (p_os st')) (view st')"
    and import_law: "view_ok (brk (p_os st)) (view st) \<Longrightarrow> importReadBuf A p b st = Inr (res, st') \<Longrightarrow>
      (res = RET_OK \<longrightarrow> map_option fst (view st' p) = map_option fst (view st p)) \<and>
      at_most p (view st) (view st') \<and> view_ok (brk (p_os st')) (view st')"
    and put_law: "view_ok (brk (p_os st)) (view st) \<Longrightarrow> putRequest A p st = Inr (res, st') \<Longrightarrow>
      (res = RET_OK \<longrightarrow> view st' p = Some (REQUEST_STAT_SUBMITTED, True)) \<and>
      at_most p (view st) (view st') \<and> view_ok (brk (p_os st')) (view st')"
    and cancel_law: "view_ok (brk (p_os st)) (view st) \<Longrightarrow> cancelRequest A p st = Inr (res, st') \<Longrightarrow>
      (\<forall>x. view st p = Some (REQUEST_STAT_SUBMITTED, x) \<longrightarrow> view st' p = Some (REQUEST_STAT_CANCEL, x)) \<and>
      at_most p (view st) (view st') \<and> view_ok (brk (p_os st')) (view st')"
begin

text \<open>A request that is prepared with any buffer and submitted, with memory calls in between.\<close>

lemma read_cycle:
  assumes ok: "view_ok (brk (p_os st)) (view st)"
    and get: "getRequest A ci st = Inr (res, p, st1)"
    and w: "brk (p_os st1) \<le> brk w"
    and import: "importReadBuf A p b (st1\<lparr>p_os := w\<rparr>) = Inr (res', st2)"
    and put: "putRequest A p st2 = Inr (RET_OK, st3)"
  shows "view st p = None \<and> view st3 p = Some (REQUEST_STAT_SUBMITTED, True) \<and>
         at_most p (view st) (view st3) \<and> view_ok (brk (p_os st3)) (view st3)"
proof -
  note g = get_law [OF ok get]
  with w have "view_ok (brk (p_os (st1\<lparr>p_os := w\<rparr>))) (view (st1\<lparr>p_os := w\<rparr>))"
    by (auto simp: view_os intro: view_ok_mono)
  note i = import_law [OF this import, unfolded view_os]
  then have ok2: "view_ok (brk (p_os st2)) (view st2)" by simp
  note p = put_law [OF ok2 put]
  have "at_most p (view st) (view st3)" using g i p by (blast intro: at_most_trans)
  with g p show ?thesis by simp
qed

lemma write_cycle:
  assumes ok: "view_ok (brk (p_os st)) (view st)"
    and get: "getRequest A ci st = Inr (res, p, st1)"
    and alloc: "allocWriteBuf A p b st1 = Inr (res', b', st2)"
    and w: "brk (p_os st2) \<le> brk w"
    and put: "putRequest A p (st2\<lparr>p_os := w\<rparr>) = Inr (RET_OK, st3)"
  shows "view st p = None \<and> view st3 p = Some (REQUEST_STAT_SUBMITTED, True) \<and>
         at_most p (view st) (view st3) \<and> view_ok (brk (p_os st3)) (view st3)"
proof -
  note g = get_law [OF ok get]
  then have "view_ok (brk (p_os st1)) (view st1)" by simp
  note a = alloc_law [OF this alloc]
  with w have "view_ok (brk (p_os (st2\<lparr>p_os := w\<rparr>))) (view (st2\<lparr>p_os := w\<rparr>))"
    by (auto simp: view_os intro: view_ok_mono)
  note p = put_law [OF this put, unfolded view_os]
  have "at_most p (view st) (view st3)" using g a p by (blast intro: at_most_trans)
  with g p show ?thesis by simp
qed

text \<open>A submitted request that is cancelled is cancelled, whatever the call returns.\<close>

lemma cancel_cycle:
  assumes "view_ok (brk (p_os st)) (view st)" "view st p = Some (REQUEST_STAT_SUBMITTED, True)"
    "cancelRequest A p st = Inr (res, st')"
  shows "view st' p = Some (REQUEST_STAT_CANCEL, True) \<and> at_most p (view st) (view st')"
  using cancel_law [OF assms(1,3)] assms(2) by blast

end

end
