(* ===== verification/Mmap_Contract.thy ===== *)
theory Mmap_Contract
  imports Interface Mmap_Status
begin

text \<open>
  The mmap accessor fulfils the contract of the abstract accessor: what each of its operations does to
  the client's view of the requests.
\<close>

section \<open>The mmap accessor\<close>

definition mmap_view :: "mmap_sys \<Rightarrow> view" where
  "mmap_view s p = (case get_req p s of Inr r \<Rightarrow> Some (r_status r, r_isValid r) | Inl f \<Rightarrow> None)"

lemma mview_Some: "get_req p s = Inr r \<Longrightarrow> mmap_view s p = Some (r_status r, r_isValid r)"
  by (simp add: mmap_view_def)

lemma mview_cong: "requests s' = requests s \<Longrightarrow> mmap_view s' = mmap_view s"
  by (rule ext) (simp add: mmap_view_def get_req_def)

lemma mview_put:
  "get_req p s = Inr r \<Longrightarrow>
   mmap_view (put_req p r' s) q = (if q = p then Some (r_status r', r_isValid r') else mmap_view s q)"
  by (simp add: mmap_view_def get_put_req)

text \<open>
  The check for validity, then something that touches one request only: every operation is of this
  form.
\<close>

definition mmap_touches :: "ptr \<Rightarrow> mmap_sys \<Rightarrow> mmap_sys \<Rightarrow> bool" where
  "mmap_touches p s s' \<longleftrightarrow> at_most p (mmap_view s) (mmap_view s') \<and> brk (os s) \<le> brk (os s') \<and>
     (mmap_view s' p = None \<longleftrightarrow> mmap_view s p = None)"

lemma mmap_touches_trans: "mmap_touches p s t \<Longrightarrow> mmap_touches p t u \<Longrightarrow> mmap_touches p s u"
  by (auto simp: mmap_touches_def intro: at_most_trans)

lemma mmap_touches_put:
  "get_req p s = Inr r \<Longrightarrow> brk (os s) \<le> brk w \<Longrightarrow> mmap_touches p s (put_req p r' (s\<lparr>os := w\<rparr>))"
proof -
  assume r: "get_req p s = Inr r" and w: "brk (os s) \<le> brk w"
  have "get_req p (s\<lparr>os := w\<rparr>) = Inr r" using r by (simp add: get_req_def)
  moreover have "mmap_view (s\<lparr>os := w\<rparr>) = mmap_view s" by (rule mview_cong) simp
  ultimately show ?thesis using w r by (simp add: mmap_touches_def at_most_def mview_put mview_Some)
qed

lemma mmap_touches_put':
  "get_req p s = Inr r \<Longrightarrow> mmap_touches p s (put_req p r' s)"
  by (simp add: mmap_touches_def at_most_def mview_put mview_Some)

lemma mmap_check_view:
  assumes c: "mmap_check_request_valid p s = Inr (res, s')"
  shows "mmap_touches p s s' \<and> map_option fst (mmap_view s' p) = map_option fst (mmap_view s p) \<and>
         (res = RET_OK \<longrightarrow> (\<exists>st. mmap_view s' p = Some (st, True))) \<and> (res \<noteq> RET_OK \<longrightarrow> s' = s)"
  using c
proof (cases rule: check_cases)
  case (valid r)
  have v: "mmap_view s' p = Some (r_status r, True)" "mmap_view s p = Some (r_status r, r_isValid r)"
    unfolding valid(4) by (simp_all add: mview_put [OF valid(1)] mview_Some [OF valid(1)])
  have "mmap_touches p s s'" unfolding valid(4) by (rule mmap_touches_put' [OF valid(1)])
  then show ?thesis unfolding v valid(2) by simp
qed (auto simp: mmap_touches_def)

lemma mmap_touches_ok:
  assumes ok: "view_ok (brk (os s)) (mmap_view s)" and t: "mmap_touches p s s'"
    and p: "\<And>x. mmap_view s' p = Some (REQUEST_STAT_SUBMITTED, x) \<Longrightarrow>
               x \<or> mmap_view s p = Some (REQUEST_STAT_SUBMITTED, x)"
  shows "view_ok (brk (os s')) (mmap_view s')"
proof (rule view_ok_at [OF ok])
  show "at_most p (mmap_view s) (mmap_view s')" "brk (os s) \<le> brk (os s')"
    using t by (simp_all add: mmap_touches_def)
  assume "mmap_view s' p \<noteq> None"
  with t have n: "mmap_view s p \<noteq> None" by (simp add: mmap_touches_def)
  with ok t have "below (brk (os s')) p" by (auto simp: view_ok_def mmap_touches_def intro: below_mono)
  with p ok show "below (brk (os s')) p \<and> (\<forall>x. mmap_view s' p = Some (REQUEST_STAT_SUBMITTED, x) \<longrightarrow> x)"
    by (auto simp: view_ok_def)
qed

lemma mmap_get_view:
  assumes ok: "view_ok (brk (os s)) (mmap_view s)" and g: "mmap_get_request ci s = Inr (res, p, s')"
  shows "mmap_view s p = None \<and> (\<exists>x. mmap_view s' p = Some (REQUEST_STAT_INIT, x)) \<and>
         at_most p (mmap_view s) (mmap_view s') \<and> view_ok (brk (os s')) (mmap_view s')"
  using g
proof (cases rule: get_request_cases)
  case (1 w1 r w)
  from 1(1,2) have "brk w1 = Suc (brk (os s))" by (auto elim: c_new_cases)
  with 1(4) have b: "brk (os s') = Suc (brk (os s))" by (simp add: 1(3) same_store_def)
  have none: "mmap_view s p = None"
    using ok by (cases "mmap_view s p") (auto simp: view_ok_def 1(2) below_def)
  have v: "mmap_view s' q = (if q = p then Some (r_status r, r_isValid r) else mmap_view s q)" for q
    unfolding 1(3) 1(2)
    by (cases q) (auto simp: mmap_view_def get_req_def put_req_def deref_def split: option.split)
  then have at: "at_most p (mmap_view s) (mmap_view s')" by (simp add: at_most_def)
  moreover have "view_ok (brk (os s')) (mmap_view s')"
    by (rule view_ok_at [OF ok at]) (simp_all add: b v 1(2,5) below_def)
  ultimately show ?thesis using none v 1(5) by simp
qed

lemma mmap_check_ok:
  assumes ok: "view_ok (brk (os s)) (mmap_view s)" and c: "mmap_check_request_valid p s = Inr (res, s')"
  shows "view_ok (brk (os s')) (mmap_view s') \<and> at_most p (mmap_view s) (mmap_view s') \<and>
         map_option fst (mmap_view s' p) = map_option fst (mmap_view s p)"
proof -
  note kv = mmap_check_view [OF c]
  then have t: "mmap_touches p s s'" by simp
  have "view_ok (brk (os s')) (mmap_view s')"
  proof (rule mmap_touches_ok [OF ok t])
    fix x assume "mmap_view s' p = Some (REQUEST_STAT_SUBMITTED, x)"
    with kv ok show "x \<or> mmap_view s p = Some (REQUEST_STAT_SUBMITTED, x)"
      by (cases "mmap_view s p") (auto simp: view_ok_def)
  qed
  with t kv show ?thesis by (simp add: mmap_touches_def)
qed

text \<open>
  Storing a request: a state that is not \<open>SUBMITTED\<close>, or the old one, or any of a valid request.
\<close>

lemma mmap_store_ok:
  assumes ok: "view_ok (brk (os s)) (mmap_view s)" and r: "get_req p s = Inr r" and w: "brk (os s) \<le> brk w"
    and st: "r_status r' = REQUEST_STAT_SUBMITTED \<Longrightarrow>
               r_isValid r' \<or> r_status r = r_status r' \<and> r_isValid r' = r_isValid r"
  shows "at_most p (mmap_view s) (mmap_view (put_req p r' (s\<lparr>os := w\<rparr>))) \<and>
         view_ok (brk w) (mmap_view (put_req p r' (s\<lparr>os := w\<rparr>))) \<and>
         mmap_view (put_req p r' (s\<lparr>os := w\<rparr>)) p = Some (r_status r', r_isValid r')"
proof -
  let ?u = "put_req p r' (s\<lparr>os := w\<rparr>)"
  have r1: "get_req p (s\<lparr>os := w\<rparr>) = Inr r" using r by (simp add: get_req_def)
  have v: "mmap_view ?u p = Some (r_status r', r_isValid r')" by (simp add: mview_put [OF r1])
  have t: "mmap_touches p s ?u" by (rule mmap_touches_put [OF r w])
  have "view_ok (brk (os ?u)) (mmap_view ?u)"
    by (rule mmap_touches_ok [OF ok t]) (use v st mview_Some [OF r] in auto)
  with t v show ?thesis by (simp add: mmap_touches_def)
qed

lemma same_os [simp]: "s\<lparr>os := os s\<rparr> = s"
  by simp

lemmas mmap_store_ok' = mmap_store_ok [where w = "os s" and s = s for s, OF _ _ order_refl, unfolded same_os]

lemma mmap_import_view:
  assumes ok: "view_ok (brk (os s)) (mmap_view s)"
    and c: "mmap_request_import_read_buffer p b s = Inr (res, s')"
  shows "(res = RET_OK \<longrightarrow> map_option fst (mmap_view s' p) = map_option fst (mmap_view s p)) \<and>
         at_most p (mmap_view s) (mmap_view s') \<and> view_ok (brk (os s')) (mmap_view s')"
proof -
  from c obtain res0 s1 where k: "mmap_check_request_valid p s = Inr (res0, s1)"
    by (auto simp: mmap_request_import_read_buffer_def)
  note kv = mmap_check_ok [OF ok k]
  then have ok1: "view_ok (brk (os s1)) (mmap_view s1)" and at1: "at_most p (mmap_view s) (mmap_view s1)"
    by simp_all
  show ?thesis
  proof (cases "get_req p s1")
    case (Inl f)
    with c k have "s' = s1" by (auto simp: mmap_request_import_read_buffer_def split: if_splits)
    with kv show ?thesis by simp
  next
    case (Inr r)
    let ?f = "r\<lparr>r_status := REQUEST_STAT_IOFAIL\<rparr>" and ?g = "r\<lparr>r_buf := b\<rparr>"
    have "s' = s1 \<or> s' = put_req p ?f s1 \<and> res \<noteq> RET_OK \<or> s' = put_req p ?g s1"
      using c k Inr by (auto simp: mmap_request_import_read_buffer_def split: if_splits)
    then show ?thesis
    proof (elim disjE conjE)
      assume "s' = s1"
      with kv show ?thesis by simp
    next
      assume "s' = put_req p ?f s1" "res \<noteq> RET_OK"
      with mmap_store_ok' [OF ok1 Inr, of ?f] at_most_trans [OF at1] show ?thesis by simp
    next
      assume s': "s' = put_req p ?g s1"
      from mmap_store_ok' [OF ok1 Inr, of ?g] kv mview_Some [OF Inr] at_most_trans [OF at1]
      show ?thesis unfolding s' by simp
    qed
  qed
qed

lemma mmap_alloc_view:
  assumes ok: "view_ok (brk (os s)) (mmap_view s)"
    and c: "mmap_request_alloc_write_buffer p b s = Inr (res, b', s')"
  shows "(res = RET_OK \<longrightarrow> map_option fst (mmap_view s' p) = map_option fst (mmap_view s p)) \<and>
         at_most p (mmap_view s) (mmap_view s') \<and> view_ok (brk (os s')) (mmap_view s')"
proof -
  from c obtain res0 s1 r where k: "mmap_check_request_valid p s = Inr (res0, s1)"
    and r: "get_req p s1 = Inr r"
    by (auto simp: mmap_request_alloc_write_buffer_def)
  note kv = mmap_check_ok [OF ok k]
  then have ok1: "view_ok (brk (os s1)) (mmap_view s1)" and at1: "at_most p (mmap_view s) (mmap_view s1)"
    by simp_all
  obtain x w where m: "retry_do (sys_mmap (unat (r_nbytes r)) True (r_fd r) (unat (r_offset r)))
      (\<lambda>b. b = MapFailed) MAX_RETRY_TIMES 0 (os s1) = (x, w)" by fastforce
  have w: "brk (os s1) \<le> brk w" using keeps_mmap [OF m] by (simp add: keeps_def)
  have same: "put_req p r s1 = s1" using r by (auto simp: put_req_def get_req_Inr_iff fun_upd_idem)
  let ?f = "r\<lparr>r_status := REQUEST_STAT_IOFAIL\<rparr>" and ?g = "r\<lparr>r_buf := x, r_isAlloced := True\<rparr>"
  have "s' = s1 \<and> res \<noteq> RET_OK \<or> s' = put_req p ?f s1 \<and> res \<noteq> RET_OK \<or>
    s' = put_req p ?f (s1\<lparr>os := w\<rparr>) \<and> res \<noteq> RET_OK \<or> s' = put_req p ?g (s1\<lparr>os := w\<rparr>)"
    using c k r m by (auto simp: mmap_request_alloc_write_buffer_def Let_def same split: if_splits)
  then show ?thesis
  proof (elim disjE conjE)
    assume "s' = s1"
    with kv show ?thesis by simp
  next
    assume "s' = put_req p ?f s1" "res \<noteq> RET_OK"
    with mmap_store_ok' [OF ok1 r, of ?f] at_most_trans [OF at1] show ?thesis by simp
  next
    assume "s' = put_req p ?f (s1\<lparr>os := w\<rparr>)" "res \<noteq> RET_OK"
    with mmap_store_ok [OF ok1 r w, of ?f] at_most_trans [OF at1] show ?thesis by simp
  next
    assume s': "s' = put_req p ?g (s1\<lparr>os := w\<rparr>)"
    from mmap_store_ok [OF ok1 r w, of ?g] kv mview_Some [OF r] at_most_trans [OF at1]
    show ?thesis unfolding s' by simp
  qed
qed

lemma submit_task_brk: "submit_new_task tk s = Inr (res, s') \<Longrightarrow> brk (os s) \<le> brk (os s')"
proof -
  assume a: "submit_new_task tk s = Inr (res, s')"
  obtain t w where n: "c_new (os s) = (t, w)" by fastforce
  have "brk (os s) \<le> brk w" using keeps_c_new [OF n] by (simp add: keeps_def)
  with a n show ?thesis
    by (auto simp: submit_new_task_def thread_pool_submit_def dest!: enqueue_task_frame split: if_splits)
qed

lemma mmap_put_view:
  assumes ok: "view_ok (brk (os s)) (mmap_view s)" and c: "mmap_put_request p s = Inr (res, s')"
  shows "(res = RET_OK \<longrightarrow> mmap_view s' p = Some (REQUEST_STAT_SUBMITTED, True)) \<and>
         at_most p (mmap_view s) (mmap_view s') \<and> view_ok (brk (os s')) (mmap_view s')"
proof -
  from c obtain res0 s1 where k: "mmap_check_request_valid p s = Inr (res0, s1)"
    by (auto simp: mmap_put_request_def)
  note kv = mmap_check_ok [OF ok k]
  then have at1: "at_most p (mmap_view s) (mmap_view s1)" by simp
  show ?thesis
  proof (cases "res0 = RET_OK")
    case False
    with c k kv show ?thesis by (simp add: mmap_put_request_def)
  next
    case True
    with c k obtain res1 s2 where su: "mmap_put_submit p s1 = Inr (res1, s2)"
      and f: "mmap_put_finish p res1 s2 = Inr (res, s')" by (auto simp: mmap_put_request_def)
    have v2: "mmap_view s2 = mmap_view s1" by (rule mview_cong) (rule put_submit_requests [OF su])
    have b2: "brk (os s1) \<le> brk (os s2)"
      using su by (auto simp: mmap_put_submit_def dest: submit_task_brk)
    have ok2: "view_ok (brk (os s2)) (mmap_view s2)" using kv b2 by (auto simp: v2 intro: view_ok_mono)
    from f obtain r where r: "get_req p s2 = Inr r" by (auto simp: mmap_put_finish_def)
    from True mmap_check_view [OF k] have "r_isValid r"
      using mview_Some [OF r] by (auto simp: v2)
    let ?f = "r\<lparr>r_status := REQUEST_STAT_CANCEL\<rparr>" and ?g = "r\<lparr>r_status := REQUEST_STAT_SUBMITTED\<rparr>"
    let ?w = "if r_isAlloced r then snd (sys_munmap (r_buf r) (unat (r_nbytes r)) (os s2)) else os s2"
    have w: "brk (os s2) \<le> brk ?w" using keeps_munmap by (simp add: keeps_def)
    show ?thesis
    proof (cases "res1 = RET_OK")
      case True
      with f r have e: "res = RET_OK" "s' = put_req p ?g s2" by (simp_all add: mmap_put_finish_def)
      from mmap_store_ok' [OF ok2 r, of ?g] \<open>r_isValid r\<close> at_most_trans [OF at1]
      show ?thesis unfolding e by (simp add: v2)
    next
      case False
      with f r have e: "res \<noteq> RET_OK" "s' = put_req p ?f (s2\<lparr>os := ?w\<rparr>)"
        by (simp_all add: mmap_put_finish_def Let_def)
      from mmap_store_ok [OF ok2 r w, of ?f] at_most_trans [OF at1] e(1)
      show ?thesis unfolding e(2) by (simp add: v2)
    qed
  qed
qed

lemma mmap_cancel_view:
  assumes ok: "view_ok (brk (os s)) (mmap_view s)" and c: "mmap_cancel_request p s = Inr (res, s')"
  shows "(\<forall>x. mmap_view s p = Some (REQUEST_STAT_SUBMITTED, x) \<longrightarrow> mmap_view s' p = Some (REQUEST_STAT_CANCEL, x)) \<and>
         at_most p (mmap_view s) (mmap_view s') \<and> view_ok (brk (os s')) (mmap_view s')"
proof -
  from c obtain res0 s1 where k: "mmap_check_request_valid p s = Inr (res0, s1)"
    by (auto simp: mmap_cancel_request_def)
  note kv = mmap_check_ok [OF ok k]
  then have ok1: "view_ok (brk (os s1)) (mmap_view s1)" and at1: "at_most p (mmap_view s) (mmap_view s1)"
    by simp_all
  show ?thesis
  proof (cases "\<exists>x. mmap_view s p = Some (REQUEST_STAT_SUBMITTED, x)")
    case True
    with ok have v: "mmap_view s p = Some (REQUEST_STAT_SUBMITTED, True)"
      unfolding view_ok_def by (metis (full_types))
    then obtain r where r: "get_req p s = Inr r" "r_status r = REQUEST_STAT_SUBMITTED" "r_isValid r"
      by (auto simp: mmap_view_def split: sum.splits)
    let ?f = "r\<lparr>r_status := REQUEST_STAT_CANCEL\<rparr>"
    from c r have s': "s' = put_req p ?f s"
      by (auto simp: mmap_cancel_request_def check_spec mmap_cancel_region_def stat_range)
    from mmap_store_ok' [OF ok r(1), of ?f] r(3) v show ?thesis unfolding s' by simp
  next
    case False
    show ?thesis
    proof (cases "s' = s1")
      case True
      with kv False show ?thesis by simp
    next
      case ne: False
      with c k obtain r where r: "get_req p s1 = Inr r" and
        s': "s' = put_req p (r\<lparr>r_status := REQUEST_STAT_CANCEL\<rparr>) s1"
        by (auto simp: mmap_cancel_request_def mmap_cancel_region_def split: if_splits)
      from mmap_store_ok' [OF ok1 r, of "r\<lparr>r_status := REQUEST_STAT_CANCEL\<rparr>"] at_most_trans [OF at1] False
      show ?thesis unfolding s' by simp
    qed
  qed
qed

interpretation mmap_acc: file_accessor mmap_table "\<lambda>st. mmap_view (in_mmap st)"
proof unfold_locales
  fix st w show "mmap_view (in_mmap (st\<lparr>p_os := w\<rparr>)) = mmap_view (in_mmap st)"
    by (rule mview_cong) simp
next
  fix st ci res p st'
  assume "view_ok (brk (p_os st)) (mmap_view (in_mmap st))" "getRequest mmap_table ci st = Inr (res, p, st')"
  then show "mmap_view (in_mmap st) p = None \<and> (\<exists>x. mmap_view (in_mmap st') p = Some (REQUEST_STAT_INIT, x)) \<and>
      at_most p (mmap_view (in_mmap st)) (mmap_view (in_mmap st')) \<and> view_ok (brk (p_os st')) (mmap_view (in_mmap st'))"
    using mmap_get_view [of "in_mmap st" ci res p] by (auto simp: mmap_table_def on_mmap2_def)
next
  fix st p b res b' st'
  assume "view_ok (brk (p_os st)) (mmap_view (in_mmap st))" "allocWriteBuf mmap_table p b st = Inr (res, b', st')"
  then show "(res = RET_OK \<longrightarrow> map_option fst (mmap_view (in_mmap st') p) = map_option fst (mmap_view (in_mmap st) p)) \<and>
      at_most p (mmap_view (in_mmap st)) (mmap_view (in_mmap st')) \<and> view_ok (brk (p_os st')) (mmap_view (in_mmap st'))"
    using mmap_alloc_view [of "in_mmap st" p b res b'] by (auto simp: mmap_table_def on_mmap2_def)
next
  fix st p b res st'
  assume "view_ok (brk (p_os st)) (mmap_view (in_mmap st))" "importReadBuf mmap_table p b st = Inr (res, st')"
  then show "(res = RET_OK \<longrightarrow> map_option fst (mmap_view (in_mmap st') p) = map_option fst (mmap_view (in_mmap st) p)) \<and>
      at_most p (mmap_view (in_mmap st)) (mmap_view (in_mmap st')) \<and> view_ok (brk (p_os st')) (mmap_view (in_mmap st'))"
    using mmap_import_view [of "in_mmap st" p b res] by (auto simp: mmap_table_def on_mmap_def)
next
  fix st p res st'
  assume "view_ok (brk (p_os st)) (mmap_view (in_mmap st))" "putRequest mmap_table p st = Inr (res, st')"
  then show "(res = RET_OK \<longrightarrow> mmap_view (in_mmap st') p = Some (REQUEST_STAT_SUBMITTED, True)) \<and>
      at_most p (mmap_view (in_mmap st)) (mmap_view (in_mmap st')) \<and> view_ok (brk (p_os st')) (mmap_view (in_mmap st'))"
    using mmap_put_view [of "in_mmap st" p res] by (auto simp: mmap_table_def on_mmap_def)
next
  fix st p res st'
  assume "view_ok (brk (p_os st)) (mmap_view (in_mmap st))" "cancelRequest mmap_table p st = Inr (res, st')"
  then show "(\<forall>x. mmap_view (in_mmap st) p = Some (REQUEST_STAT_SUBMITTED, x) \<longrightarrow>
        mmap_view (in_mmap st') p = Some (REQUEST_STAT_CANCEL, x)) \<and>
      at_most p (mmap_view (in_mmap st)) (mmap_view (in_mmap st')) \<and> view_ok (brk (p_os st')) (mmap_view (in_mmap st'))"
    using mmap_cancel_view [of "in_mmap st" p res] by (auto simp: mmap_table_def on_mmap_def)
qed

end
