(* ===== verification/Aio_Contract.thy ===== *)
theory Aio_Contract
  imports Interface Aio_Invariants
begin

text \<open>
  The AIO accessor fulfils the contract of the abstract accessor.
\<close>

definition aio_view :: "aio_sys \<Rightarrow> view" where
  "aio_view s p = (case aget p s of Inr r \<Rightarrow> Some (ar_status r, ar_isValid r) | Inl f \<Rightarrow> None)"

lemma aview_Some: "aget p s = Inr r \<Longrightarrow> aio_view s p = Some (ar_status r, ar_isValid r)"
  by (simp add: aio_view_def)

lemma aview_cong: "areqs s' = areqs s \<Longrightarrow> aio_view s' = aio_view s"
  by (rule ext) (simp add: aio_view_def aget_def)

lemma aview_put:
  "aget p s = Inr r \<Longrightarrow>
   aio_view (aput p r' s) q = (if q = p then Some (ar_status r', ar_isValid r') else aio_view s q)"
  by (simp add: aio_view_def aget_put)

text \<open>
  Storing a request: a state that is not \<open>SUBMITTED\<close>, or the old one, or any of a valid request.
\<close>

lemma aio_store_ok:
  assumes ok: "view_ok b (aio_view s)" and r: "aget p s = Inr r" and w: "b \<le> brk w"
    and st: "ar_status r' = REQUEST_STAT_SUBMITTED \<Longrightarrow>
               ar_isValid r' \<or> ar_status r = ar_status r' \<and> ar_isValid r' = ar_isValid r"
  shows "at_most p (aio_view s) (aio_view (aput p r' (s\<lparr>aos := w\<rparr>))) \<and>
         view_ok (brk w) (aio_view (aput p r' (s\<lparr>aos := w\<rparr>))) \<and>
         aio_view (aput p r' (s\<lparr>aos := w\<rparr>)) p = Some (ar_status r', ar_isValid r')"
proof -
  let ?u = "aput p r' (s\<lparr>aos := w\<rparr>)"
  have r1: "aget p (s\<lparr>aos := w\<rparr>) = Inr r" using r by simp
  have v: "aio_view ?u q = (if q = p then Some (ar_status r', ar_isValid r') else aio_view s q)" for q
    using aview_cong [of "s\<lparr>aos := w\<rparr>" s] by (simp add: aview_put [OF r1])
  then have at: "at_most p (aio_view s) (aio_view ?u)" by (simp add: at_most_def)
  have old: "aio_view s p = Some (ar_status r, ar_isValid r)" by (rule aview_Some [OF r])
  have "below b p" using ok old by (simp add: view_ok_def)
  then have "below (brk w) p" using w by (rule below_mono)
  moreover have "ar_isValid r'" if "ar_status r' = REQUEST_STAT_SUBMITTED"
    using st [OF that] old ok that unfolding view_ok_def by metis
  ultimately have "view_ok (brk w) (aio_view ?u)"
    by (intro view_ok_at [OF ok at w]) (simp add: v)
  with at v show ?thesis by simp
qed

lemma same_aos [simp]: "s\<lparr>aos := aos s\<rparr> = s"
  by simp

lemmas aio_store_ok' = aio_store_ok [where w = "aos s" and s = s for s, unfolded same_aos]

lemma aio_check_ok:
  assumes ok: "view_ok (brk (aos s)) (aio_view s)" and c: "aio_check_request_valid p s = Inr (res, s')"
  shows "view_ok (brk (aos s')) (aio_view s') \<and> at_most p (aio_view s) (aio_view s') \<and>
         map_option fst (aio_view s' p) = map_option fst (aio_view s p) \<and>
         (res = RET_OK \<longrightarrow> (\<exists>st. aio_view s' p = Some (st, True)))"
  using c
proof (cases rule: acheck_cases)
  case (invalid r w)
  then have "aio_view s' = aio_view s" "brk (aos s') = brk (aos s)"
    by (auto intro: aview_cong simp: same_store_def)
  with ok invalid show ?thesis by simp
next
  case (valid r)
  with ok aview_Some [OF valid(1)] show ?thesis by simp
next
  case (made r fd w path)
  have w: "brk (aos s) \<le> brk (snd (sys_close fd w))"
    using sys_open_frame [OF made(6)] by (simp add: close_brk)
  from aio_store_ok [OF ok made(1) w, of "r\<lparr>ar_isValid := True\<rparr>"] aview_Some [OF made(1)]
  show ?thesis unfolding made(8) by simp
qed (use ok in simp)

lemma aio_get_view:
  assumes ok: "view_ok (brk (aos s)) (aio_view s)" and g: "aio_get_request ci s = Inr (res, p, s')"
  shows "aio_view s p = None \<and> (\<exists>x. aio_view s' p = Some (REQUEST_STAT_INIT, x)) \<and>
         at_most p (aio_view s) (aio_view s') \<and> view_ok (brk (aos s')) (aio_view s')"
proof -
  obtain q w1 where n: "c_new (aos s) = (q, w1)" by fastforce
  from g n have q: "q \<noteq> Null" by (auto simp: aio_get_request_def split: if_splits)
  with n have qa: "q = Addr (brk (aos s))" "brk w1 = Suc (brk (aos s))" by (auto elim: c_new_cases)
  let ?r = "zero_aio_request\<lparr>ar_info := aio_copied_info ci\<rparr>"
  let ?s1 = "aput q ?r (s\<lparr>aos := w1\<rparr>)"
  have none: "aio_view s q = None"
    using ok by (cases "aio_view s q") (auto simp: view_ok_def qa(1) below_def)
  have v1: "aio_view ?s1 k = (if k = q then Some (REQUEST_STAT_INIT, False) else aio_view s k)" for k
    unfolding qa(1) by (cases k)
      (auto simp: aio_view_def aget_def aput_def deref_def zero_aio_request_def split: option.split)
  then have at1: "at_most q (aio_view s) (aio_view ?s1)" by (simp add: at_most_def)
  have "view_ok (brk (aos ?s1)) (aio_view ?s1)"
    by (rule view_ok_at [OF ok at1]) (use v1 [of q] qa in \<open>simp_all add: below_def\<close>)
  moreover from g n q obtain res2 s2 where c: "aio_check_request_valid q ?s1 = Inr (res2, s2)"
    by (auto simp: aio_get_request_def)
  ultimately have kv: "view_ok (brk (aos s2)) (aio_view s2)" "at_most q (aio_view ?s1) (aio_view s2)"
    "map_option fst (aio_view s2 q) = Some REQUEST_STAT_INIT"
    using aio_check_ok [OF _ c] v1 by auto
  note at2 = at_most_trans [OF at1 kv(2)]
  show ?thesis
  proof (cases "res2 = RET_OK")
    case False
    with g n q c have "s' = s2" "p = q" by (auto simp: aio_get_request_def)
    with kv at2 none show ?thesis by auto
  next
    case True
    with g n q c obtain path r where path: "file_name (fn ci) = Inr path" and r: "aget q s2 = Inr r"
      by (auto simp: aio_get_request_def)
    obtain fd w2 where o: "retry_for (sys_open path (aio_open_mode ci)) (\<lambda>fd. fd = - 1)
        MAX_RETRY_TIMES (aos s2) = (fd, w2)" by fastforce
    obtain r2 w3 where st: "aio_request_setup ci fd r w2 = (r2, w3)" by fastforce
    from g n q c True path r o st have s': "s' = aput q r2 (s2\<lparr>aos := w3\<rparr>)" "p = q"
      by (auto simp: aio_get_request_def)
    from open_retry_spec [OF o [unfolded retry_for_eq_do]] have "brk w2 = brk (aos s2)"
      by (auto simp: same_store_def)
    moreover from st have "brk w3 = brk w2" "ar_status r2 = REQUEST_STAT_INIT"
      by (auto simp: aio_request_setup_def sys_lseek_cur_def split: option.splits prod.splits)
    ultimately show ?thesis
      using aio_store_ok [OF kv(1) r, of w3 r2] at_most_trans [OF at2] none unfolding s' by simp
  qed
qed

lemma aio_import_view:
  assumes ok: "view_ok (brk (aos s)) (aio_view s)"
    and c: "aio_request_import_read_buffer p b s = Inr (res, s')"
  shows "(res = RET_OK \<longrightarrow> map_option fst (aio_view s' p) = map_option fst (aio_view s p)) \<and>
         at_most p (aio_view s) (aio_view s') \<and> view_ok (brk (aos s')) (aio_view s')"
proof -
  from c obtain res0 s1 where k: "aio_check_request_valid p s = Inr (res0, s1)"
    by (auto simp: aio_request_import_read_buffer_def)
  note kv = aio_check_ok [OF ok k]
  then have ok1: "view_ok (brk (aos s1)) (aio_view s1)" and at1: "at_most p (aio_view s) (aio_view s1)"
    by simp_all
  show ?thesis
  proof (cases "s' = s1")
    case True
    with kv show ?thesis by simp
  next
    case False
    with c k obtain r where r: "aget p s1 = Inr r" and
      s': "s' = aput p (r\<lparr>ar_buf := b, ar_cb := (ar_cb r)\<lparr>aio_buf := b\<rparr>\<rparr>) s1"
      by (auto simp: aio_request_import_read_buffer_def split: if_splits)
    from aio_store_ok' [OF ok1 r order_refl, of "r\<lparr>ar_buf := b, ar_cb := (ar_cb r)\<lparr>aio_buf := b\<rparr>\<rparr>"]
      kv aview_Some [OF r] at_most_trans [OF at1]
    show ?thesis unfolding s' by simp
  qed
qed

lemma aio_alloc_view:
  assumes ok: "view_ok (brk (aos s)) (aio_view s)"
    and c: "aio_request_alloc_write_buffer p b s = Inr (res, b', s')"
  shows "(res = RET_OK \<longrightarrow> map_option fst (aio_view s' p) = map_option fst (aio_view s p)) \<and>
         at_most p (aio_view s) (aio_view s') \<and> view_ok (brk (aos s')) (aio_view s')"
proof -
  from c obtain res0 s1 where k: "aio_check_request_valid p s = Inr (res0, s1)"
    by (auto simp: aio_request_alloc_write_buffer_def)
  note kv = aio_check_ok [OF ok k]
  then have ok1: "view_ok (brk (aos s1)) (aio_view s1)" and at1: "at_most p (aio_view s) (aio_view s1)"
    by simp_all
  show ?thesis
  proof (cases "s' = s1")
    case True
    with kv show ?thesis by simp
  next
    case False
    with c k obtain r where r: "aget p s1 = Inr r"
      by (auto simp: aio_request_alloc_write_buffer_def split: if_splits)
    obtain x w where m: "retry_do (c_malloc (aio_nbytes (ar_cb r))) (\<lambda>b. b = Null) MAX_RETRY_TIMES 0 (aos s1) = (x, w)"
      by fastforce
    let ?g = "r\<lparr>ar_buf := x, ar_cb := (ar_cb r)\<lparr>aio_buf := x\<rparr>, ar_isAlloced := True\<rparr>"
    from False c k r m have s': "s' = aput p ?g (s1\<lparr>aos := w\<rparr>)"
      by (auto simp: aio_request_alloc_write_buffer_def retry_for_eq_do split: if_splits)
    from aio_store_ok [OF ok1 r malloc_retry_brk [OF m], of ?g] kv aview_Some [OF r] at_most_trans [OF at1]
    show ?thesis unfolding s' by simp
  qed
qed

lemma aview_put_same:
  assumes "aget p s = Inr r" "ar_status r' = ar_status r" "ar_isValid r' = ar_isValid r"
  shows "aio_view (aput p r' s) = aio_view s"
  by (rule ext) (simp add: aview_put [OF assms(1)] assms aview_Some [OF assms(1)])

lemma aview_aos: "aio_view (s\<lparr>aos := w\<rparr>) = aio_view s"
  by (rule aview_cong) simp

lemma free_buffer_view:
  assumes c: "aio_free_buffer p s = Inr s'"
  shows "aio_view s' = aio_view s \<and> brk (aos s') = brk (aos s)"
proof -
  from c obtain r w where r: "aget p s = Inr r" and w: "c_free (aio_buf (ar_cb r)) (aos s) = Inr w"
    and s': "s' = aput p (r\<lparr>ar_buf := Null, ar_cb := (ar_cb r)\<lparr>aio_buf := Null\<rparr>\<rparr>) (s\<lparr>aos := w\<rparr>)"
    by (auto simp: aio_free_buffer_def)
  have "aget p (s\<lparr>aos := w\<rparr>) = Inr r" using r by simp
  then show ?thesis using free_brk [OF w] unfolding s' by (simp add: aview_put_same aview_aos)
qed

lemma put_submit_view:
  assumes c: "aio_put_submit p s = Inr (res, s')"
  shows "aio_view s' = aio_view s \<and> brk (aos s) \<le> brk (aos s')"
proof -
  from c obtain r where r: "aget p s = Inr r" by (auto simp: aio_put_submit_def)
  let ?r = "r\<lparr>ar_cb := (ar_cb r)\<lparr>aio_sival := p\<rparr>\<rparr>"
  obtain res2 s2 where su: "sys_aio_submit (ASYNC_FILE_ACCESS_WRITE = direction (ar_info r)) p
      (aput p ?r s) = (res2, s2)" by fastforce
  have "areqs s2 = areqs (aput p ?r s)" and b: "brk (aos s2) = brk (aos s)"
    using su by (auto simp: sys_aio_submit_def ask_def Let_def split: if_splits)
  then have v: "aio_view s2 = aio_view s"
    using aview_put_same [OF r, of ?r] aview_cong [of s2 "aput p ?r s"] by simp
  have "s' = s2 \<or> aio_free_buffer p s2 = Inr s'"
    using c r su by (auto simp: aio_put_submit_def split: if_splits)
  with v b free_buffer_view [of p s2 s'] show ?thesis by auto
qed

lemma aio_put_view:
  assumes ok: "view_ok (brk (aos s)) (aio_view s)" and c: "aio_put_request p s = Inr (res, s')"
  shows "(res = RET_OK \<longrightarrow> aio_view s' p = Some (REQUEST_STAT_SUBMITTED, True)) \<and>
         at_most p (aio_view s) (aio_view s') \<and> view_ok (brk (aos s')) (aio_view s')"
proof -
  from c obtain res0 s1 where k: "aio_check_request_valid p s = Inr (res0, s1)"
    by (auto simp: aio_put_request_def)
  note kv = aio_check_ok [OF ok k]
  then have at1: "at_most p (aio_view s) (aio_view s1)" by simp
  show ?thesis
  proof (cases "res0 = RET_OK")
    case False
    with c k kv show ?thesis by (simp add: aio_put_request_def)
  next
    case True
    with c k obtain res1 s2 where su: "aio_put_submit p s1 = Inr (res1, s2)"
      and f: "aio_put_finish p res1 s2 = Inr (res, s')" by (auto simp: aio_put_request_def)
    from put_submit_view [OF su] have v2: "aio_view s2 = aio_view s1" and b2: "brk (aos s1) \<le> brk (aos s2)"
      by auto
    have ok2: "view_ok (brk (aos s2)) (aio_view s2)" using kv b2 by (auto simp: v2 intro: view_ok_mono)
    from f obtain r where r: "aget p s2 = Inr r" by (auto simp: aio_put_finish_def aio_put_mark_def)
    have valid: "ar_isValid r" using True kv aview_Some [OF r] by (auto simp: v2)
    let ?g = "r\<lparr>ar_status := REQUEST_STAT_SUBMITTED\<rparr>"
    let ?s3 = "aput p ?g s2"
    have "s' = ?s3 \<or> aio_list_request p ?s3 = Inr (res, s')"
      using f r by (auto simp: aio_put_finish_def aio_put_mark_def split: if_splits)
    then have v3: "aio_view s' = aio_view ?s3" and b3: "brk (aos s2) \<le> brk (aos s')"
      using list_request_frame [of p ?s3 res s'] aview_cong [of s' ?s3] by auto
    have a3: "at_most p (aio_view s1) (aio_view ?s3)" "view_ok (brk (aos s2)) (aio_view ?s3)"
      "aio_view ?s3 p = Some (REQUEST_STAT_SUBMITTED, True)"
      using aio_store_ok' [OF ok2 r order_refl, of ?g] valid by (simp_all add: v2)
    show ?thesis unfolding v3 using a3(3) at_most_trans [OF at1 a3(1)] view_ok_mono [OF a3(2) b3] by simp
  qed
qed

lemma aio_cancel_view:
  assumes ok: "view_ok (brk (aos s)) (aio_view s)" and c: "aio_cancel_request p s = Inr (res, s')"
  shows "(\<forall>x. aio_view s p = Some (REQUEST_STAT_SUBMITTED, x) \<longrightarrow> aio_view s' p = Some (REQUEST_STAT_CANCEL, x)) \<and>
         at_most p (aio_view s) (aio_view s') \<and> view_ok (brk (aos s')) (aio_view s')"
proof -
  from c obtain res0 s1 r where k: "aio_check_request_valid p s = Inr (res0, s1)"
    and r: "aget p s1 = Inr r" by (auto simp: aio_cancel_request_def)
  note kv = aio_check_ok [OF ok k]
  then have ok1: "view_ok (brk (aos s1)) (aio_view s1)" and at1: "at_most p (aio_view s) (aio_view s1)"
    by simp_all
  have sub: "res0 = RET_OK \<and> ar_status r = REQUEST_STAT_SUBMITTED \<and> ar_isValid r \<and> x"
    if "aio_view s p = Some (REQUEST_STAT_SUBMITTED, x)" for x
  proof -
    from that ok have x unfolding view_ok_def by blast
    from that obtain q where q: "aget p s = Inr q" "ar_isValid q" "ar_status q = REQUEST_STAT_SUBMITTED"
      using \<open>x\<close> by (auto simp: aio_view_def split: sum.splits)
    from acheck_valid [OF q(1,2)] k r q \<open>x\<close> show ?thesis by simp
  qed
  show ?thesis
  proof (cases "res0 \<noteq> RET_OK \<or> ar_status r \<le> REQUEST_STAT_INIT \<or> REQUEST_STAT_CANCEL \<le> ar_status r")
    case True
    with c k r have "s' = s1" by (auto simp: aio_cancel_request_def)
    with True kv sub show ?thesis by (auto simp: stat_range)
  next
    case False
    obtain res2 s2 where cc: "sys_aio_cancel (ar_fd r) p (ar_cb r) s1 = (res2, s2)" by fastforce
    have "areqs s2 = areqs s1" and b2: "brk (aos s1) \<le> brk (aos s2)"
      using cc by (auto simp: sys_aio_cancel_def ask_def Let_def split: if_splits option.splits aio_progress.splits)
    then have v2: "aio_view s2 = aio_view s1" by (intro aview_cong)
    from False c k r cc obtain s3 q where
      s3: "(if ar_isAlloced r then aio_free_buffer p s2 else Inr s2) = Inr s3" and q: "aget p s3 = Inr q"
      and s': "s' = aput p (q\<lparr>ar_status := REQUEST_STAT_CANCEL\<rparr>) s3"
      by (auto simp: aio_cancel_request_def)
    have v3: "aio_view s3 = aio_view s1" and b3: "brk (aos s1) \<le> brk (aos s3)"
      using s3 v2 b2 free_buffer_view [of p s2 s3] by (auto split: if_splits)
    have ok3: "view_ok (brk (aos s3)) (aio_view s3)" using ok1 b3 by (auto simp: v3 intro: view_ok_mono)
    have "ar_isValid q = ar_isValid r" using aview_Some [OF q] aview_Some [OF r] v3 by simp
    with aio_store_ok' [OF ok3 q order_refl, of "q\<lparr>ar_status := REQUEST_STAT_CANCEL\<rparr>"] sub
      at_most_trans [OF at1]
    show ?thesis unfolding s' by (auto simp: v3)
  qed
qed

interpretation aio_acc: file_accessor aio_table "\<lambda>st. aio_view (in_aio st)"
proof unfold_locales
  fix st w show "aio_view (in_aio (st\<lparr>p_os := w\<rparr>)) = aio_view (in_aio st)"
    by (rule aview_cong) simp
next
  fix st ci res p st'
  assume "view_ok (brk (p_os st)) (aio_view (in_aio st))" "getRequest aio_table ci st = Inr (res, p, st')"
  then show "aio_view (in_aio st) p = None \<and> (\<exists>x. aio_view (in_aio st') p = Some (REQUEST_STAT_INIT, x)) \<and>
      at_most p (aio_view (in_aio st)) (aio_view (in_aio st')) \<and> view_ok (brk (p_os st')) (aio_view (in_aio st'))"
    using aio_get_view [of "in_aio st" ci res p] by (auto simp: aio_table_def on_aio2_def)
next
  fix st p b res b' st'
  assume "view_ok (brk (p_os st)) (aio_view (in_aio st))" "allocWriteBuf aio_table p b st = Inr (res, b', st')"
  then show "(res = RET_OK \<longrightarrow> map_option fst (aio_view (in_aio st') p) = map_option fst (aio_view (in_aio st) p)) \<and>
      at_most p (aio_view (in_aio st)) (aio_view (in_aio st')) \<and> view_ok (brk (p_os st')) (aio_view (in_aio st'))"
    using aio_alloc_view [of "in_aio st" p b res b'] by (auto simp: aio_table_def on_aio2_def)
next
  fix st p b res st'
  assume "view_ok (brk (p_os st)) (aio_view (in_aio st))" "importReadBuf aio_table p b st = Inr (res, st')"
  then show "(res = RET_OK \<longrightarrow> map_option fst (aio_view (in_aio st') p) = map_option fst (aio_view (in_aio st) p)) \<and>
      at_most p (aio_view (in_aio st)) (aio_view (in_aio st')) \<and> view_ok (brk (p_os st')) (aio_view (in_aio st'))"
    using aio_import_view [of "in_aio st" p b res] by (auto simp: aio_table_def on_aio_def)
next
  fix st p res st'
  assume "view_ok (brk (p_os st)) (aio_view (in_aio st))" "putRequest aio_table p st = Inr (res, st')"
  then show "(res = RET_OK \<longrightarrow> aio_view (in_aio st') p = Some (REQUEST_STAT_SUBMITTED, True)) \<and>
      at_most p (aio_view (in_aio st)) (aio_view (in_aio st')) \<and> view_ok (brk (p_os st')) (aio_view (in_aio st'))"
    using aio_put_view [of "in_aio st" p res] by (auto simp: aio_table_def on_aio_def)
next
  fix st p res st'
  assume "view_ok (brk (p_os st)) (aio_view (in_aio st))" "cancelRequest aio_table p st = Inr (res, st')"
  then show "(\<forall>x. aio_view (in_aio st) p = Some (REQUEST_STAT_SUBMITTED, x) \<longrightarrow>
        aio_view (in_aio st') p = Some (REQUEST_STAT_CANCEL, x)) \<and>
      at_most p (aio_view (in_aio st)) (aio_view (in_aio st')) \<and> view_ok (brk (p_os st')) (aio_view (in_aio st'))"
    using aio_cancel_view [of "in_aio st" p res] by (auto simp: aio_table_def on_aio_def)
qed

end
