(* ===== verification/Client.thy ===== *)
theory Client
  imports Mmap_Contract Aio_Contract
begin

text \<open>
  The asynchronous half of the test client (\<open>test_async_accessor.c\<close>): reading and writing one picture
  through the abstract accessor, with either implementation. The two functions are modelled as
  they are called one after the other, with no event of a pool thread or of the system inside a call.
\<close>

section \<open>The calls\<close>

text \<open>
  The description of a request: the initialiser zeroes the name, \<open>memcpy\<close> copies it without its
  terminator, past the array when it is too long.
\<close>

definition client_info :: "async_file_access_direction_t \<Rightarrow> string \<Rightarrow> u32 \<Rightarrow> fault + async_file_access_request_info"
  where
  "client_info dir filename len =
     (if MAX_FILE_NAME_LEN < length filename then Inl OutOfBounds
      else Inr \<lparr>direction = dir,
                fn = filename @ replicate (MAX_FILE_NAME_LEN - length filename) (CHR 0x00),
                req_size = len, req_offset = 0\<rparr>)"

text \<open>The three calls for a read; \<open>*buffer\<close> keeps its value when the first one fails.\<close>

definition submit_read ::
  "async_file_accessor \<Rightarrow> async_file_access_request_info \<Rightarrow> ptr \<Rightarrow> process \<Rightarrow> fault + (ret_t \<times> ptr \<times> process)"
  where
  "submit_read A ci buf st =
     and_then (getRequest A ci st) (\<lambda>(res, p, st1).
       if res \<noteq> RET_OK then Inr (res, buf, st1)
       else let (b, w) = c_malloc (unat (req_size ci)) (p_os st1)
            in and_then (importReadBuf A p b (st1\<lparr>p_os := w\<rparr>)) (\<lambda>(_, st2).
               and_then (putRequest A p st2) (\<lambda>(res', st3). Inr (res', b, st3))))"

definition async_read_one_picture_to_file ::
  "async_file_accessor_type_t \<Rightarrow> ptr \<Rightarrow> string \<Rightarrow> process \<Rightarrow> fault + (ret_t \<times> ptr \<times> u32 \<times> process)" where
  "async_read_one_picture_to_file type buf filename st =
     (let (fd, w) = sys_open filename Rdonly (p_os st)
      in case sys_fstat fd w of
           None \<Rightarrow> Inl Uninit
         | Some n \<Rightarrow>
             (let len = word_of_nat n :: u32
              in case Async_File_Accessor_Get_Instance type (st\<lparr>p_os := w\<rparr>) of
                   (None, st1) \<Rightarrow> Inl NullDeref
                 | (Some A, st1) \<Rightarrow>
                     and_then (client_info ASYNC_FILE_ACCESS_READ filename len) (\<lambda>ci.
                     and_then (submit_read A ci buf st1) (\<lambda>(res, b, st2).
                       Inr (res, b, len, st2\<lparr>p_os := snd (sys_close fd (p_os st2))\<rparr>)))))"

text \<open>The three calls for a write; the result of \<open>allocWriteBuf\<close> is not looked at.\<close>

definition submit_write ::
  "async_file_accessor \<Rightarrow> async_file_access_request_info \<Rightarrow> ptr \<Rightarrow> process \<Rightarrow> fault + (ret_t \<times> process)" where
  "submit_write A ci buffer st =
     and_then (getRequest A ci st) (\<lambda>(res, p, st1).
       if res \<noteq> RET_OK then Inr (res, st1)
       else and_then (allocWriteBuf A p Null st1) (\<lambda>(_, buf, st2).
            and_then (c_memcpy buf buffer (unat (req_size ci)) (p_os st2)) (\<lambda>w.
              putRequest A p (st2\<lparr>p_os := w\<rparr>))))"

definition async_write_one_picture_to_file ::
  "async_file_accessor_type_t \<Rightarrow> ptr \<Rightarrow> string \<Rightarrow> u32 \<Rightarrow> process \<Rightarrow> fault + (ret_t \<times> process)" where
  "async_write_one_picture_to_file type buffer filename len st =
     (case Async_File_Accessor_Get_Instance type st of
        (A, st1) \<Rightarrow>
          and_then (client_info ASYNC_FILE_ACCESS_WRITE filename len) (\<lambda>ci.
            if buffer = Null \<or> len = 0 then Inr (RET_INVALID_OPERATION, st1)
            else case A of None \<Rightarrow> Inl NullDeref | Some acc \<Rightarrow> submit_write acc ci buffer st1))"

section \<open>What the contract gives a client\<close>

text \<open>Exactly one request, a new one, was submitted.\<close>

definition submits_one :: "view \<Rightarrow> view \<Rightarrow> bool" where
  "submits_one v v' \<longleftrightarrow>
     (\<exists>p. v p = None \<and> v' p = Some (REQUEST_STAT_SUBMITTED, True) \<and> at_most p v v')"

context file_accessor
begin

lemma submit_read_submits:
  assumes ok: "view_ok (brk (p_os st)) (view st)" and c: "submit_read A ci buf st = Inr (RET_OK, b, st')"
  shows "submits_one (view st) (view st') \<and> view_ok (brk (p_os st')) (view st')"
proof -
  from c obtain res p st1 where g: "getRequest A ci st = Inr (res, p, st1)" and res: "res = RET_OK"
    by (auto simp: submit_read_def split: if_splits)
  obtain b' w where m: "c_malloc (unat (req_size ci)) (p_os st1) = (b', w)" by fastforce
  from c g res m obtain res2 st2 where i: "importReadBuf A p b' (st1\<lparr>p_os := w\<rparr>) = Inr (res2, st2)"
    and put: "putRequest A p st2 = Inr (RET_OK, st')" by (auto simp: submit_read_def)
  have "brk (p_os st1) \<le> brk w" using m by (auto simp: c_malloc_def ask_def Let_def split: if_splits)
  from read_cycle [OF ok g this i put] show ?thesis by (auto simp: submits_one_def)
qed

lemma submit_write_submits:
  assumes ok: "view_ok (brk (p_os st)) (view st)" and c: "submit_write A ci buffer st = Inr (RET_OK, st')"
  shows "submits_one (view st) (view st') \<and> view_ok (brk (p_os st')) (view st')"
proof -
  from c obtain res p st1 where g: "getRequest A ci st = Inr (res, p, st1)" and res: "res = RET_OK"
    by (auto simp: submit_write_def split: if_splits)
  from c g res obtain res2 b st2 w where a: "allocWriteBuf A p Null st1 = Inr (res2, b, st2)"
    and m: "c_memcpy b buffer (unat (req_size ci)) (p_os st2) = Inr w"
    and put: "putRequest A p (st2\<lparr>p_os := w\<rparr>) = Inr (RET_OK, st')" by (auto simp: submit_write_def)
  have "brk (p_os st2) \<le> brk w" using m mem_store_frame by (auto simp: c_memcpy_def)
  from write_cycle [OF ok g a this put] show ?thesis by (auto simp: submits_one_def)
qed

end


section \<open>The client submits\<close>

text \<open>The requests of the accessor of a type.\<close>

definition requests_of :: "async_file_accessor_type_t \<Rightarrow> process \<Rightarrow> view" where
  "requests_of type st =
     (if type = ASYNC_FILE_ACCESSOR_AIO then aio_view (in_aio st) else mmap_view (in_mmap st))"

lemma malloc_arr_brk: "c_malloc_arr n w = (q, w') \<Longrightarrow> brk w \<le> brk w'"
  by (auto simp: c_malloc_arr_def ask_def Let_def split: if_splits)

lemma create_threads_keep:
  "requests (fold create_thread xs s) = requests s \<and> brk (os (fold create_thread xs s)) = brk (os s)"
  by (induction xs arbitrary: s) (simp_all add: create_thread_def ask_def set_thread_def Let_def)

lemma get_instance_keeps:
  "requests (MMAP_File_Accessor_Get_Instance s) = requests s \<and>
   brk (os s) \<le> brk (os (MMAP_File_Accessor_Get_Instance s))"
  using malloc_arr_brk
  by (auto simp: MMAP_File_Accessor_Get_Instance_def thread_pool_init_def set_running_def Let_def
      create_threads_keep split: prod.split)

lemma instance_cases:
  assumes "Async_File_Accessor_Get_Instance type st = (Some A, st1)"
    and ok: "view_ok (brk (p_os st)) (requests_of type st)"
  shows "(type = ASYNC_FILE_ACCESSOR_AIO \<and> A = aio_table \<or>
          type = ASYNC_FILE_ACCESSOR_MMAP \<and> type \<noteq> ASYNC_FILE_ACCESSOR_AIO \<and> A = mmap_table) \<and>
         requests_of type st1 = requests_of type st \<and> view_ok (brk (p_os st1)) (requests_of type st1)"
proof -
  have a: "aio_view (in_aio (of_aio st (in_aio st))) = aio_view (in_aio st)" by simp
  have m: "mmap_view (MMAP_File_Accessor_Get_Instance (in_mmap st)) = mmap_view (in_mmap st)"
    by (rule mview_cong) (simp add: get_instance_keeps)
  have b: "brk (p_os st) \<le> brk (os (MMAP_File_Accessor_Get_Instance (in_mmap st)))"
    using get_instance_keeps [of "in_mmap st"] by simp
  show ?thesis using assms view_ok_mono [OF _ b] m
    by (auto simp: Async_File_Accessor_Get_Instance_def AIO_File_Accessor_Get_Instance_def requests_of_def
        split: if_splits)
qed

lemma requests_of_os: "requests_of type (st\<lparr>p_os := w\<rparr>) = requests_of type st"
  by (simp add: requests_of_def mmap_acc.view_os aio_acc.view_os)

lemma read_submits:
  assumes ok: "view_ok (brk (p_os st)) (requests_of type st)"
    and c: "async_read_one_picture_to_file type buf filename st = Inr (RET_OK, b, len, st')"
  shows "submits_one (requests_of type st) (requests_of type st') \<and> view_ok (brk (p_os st')) (requests_of type st')"
proof -
  obtain fd w where o: "sys_open filename Rdonly (p_os st) = (fd, w)" by fastforce
  from c o obtain A st1 ci st2 where
    i: "Async_File_Accessor_Get_Instance type (st\<lparr>p_os := w\<rparr>) = (Some A, st1)"
    and s: "submit_read A ci buf st1 = Inr (RET_OK, b, st2)"
    and st': "st' = st2\<lparr>p_os := snd (sys_close fd (p_os st2))\<rparr>"
    by (auto simp: async_read_one_picture_to_file_def Let_def split: option.splits prod.splits)
  have "brk w = brk (p_os st)" using sys_open_frame [OF o] by simp
  then have "view_ok (brk (p_os (st\<lparr>p_os := w\<rparr>))) (requests_of type (st\<lparr>p_os := w\<rparr>))"
    using ok by (simp add: requests_of_os)
  note ic = instance_cases [OF i this]
  then have "submits_one (requests_of type st1) (requests_of type st2) \<and> view_ok (brk (p_os st2)) (requests_of type st2)"
    using mmap_acc.submit_read_submits [of st1 ci buf b st2] aio_acc.submit_read_submits [of st1 ci buf b st2] s
    by (auto simp: requests_of_def)
  moreover have "brk (snd (sys_close fd (p_os st2))) = brk (p_os st2)"
    using sys_close_frame [of fd "p_os st2"] by (cases "sys_close fd (p_os st2)") simp
  ultimately show ?thesis using ic by (simp add: st' requests_of_os)
qed

lemma write_submits:
  assumes ok: "view_ok (brk (p_os st)) (requests_of type st)"
    and c: "async_write_one_picture_to_file type buffer filename len st = Inr (RET_OK, st')"
  shows "submits_one (requests_of type st) (requests_of type st') \<and> view_ok (brk (p_os st')) (requests_of type st')"
proof -
  from c obtain A st1 ci where i: "Async_File_Accessor_Get_Instance type st = (Some A, st1)"
    and s: "submit_write A ci buffer st1 = Inr (RET_OK, st')"
    by (auto simp: async_write_one_picture_to_file_def split: option.splits prod.splits if_splits)
  from instance_cases [OF i ok] show ?thesis
    using mmap_acc.submit_write_submits [of st1 ci buffer st'] aio_acc.submit_write_submits [of st1 ci buffer st'] s
    by (auto simp: requests_of_def)
qed

text \<open>
  C17: a client's read or write of a picture that reports success has submitted exactly one request, a
  new one, with either accessor: it was not there before, it is \<open>SUBMITTED\<close> and valid now, and every
  other request of the accessor is as it was, so that any number of calls may follow one another.
\<close>
theorem client_submits:
  assumes "view_ok (brk (p_os st)) (requests_of type st)"
    and "(\<exists>b. async_read_one_picture_to_file type buffer filename st = Inr (RET_OK, b, len, st')) \<or>
         async_write_one_picture_to_file type buffer filename len st = Inr (RET_OK, st')"
  shows "submits_one (requests_of type st) (requests_of type st') \<and> view_ok (brk (p_os st')) (requests_of type st')"
  using assms(2) read_submits [OF assms(1)] write_submits [OF assms(1)] by auto

text \<open>A process whose AIO accessor has listed a request before.\<close>

definition client_world :: process where
  "client_world =
     \<lparr>p_os = demo_world\<lparr>parrs := [0 \<mapsto> \<lparr>a_len = 1024, a_at = (\<lambda>_. None)\<rparr>]\<rparr>,
      p_mmap = g_mmapFileAccessor demo_world,
      p_aio = (g_aioFileAccessor demo_world)\<lparr>req_list := Addr 0, req_count := 1\<rparr>\<rparr>"

theorem client_submits_witness:
  "\<exists>b len st'. async_read_one_picture_to_file ASYNC_FILE_ACCESSOR_AIO Null ''in'' client_world =
     Inr (RET_OK, b, len, st') \<and>
     submits_one (requests_of ASYNC_FILE_ACCESSOR_AIO client_world) (requests_of ASYNC_FILE_ACCESSOR_AIO st')"
  (is "\<exists>b len st'. ?c = _ \<and> _")
proof -
  have "requests_of ASYNC_FILE_ACCESSOR_AIO client_world = (\<lambda>_. None)"
    by (rule ext) (simp add: requests_of_def client_world_def in_aio_def g_aioFileAccessor_def
        aio_view_def aget_def deref_def split: ptr.split)
  then have ok: "view_ok (brk (p_os client_world)) (requests_of ASYNC_FILE_ACCESSOR_AIO client_world)"
    by (simp add: view_ok_def)
  have "case ?c of Inr (res, b, len, st') \<Rightarrow> res = RET_OK | Inl f \<Rightarrow> False" by code_simp
  then obtain b len st' where c: "?c = Inr (RET_OK, b, len, st')" by (auto split: sum.splits)
  then show ?thesis using client_submits [OF ok] by blast
qed

end
