(* ===== verification/Test_Client.thy ===== *)
theory Test_Client
  imports Client
begin

text \<open>
  The rest of the test client (\<open>test_async_accessor.c\<close>): its arguments, its data set, the synchronous read
  and write of a picture, and \<open>main\<close>, which copies ten pictures with or without the library.
\<close>

section \<open>Synchronous input and output\<close>

text \<open>
  \<open>read\<close> and \<open>write\<close> at the position of a descriptor: they are refused, or transfer what there is. A bad
  buffer is an error of the call, not a fault of the program.
\<close>

definition sys_read :: "int \<Rightarrow> ptr \<Rightarrow> nat \<Rightarrow> world \<Rightarrow> fault + (int \<times> world)" where
  "sys_read fd p n w =
     (let (bad, w1) = ask w
      in case fd_lookup w1 fd of
           None \<Rightarrow> Inr (- 1, w1)
         | Some d \<Rightarrow>
             (case files w1 (o_path d) of
                None \<Rightarrow> Inr (- 1, w1)
              | Some f \<Rightarrow>
                  if bad \<or> \<not> can_read (o_mode d) \<or> p = Null \<or> p = MapFailed then Inr (- 1, w1)
                  else let bs = take n (drop (o_pos d) (f_content f))
                       in and_then (mem_store p bs w1) (\<lambda>w2.
                            Inr (int (length bs),
                                 w2\<lparr>fds := (fds w2)[nat fd := Some (d\<lparr>o_pos := o_pos d + length bs\<rparr>)]\<rparr>))))"

definition sys_write :: "int \<Rightarrow> ptr \<Rightarrow> nat \<Rightarrow> world \<Rightarrow> fault + (int \<times> world)" where
  "sys_write fd p n w =
     (let (bad, w1) = ask w
      in case fd_lookup w1 fd of
           None \<Rightarrow> Inr (- 1, w1)
         | Some d \<Rightarrow>
             (case files w1 (o_path d) of
                None \<Rightarrow> Inr (- 1, w1)
              | Some f \<Rightarrow>
                  if bad \<or> \<not> can_write (o_mode d) \<or> p = Null \<or> p = MapFailed then Inr (- 1, w1)
                  else and_then (mem_load p n w1) (\<lambda>bs.
                         Inr (int n,
                              w1\<lparr>files := (files w1)(o_path d :=
                                    Some (f\<lparr>f_content := file_write (o_pos d) bs (f_content f)\<rparr>)),
                                 fds := (fds w1)[nat fd := Some (d\<lparr>o_pos := o_pos d + n\<rparr>)]\<rparr>))))"

text \<open>Neither looks at a result; without a size, the size is an indeterminate value.\<close>

definition sync_read_one_picture_to_file :: "string \<Rightarrow> world \<Rightarrow> fault + (ret_t \<times> ptr \<times> u32 \<times> world)" where
  "sync_read_one_picture_to_file filename w =
     (let (fd, w1) = sys_open filename Rdonly w
      in case sys_fstat fd w1 of
           None \<Rightarrow> Inl Uninit
         | Some n \<Rightarrow>
             (let len = word_of_nat n :: u32;
                  (b, w2) = c_malloc (unat len) w1
              in and_then (sys_read fd b (unat len) w2) (\<lambda>(_, w3).
                   Inr (RET_OK, b, len, snd (sys_close fd w3)))))"

definition sync_write_one_picture_to_file :: "ptr \<Rightarrow> string \<Rightarrow> u32 \<Rightarrow> world \<Rightarrow> fault + (ret_t \<times> world)" where
  "sync_write_one_picture_to_file buffer filename len w =
     (let res = (if buffer \<noteq> Null \<and> len \<noteq> 0 then RET_OK else RET_INVALID_OPERATION);
          (fd, w1) = sys_open filename RdwrCreatTrunc w;
          (buf, w2) = c_malloc (unat len) w1
      in and_then (c_memcpy buf buffer (unat len) w2) (\<lambda>w3.
         and_then (sys_write fd buf (unat len) w3) (\<lambda>(_, w4).
         and_then (c_free buf (snd (sys_close fd w4))) (\<lambda>w5. Inr (res, w5)))))"

section \<open>Arguments and data set\<close>

text \<open>\<open>g_en_async\<close> and \<open>g_async_method_type\<close>, or \<open>None\<close> where the program exits.\<close>

definition parse_args :: "string list \<Rightarrow> (bool \<times> async_file_accessor_type_t) option" where
  "parse_args argv =
     (if length argv < 3 \<or> argv ! 1 \<noteq> ''0'' \<and> argv ! 1 \<noteq> ''1'' \<or> argv ! 2 \<noteq> ''1'' \<and> argv ! 2 \<noteq> ''2''
      then None
      else Some (argv ! 1 \<noteq> ''0'',
                 if argv ! 2 \<noteq> ''1'' then ASYNC_FILE_ACCESSOR_MMAP else ASYNC_FILE_ACCESSOR_AIO))"

record file_t =
  input_filename :: string
  output_filename :: string
  f_buf :: ptr
  f_size :: u32

text \<open>
  The directories are macros of the build; \<open>junk\<close> is what the memory of a new \<open>file_t\<close> holds in its last
  two members, which are not stored.
\<close>

definition picture :: "string \<Rightarrow> string \<Rightarrow> ptr \<times> u32 \<Rightarrow> char \<Rightarrow> file_t" where
  "picture in_dir out_dir junk c =
     \<lparr>input_filename = in_dir @ ''/RAW_4K_'' @ [c] @ ''.RAW'',
      output_filename = out_dir @ ''/new_RAW_4K_'' @ [c] @ ''.RAW'', f_buf = fst junk, f_size = snd junk\<rparr>"

definition pictures :: "string \<Rightarrow> string \<Rightarrow> ptr \<times> u32 \<Rightarrow> file_t list" where
  "pictures in_dir out_dir junk = map (picture in_dir out_dir junk) ''0123456789''"

fun new_entries :: "nat \<Rightarrow> world \<Rightarrow> ptr list \<times> world" where
  "new_entries 0 w = ([], w)"
| "new_entries (Suc n) w = (let (p, w1) = c_new w; (ps, w2) = new_entries n w1 in (p # ps, w2))"

definition create_test_data_set ::
  "string \<Rightarrow> string \<Rightarrow> ptr \<times> u32 \<Rightarrow> world \<Rightarrow> fault + (ret_t \<times> file_t list \<times> world)" where
  "create_test_data_set in_dir out_dir junk w =
     (let (file_set, w1) = c_malloc_arr 10 w;
          (entries, w2) = new_entries 10 w1
      in if file_set = Null \<or> Null \<in> set entries then Inl NullDeref
         else Inr (RET_OK, pictures in_dir out_dir junk, w2))"

section \<open>\<open>main\<close>\<close>

text \<open>The loops over the pictures; the last result is kept.\<close>

definition read_picture ::
  "bool \<Rightarrow> async_file_accessor_type_t \<Rightarrow> file_t \<Rightarrow> process \<Rightarrow> fault + (ret_t \<times> file_t \<times> process)" where
  "read_picture en_async type f st =
     (if en_async
      then and_then (async_read_one_picture_to_file type (f_buf f) (input_filename f) st) (\<lambda>(res, b, len, st').
             Inr (res, f\<lparr>f_buf := b, f_size := len\<rparr>, st'))
      else and_then (sync_read_one_picture_to_file (input_filename f) (p_os st)) (\<lambda>(res, b, len, w).
             Inr (res, f\<lparr>f_buf := b, f_size := len\<rparr>, st\<lparr>p_os := w\<rparr>)))"

definition write_picture ::
  "bool \<Rightarrow> async_file_accessor_type_t \<Rightarrow> file_t \<Rightarrow> process \<Rightarrow> fault + (ret_t \<times> process)" where
  "write_picture en_async type f st =
     (if en_async then async_write_one_picture_to_file type (f_buf f) (output_filename f) (f_size f) st
      else and_then (sync_write_one_picture_to_file (f_buf f) (output_filename f) (f_size f) (p_os st)) (\<lambda>(res, w).
             Inr (res, st\<lparr>p_os := w\<rparr>)))"

fun read_pictures ::
  "bool \<Rightarrow> async_file_accessor_type_t \<Rightarrow> ret_t \<Rightarrow> file_t list \<Rightarrow> process \<Rightarrow> fault + (ret_t \<times> file_t list \<times> process)"
  where
  "read_pictures en_async type res [] st = Inr (res, [], st)"
| "read_pictures en_async type res (f # fs) st =
     and_then (read_picture en_async type f st) (\<lambda>(res', f', st').
     and_then (read_pictures en_async type res' fs st') (\<lambda>(res'', fs', st''). Inr (res'', f' # fs', st'')))"

fun write_pictures ::
  "bool \<Rightarrow> async_file_accessor_type_t \<Rightarrow> ret_t \<Rightarrow> file_t list \<Rightarrow> process \<Rightarrow> fault + (ret_t \<times> process)" where
  "write_pictures en_async type res [] st = Inr (res, st)"
| "write_pictures en_async type res (f # fs) st =
     and_then (write_picture en_async type f st) (\<lambda>(res', st'). write_pictures en_async type res' fs st')"

fun free_buffers :: "file_t list \<Rightarrow> world \<Rightarrow> fault + world" where
  "free_buffers [] w = Inr w"
| "free_buffers (f # fs) w = and_then (c_free (f_buf f) w) (free_buffers fs)"

text \<open>
  What happens in the background: while \<open>main\<close> sleeps, while it waits for all reads and all writes, and while
  it releases. \<open>main\<close> is \<open>None\<close> where it does not get further with that.
\<close>

record background =
  sleep_reads :: "process_event list"
  wait_reads :: "process_event list"
  sleep_writes :: "process_event list"
  wait_writes :: "process_event list"
  on_release :: "process_event list"

definition await :: "(fault + 'a) option \<Rightarrow> ('a \<Rightarrow> (fault + 'b) option) \<Rightarrow> (fault + 'b) option" where
  "await m k = (case m of None \<Rightarrow> None | Some (Inl f) \<Rightarrow> Some (Inl f) | Some (Inr x) \<Rightarrow> k x)"

lemma await_simps [simp]: "await (Some (Inr x)) k = k x" "await (Some (Inl f)) k = Some (Inl f)" "await None k = None"
  by (simp_all add: await_def)

text \<open>\<open>sleep(5)\<close>, and \<open>waitAll\<close> with the library; without it the result stays.\<close>

definition settle ::
  "async_file_accessor option \<Rightarrow> process_event list \<Rightarrow> process_event list \<Rightarrow> ret_t \<Rightarrow> process \<Rightarrow>
   (fault + (ret_t \<times> process)) option" where
  "settle A napping wait_for res st =
     (case run process_exec napping st of
        None \<Rightarrow> None
      | Some st1 \<Rightarrow> (case A of None \<Rightarrow> Some (Inr (res, st1)) | Some acc \<Rightarrow> waitAll acc wait_for st1))"

definition shut_down ::
  "async_file_accessor option \<Rightarrow> process_event list \<Rightarrow> ret_t \<Rightarrow> process \<Rightarrow> (fault + (ret_t \<times> process)) option" where
  "shut_down A es res st =
     (case A of
        None \<Rightarrow> Some (Inr (res, st))
      | Some acc \<Rightarrow> await (Some (cancelAll acc st)) (\<lambda>(_, st1). releaseAll acc es st1))"

text \<open>The exit status and the process after \<open>main\<close>; 1 is the status of \<open>parse_args\<close>.\<close>

definition main ::
  "string list \<Rightarrow> string \<Rightarrow> string \<Rightarrow> ptr \<times> u32 \<Rightarrow> background \<Rightarrow> process \<Rightarrow> (fault + (ret_t \<times> process)) option" where
  "main argv in_dir out_dir junk bg st =
     (case parse_args argv of
        None \<Rightarrow> Some (Inr (1, st))
      | Some (en_async, type) \<Rightarrow>
          let (A, st0) = (if en_async then Async_File_Accessor_Get_Instance type st else (None, st))
          in await (Some (create_test_data_set in_dir out_dir junk (p_os st0))) (\<lambda>(res, fs, w).
             await (Some (read_pictures en_async type res fs (st0\<lparr>p_os := w\<rparr>))) (\<lambda>(res1, fs1, st1).
             await (settle A (sleep_reads bg) (wait_reads bg) res1 st1) (\<lambda>(res2, st2).
             await (Some (write_pictures en_async type res2 fs1 st2)) (\<lambda>(res3, st3).
             await (settle A (sleep_writes bg) (wait_writes bg) res3 st3) (\<lambda>(res4, st4).
             await (shut_down A (on_release bg) res4 st4) (\<lambda>(res5, st5).
               Some (and_then (free_buffers fs1 (p_os st5)) (\<lambda>w'. Inr (res5, st5\<lparr>p_os := w'\<rparr>))))))))))"

section \<open>One picture\<close>

definition calm :: "world \<Rightarrow> bool" where
  "calm w \<longleftrightarrow> (\<forall>n. \<not> refuse w n) \<and> (\<forall>a. brk w \<le> a \<longrightarrow> heap w a = None)"

definition content :: "world \<Rightarrow> string \<Rightarrow> u8 list option" where
  "content w p = map_option f_content (files w p)"

definition same_fds :: "world \<Rightarrow> world \<Rightarrow> bool" where
  "same_fds w w' \<longleftrightarrow> (\<forall>k. fd_lookup w' k = fd_lookup w k)"

lemma same_fds_trans: "same_fds u v \<Longrightarrow> same_fds v w \<Longrightarrow> same_fds u w"
  by (simp add: same_fds_def)

lemma open_calm:
  assumes "calm w" "opened_file m (files w p) \<noteq> None" "sys_open p m w = (fd, w')"
  shows "opened p m fd w w' \<and> same_store w w'"
proof -
  have "fd \<noteq> - 1" using assms by (auto simp: sys_open_def ask_def calm_def Let_def split: prod.splits)
  with sys_open_spec [OF assms(3)] sys_open_frame [OF assms(3)] show ?thesis
    by (auto simp: opened_def same_store_def)
qed

lemma overwrite_whole: "length b = length c \<Longrightarrow> overwrite 0 c b = c"
  by (simp add: overwrite_def)

lemma fd_update_close:
  assumes "fd_lookup w fd \<noteq> None"
  shows "fd_lookup (snd (sys_close fd (w\<lparr>fds := (fds w)[nat fd := Some d]\<rparr>))) k =
         (if k = fd then None else fd_lookup w k)"
proof -
  have "0 \<le> fd" "fd_at (fds w) (nat fd) \<noteq> None" using assms by (auto simp: fd_lookup_def split: if_splits)
  then show ?thesis by (auto simp: sys_close_def fd_lookup_def fd_at_update)
qed

lemma fd_lookup_heap: "fd_lookup (w\<lparr>heap := h\<rparr>) k = fd_lookup w k"
  by (simp add: fd_lookup_def)

lemma close_store: "same_store w (snd (sys_close fd w))" "files (snd (sys_close fd w)) = files w"
  by (auto simp: sys_close_def same_store_def split: option.splits)

text \<open>A synchronous read of a file: a new buffer with its bytes.\<close>

lemma sync_read_ok:
  assumes w: "calm w" and c: "content w p = Some c" "length c < 2 ^ 32"
  shows "\<exists>w'. sync_read_one_picture_to_file p w = Inr (RET_OK, Addr (brk w), word_of_nat (length c), w') \<and>
           files w' = files w \<and> heap w' = (heap w)(brk w := Some c) \<and> brk w' = Suc (brk w) \<and>
           calm w' \<and> same_fds w w'"
proof -
  from c obtain f where f: "files w p = Some f" "f_content f = c" by (auto simp: content_def)
  obtain fd w1 where o: "sys_open p Rdonly w = (fd, w1)" by fastforce
  with open_calm [OF w, of Rdonly p fd w1] f
  have o1: "opened p Rdonly fd w w1" "same_store w w1" by (auto simp: opened_file_def)
  let ?d = "\<lparr>o_path = p, o_mode = Rdonly, o_pos = 0\<rparr>"
  from o1 f have files: "files w1 = files w" and d: "fd_lookup w1 fd = Some ?d" and old: "fd_lookup w fd = None"
    and fds: "k \<noteq> fd \<Longrightarrow> fd_lookup w1 k = fd_lookup w k" for k
    by (auto simp: opened_def opened_file_def fun_upd_idem)
  from o1 w have calm: "calm w1" and st: "heap w1 = heap w" "brk w1 = brk w" "refuse w1 = refuse w"
    by (auto simp: same_store_def calm_def)
  have n: "unat (word_of_nat (length c) :: u32) = length c"
    using c(2) by (simp add: unat_of_nat)
  have s: "sys_fstat fd w1 = Some (length c)" using d files f by (simp add: sys_fstat_def)
  let ?w2 = "w1\<lparr>calls := Suc (calls w1), brk := Suc (brk w1),
      heap := (heap w1)(brk w1 := Some (replicate (length c) (fill w1)))\<rparr>"
  have m: "c_malloc (length c) w1 = (Addr (brk w1), ?w2)"
    using calm by (simp add: c_malloc_def ask_def calm_def)
  let ?w3 = "?w2\<lparr>calls := Suc (calls ?w2), heap := (heap w1)(brk w1 := Some c)\<rparr>"
  let ?w4 = "?w3\<lparr>fds := (fds ?w3)[nat fd := Some (?d\<lparr>o_pos := length c\<rparr>)]\<rparr>"
  have l: "fd_lookup (?w2\<lparr>calls := Suc (calls ?w2)\<rparr>) fd = Some ?d" "fd_lookup ?w3 k = fd_lookup w1 k" for k
    using d by (simp_all add: fd_lookup_def split: if_splits)
  have r: "sys_read fd (Addr (brk w1)) (length c) ?w2 = Inr (int (length c), ?w4)"
    unfolding sys_read_def ask_def
    using calm l(1) files f by (simp add: calm_def can_read_def mem_store_def overwrite_whole)
  let ?w5 = "snd (sys_close fd ?w4)"
  have "sync_read_one_picture_to_file p w = Inr (RET_OK, Addr (brk w1), word_of_nat (length c), ?w5)"
    unfolding sync_read_one_picture_to_file_def o by (simp add: s n m r)
  moreover have "files ?w5 = files w" "heap ?w5 = (heap w)(brk w := Some c)" "brk ?w5 = Suc (brk w)"
    "refuse ?w5 = refuse w"
    using close_store [where w = ?w4 and fd = fd] files st by (simp_all add: same_store_def)
  moreover have "same_fds w ?w5"
  proof -
    have "fd_lookup ?w5 k = (if k = fd then None else fd_lookup ?w3 k)" for k
      by (rule fd_update_close) (simp only: l(2) d, simp)
    then show ?thesis unfolding same_fds_def l(2) using fds old by auto
  qed
  ultimately show ?thesis using w st by (intro exI [of _ ?w5]) (auto simp: calm_def)
qed

text \<open>A synchronous write of a buffer: the file has its bytes, the copy is gone.\<close>

lemma sync_write_ok:
  assumes w: "calm w" and b: "heap w a = Some c" "c \<noteq> []" "length c < 2 ^ 32" "len = word_of_nat (length c)"
  shows "\<exists>w'. sync_write_one_picture_to_file (Addr a) p len w = Inr (RET_OK, w') \<and>
           content w' = (content w)(p := Some c) \<and> heap w' = heap w \<and> brk w \<le> brk w' \<and> calm w' \<and> same_fds w w'"
proof -
  let ?n = "length c"
  have n: "unat len = ?n" using b(3,4) by (simp add: unat_of_nat)
  then have n0: "len \<noteq> 0" using b(2) by auto
  obtain fd w1 where o: "sys_open p RdwrCreatTrunc w = (fd, w1)" by fastforce
  with open_calm [OF w, of RdwrCreatTrunc p fd w1]
  have o1: "opened p RdwrCreatTrunc fd w w1" "same_store w w1" by (auto simp: opened_file_def split: option.splits)
  let ?d = "\<lparr>o_path = p, o_mode = RdwrCreatTrunc, o_pos = 0\<rparr>"
  from o1(1) obtain f where f: "files w1 = (files w)(p := Some f)" "f_content f = []"
    by (auto simp: opened_def opened_file_def split: option.splits)
  from o1 have d: "fd_lookup w1 fd = Some ?d" and old: "fd_lookup w fd = None"
    and fds: "k \<noteq> fd \<Longrightarrow> fd_lookup w1 k = fd_lookup w k" for k
    by (auto simp: opened_def)
  from o1 w have calm: "calm w1" and st: "heap w1 = heap w" "brk w1 = brk w" "refuse w1 = refuse w"
    by (auto simp: same_store_def calm_def)
  let ?w2 = "w1\<lparr>calls := Suc (calls w1), brk := Suc (brk w1),
      heap := (heap w1)(brk w1 := Some (replicate ?n (fill w1)))\<rparr>"
  have m: "c_malloc ?n w1 = (Addr (brk w1), ?w2)"
    using calm by (simp add: c_malloc_def ask_def calm_def)
  have "a < brk w" using w b(1) by (fastforce simp: calm_def linorder_not_less [symmetric])
  then have a: "heap ?w2 a = Some c" using st b(1) by simp
  let ?w3 = "?w2\<lparr>heap := (heap w1)(brk w1 := Some c)\<rparr>"
  have cp: "c_memcpy (Addr (brk w1)) (Addr a) ?n ?w2 = Inr ?w3"
    unfolding c_memcpy_def mem_load_heap [OF a order_refl]
    by (simp add: mem_store_def overwrite_whole)
  let ?w3c = "?w3\<lparr>calls := Suc (calls ?w3)\<rparr>"
  let ?w4 = "?w3c\<lparr>files := (files w1)(p := Some (f\<lparr>f_content := file_write 0 c (f_content f)\<rparr>)),
      fds := (fds w1)[nat fd := Some (?d\<lparr>o_pos := ?n\<rparr>)]\<rparr>"
  let ?w4f = "?w3c\<lparr>files := (files w1)(p := Some (f\<lparr>f_content := file_write 0 c (f_content f)\<rparr>))\<rparr>"
  have l: "fd_lookup ?w3c fd = Some ?d" "fd_lookup ?w4f k = fd_lookup w1 k" for k
    using d by (simp_all add: fd_lookup_def split: if_splits)
  have wr: "sys_write fd (Addr (brk w1)) ?n ?w3 = Inr (int ?n, ?w4)"
    unfolding sys_write_def ask_def
    using calm l(1) f by (simp add: calm_def can_write_def mem_load_def)
  let ?w5 = "snd (sys_close fd ?w4)"
  have h: "heap ?w5 = (heap w)(brk w := Some c)" and k: "brk ?w5 = Suc (brk w)" "refuse ?w5 = refuse w"
    using close_store [where w = ?w4 and fd = fd] st by (simp_all add: same_store_def)
  let ?w6 = "?w5\<lparr>heap := heap w\<rparr>"
  have "heap w (brk w) = None" using w by (simp add: calm_def)
  then have fr: "c_free (Addr (brk w1)) ?w5 = Inr ?w6"
    using h st by (simp add: c_free_def fun_upd_idem)
  have "sync_write_one_picture_to_file (Addr a) p len w = Inr (RET_OK, ?w6)"
    unfolding sync_write_one_picture_to_file_def o Let_def prod.case n m cp and_then_simps wr snd_conv fr
    by (simp add: n0)
  moreover have "content ?w6 = (content w)(p := Some c)"
    using f by (auto simp: content_def close_store(2) fun_eq_iff file_write_def overwrite_def resize_def)
  moreover have "same_fds w ?w6"
  proof -
    have "fd_lookup ?w5 k = (if k = fd then None else fd_lookup ?w4f k)" for k
      using fd_update_close [of ?w4f fd] d unfolding l(2) by simp
    then have "fd_lookup ?w6 k = (if k = fd then None else fd_lookup w1 k)" for k
      unfolding l(2) fd_lookup_heap .
    then show ?thesis unfolding same_fds_def using fds old by auto
  qed
  ultimately show ?thesis using w k by (intro exI [of _ ?w6]) (auto simp: calm_def)
qed

section \<open>All pictures\<close>

text \<open>The data set with the buffers that the reads give it, from address \<open>b\<close> on.\<close>

fun loaded :: "world \<Rightarrow> nat \<Rightarrow> file_t list \<Rightarrow> file_t list" where
  "loaded w b [] = []"
| "loaded w b (f # fs) =
     f\<lparr>f_buf := Addr b, f_size := word_of_nat (length (the (content w (input_filename f))))\<rparr> # loaded w (Suc b) fs"

fun buffers :: "world \<Rightarrow> nat \<Rightarrow> file_t list \<Rightarrow> nat \<Rightarrow> u8 list option" where
  "buffers w b [] = (\<lambda>_. None)"
| "buffers w b (f # fs) = (buffers w (Suc b) fs)(b := content w (input_filename f))"

lemma buffers_above: "a < b \<Longrightarrow> buffers w b fs a = None"
  by (induction fs arbitrary: b) auto

lemma buffers_beyond: "b + length fs \<le> a \<Longrightarrow> buffers w b fs a = None"
  by (induction fs arbitrary: b) auto

definition readable :: "world \<Rightarrow> file_t \<Rightarrow> bool" where
  "readable w f \<longleftrightarrow> (\<exists>c. content w (input_filename f) = Some c \<and> c \<noteq> [] \<and> length c < 2 ^ 32)"

lemma loaded_cong: "content w = content v \<Longrightarrow> loaded w b fs = loaded v b fs \<and> buffers w b fs = buffers v b fs"
  by (induction fs arbitrary: b) auto

lemma read_pictures_ok:
  assumes "calm (p_os st)" "\<forall>f \<in> set fs. readable (p_os st) f"
  shows "\<exists>w'. read_pictures False type RET_OK fs st =
           Inr (RET_OK, loaded (p_os st) (brk (p_os st)) fs, st\<lparr>p_os := w'\<rparr>) \<and>
         content w' = content (p_os st) \<and> heap w' = heap (p_os st) ++ buffers (p_os st) (brk (p_os st)) fs \<and>
         calm w' \<and> same_fds (p_os st) w'"
  using assms
proof (induction fs arbitrary: st)
  case Nil
  then show ?case by (intro exI [of _ "p_os st"]) (simp add: same_fds_def)
next
  case (Cons f fs)
  let ?w = "p_os st"
  from Cons.prems(2) obtain c where c: "content ?w (input_filename f) = Some c" "length c < 2 ^ 32"
    by (auto simp: readable_def)
  from sync_read_ok [OF Cons.prems(1) c] obtain w1 where
    r: "sync_read_one_picture_to_file (input_filename f) ?w = Inr (RET_OK, Addr (brk ?w), word_of_nat (length c), w1)"
    and w1: "files w1 = files ?w" "heap w1 = (heap ?w)(brk ?w := Some c)" "brk w1 = Suc (brk ?w)" "calm w1" "same_fds ?w w1"
    by blast
  from w1(1) have ct: "content w1 = content ?w" by (simp add: content_def fun_eq_iff)
  with Cons.prems(2) have "\<forall>f \<in> set fs. readable (p_os (st\<lparr>p_os := w1\<rparr>)) f" by (simp add: readable_def)
  from Cons.IH [OF _ this] w1(3,4) loaded_cong [OF ct] ct obtain w' where
    rs: "read_pictures False type RET_OK fs (st\<lparr>p_os := w1\<rparr>) =
      Inr (RET_OK, loaded ?w (Suc (brk ?w)) fs, st\<lparr>p_os := w'\<rparr>)"
    and w': "content w' = content ?w" "heap w' = heap w1 ++ buffers ?w (Suc (brk ?w)) fs" "calm w'" "same_fds w1 w'"
    by auto
  have "heap w' = heap ?w ++ buffers ?w (brk ?w) (f # fs)"
    using buffers_above [of "brk ?w" "Suc (brk ?w)"]
    by (auto simp: w' w1 c fun_eq_iff map_add_def split: option.splits)
  moreover have "same_fds ?w w'" using w1(5) w'(4) by (rule same_fds_trans)
  moreover have "read_pictures False type RET_OK (f # fs) st =
      Inr (RET_OK, loaded ?w (brk ?w) (f # fs), st\<lparr>p_os := w'\<rparr>)"
    by (simp add: read_picture_def r rs c del: and_then_Inr_iff)
  ultimately show ?case using w' by blast
qed

text \<open>Writing the pictures \<open>fs\<close> with their buffers.\<close>

definition has_buffer :: "world \<Rightarrow> file_t \<Rightarrow> u8 list \<Rightarrow> bool" where
  "has_buffer w f c \<longleftrightarrow> (\<exists>a. f_buf f = Addr a \<and> heap w a = Some c) \<and> c \<noteq> [] \<and> length c < 2 ^ 32 \<and>
     f_size f = word_of_nat (length c)"

lemma write_pictures_ok:
  assumes "calm (p_os st)" "\<forall>f \<in> set fs. \<exists>c. has_buffer (p_os st) f c" "distinct (map output_filename fs)"
  shows "\<exists>w'. write_pictures False type RET_OK fs st = Inr (RET_OK, st\<lparr>p_os := w'\<rparr>) \<and>
         (\<forall>f \<in> set fs. \<forall>c. has_buffer (p_os st) f c \<longrightarrow> content w' (output_filename f) = Some c) \<and>
         (\<forall>q. q \<notin> output_filename ` set fs \<longrightarrow> content w' q = content (p_os st) q) \<and>
         heap w' = heap (p_os st) \<and> calm w' \<and> same_fds (p_os st) w'"
  using assms
proof (induction fs arbitrary: st)
  case Nil
  then show ?case by (intro exI [of _ "p_os st"]) (simp add: same_fds_def)
next
  case (Cons f fs)
  let ?w = "p_os st"
  from Cons.prems(2) obtain c where hb: "has_buffer ?w f c" by auto
  then obtain a where a: "f_buf f = Addr a" "heap ?w a = Some c" and c: "c \<noteq> []" "length c < 2 ^ 32"
    "f_size f = word_of_nat (length c)" by (auto simp: has_buffer_def)
  from sync_write_ok [OF Cons.prems(1) a(2) c, of "output_filename f"] obtain w1 where
    r: "sync_write_one_picture_to_file (Addr a) (output_filename f) (f_size f) ?w = Inr (RET_OK, w1)"
    and w1: "content w1 = (content ?w)(output_filename f := Some c)" "heap w1 = heap ?w" "calm w1" "same_fds ?w w1"
    by blast
  from w1(2) have hs: "has_buffer w1 = has_buffer ?w" by (simp add: has_buffer_def fun_eq_iff)
  with Cons.prems(2) have "\<forall>f \<in> set fs. \<exists>c. has_buffer (p_os (st\<lparr>p_os := w1\<rparr>)) f c" by simp
  from Cons.IH [OF _ this] w1(3) Cons.prems(3) hs obtain w' where
    rs: "write_pictures False type RET_OK fs (st\<lparr>p_os := w1\<rparr>) = Inr (RET_OK, st\<lparr>p_os := w'\<rparr>)"
    and out: "\<forall>f \<in> set fs. \<forall>c. has_buffer ?w f c \<longrightarrow> content w' (output_filename f) = Some c"
    and other: "\<forall>q. q \<notin> output_filename ` set fs \<longrightarrow> content w' q = content w1 q"
    and w': "heap w' = heap w1" "calm w'" "same_fds w1 w'" by auto
  have "output_filename f \<notin> output_filename ` set fs" using Cons.prems(3) by auto
  with other w1(1) have "content w' (output_filename f) = Some c" by simp
  moreover have "d = c" if "has_buffer ?w f d" for d using that a by (simp add: has_buffer_def)
  ultimately have "\<forall>g \<in> set (f # fs). \<forall>c. has_buffer ?w g c \<longrightarrow> content w' (output_filename g) = Some c"
    using out by auto
  moreover have "\<forall>q. q \<notin> output_filename ` set (f # fs) \<longrightarrow> content w' q = content ?w q"
    using other w1(1) by auto
  moreover have "write_pictures False type RET_OK (f # fs) st = Inr (RET_OK, st\<lparr>p_os := w'\<rparr>)"
    using a(1) r rs by (simp add: write_picture_def del: and_then_Inr_iff)
  moreover have "same_fds ?w w'" using w1(4) w'(3) by (rule same_fds_trans)
  ultimately show ?case using w1(2) w' by auto
qed

lemma free_buffers_ok:
  assumes "\<forall>f \<in> set fs. \<exists>a. f_buf f = Addr a \<and> heap w a \<noteq> None" "distinct (map f_buf fs)"
  shows "free_buffers fs w =
           Inr (w\<lparr>heap := (\<lambda>a. if Addr a \<in> f_buf ` set fs then None else heap w a)\<rparr>)"
  using assms
proof (induction fs arbitrary: w)
  case Nil
  then show ?case by simp
next
  case (Cons f fs)
  from Cons.prems(1) obtain a b where a: "f_buf f = Addr a" "heap w a = Some b" by auto
  let ?v = "w\<lparr>heap := (heap w)(a := None)\<rparr>"
  have "\<forall>g \<in> set fs. \<exists>b. f_buf g = Addr b \<and> heap ?v b \<noteq> None"
    using Cons.prems a(1) by (auto simp: image_iff) metis
  from Cons.IH [OF this] Cons.prems(2) show ?case
    using a by (auto simp: c_free_def fun_eq_iff intro!: arg_cong [of _ _ "\<lambda>h. w\<lparr>heap := h\<rparr>"])
qed

lemma loaded_names: "map output_filename (loaded w b fs) = map output_filename fs"
  by (induction fs arbitrary: b) auto

lemma loaded_buffers: "map f_buf (loaded w b fs) = map Addr [b..<b + length fs]"
  by (induction fs arbitrary: b) (simp_all add: upt_rec)

lemma loaded_has_buffer:
  assumes "f \<in> set fs" "\<forall>f \<in> set fs. readable w f" "\<forall>a\<ge>b. h a = buffers w b fs a"
  shows "\<exists>g \<in> set (loaded w b fs). output_filename g = output_filename f \<and>
     (\<forall>v. heap v = h \<longrightarrow> has_buffer v g (the (content w (input_filename f))))"
  using assms
proof (induction fs arbitrary: b)
  case Nil
  then show ?case by simp
next
  case (Cons e fs)
  show ?case
  proof (cases "f = e")
    case True
    from Cons.prems(2) True have "readable w f" by simp
    moreover have "h b = content w (input_filename f)" using Cons.prems(3) True by simp
    ultimately show ?thesis using True by (auto simp: has_buffer_def readable_def)
  next
    case False
    have "\<forall>a\<ge>Suc b. h a = buffers w (Suc b) fs a" using Cons.prems(3) by auto
    from Cons.IH [OF _ _ this] False Cons.prems(1,2) show ?thesis by auto
  qed
qed

lemma loaded_has_buffers:
  assumes "g \<in> set (loaded w b fs)" "\<forall>f \<in> set fs. readable w f" "\<forall>a\<ge>b. heap v a = buffers w b fs a"
  shows "\<exists>c. has_buffer v g c"
  using assms
proof (induction fs arbitrary: b)
  case Nil
  then show ?case by simp
next
  case (Cons e fs)
  have "\<forall>a\<ge>Suc b. heap v a = buffers w (Suc b) fs a" using Cons.prems(3) by auto
  note ih = Cons.IH [OF _ _ this]
  have "heap v b = content w (input_filename e)" using Cons.prems(3) by simp
  with Cons.prems(1,2) ih show ?case by (auto simp: has_buffer_def readable_def)
qed

text \<open>Reading, writing and freeing all pictures of a data set.\<close>

lemma copy_pictures:
  assumes w: "calm (p_os st)" and fs: "\<forall>f \<in> set fs. readable (p_os st) f" "distinct (map output_filename fs)"
  shows "\<exists>fs' w1 w2 w3. read_pictures False type RET_OK fs st = Inr (RET_OK, fs', st\<lparr>p_os := w1\<rparr>) \<and>
           write_pictures False type RET_OK fs' (st\<lparr>p_os := w1\<rparr>) = Inr (RET_OK, st\<lparr>p_os := w2\<rparr>) \<and>
           free_buffers fs' w2 = Inr w3 \<and>
           (\<forall>f \<in> set fs. content w3 (output_filename f) = content (p_os st) (input_filename f)) \<and>
           (\<forall>q. q \<notin> output_filename ` set fs \<longrightarrow> content w3 q = content (p_os st) q) \<and>
           heap w3 = heap (p_os st) \<and> same_fds (p_os st) w3"
proof -
  let ?w = "p_os st" and ?b = "brk (p_os st)"
  let ?fs = "loaded ?w ?b fs"
  from read_pictures_ok [OF w fs(1)] obtain w1 where
    r: "read_pictures False type RET_OK fs st = Inr (RET_OK, ?fs, st\<lparr>p_os := w1\<rparr>)"
    and w1: "content w1 = content ?w" "heap w1 = heap ?w ++ buffers ?w ?b fs" "calm w1" "same_fds ?w w1" by blast
  have above: "\<forall>a\<ge>?b. heap w1 a = buffers ?w ?b fs a"
    using w by (auto simp: w1(2) map_add_def calm_def split: option.splits)
  have hb: "\<forall>g \<in> set ?fs. \<exists>c. has_buffer w1 g c" using loaded_has_buffers [OF _ fs(1) above] by blast
  from write_pictures_ok [of "st\<lparr>p_os := w1\<rparr>" ?fs type] w1(3) hb fs(2) obtain w2 where
    wr: "write_pictures False type RET_OK ?fs (st\<lparr>p_os := w1\<rparr>) = Inr (RET_OK, st\<lparr>p_os := w2\<rparr>)"
    and out: "\<forall>g \<in> set ?fs. \<forall>c. has_buffer w1 g c \<longrightarrow> content w2 (output_filename g) = Some c"
    and other: "\<forall>q. q \<notin> output_filename ` set ?fs \<longrightarrow> content w2 q = content w1 q"
    and w2: "heap w2 = heap w1" "same_fds w1 w2" by (auto simp: loaded_names)
  have names: "output_filename ` set ?fs = output_filename ` set fs"
    using loaded_names [of ?w ?b fs] by (metis set_map)
  have bufs: "f_buf ` set ?fs = Addr ` {?b..<?b + length fs}" "distinct (map f_buf ?fs)"
    using loaded_buffers [of ?w ?b fs] by (metis set_map set_upt, simp add: distinct_map inj_on_def)
  have "\<forall>g \<in> set ?fs. \<exists>a. f_buf g = Addr a \<and> heap w2 a \<noteq> None"
    using hb w2(1) by (fastforce simp: has_buffer_def)
  note fr = free_buffers_ok [OF this bufs(2)]
  let ?w3 = "w2\<lparr>heap := (\<lambda>a. if Addr a \<in> f_buf ` set ?fs then None else heap w2 a)\<rparr>"
  have "heap ?w3 a = heap ?w a" for a
  proof (cases "Addr a \<in> f_buf ` set ?fs")
    case True
    then have "?b \<le> a" using bufs(1) by auto
    with True w show ?thesis by (simp add: calm_def)
  next
    case False
    then have "a < ?b \<or> ?b + length fs \<le> a" using bufs(1) by auto
    then have "buffers ?w ?b fs a = None" using buffers_above buffers_beyond by blast
    with False show ?thesis by (simp add: w2(1) w1(2) map_add_def)
  qed
  moreover have "content ?w3 (output_filename f) = content ?w (input_filename f)" if "f \<in> set fs" for f
  proof -
    from loaded_has_buffer [OF that fs(1) above] obtain g where "g \<in> set ?fs"
      "output_filename g = output_filename f" "has_buffer w1 g (the (content ?w (input_filename f)))" by auto
    with out have "content w2 (output_filename f) = Some (the (content ?w (input_filename f)))" by metis
    moreover have "content ?w (input_filename f) \<noteq> None" using fs(1) that by (auto simp: readable_def)
    ultimately show ?thesis by (auto simp: content_def)
  qed
  moreover have "same_fds ?w ?w3" using w1(4) w2(2) by (simp add: same_fds_def fd_lookup_heap)
  moreover have "content ?w3 q = content ?w q" if "q \<notin> output_filename ` set fs" for q
    using other that names w1(1) by (simp add: content_def)
  ultimately show ?thesis using r wr fr by blast
qed

lemma new_entries_ok:
  assumes "calm w"
  shows "\<exists>ps w'. new_entries n w = (ps, w') \<and> Null \<notin> set ps \<and> calm w' \<and>
     files w' = files w \<and> heap w' = heap w \<and> fds w' = fds w"
  using assms
proof (induction n arbitrary: w)
  case 0
  then show ?case by simp
next
  case (Suc n)
  let ?w1 = "w\<lparr>calls := Suc (calls w), brk := Suc (brk w)\<rparr>"
  have n: "c_new w = (Addr (brk w), ?w1)" using Suc.prems by (simp add: c_new_def ask_def fresh_addr_def calm_def)
  have "calm ?w1" using Suc.prems by (simp add: calm_def)
  from Suc.IH [OF this] obtain ps w' where "new_entries n ?w1 = (ps, w')" "Null \<notin> set ps" "calm w'"
    "files w' = files w" "heap w' = heap w" "fds w' = fds w" by auto
  with n show ?case by simp
qed

lemma data_set_ok:
  assumes "calm w"
  shows "\<exists>w'. create_test_data_set in_dir out_dir junk w = Inr (RET_OK, pictures in_dir out_dir junk, w') \<and>
     calm w' \<and> files w' = files w \<and> heap w' = heap w \<and> fds w' = fds w"
proof -
  let ?w1 = "w\<lparr>calls := Suc (calls w), brk := Suc (brk w),
      parrs := (parrs w)(brk w := Some \<lparr>a_len = 10, a_at = (\<lambda>_. None)\<rparr>)\<rparr>"
  have a: "c_malloc_arr 10 w = (Addr (brk w), ?w1)" using assms by (simp add: c_malloc_arr_def ask_def calm_def)
  have "calm ?w1" using assms by (simp add: calm_def)
  from new_entries_ok [OF this, of 10] obtain ps w' where "new_entries 10 ?w1 = (ps, w')" "Null \<notin> set ps"
    "calm w'" "files w' = files w" "heap w' = heap w" "fds w' = fds w" by auto
  with a show ?thesis by (simp add: create_test_data_set_def)
qed

lemma output_inj:
  "output_filename (picture i out j c) = output_filename (picture i out j d) \<longleftrightarrow> c = d"
  by (simp add: picture_def)

lemma outputs_distinct: "distinct (map output_filename (pictures i out j))"
  by (simp add: pictures_def output_inj)

text \<open>No name of an output is one of an input, whatever the directories.\<close>

lemma input_not_output: "input_filename (picture i out j c) \<noteq> output_filename (picture i out j d)"
proof
  assume "input_filename (picture i out j c) = output_filename (picture i out j d)"
  then have "i @ (''/RAW_4K_'' @ [c] @ ''.RAW'') = (out @ ''/new'') @ (''_RAW_4K_'' @ [d] @ ''.RAW'')"
    by (simp add: picture_def)
  moreover have "length (''/RAW_4K_'' @ [c] @ ''.RAW'') = length (''_RAW_4K_'' @ [d] @ ''.RAW'')" by simp
  ultimately have "''/RAW_4K_'' @ [c] @ ''.RAW'' = ''_RAW_4K_'' @ [d] @ ''.RAW''"
    unfolding append_eq_append_conv2 by auto
  then show False by simp
qed

lemma inputs_not_outputs:
  "f \<in> set (pictures i out j) \<Longrightarrow> input_filename f \<notin> output_filename ` set (pictures i out j)"
  unfolding pictures_def set_map using input_not_output by blast

lemma main_without_library:
  assumes "parse_args argv = Some (False, type)" "sleep_reads bg = []" "sleep_writes bg = []"
    and "create_test_data_set in_dir out_dir junk (p_os st) = Inr (RET_OK, fs, w0)"
    and "read_pictures False type RET_OK fs (st\<lparr>p_os := w0\<rparr>) = Inr (res, fs', st1)"
    and "write_pictures False type res fs' st1 = Inr (res', st2)" "free_buffers fs' (p_os st2) = Inr w3"
  shows "main argv in_dir out_dir junk bg st = Some (Inr (res', st2\<lparr>p_os := w3\<rparr>))"
  using assms by (simp add: main_def settle_def shut_down_def)

text \<open>
  C26: without the library the test program does its job: when nothing is refused and the ten
  pictures are there, not empty and smaller than 4 GiB, \<open>main\<close> returns \<open>RET_OK\<close>, every output file
  has the bytes of its picture, no other file has changed, the pictures included, and no buffer and no
  descriptor is left behind.
\<close>
theorem main_copies_the_pictures:
  assumes argv: "parse_args argv = Some (False, type)"
    and w: "calm (p_os st)"
    and ok: "\<forall>f \<in> set (pictures in_dir out_dir junk). readable (p_os st) f"
    and bg: "sleep_reads bg = []" "sleep_writes bg = []"
  shows "\<exists>st'. main argv in_dir out_dir junk bg st = Some (Inr (RET_OK, st')) \<and>
           (\<forall>f \<in> set (pictures in_dir out_dir junk).
              content (p_os st') (output_filename f) = content (p_os st) (input_filename f) \<and>
              content (p_os st') (input_filename f) = content (p_os st) (input_filename f)) \<and>
           (\<forall>q. q \<notin> output_filename ` set (pictures in_dir out_dir junk) \<longrightarrow>
              content (p_os st') q = content (p_os st) q) \<and>
           heap (p_os st') = heap (p_os st) \<and> same_fds (p_os st) (p_os st')"
proof -
  let ?fs = "pictures in_dir out_dir junk"
  from data_set_ok [OF w] obtain w0 where d: "create_test_data_set in_dir out_dir junk (p_os st) = Inr (RET_OK, ?fs, w0)"
    and w0: "calm w0" "files w0 = files (p_os st)" "heap w0 = heap (p_os st)" "fds w0 = fds (p_os st)" by blast
  have ct: "content w0 = content (p_os st)" using w0(2) by (simp add: content_def fun_eq_iff)
  with ok have "\<forall>f \<in> set ?fs. readable w0 f" by (simp add: readable_def)
  then obtain fs' w1 w2 w3 where
    r: "read_pictures False type RET_OK ?fs (st\<lparr>p_os := w0\<rparr>) = Inr (RET_OK, fs', st\<lparr>p_os := w1\<rparr>)"
    and wr: "write_pictures False type RET_OK fs' (st\<lparr>p_os := w1\<rparr>) = Inr (RET_OK, st\<lparr>p_os := w2\<rparr>)"
    and fr: "free_buffers fs' w2 = Inr w3"
    and res: "\<forall>f \<in> set ?fs. content w3 (output_filename f) = content w0 (input_filename f)"
      "\<forall>q. q \<notin> output_filename ` set ?fs \<longrightarrow> content w3 q = content w0 q" "heap w3 = heap w0" "same_fds w0 w3"
    using copy_pictures [of "st\<lparr>p_os := w0\<rparr>" ?fs type] w0(1) outputs_distinct by auto
  have "main argv in_dir out_dir junk bg st = Some (Inr (RET_OK, st\<lparr>p_os := w3\<rparr>))"
    using main_without_library [OF argv bg d r wr] fr by simp
  moreover have "same_fds (p_os st) w3" using res(4) w0(4) by (simp add: same_fds_def fd_lookup_def)
  ultimately show ?thesis using res ct w0(3) inputs_not_outputs
    by (intro exI [of _ "st\<lparr>p_os := w3\<rparr>"]) auto
qed

text \<open>A process whose directory \<open>d\<close> holds every picture, three bytes each.\<close>

definition picture_process :: process where
  "picture_process = process_start (demo_world\<lparr>files := (\<lambda>_. Some demo_file)\<rparr>)"

definition no_background :: background where
  "no_background =
     \<lparr>sleep_reads = [], wait_reads = [], sleep_writes = [], wait_writes = [], on_release = []\<rparr>"

theorem main_copies_the_pictures_witness:
  "\<exists>st'. main [''test'', ''0'', ''2''] ''d'' ''o'' (Null, 0) no_background picture_process = Some (Inr (RET_OK, st')) \<and>
     (\<forall>f \<in> set (pictures ''d'' ''o'' (Null, 0)). content (p_os st') (output_filename f) = Some [7, 8, 9])"
proof -
  have a: "parse_args [''test'', ''0'', ''2''] = Some (False, ASYNC_FILE_ACCESSOR_MMAP)" by code_simp
  have w: "calm (p_os picture_process)" by (simp add: picture_process_def process_start_def calm_def)
  have c: "content (p_os picture_process) q = Some [7, 8, 9]" for q
    by (simp add: picture_process_def process_start_def content_def demo_file_def)
  have b: "sleep_reads no_background = []" "sleep_writes no_background = []" by (simp_all add: no_background_def)
  have "\<forall>f \<in> set (pictures ''d'' ''o'' (Null, 0)). readable (p_os picture_process) f" by (simp add: readable_def c)
  from main_copies_the_pictures [OF a w this b] show ?thesis unfolding c by blast
qed

end
