(* ===== verification/Client_Read.thy ===== *)
theory Client_Read
  imports Test_Client Exchange
begin

text \<open>
  The library against what it replaces: a picture read or written through the AIO accessor, once the
  system has carried out the operation and notified, against \<open>sync_read_one_picture_to_file\<close> and
  \<open>sync_write_one_picture_to_file\<close>. The flag \<open>wr\<close> says which of the two a request is for.
\<close>

section \<open>Calls that are not refused\<close>

text \<open>Nothing of the store changes but new blocks.\<close>

definition kept :: "world \<Rightarrow> world \<Rightarrow> bool" where
  "kept w w' \<longleftrightarrow> files w' = files w \<and> heap w' = heap w \<and> brk w \<le> brk w' \<and> calm w'"

lemma kept_trans: "kept u v \<Longrightarrow> kept v w \<Longrightarrow> kept u w"
  by (auto simp: kept_def)

abbreviation mode_of :: "bool \<Rightarrow> open_mode" where
  "mode_of wr \<equiv> if wr then WronlyCreat else Rdonly"

abbreviation dir_of :: "bool \<Rightarrow> async_file_access_direction_t" where
  "dir_of wr \<equiv> if wr then ASYNC_FILE_ACCESS_WRITE else ASYNC_FILE_ACCESS_READ"

definition has_open :: "bool \<Rightarrow> string \<Rightarrow> int \<Rightarrow> world \<Rightarrow> world \<Rightarrow> bool" where
  "has_open wr p fd w w' \<longleftrightarrow> 0 \<le> fd \<and> fd_lookup w fd = None \<and>
     (\<forall>k. fd_lookup w' k = (if k = fd then Some \<lparr>o_path = p, o_mode = mode_of wr, o_pos = 0\<rparr> else fd_lookup w k))"

lemma open_existing:
  assumes "calm w" "content w p \<noteq> None"
  shows "\<exists>fd w'. sys_open p (mode_of wr) w = (fd, w') \<and> has_open wr p fd w w' \<and> kept w w' \<and> brk w' = brk w"
proof -
  obtain fd w' where o: "sys_open p (mode_of wr) w = (fd, w')" by fastforce
  from assms(2) obtain f where f: "files w p = Some f" by (auto simp: content_def)
  then have m: "opened_file (mode_of wr) (files w p) = Some f" by (simp add: opened_file_def)
  with open_calm [OF assms(1) _ o] have "opened p (mode_of wr) fd w w'" "same_store w w'" by auto
  with f m assms(1) show ?thesis unfolding o
    by (intro exI [of _ fd] exI [of _ w'])
      (auto simp: opened_def same_store_def kept_def calm_def has_open_def fun_upd_idem)
qed

lemma close_after_read:
  assumes "has_open wr p fd w w'" "kept w w'"
  shows "same_fds w (snd (sys_close fd w')) \<and> kept w (snd (sys_close fd w')) \<and>
         brk (snd (sys_close fd w')) = brk w'"
proof -
  have "fd_lookup (snd (sys_close fd w')) k = (if k = fd then None else fd_lookup w' k)" for k
    by (rule sys_close_lookup [OF surjective_pairing])
  then have "same_fds w (snd (sys_close fd w'))" using assms(1) by (auto simp: has_open_def same_fds_def)
  then show ?thesis
    using close_store [where w = w' and fd = fd] assms(2) by (auto simp: same_store_def kept_def calm_def)
qed

lemma has_open_same: "same_fds u v \<Longrightarrow> has_open wr p fd v w \<Longrightarrow> has_open wr p fd u w"
  by (auto simp: same_fds_def has_open_def)

lemma content_keeps: "kept w w' \<Longrightarrow> content w' = content w"
  by (simp add: kept_def content_def fun_eq_iff)

section \<open>The request\<close>

definition request_of :: "bool \<Rightarrow> async_file_access_request_info \<Rightarrow> string \<Rightarrow> bool" where
  "request_of wr i path \<longleftrightarrow> direction i = dir_of wr \<and> req_size i \<noteq> 0 \<and> req_offset i = 0 \<and>
     cstr (fn i) = Some path \<and> aio_copied_info i = i"

lemma acheck_calm:
  assumes r: "aget p s = Inr r" "\<not> ar_isValid r" "request_of wr (ar_info r) path"
    and w: "calm (aos s)" "content (aos s) path \<noteq> None"
  shows "\<exists>w. aio_check_request_valid p s = Inr (RET_OK, aput p (r\<lparr>ar_isValid := True\<rparr>) (s\<lparr>aos := w\<rparr>)) \<and>
           kept (aos s) w \<and> same_fds (aos s) w \<and> brk w = brk (aos s)"
proof -
  from open_existing [OF w, of wr] obtain fd w1 where o: "sys_open path (mode_of wr) (aos s) = (fd, w1)"
    and w1: "has_open wr path fd (aos s) w1" "kept (aos s) w1" "brk w1 = brk (aos s)" by blast
  have "aio_info_ok (ar_info r)" "aio_open_mode (ar_info r) = mode_of wr"
    using r(3) by (auto simp: request_of_def aio_info_ok_def aio_open_mode_def word_neq_0_conv
        ASYNC_FILE_ACCESS_READ_def ASYNC_FILE_ACCESS_WRITE_def)
  moreover have "\<not> fd < 0" using w1(1) by (simp add: has_open_def)
  ultimately have "aio_check_request_valid p s =
      Inr (RET_OK, aput p (r\<lparr>ar_isValid := True\<rparr>) (s\<lparr>aos := snd (sys_close fd w1)\<rparr>))"
    using r o by (simp add: acheck_fresh file_name_def request_of_def)
  with close_after_read [OF w1(1,2)] w1(3) show ?thesis by auto
qed

text \<open>The fields of a request that is ready for its buffer.\<close>

definition fresh_request :: "bool \<Rightarrow> nat \<Rightarrow> aio_request \<Rightarrow> bool" where
  "fresh_request wr n r \<longleftrightarrow> ar_isValid r \<and> direction (ar_info r) = dir_of wr \<and>
     aio_fildes (ar_cb r) = ar_fd r \<and> aio_nbytes (ar_cb r) = n \<and> aio_offset (ar_cb r) = 0"

lemma aio_get_calm:
  assumes i: "request_of wr ci path" and w: "calm (aos s)" "content (aos s) path \<noteq> None"
  shows "\<exists>r w. aio_get_request ci s = Inr (RET_OK, Addr (brk (aos s)), aput (Addr (brk (aos s))) r (s\<lparr>aos := w\<rparr>)) \<and>
           fresh_request wr (unat (req_size ci)) r \<and> \<not> ar_isAlloced r \<and> has_open wr path (ar_fd r) (aos s) w \<and> kept (aos s) w"
proof -
  let ?p = "Addr (brk (aos s))"
  let ?w0 = "(aos s)\<lparr>calls := Suc (calls (aos s)), brk := Suc (brk (aos s))\<rparr>"
  have n: "c_new (aos s) = (?p, ?w0)" using w(1) by (simp add: c_new_def ask_def fresh_addr_def calm_def)
  have k0: "kept (aos s) ?w0" "same_fds (aos s) ?w0"
    using w(1) by (simp_all add: kept_def calm_def same_fds_def fd_lookup_def)
  let ?r0 = "zero_aio_request\<lparr>ar_info := ci\<rparr>"
  let ?s1 = "aput ?p ?r0 (s\<lparr>aos := ?w0\<rparr>)"
  have g1: "aget ?p ?s1 = Inr ?r0" "\<not> ar_isValid ?r0" by (simp_all add: aget_def aput_def zero_aio_request_def)
  have "\<exists>w. aio_check_request_valid ?p ?s1 = Inr (RET_OK, aput ?p (?r0\<lparr>ar_isValid := True\<rparr>) (?s1\<lparr>aos := w\<rparr>)) \<and>
      kept (aos ?s1) w \<and> same_fds (aos ?s1) w \<and> brk w = brk (aos ?s1)"
    by (rule acheck_calm [OF g1]) (use i w k0(1) content_keeps [OF k0(1)] in \<open>auto simp: kept_def\<close>)
  then obtain w1 where c: "aio_check_request_valid ?p ?s1 = Inr (RET_OK, aput ?p (?r0\<lparr>ar_isValid := True\<rparr>) (?s1\<lparr>aos := w1\<rparr>))"
    and w1: "kept ?w0 w1" "same_fds ?w0 w1" by auto
  note k1 = kept_trans [OF k0(1) w1(1)] and f1 = same_fds_trans [OF k0(2) w1(2)]
  let ?r1 = "?r0\<lparr>ar_isValid := True\<rparr>"
  let ?s2 = "aput ?p ?r1 (?s1\<lparr>aos := w1\<rparr>)"
  have g2: "aget ?p ?s2 = Inr ?r1" by (simp add: aget_def aput_def)
  from open_existing [of w1 path wr] k1 content_keeps [OF k1] w(2) obtain fd w2 where
    o: "sys_open path (mode_of wr) w1 = (fd, w2)" and w2: "has_open wr path fd w1 w2" "kept w1 w2"
    by (auto simp: kept_def)
  have re: "retry_for (sys_open path (aio_open_mode ci)) (\<lambda>fd. fd = - 1) MAX_RETRY_TIMES w1 = (fd, w2)"
    unfolding retry_for_eq_do
    by (rule retry_do_good) (use i o w2(1) in \<open>simp_all add: request_of_def aio_open_mode_def has_open_def
        ASYNC_FILE_ACCESS_READ_def ASYNC_FILE_ACCESS_WRITE_def split: if_splits\<close>)
  obtain r2 w3 where st: "aio_request_setup ci fd ?r1 w2 = (r2, w3)" by fastforce
  have d: "fd_lookup w2 fd = Some \<lparr>o_path = path, o_mode = mode_of wr, o_pos = 0\<rparr>" "req_offset ci = 0"
    using w2(1) i by (simp_all add: has_open_def request_of_def)
  have l: "snd (sys_lseek_cur fd 0 w2) = w3" "fst (sys_lseek_cur fd 0 w2) = aio_offset (ar_cb r2)"
    "ar_fd r2 = fd" "aio_fildes (ar_cb r2) = fd" "aio_nbytes (ar_cb r2) = unat (req_size ci)"
    "ar_isValid r2" "\<not> ar_isAlloced r2" "ar_info r2 = ci"
    using st d(2) by (auto simp: aio_request_setup_def Let_def split: prod.splits)
  with sys_lseek_cur_spec [OF surjective_pairing d(1), of 0]
  have w3: "aio_offset (ar_cb r2) = 0" "files w3 = files w2" "same_store w2 w3"
    "\<forall>k. fd_lookup w3 k = (if k = fd then Some \<lparr>o_path = path, o_mode = mode_of wr, o_pos = 0\<rparr> else fd_lookup w2 k)"
    by simp_all
  have "aio_get_request ci s = Inr (RET_OK, ?p, aput ?p r2 (?s2\<lparr>aos := w3\<rparr>))"
    using i n c g2 re st by (simp add: aio_get_request_def request_of_def file_name_def)
  moreover have "aput ?p r2 (?s2\<lparr>aos := w3\<rparr>) = aput ?p r2 (s\<lparr>aos := w3\<rparr>)" by (simp add: aput_def)
  moreover have "fresh_request wr (unat (req_size ci)) r2" using l w3 i by (simp add: fresh_request_def request_of_def)
  moreover have "kept w2 w3" using w2(2) w3 by (auto simp: kept_def same_store_def calm_def)
  then have "kept (aos s) w3" using kept_trans [OF kept_trans [OF k1 w2(2)]] by blast
  moreover have "has_open wr path (ar_fd r2) (aos s) w3"
    using w2(1) w3(4) l(3) f1 by (auto simp: has_open_def same_fds_def)
  ultimately show ?thesis using l(7) by (intro exI [of _ r2] exI [of _ w3]) simp
qed

section \<open>Submitting it\<close>

lemma kept_arrays:
  assumes "files w' = files w" "heap w' = heap w" "fds w' = fds w" "brk w \<le> brk w'" "refuse w' = refuse w" "calm w"
  shows "kept w w' \<and> same_fds w w'"
  using assms by (auto simp: kept_def calm_def same_fds_def fd_lookup_def)

lemma realloc_keeps: "c_realloc_arr q n w = Inr (q', w') \<Longrightarrow> calm w \<Longrightarrow> kept w w' \<and> same_fds w w'"
  by (rule kept_arrays)
    (auto simp: c_realloc_arr_def c_malloc_arr_def ask_def Let_def split: ptr.splits option.splits if_splits)

lemma arr_set_keeps: "arr_set q i x w = Inr w' \<Longrightarrow> calm w \<Longrightarrow> kept w w' \<and> same_fds w w'"
  by (rule kept_arrays) (auto simp: arr_set_def split: ptr.splits option.splits if_splits)

lemma kept_refl: "calm w \<Longrightarrow> kept w w \<and> same_fds w w"
  by (simp add: kept_def same_fds_def)

lemma list_request_keeps:
  assumes "aio_list_request p s = Inr (res, s')" "calm (aos s)"
  shows "kept (aos s) (aos s') \<and> same_fds (aos s) (aos s')"
proof -
  from assms(1) obtain res1 s1 where g: "aio_grow_list s = Inr (res1, s1)"
    by (auto simp: aio_list_request_def)
  have k1: "kept (aos s) (aos s1) \<and> same_fds (aos s) (aos s1)"
  proof (cases "req_count s mod REQ_LIST_BUFSIZE = 0")
    case True
    with g obtain q w where "c_realloc_arr (req_list s) (unat (new_list_bufsize (req_count s)) div 8) (aos s) = Inr (q, w)"
      "aos s1 = w" by (auto simp: aio_grow_list_def split: if_splits)
    with realloc_keeps assms(2) show ?thesis by blast
  next
    case False
    with g have "s1 = s" by (simp add: aio_grow_list_def)
    with kept_refl [OF assms(2)] show ?thesis by simp
  qed
  then have c1: "calm (aos s1)" by (simp add: kept_def)
  from assms(1) g have "aos s' = aos s1 \<or> (\<exists>w. arr_set (req_list s1) (unat (req_count s1)) p (aos s1) = Inr w \<and> aos s' = w)"
    by (auto simp: aio_list_request_def split: if_splits)
  with arr_set_keeps [OF _ c1] kept_refl [OF c1] have "kept (aos s1) (aos s') \<and> same_fds (aos s1) (aos s')" by auto
  with k1 show ?thesis by (blast intro: kept_trans same_fds_trans)
qed

text \<open>What a submission that reports success leaves behind: an operation that can be carried out.\<close>

definition under_way :: "bool \<Rightarrow> nat \<Rightarrow> ptr \<Rightarrow> nat \<Rightarrow> aio_sys \<Rightarrow> int \<Rightarrow> bool" where
  "under_way wr n b a s fd \<longleftrightarrow>
     (\<exists>r x. areqs s a = Some r \<and> fresh_request wr n r \<and> aio_sival (ar_cb r) = Addr a \<and> ar_fd r = fd \<and>
        ar_isAlloced r = wr \<and> ar_buf r = b \<and> aio_buf (ar_cb r) = b \<and>
        aops s a = Some x \<and> op_progress x = InProgress \<and> op_write x = wr)"

lemma aio_put_calm:
  assumes r: "aget (Addr a) s = Inr r" "fresh_request wr n r" "ar_isAlloced r = wr" "ar_buf r = b" "aio_buf (ar_cb r) = b"
    and w: "calm (aos s)" and c: "aio_put_request (Addr a) s = Inr (RET_OK, s')"
  shows "under_way wr n b a s' (ar_fd r) \<and> kept (aos s) (aos s') \<and> same_fds (aos s) (aos s')"
proof -
  let ?r = "r\<lparr>ar_cb := (ar_cb r)\<lparr>aio_sival := Addr a\<rparr>\<rparr>"
  let ?x = "\<lparr>op_write = wr, op_progress = InProgress, op_notify = False\<rparr>"
  let ?w = "(aos s)\<lparr>calls := Suc (calls (aos s))\<rparr>"
  let ?s2 = "(aput (Addr a) ?r s)\<lparr>aos := ?w, aops := (aops s)(a := Some ?x)\<rparr>"
  let ?r3 = "?r\<lparr>ar_status := REQUEST_STAT_SUBMITTED\<rparr>"
  have v: "ar_isValid r" and d: "(ASYNC_FILE_ACCESS_WRITE = direction (ar_info r)) = wr"
    using r(2) by (auto simp: fresh_request_def ASYNC_FILE_ACCESS_READ_def ASYNC_FILE_ACCESS_WRITE_def)
  have "sys_aio_submit wr (Addr a) (aput (Addr a) ?r s) = (0, ?s2)"
    using w by (simp add: sys_aio_submit_def ask_def calm_def)
  then have "aio_put_submit (Addr a) s = Inr (RET_OK, ?s2)"
    using r(1) d by (simp add: aio_put_submit_def RET_OK_def)
  moreover have "aget (Addr a) ?s2 = Inr ?r" by (simp add: aget_def aput_def)
  ultimately have l: "aio_list_request (Addr a) (aput (Addr a) ?r3 ?s2) = Inr (RET_OK, s')"
    using c acheck_valid [OF r(1) v] by (simp add: aio_put_request_def aio_put_finish_def aio_put_mark_def)
  have k: "kept (aos s) ?w \<and> same_fds (aos s) ?w" using w by (intro kept_arrays) simp_all
  then have "calm (aos (aput (Addr a) ?r3 ?s2))" by (simp add: kept_def)
  from list_request_keeps [OF l this] k have "kept (aos s) (aos s') \<and> same_fds (aos s) (aos s')"
    by (auto intro: kept_trans same_fds_trans)
  moreover from list_request_frame [OF l] have "areqs s' a = Some ?r3" "aops s' a = Some ?x"
    by (simp_all add: aput_def)
  moreover have "fresh_request wr n ?r3" using r(2) by (simp add: fresh_request_def)
  ultimately show ?thesis using r(3-5) by (simp add: under_way_def)
qed

section \<open>The client's read\<close>

lemma client_info_request:
  assumes n: "CHR 0x00 \<notin> set name" "length name < MAX_FILE_NAME_LEN" and l: "len \<noteq> 0"
    and c: "client_info (dir_of wr) name len = Inr ci"
  shows "request_of wr ci name \<and> req_size ci = len"
proof -
  let ?pad = "replicate (MAX_FILE_NAME_LEN - length name) (CHR 0x00)"
  from n(2) obtain k where "MAX_FILE_NAME_LEN - length name = Suc k" by (metis Suc_diff_Suc)
  then have s: "cstr (name @ ?pad) = Some name" using cstr_append_nul [OF n(1)] by simp
  from c n(2) have ci: "ci = \<lparr>direction = dir_of wr, fn = name @ ?pad, req_size = len, req_offset = 0\<rparr>"
    by (simp add: client_info_def)
  have "take MAX_FILE_NAME_LEN (name @ ?pad) = name @ ?pad" using n(2) by simp
  with s l show ?thesis by (simp add: ci request_of_def aio_copied_info_def)
qed

lemma in_aio_os: "in_aio (st\<lparr>p_os := w\<rparr>) = (in_aio st)\<lparr>aos := w\<rparr>"
  by (simp add: in_aio_def)

lemma submit_read_calm:
  assumes w: "calm (p_os st)" "content (p_os st) name \<noteq> None"
    and i: "request_of False ci name" and c: "submit_read aio_table ci buf st = Inr (RET_OK, b, st')"
  shows "\<exists>a e old fd. b = Addr e \<and> length old = unat (req_size ci) \<and>
           heap (p_os st') = (heap (p_os st))(e := Some old) \<and>
           files (p_os st') = files (p_os st) \<and> calm (p_os st') \<and> has_open False name fd (p_os st) (p_os st') \<and>
           under_way False (unat (req_size ci)) b a (in_aio st') fd"
proof -
  let ?s = "in_aio st" and ?n = "unat (req_size ci)"
  from aio_get_calm [OF i, of ?s] w obtain r w1 where
    g: "aio_get_request ci ?s = Inr (RET_OK, Addr (brk (p_os st)), aput (Addr (brk (p_os st))) r (?s\<lparr>aos := w1\<rparr>))"
    and r: "fresh_request False ?n r" "\<not> ar_isAlloced r" and w1: "has_open False name (ar_fd r) (p_os st) w1" "kept (p_os st) w1" by auto
  let ?a = "brk (p_os st)" and ?e = "brk w1" and ?old = "replicate ?n (fill w1)"
  let ?s1 = "aput (Addr ?a) r (?s\<lparr>aos := w1\<rparr>)"
  let ?w2 = "w1\<lparr>calls := Suc (calls w1), brk := Suc (brk w1), heap := (heap w1)(?e := Some ?old)\<rparr>"
  have m: "c_malloc ?n w1 = (Addr ?e, ?w2)" using w1(2) by (simp add: c_malloc_def ask_def kept_def calm_def)
  let ?s2 = "?s1\<lparr>aos := ?w2\<rparr>" and ?r = "r\<lparr>ar_buf := Addr ?e, ar_cb := (ar_cb r)\<lparr>aio_buf := Addr ?e\<rparr>\<rparr>"
  have g2: "aget (Addr ?a) ?s2 = Inr r" by (simp add: aget_def aput_def)
  from r have v: "ar_isValid r" by (simp add: fresh_request_def)
  let ?s3 = "aput (Addr ?a) ?r ?s2"
  have im: "aio_request_import_read_buffer (Addr ?a) (Addr ?e) ?s2 = Inr (RET_OK, ?s3)"
    using g2 acheck_valid [OF g2 v] by (simp add: aio_request_import_read_buffer_def)
  let ?st1 = "of_aio st ?s1" and ?st3 = "of_aio ((of_aio st ?s1)\<lparr>p_os := ?w2\<rparr>) ?s3"
  have "getRequest aio_table ci st = Inr (RET_OK, Addr ?a, ?st1)" by (simp add: aio_table_def on_aio2_def g)
  moreover have "importReadBuf aio_table (Addr ?a) (Addr ?e) (?st1\<lparr>p_os := ?w2\<rparr>) = Inr (RET_OK, ?st3)"
    by (simp add: aio_table_def on_aio_def in_aio_os im del: and_then_Inr_iff)
  moreover have "p_os ?st1 = w1" by simp
  ultimately have "submit_read aio_table ci buf st =
      and_then (putRequest aio_table (Addr ?a) ?st3) (\<lambda>(res', st3). Inr (res', Addr ?e, st3))"
    unfolding submit_read_def by (simp only: and_then_simps prod.case m Let_def simp_thms if_False)
  moreover have "putRequest aio_table (Addr ?a) ?st3 = on_aio ?st3 (aio_put_request (Addr ?a) ?s3)"
    by (simp only: aio_table_def async_file_accessor.simps in_of_aio)
  ultimately have "and_then (on_aio ?st3 (aio_put_request (Addr ?a) ?s3)) (\<lambda>(res', st3). Inr (res', Addr ?e, st3)) =
      Inr (RET_OK, b, st')" using c by (simp only:)
  then obtain s4 where put: "aio_put_request (Addr ?a) ?s3 = Inr (RET_OK, s4)"
    and b: "b = Addr ?e" and s4: "st' = of_aio ?st3 s4"
    unfolding on_aio_def by (cases "aio_put_request (Addr ?a) ?s3") (auto split: prod.splits)
  have st': "p_os st' = aos s4" "in_aio st' = s4" unfolding s4 by (simp_all only: in_of_aio)
  have c2: "calm ?w2" using w1(2) by (auto simp: kept_def calm_def)
  have "under_way False ?n (Addr ?e) ?a s4 (ar_fd ?r) \<and> kept (aos ?s3) (aos s4) \<and> same_fds (aos ?s3) (aos s4)"
    by (rule aio_put_calm [OF _ _ _ _ _ _ put]) (use r c2 in \<open>simp_all add: fresh_request_def aget_def aput_def\<close>)
  then have u: "under_way False ?n b ?a s4 (ar_fd r)" and k: "kept ?w2 (aos s4)" "same_fds ?w2 (aos s4)"
    by (simp_all add: b)
  have "same_fds w1 (aos s4)" using k(2) by (simp add: same_fds_def fd_lookup_def)
  with w1(1) have rd: "has_open False name (ar_fd r) (p_os st) (aos s4)" by (simp add: has_open_def same_fds_def)
  have "heap (aos s4) = (heap (p_os st))(?e := Some ?old)" "files (aos s4) = files (p_os st)" "calm (aos s4)"
    using k(1) w1(2) by (simp_all add: kept_def)
  moreover have "length ?old = ?n" by simp
  ultimately show ?thesis using b u rd unfolding st' by blast
qed

text \<open>The call of the client, with the descriptor it opens for the size and closes again.\<close>

lemma async_read_calm:
  assumes w: "calm (p_os st)" "content (p_os st) name = Some c" "c \<noteq> []" "length c < 2 ^ 32"
    and n: "CHR 0x00 \<notin> set name" "length name < MAX_FILE_NAME_LEN"
    and a: "async_read_one_picture_to_file ASYNC_FILE_ACCESSOR_AIO buf name st = Inr (RET_OK, b, len, st')"
  shows "\<exists>a e old fd. len = word_of_nat (length c) \<and> b = Addr e \<and> length old = length c \<and>
           heap (p_os st') e = Some old \<and> files (p_os st') = files (p_os st) \<and> calm (p_os st') \<and>
           has_open False name fd (p_os st) (p_os st') \<and> under_way False (length c) b a (in_aio st') fd"
proof -
  from open_existing [OF w(1), of name False] w(2) obtain fd0 w0 where o: "sys_open name Rdonly (p_os st) = (fd0, w0)"
    and w0: "has_open False name fd0 (p_os st) w0" "kept (p_os st) w0" by auto
  from w(2) obtain f where f: "files (p_os st) name = Some f" "f_content f = c" by (auto simp: content_def)
  then have s: "sys_fstat fd0 w0 = Some (length c)"
    using w0 by (simp add: sys_fstat_def has_open_def kept_def)
  let ?len = "word_of_nat (length c) :: u32"
  have l: "unat ?len = length c" using w(4) by (simp add: unat_of_nat)
  then have l0: "?len \<noteq> 0" using w(3) by auto
  let ?st = "of_aio (st\<lparr>p_os := w0\<rparr>) (in_aio (st\<lparr>p_os := w0\<rparr>))"
  have os: "p_os ?st = w0" by simp
  have inst: "Async_File_Accessor_Get_Instance ASYNC_FILE_ACCESSOR_AIO (st\<lparr>p_os := w0\<rparr>) = (Some aio_table, ?st)"
    by (simp add: Async_File_Accessor_Get_Instance_def AIO_File_Accessor_Get_Instance_def)
  from a obtain ci st2 where ci: "client_info ASYNC_FILE_ACCESS_READ name ?len = Inr ci"
    and sr: "submit_read aio_table ci buf ?st = Inr (RET_OK, b, st2)"
    and st': "st' = st2\<lparr>p_os := snd (sys_close fd0 (p_os st2))\<rparr>" and len: "len = ?len"
    unfolding async_read_one_picture_to_file_def o prod.case s option.case Let_def inst by auto
  have i: "request_of False ci name \<and> req_size ci = ?len"
    using client_info_request [OF n l0, of False ci] ci by simp
  have "calm (p_os ?st)" "content (p_os ?st) name \<noteq> None"
    using w0(2) w(2) content_keeps [OF w0(2)] unfolding os by (simp_all add: kept_def)
  from submit_read_calm [OF this conjunct1 [OF i] sr] i obtain a e old fd where
    b: "b = Addr e" "length old = length c" "heap (p_os st2) = (heap w0)(e := Some old)"
    and k: "files (p_os st2) = files w0" "calm (p_os st2)" and rd: "has_open False name fd w0 (p_os st2)"
    and u: "under_way False (length c) b a (in_aio st2) fd"
    unfolding os by (auto simp: l)
  let ?w = "snd (sys_close fd0 (p_os st2))"
  have fw: "files ?w = files (p_os st2)" "heap ?w = heap (p_os st2)" "calm ?w"
    using close_store [where w = "p_os st2" and fd = fd0] k(2) by (auto simp: same_store_def calm_def)
  have "fd_lookup ?w j = (if j = fd0 then None else fd_lookup (p_os st2) j)" for j
    by (rule sys_close_lookup [OF surjective_pairing])
  then have "has_open False name fd (p_os st) ?w" using rd w0(1) by (auto simp: has_open_def split: if_splits)
  moreover have "under_way False (length c) b a (in_aio st') fd"
    using u by (simp add: st' in_aio_os under_way_def)
  moreover have "files ?w = files (p_os st)" using fw(1) k(1) w0(2) by (simp add: kept_def)
  ultimately show ?thesis using b fw len by (auto simp: st')
qed

section \<open>The operation is carried out\<close>

lemma whole_read: "length old = length c \<Longrightarrow> overwrite 0 (take (length c) (drop 0 c)) old = c"
  by (simp add: overwrite_def)

lemma read_finishes:
  assumes u: "under_way False (length c) (Addr e) a s fd" and w: "calm (aos s)" "content (aos s) name = Some c"
    and rd: "has_open False name fd w0 (aos s)" and b: "heap (aos s) e = Some old" "length old = length c"
  shows "\<exists>s1 s2 r. aio_complete a s = Some (Inr s1) \<and> aio_notify aio_callback a s1 = Some (Inr s2) \<and>
           areqs s2 a = Some r \<and> ar_status r = REQUEST_STAT_IOSUCCESS \<and> files (aos s2) = files (aos s) \<and>
           heap (aos s2) e = Some c \<and> (0 < fd \<longrightarrow> same_fds w0 (aos s2))"
proof -
  from u obtain r x where r: "areqs s a = Some r" "aio_sival (ar_cb r) = Addr a" "fresh_request False (length c) r"
    "ar_fd r = fd" "aio_buf (ar_cb r) = Addr e" "\<not> ar_isAlloced r"
    and x: "aops s a = Some x" "op_progress x = InProgress" "\<not> op_write x"
    by (auto simp: under_way_def)
  from w(2) obtain f where f: "files (aos s) name = Some f" "f_content f = c" by (auto simp: content_def)
  let ?d = "\<lparr>o_path = name, o_mode = Rdonly, o_pos = 0\<rparr>"
  have d: "fd_lookup (aos s) fd = Some ?d" using rd by (simp add: has_open_def)
  have tr: "transfer_ready r (aos s) ?d f"
    using w(1) r d f by (simp add: transfer_ready_def fresh_request_def calm_def)
  have n: "aio_nbytes (ar_cb r) = length c" "nat (aio_offset (ar_cb r)) = 0" "\<not> ar_isAlloced r" "aio_fildes (ar_cb r) = fd"
    using r(3,4,6) by (simp_all add: fresh_request_def)
  let ?w = "(aos s)\<lparr>calls := Suc (calls (aos s)), heap := (heap (aos s))(e := Some c)\<rparr>"
  have "aio_transfer False (ar_cb r) (aos s) = Inr (0, ?w)"
    using read_transfer [OF tr _ r(5) b(1)] b(2) by (simp add: n f(2) can_read_def whole_read [simplified])
  then have t: "aio_transfer (op_write x) (ar_cb r) (aos s) = Inr (0, ?w)" using x(3) by simp
  from completed [OF x(1,2) r(1,2) t] n(3) obtain s1 s2 r' where
    "aio_complete a s = Some (Inr s1)" "aio_notify aio_callback a s1 = Some (Inr s2)"
    "areqs s2 a = Some r'" "ar_status r' = REQUEST_STAT_IOSUCCESS" "files (aos s2) = files ?w" "heap (aos s2) = heap ?w"
    and l: "\<And>k. fd_lookup (aos s2) k =
      (if 0 < k \<and> (k = ar_fd r \<or> k = aio_fildes (ar_cb r)) then None else fd_lookup (aos s) k)" by auto
  moreover have "same_fds w0 (aos s2)" if "0 < fd"
    using l rd that by (auto simp: same_fds_def has_open_def r(4) n(4))
  ultimately show ?thesis by auto
qed

text \<open>
  C11: the library reads what plain input reads: when nothing is refused and a client's read of a picture through the
  AIO accessor reports success, then, after the system has carried out the operation and notified, the
  request is \<open>IOSUCCESS\<close> and the client's buffer, the size, the files and the open descriptors are those
  that \<open>sync_read_one_picture_to_file\<close> gives.
\<close>
theorem async_read_like_sync_read:
  assumes w: "calm (p_os st)" "content (p_os st) name = Some c" "c \<noteq> []" "length c < 2 ^ 32"
    and n: "CHR 0x00 \<notin> set name" "length name < MAX_FILE_NAME_LEN" and std: "fd_lookup (p_os st) 0 \<noteq> None"
    and a: "async_read_one_picture_to_file ASYNC_FILE_ACCESSOR_AIO buf name st = Inr (RET_OK, b, len, st1)"
    and s: "sync_read_one_picture_to_file name (p_os st) = Inr (res, b', len', w')"
  shows "\<exists>q e e' st2 st3. process_exec (AioEvent (AEvComplete q)) st1 = Some (Inr st2) \<and>
           process_exec (AioEvent (AEvNotify q)) st2 = Some (Inr st3) \<and>
           map_option ar_status (areqs (p_aio st3) q) = Some REQUEST_STAT_IOSUCCESS \<and>
           b = Addr e \<and> b' = Addr e' \<and> heap (p_os st3) e = heap w' e' \<and> heap w' e' = Some c \<and>
           res = RET_OK \<and> len = len' \<and> files (p_os st3) = files w' \<and> same_fds w' (p_os st3)"
proof -
  from async_read_calm [OF w n a] obtain q e old fd where
    l: "len = word_of_nat (length c)" "b = Addr e" and o: "length old = length c" "heap (p_os st1) e = Some old"
    and f: "files (p_os st1) = files (p_os st)" "calm (p_os st1)" and rd: "has_open False name fd (p_os st) (p_os st1)"
    and u: "under_way False (length c) (Addr e) q (in_aio st1) fd" by auto
  have ct: "content (p_os st1) name = Some c" using f(1) w(2) by (simp add: content_def)
  from rd std have "0 < fd" by (cases "fd = 0") (auto simp: has_open_def)
  with read_finishes [OF u, of name "p_os st" old] f ct rd o obtain s1 s2 r where
    c: "aio_complete q (in_aio st1) = Some (Inr s1)" "aio_notify aio_callback q s1 = Some (Inr s2)"
    and r: "areqs s2 q = Some r" "ar_status r = REQUEST_STAT_IOSUCCESS"
    and s2: "files (aos s2) = files (p_os st1)" "heap (aos s2) e = Some c" "same_fds (p_os st) (aos s2)" by auto
  have e: "process_exec (AioEvent (AEvComplete q)) st1 = Some (Inr (of_aio st1 s1))"
    "process_exec (AioEvent (AEvNotify q)) (of_aio st1 s1) = Some (Inr (of_aio (of_aio st1 s1) s2))"
    using c by simp_all
  from sync_read_ok [OF w(1,2,4)] s have y: "res = RET_OK" "b' = Addr (brk (p_os st))" "len' = word_of_nat (length c)"
    "files w' = files (p_os st)" "heap w' (brk (p_os st)) = Some c" "same_fds (p_os st) w'" by auto
  have p: "p_aio (of_aio (of_aio st1 s1) s2) = s2" by (simp add: of_aio_def)
  have "same_fds w' (aos s2)" using s2(3) y(6) by (simp add: same_fds_def)
  with e l r s2 y f(1) p show ?thesis
    by (intro exI [of _ q] exI [of _ e] exI [of _ "brk (p_os st)"] exI [of _ "of_aio st1 s1"]
        exI [of _ "of_aio (of_aio st1 s1) s2"]) simp
qed

theorem async_read_like_sync_read_witness:
  "\<exists>b len st1. async_read_one_picture_to_file ASYNC_FILE_ACCESSOR_AIO Null ''in'' client_world = Inr (RET_OK, b, len, st1) \<and>
     (\<exists>q st2. process_exec (AioEvent (AEvComplete q)) st1 = Some (Inr st2))"
  (is "\<exists>b len st1. ?c = _ \<and> _")
proof -
  have w: "calm (p_os client_world)" "content (p_os client_world) ''in'' = Some [7, 8, 9]"
    "fd_lookup (p_os client_world) 0 \<noteq> None"
    by (simp_all add: client_world_def calm_def content_def demo_file_def fd_lookup_def fd_at_def)
  have "case ?c of Inr (res, b, len, st') \<Rightarrow> res = RET_OK | Inl f \<Rightarrow> False" by code_simp
  then obtain b len st1 where c: "?c = Inr (RET_OK, b, len, st1)" by (auto split: sum.splits)
  from sync_read_ok [OF w(1,2)] obtain x where
    "sync_read_one_picture_to_file ''in'' (p_os client_world) = Inr (RET_OK, Addr (brk (p_os client_world)), x)" by auto
  then obtain len' w' where s: "sync_read_one_picture_to_file ''in'' (p_os client_world) =
    Inr (RET_OK, Addr (brk (p_os client_world)), len', w')" by (cases x) auto
  have "CHR 0x00 \<notin> set ''in''" "length ''in'' < MAX_FILE_NAME_LEN" "[7, 8, 9 :: u8] \<noteq> []" "length [7, 8, 9 :: u8] < 2 ^ 32"
    by (simp_all add: MAX_FILE_NAME_LEN_def)
  from async_read_like_sync_read [OF w(1,2) this(3,4,1,2) w(3) c s] c show ?thesis by blast
qed

section \<open>The client's write\<close>

lemma alloc_calm:
  assumes r: "aget (Addr a) s = Inr r" "fresh_request True n r" "0 < n" and w: "calm (aos s)"
  shows "aio_request_alloc_write_buffer (Addr a) b0 s = Inr (RET_OK, Addr (brk (aos s)),
           aput (Addr a) (r\<lparr>ar_buf := Addr (brk (aos s)), ar_cb := (ar_cb r)\<lparr>aio_buf := Addr (brk (aos s))\<rparr>, ar_isAlloced := True\<rparr>)
             (s\<lparr>aos := (aos s)\<lparr>calls := Suc (calls (aos s)), brk := Suc (brk (aos s)),
                heap := (heap (aos s))(brk (aos s) := Some (replicate n (fill (aos s))))\<rparr>\<rparr>))"
proof -
  let ?w = "(aos s)\<lparr>calls := Suc (calls (aos s)), brk := Suc (brk (aos s)),
      heap := (heap (aos s))(brk (aos s) := Some (replicate n (fill (aos s))))\<rparr>"
  have "c_malloc n (aos s) = (Addr (brk (aos s)), ?w)" using w by (simp add: c_malloc_def ask_def calm_def)
  then have "retry_for (c_malloc n) (\<lambda>b. b = Null) MAX_RETRY_TIMES (aos s) = (Addr (brk (aos s)), ?w)"
    unfolding retry_for_eq_do by (rule retry_do_good) simp
  then show ?thesis
    using r acheck_valid [OF r(1)] by (simp add: aio_request_alloc_write_buffer_def fresh_request_def)
qed

lemma submit_write_calm:
  assumes w: "calm (p_os st)" "content (p_os st) name \<noteq> None" and i: "request_of True ci name"
    and b: "heap (p_os st) e0 = Some bs" "unat (req_size ci) = length bs"
    and c: "submit_write aio_table ci (Addr e0) st = Inr (RET_OK, st')"
  shows "\<exists>a e fd. heap (p_os st) e = None \<and> heap (p_os st') = (heap (p_os st))(e := Some bs) \<and>
           files (p_os st') = files (p_os st) \<and> calm (p_os st') \<and> has_open True name fd (p_os st) (p_os st') \<and>
           under_way True (length bs) (Addr e) a (in_aio st') fd"
proof -
  let ?s = "in_aio st" and ?n = "length bs"
  from aio_get_calm [OF i, of ?s] w obtain r w1 where
    g: "aio_get_request ci ?s = Inr (RET_OK, Addr (brk (p_os st)), aput (Addr (brk (p_os st))) r (?s\<lparr>aos := w1\<rparr>))"
    and r: "fresh_request True ?n r" and w1: "has_open True name (ar_fd r) (p_os st) w1" "kept (p_os st) w1"
    using b(2) by auto
  let ?a = "brk (p_os st)" and ?e = "brk w1"
  let ?s1 = "aput (Addr ?a) r (?s\<lparr>aos := w1\<rparr>)"
  have g1: "aget (Addr ?a) ?s1 = Inr r" by (simp add: aget_def aput_def)
  have n: "0 < ?n" using i b(2) by (metis request_of_def unat_gt_0)
  have c1: "calm (aos ?s1)" using w1(2) by (simp add: kept_def)
  let ?r = "r\<lparr>ar_buf := Addr ?e, ar_cb := (ar_cb r)\<lparr>aio_buf := Addr ?e\<rparr>, ar_isAlloced := True\<rparr>"
  let ?w2 = "w1\<lparr>calls := Suc (calls w1), brk := Suc (brk w1), heap := (heap w1)(?e := Some (replicate ?n (fill w1)))\<rparr>"
  let ?s2 = "aput (Addr ?a) ?r (?s1\<lparr>aos := ?w2\<rparr>)"
  have al: "aio_request_alloc_write_buffer (Addr ?a) Null ?s1 = Inr (RET_OK, Addr ?e, ?s2)"
    using alloc_calm [OF g1 r n c1, of Null] by simp
  have h1: "heap w1 = heap (p_os st)" "calm w1" using w1(2) by (simp_all add: kept_def)
  then have e0: "heap (p_os st) ?e = None" by (auto simp: calm_def)
  with b(1) have "e0 \<noteq> ?e" by auto
  then have "heap ?w2 e0 = Some bs" using h1(1) b(1) by simp
  from mem_load_heap [OF this order_refl] have cp: "c_memcpy (Addr ?e) (Addr e0) ?n ?w2 =
      Inr (w1\<lparr>calls := Suc (calls w1), brk := Suc (brk w1), heap := (heap w1)(?e := Some bs)\<rparr>)"
    by (simp add: c_memcpy_def mem_store_def overwrite_whole)
  let ?w3 = "w1\<lparr>calls := Suc (calls w1), brk := Suc (brk w1), heap := (heap w1)(?e := Some bs)\<rparr>"
  let ?st1 = "of_aio st ?s1" and ?st2 = "of_aio (of_aio st ?s1) ?s2"
  let ?s3 = "?s2\<lparr>aos := ?w3\<rparr>"
  have "getRequest aio_table ci st = Inr (RET_OK, Addr ?a, ?st1)" by (simp add: aio_table_def on_aio2_def g)
  moreover have "allocWriteBuf aio_table (Addr ?a) Null ?st1 = Inr (RET_OK, Addr ?e, ?st2)"
    by (simp add: aio_table_def on_aio2_def al del: and_then_Inr_iff)
  moreover have "p_os ?st2 = ?w2" by simp
  ultimately have "submit_write aio_table ci (Addr e0) st = putRequest aio_table (Addr ?a) (?st2\<lparr>p_os := ?w3\<rparr>)"
    unfolding submit_write_def by (simp only: and_then_simps prod.case simp_thms if_False b(2) cp)
  moreover have "putRequest aio_table (Addr ?a) (?st2\<lparr>p_os := ?w3\<rparr>) =
      on_aio (?st2\<lparr>p_os := ?w3\<rparr>) (aio_put_request (Addr ?a) ?s3)"
    by (simp only: aio_table_def async_file_accessor.simps in_of_aio in_aio_os)
  ultimately have "on_aio (?st2\<lparr>p_os := ?w3\<rparr>) (aio_put_request (Addr ?a) ?s3) = Inr (RET_OK, st')" using c by (simp only:)
  then obtain s4 where put: "aio_put_request (Addr ?a) ?s3 = Inr (RET_OK, s4)"
    and s4: "st' = of_aio (?st2\<lparr>p_os := ?w3\<rparr>) s4"
    unfolding on_aio_def by (cases "aio_put_request (Addr ?a) ?s3") (auto split: prod.splits)
  have st': "p_os st' = aos s4" "in_aio st' = s4" unfolding s4 by (simp_all only: in_of_aio)
  have c3: "calm ?w3" using h1(2) by (auto simp: calm_def)
  have "under_way True ?n (Addr ?e) ?a s4 (ar_fd ?r) \<and> kept (aos ?s3) (aos s4) \<and> same_fds (aos ?s3) (aos s4)"
    by (rule aio_put_calm [OF _ _ _ _ _ _ put]) (use r c3 in \<open>simp_all add: fresh_request_def aget_def aput_def\<close>)
  then have u: "under_way True ?n (Addr ?e) ?a s4 (ar_fd r)" and k: "kept ?w3 (aos s4)" "same_fds ?w3 (aos s4)"
    by simp_all
  have "same_fds w1 (aos s4)" using k(2) by (simp add: same_fds_def fd_lookup_def)
  with w1(1) have rd: "has_open True name (ar_fd r) (p_os st) (aos s4)" by (simp add: has_open_def same_fds_def)
  have "heap (aos s4) = (heap (p_os st))(?e := Some bs)" "files (aos s4) = files (p_os st)" "calm (aos s4)"
    using k(1) w1(2) by (simp_all add: kept_def)
  with e0 u rd show ?thesis unfolding st' by blast
qed

lemma async_write_calm:
  assumes w: "calm (p_os st)" "content (p_os st) name \<noteq> None"
    and b: "heap (p_os st) e0 = Some bs" "bs \<noteq> []" "length bs < 2 ^ 32" "len = word_of_nat (length bs)"
    and n: "CHR 0x00 \<notin> set name" "length name < MAX_FILE_NAME_LEN"
    and a: "async_write_one_picture_to_file ASYNC_FILE_ACCESSOR_AIO (Addr e0) name len st = Inr (RET_OK, st')"
  shows "\<exists>a e fd. heap (p_os st) e = None \<and> heap (p_os st') = (heap (p_os st))(e := Some bs) \<and>
           files (p_os st') = files (p_os st) \<and> calm (p_os st') \<and> has_open True name fd (p_os st) (p_os st') \<and>
           under_way True (length bs) (Addr e) a (in_aio st') fd"
proof -
  have l: "unat len = length bs" using b(3,4) by (simp add: unat_of_nat)
  then have l0: "len \<noteq> 0" using b(2) by auto
  let ?st = "of_aio st (in_aio st)"
  have os: "p_os ?st = p_os st" by simp
  have inst: "Async_File_Accessor_Get_Instance ASYNC_FILE_ACCESSOR_AIO st = (Some aio_table, ?st)"
    by (simp add: Async_File_Accessor_Get_Instance_def AIO_File_Accessor_Get_Instance_def)
  from a l0 obtain ci where ci: "client_info ASYNC_FILE_ACCESS_WRITE name len = Inr ci"
    and sw: "submit_write aio_table ci (Addr e0) ?st = Inr (RET_OK, st')"
    unfolding async_write_one_picture_to_file_def inst prod.case by (auto split: if_splits)
  have i: "request_of True ci name \<and> req_size ci = len"
    using client_info_request [OF n l0, of True ci] ci by simp
  show ?thesis
    using submit_write_calm [of ?st name ci e0 bs st'] w b(1) i sw l unfolding os by simp
qed

lemma write_finishes:
  assumes u: "under_way True (length bs) (Addr e) a s fd" and w: "calm (aos s)" "content (aos s) name = Some c"
    and rd: "has_open True name fd w0 (aos s)" and b: "heap (aos s) e = Some bs"
  shows "\<exists>s1 s2 r. aio_complete a s = Some (Inr s1) \<and> aio_notify aio_callback a s1 = Some (Inr s2) \<and>
           areqs s2 a = Some r \<and> ar_status r = REQUEST_STAT_IOSUCCESS \<and>
           content (aos s2) = (content (aos s))(name := Some (bs @ drop (length bs) c)) \<and>
           heap (aos s2) = (heap (aos s))(e := None) \<and> (0 < fd \<longrightarrow> same_fds w0 (aos s2))"
proof -
  from u obtain r x where r: "areqs s a = Some r" "aio_sival (ar_cb r) = Addr a" "fresh_request True (length bs) r"
    "ar_fd r = fd" "aio_buf (ar_cb r) = Addr e" "ar_isAlloced r" "ar_buf r = Addr e"
    and x: "aops s a = Some x" "op_progress x = InProgress" "op_write x"
    by (auto simp: under_way_def)
  from w(2) obtain f where f: "files (aos s) name = Some f" "f_content f = c" by (auto simp: content_def)
  let ?d = "\<lparr>o_path = name, o_mode = WronlyCreat, o_pos = 0\<rparr>"
  have d: "fd_lookup (aos s) fd = Some ?d" using rd by (simp add: has_open_def)
  have tr: "transfer_ready r (aos s) ?d f"
    using w(1) r d f by (simp add: transfer_ready_def fresh_request_def calm_def)
  have n: "aio_nbytes (ar_cb r) = length bs" "nat (aio_offset (ar_cb r)) = 0" "aio_fildes (ar_cb r) = fd"
    using r(3,4) by (simp_all add: fresh_request_def)
  have fw: "file_write 0 bs c = bs @ drop (length bs) c"
    by (auto simp: file_write_def overwrite_def resize_def max_def)
  let ?w = "(aos s)\<lparr>calls := Suc (calls (aos s)), files := (files (aos s))(name := Some (f\<lparr>f_content := bs @ drop (length bs) c\<rparr>))\<rparr>"
  have "aio_transfer True (ar_cb r) (aos s) = Inr (0, ?w)"
    using write_transfer [OF tr _ r(5) b] by (simp add: n f(2) can_write_def fw)
  then have t: "aio_transfer (op_write x) (ar_cb r) (aos s) = Inr (0, ?w)" using x(3) by simp
  have fr: "c_free (aio_buf (ar_cb r)) ?w = Inr v \<longleftrightarrow> v = ?w\<lparr>heap := (heap (aos s))(e := None)\<rparr>" for v
    using b by (auto simp: r(5) c_free_def)
  from completed [OF x(1,2) r(1,2) t _ exI] fr r(6,7) obtain s1 s2 r' where
    "aio_complete a s = Some (Inr s1)" "aio_notify aio_callback a s1 = Some (Inr s2)"
    "areqs s2 a = Some r'" "ar_status r' = REQUEST_STAT_IOSUCCESS" and s2: "files (aos s2) = files ?w"
    "heap (aos s2) = (heap (aos s))(e := None)"
    and l: "\<And>k. fd_lookup (aos s2) k =
      (if 0 < k \<and> (k = ar_fd r \<or> k = aio_fildes (ar_cb r)) then None else fd_lookup (aos s) k)" by auto
  moreover have "same_fds w0 (aos s2)" if "0 < fd"
    using l rd that by (auto simp: same_fds_def has_open_def r(4) n(3))
  moreover have "content (aos s2) = (content (aos s))(name := Some (bs @ drop (length bs) c))"
    by (simp add: content_def s2(1) fun_eq_iff)
  ultimately show ?thesis by auto
qed

text \<open>
  C12: a write through the AIO accessor is not the synchronous one: when nothing is refused and the client's
  write of a picture over an existing file reports success, then, after the system has carried out the
  operation and notified, the request is \<open>IOSUCCESS\<close>, the buffers are freed and the descriptors closed, as the
  synchronous write leaves them; but where the old file was longer than the picture its tail is
  still there, because \<open>aio_get_request\<close> opens without \<open>O_TRUNC\<close>. Otherwise the files are the same.
\<close>
theorem async_write_leaves_the_tail:
  assumes w: "calm (p_os st)" "content (p_os st) name = Some c" and std: "fd_lookup (p_os st) 0 \<noteq> None"
    and b: "heap (p_os st) e = Some bs" "bs \<noteq> []" "length bs < 2 ^ 32" "len = word_of_nat (length bs)"
    and n: "CHR 0x00 \<notin> set name" "length name < MAX_FILE_NAME_LEN"
    and a: "async_write_one_picture_to_file ASYNC_FILE_ACCESSOR_AIO (Addr e) name len st = Inr (RET_OK, st1)"
    and s: "sync_write_one_picture_to_file (Addr e) name len (p_os st) = Inr (res, w')"
  shows "\<exists>q st2 st3. process_exec (AioEvent (AEvComplete q)) st1 = Some (Inr st2) \<and>
           process_exec (AioEvent (AEvNotify q)) st2 = Some (Inr st3) \<and>
           map_option ar_status (areqs (p_aio st3) q) = Some REQUEST_STAT_IOSUCCESS \<and> res = RET_OK \<and>
           heap (p_os st3) = heap w' \<and> same_fds w' (p_os st3) \<and>
           content w' = (content (p_os st))(name := Some bs) \<and>
           content (p_os st3) = (content (p_os st))(name := Some (bs @ drop (length bs) c))"
proof -
  from async_write_calm [OF w(1) _ b n a] w(2) obtain q e1 fd where
    h: "heap (p_os st) e1 = None" "heap (p_os st1) = (heap (p_os st))(e1 := Some bs)"
    and f: "files (p_os st1) = files (p_os st)" "calm (p_os st1)" and rd: "has_open True name fd (p_os st) (p_os st1)"
    and u: "under_way True (length bs) (Addr e1) q (in_aio st1) fd" by auto
  have ct: "content (p_os st1) = content (p_os st)" using f(1) by (simp add: content_def fun_eq_iff)
  from rd std have "0 < fd" by (cases "fd = 0") (auto simp: has_open_def)
  with write_finishes [OF u, of name c "p_os st"] f ct w(2) rd h obtain s1 s2 r where
    c: "aio_complete q (in_aio st1) = Some (Inr s1)" "aio_notify aio_callback q s1 = Some (Inr s2)"
    and r: "areqs s2 q = Some r" "ar_status r = REQUEST_STAT_IOSUCCESS"
    and s2: "content (aos s2) = (content (p_os st))(name := Some (bs @ drop (length bs) c))"
      "heap (aos s2) = (heap (p_os st))(e1 := None)" "same_fds (p_os st) (aos s2)" by auto
  from h(1) s2(2) have hs: "heap (aos s2) = heap (p_os st)" by (simp add: fun_upd_idem)
  have e: "process_exec (AioEvent (AEvComplete q)) st1 = Some (Inr (of_aio st1 s1))"
    "process_exec (AioEvent (AEvNotify q)) (of_aio st1 s1) = Some (Inr (of_aio (of_aio st1 s1) s2))"
    using c by simp_all
  from sync_write_ok [OF w(1) b, of name] s have y: "res = RET_OK" "content w' = (content (p_os st))(name := Some bs)"
    "heap w' = heap (p_os st)" "same_fds (p_os st) w'" by auto
  have p: "p_aio (of_aio (of_aio st1 s1) s2) = s2" by (simp add: of_aio_def)
  have "same_fds w' (aos s2)" using s2(3) y(4) by (simp add: same_fds_def)
  with e r s2(1) hs y p show ?thesis
    by (intro exI [of _ q] exI [of _ "of_aio st1 s1"] exI [of _ "of_aio (of_aio st1 s1) s2"]) simp
qed

text \<open>Two bytes over a file of three.\<close>

definition shorter_world :: process where
  "shorter_world = client_world\<lparr>p_os := (p_os client_world)\<lparr>brk := 2, heap := [1 \<mapsto> [4, 5]]\<rparr>\<rparr>"

theorem async_write_leaves_the_tail_witness:
  "\<exists>q st1 st2 st3. async_write_one_picture_to_file ASYNC_FILE_ACCESSOR_AIO (Addr 1) ''in'' 2 shorter_world = Inr (RET_OK, st1) \<and>
     process_exec (AioEvent (AEvComplete q)) st1 = Some (Inr st2) \<and>
     process_exec (AioEvent (AEvNotify q)) st2 = Some (Inr st3) \<and>
     content (p_os st3) ''in'' = Some [4, 5, 9]"
  (is "\<exists>q st1 st2 st3. ?c = _ \<and> _")
proof -
  have w: "calm (p_os shorter_world)" "content (p_os shorter_world) ''in'' = Some [7, 8, 9]"
    "fd_lookup (p_os shorter_world) 0 \<noteq> None" "heap (p_os shorter_world) 1 = Some [4, 5]"
    by (simp_all add: shorter_world_def client_world_def calm_def content_def demo_file_def fd_lookup_def fd_at_def)
  have "case ?c of Inr (res, st') \<Rightarrow> res = RET_OK | Inl f \<Rightarrow> False" by code_simp
  then obtain st1 where c: "?c = Inr (RET_OK, st1)" by (auto split: sum.splits)
  have l: "[4, 5 :: u8] \<noteq> []" "length [4, 5 :: u8] < 2 ^ 32" "(2 :: u32) = word_of_nat (length [4, 5 :: u8])"
    "CHR 0x00 \<notin> set ''in''" "length ''in'' < MAX_FILE_NAME_LEN"
    by (simp_all add: MAX_FILE_NAME_LEN_def)
  from sync_write_ok [OF w(1,4) l(1-3), of "''in''"] obtain w' where
    s: "sync_write_one_picture_to_file (Addr 1) ''in'' 2 (p_os shorter_world) = Inr (RET_OK, w')" by auto
  from async_write_leaves_the_tail [OF w(1,2,3,4) l c s] c show ?thesis by fastforce
qed

end
