(* ===== verification/Mmap_Alone.thy ===== *)
theory Mmap_Alone
  imports Mmap_IO
begin

text \<open>
  One task in a pool with nothing else to do: whichever threads take a step, and in whatever order,
  the requests and the operating system go through the states the phases of the task's function
  give, no thread faults, and the pool comes to rest with the function's result.
\<close>

section \<open>Phases look at requests and system only\<close>

definition agrees :: "mmap_sys \<Rightarrow> mmap_sys \<Rightarrow> bool" where
  "agrees s u \<longleftrightarrow> requests s = requests u \<and> os s = os u"

definition moved :: "mmap_sys \<Rightarrow> mmap_sys \<Rightarrow> mmap_sys" where
  "moved s u = s\<lparr>requests := requests u, os := os u\<rparr>"

lemma agrees_moved: "agrees s u \<longleftrightarrow> s = moved s u"
  unfolding agrees_def moved_def by (cases s) auto

lemma moved_agrees [simp]: "agrees (moved s u) u"
  by (simp add: agrees_def moved_def)

lemma agrees_set_thread [simp]: "agrees (set_thread i pc s) u = agrees s u"
  by (simp add: agrees_def)

lemma moved_get_req [simp]: "get_req p (moved s u) = get_req p u"
  by (simp add: get_req_def moved_def)

lemma moved_os [simp]: "os (moved s u) = os u"
  by (simp add: moved_def)

lemma moved_put_req: "put_req p r (moved s u) = moved s (put_req p r u)"
  by (simp add: put_req_def moved_def)

lemma moved_world: "(moved s u)\<lparr>os := w\<rparr> = moved s (u\<lparr>os := w\<rparr>)"
  by (simp add: moved_def)

lemmas moved_commutes = moved_put_req moved_world

lemma enter_moved:
  "task_enter f p (moved s u) = and_then (task_enter f p u) (\<lambda>(go, v). Inr (go, moved s v))"
proof (cases "get_req p u")
  case (Inr r)
  then show ?thesis
    by (cases f) (simp_all add: mmapRead_enter_def mmapWrite_enter_def mmap_unmap_buf_def moved_commutes)
qed (cases f; simp add: mmapRead_enter_def mmapWrite_enter_def)

lemma io_moved:
  "task_io f p (moved s u) = and_then (task_io f p u) (\<lambda>(ok, a, v). Inr (ok, a, moved s v))"
proof (cases "get_req p u")
  case (Inr r)
  then show ?thesis
    by (cases f) (simp_all add: mmapRead_io_def mmapWrite_io_def moved_commutes and_then_assoc
        Let_def split: prod.split)
qed (cases f; simp add: mmapRead_io_def mmapWrite_io_def)

lemma record_moved:
  "mmap_record_status p ok (moved s u) = and_then (mmap_record_status p ok u) (\<lambda>v. Inr (moved s v))"
  by (simp add: mmap_record_status_def moved_commutes and_then_assoc)

lemma close_moved: "mmap_close_fd p (moved s u) = and_then (mmap_close_fd p u) (\<lambda>v. Inr (moved s v))"
  by (cases "get_req p u") (simp_all add: mmap_close_fd_def moved_commutes)

lemma unmap_moved: "mmap_unmap_buf p (moved s u) = and_then (mmap_unmap_buf p u) (\<lambda>v. Inr (moved s v))"
  by (cases "get_req p u") (simp_all add: mmap_unmap_buf_def moved_commutes)

lemma cleanup_moved:
  "task_cleanup f p a (moved s u) = and_then (task_cleanup f p a u) (\<lambda>v. Inr (moved s v))"
proof (cases f)
  case FnMmapRead
  then show ?thesis
    by (cases "get_req p u") (simp_all add: mmapRead_cleanup_def moved_world close_moved Let_def)
next
  case FnMmapWrite
  then show ?thesis
    by (cases "mmap_unmap_buf p u") (simp_all add: mmapWrite_cleanup_def unmap_moved close_moved)
qed

lemma task_call_tasks: "tasks s = tasks u \<Longrightarrow> task_call t s = task_call t u"
  by (simp add: task_call_def)

section \<open>A task and what its phases do\<close>

text \<open>The states the phases of task \<open>t\<close> lead through, from \<open>s0\<close> when nothing comes in between.\<close>

record job =
  j_task :: ptr
  j_ok :: bool
  j_map :: ptr
  j_start :: mmap_sys
  j_done_io :: mmap_sys
  j_recorded :: mmap_sys
  j_end :: mmap_sys

definition job_runs :: "task_fn \<Rightarrow> ptr \<Rightarrow> job \<Rightarrow> bool" where
  "job_runs f p j \<longleftrightarrow>
     task_call (j_task j) (j_start j) = Inr (f, p) \<and>
     task_enter f p (j_start j) = Inr (True, j_start j) \<and>
     task_io f p (j_start j) = Inr (j_ok j, j_map j, j_done_io j) \<and>
     mmap_record_status p (j_ok j) (j_done_io j) = Inr (j_recorded j) \<and>
     task_cleanup f p (j_map j) (j_recorded j) = Inr (j_end j)"

lemma job_computes: "job_runs f p j \<Longrightarrow> call_task f p (j_start j) = Inr (j_end j)"
  by (simp add: job_runs_def call_task_phases)

text \<open>Requests and system where the thread with the task is at a program point.\<close>

fun stage :: "job \<Rightarrow> wpc \<Rightarrow> mmap_sys option" where
  "stage j (WGot t) = (if t = j_task j then Some (j_start j) else None)"
| "stage j (WMark t) = (if t = j_task j then Some (j_start j) else None)"
| "stage j (WEnter t) = (if t = j_task j then Some (j_start j) else None)"
| "stage j (WIo t) = (if t = j_task j then Some (j_start j) else None)"
| "stage j (WStat t ok a) = (if t = j_task j \<and> ok = j_ok j \<and> a = j_map j then Some (j_done_io j) else None)"
| "stage j (WClean t a) = (if t = j_task j \<and> a = j_map j then Some (j_recorded j) else None)"
| "stage j WFinish = Some (j_end j)"
| "stage j _ = None"

definition at_rest :: "wpc \<Rightarrow> bool" where
  "at_rest pc \<longleftrightarrow> pc = WNone \<or> pc = WStart \<or> pc = WAcquire"

lemma at_rest_simps [simp]:
  "at_rest WNone" "at_rest WStart" "at_rest WAcquire" "\<not> at_rest (WGot t)" "\<not> at_rest (WMark t)"
  "\<not> at_rest (WEnter t)" "\<not> at_rest (WIo t)" "\<not> at_rest (WStat t ok a)" "\<not> at_rest (WClean t a)"
  "\<not> at_rest WFinish" "\<not> at_rest WExit" "\<not> at_rest WJoined"
  by (simp_all add: at_rest_def)

definition resting :: "mmap_sys \<Rightarrow> bool" where
  "resting s \<longleftrightarrow> (\<forall>k < length (threads s). at_rest (threads s ! k))"

definition working :: "job \<Rightarrow> mmap_sys \<Rightarrow> bool" where
  "working j s \<longleftrightarrow>
     (\<exists>i < length (threads s). (\<forall>k < length (threads s). k \<noteq> i \<longrightarrow> at_rest (threads s ! k)) \<and>
        (\<exists>u. stage j (threads s ! i) = Some u \<and> agrees s u))"

text \<open>The task is queued, or one thread has it, or it is done.\<close>

definition alone :: "job \<Rightarrow> mmap_sys \<Rightarrow> bool" where
  "alone j s \<longleftrightarrow> isRunning (pinfo s) \<and> queue_wf s \<and> tasks s = tasks (j_start j) \<and>
     (pending_tasks s = [j_task j] \<and> resting s \<and> agrees s (j_start j) \<or>
      pending_tasks s = [] \<and> working j s \<or>
      pending_tasks s = [] \<and> resting s \<and> agrees s (j_end j))"


section \<open>Every step keeps to it\<close>

lemma set_thread_pending [simp]: "pending_tasks (set_thread i pc s) = pending_tasks s"
  by (simp add: pending_tasks_def)

lemma same_queue:
  assumes "tqueue v = tqueue s" "parrs (os v) = parrs (os s)" "brk (os s) \<le> brk (os v)"
  shows "pending_tasks v = pending_tasks s" "queue_wf s \<Longrightarrow> queue_wf v"
proof -
  have "queue_arr v = queue_arr s" using assms by (intro queue_arr_cong) simp_all
  then have "slot v = slot s" by (simp add: fun_eq_iff slot_def)
  then show "pending_tasks v = pending_tasks s" using assms by (simp add: pending_tasks_def)
  show "queue_wf v" if "queue_wf s"
    using that assms \<open>queue_arr v = queue_arr s\<close> \<open>slot v = slot s\<close>
    unfolding queue_wf_def by (auto intro: less_le_trans)
qed

lemma quiet_pending: "quiet s s' \<Longrightarrow> pending_tasks s' = pending_tasks s"
  using quiet_same [of s s'] by (intro same_queue) simp_all

lemma resting_set: "resting s \<Longrightarrow> at_rest pc \<Longrightarrow> resting (set_thread i pc s)"
  by (auto simp: resting_def nth_list_update_if)

lemma working_set:
  assumes "i < length (threads s)" "\<forall>k < length (threads s). k \<noteq> i \<longrightarrow> at_rest (threads s ! k)"
    and "stage j pc = Some u" "agrees s u"
  shows "working j (set_thread i pc s)"
  unfolding working_def using assms by (intro exI [of _ i]) (simp add: nth_list_update_if)

text \<open>The thread that has the task takes a step.\<close>

lemma holder_step:
  assumes j: "job_runs f p j" and run: "isRunning (pinfo s)" and wf: "queue_wf s"
    and t: "tasks s = tasks (j_start j)" "deref (tasks s) (j_task j) = Inr tk"
    and q: "pending_tasks s = []" and i: "i < length (threads s)"
    and others: "\<forall>k < length (threads s). k \<noteq> i \<longrightarrow> at_rest (threads s ! k)"
    and st: "stage j (threads s ! i) = Some u" "agrees s u"
  shows "\<exists>s'. worker_step i s = Some (Inr s') \<and> alone j s'"
proof -
  have to: "alone j (set_thread i pc v)"
    if "stage j pc = Some u'" "agrees v u'" "quiet s v" for pc v u'
  proof -
    note v = quiet_same [OF that(3)]
    have "working j (set_thread i pc v)" using i others that by (intro working_set) (simp_all add: v)
    then show ?thesis using run t(1) quiet_queue_wf [OF that(3) wf] quiet_pending [OF that(3)] q
      by (simp add: alone_def v)
  qed
  have busy: "alone j (set_thread i pc v)"
    if "stage j pc = Some u'" "agrees s u'" "v = s\<lparr>pinfo := pinfo v\<rparr>" "isRunning (pinfo v)" for pc v u'
  proof -
    have v: "threads v = threads s" "os v = os s" "tqueue v = tqueue s" "tasks v = tasks s" "requests v = requests s"
      by (subst that(3), simp)+
    from v have "agrees v u'" using that(2) by (simp add: agrees_def)
    then have "working j (set_thread i pc v)" using i others that(1) by (intro working_set) (simp_all add: v)
    moreover have "queue_wf v" "pending_tasks v = []"
      using same_queue [of v s] wf q v by simp_all
    ultimately show ?thesis using that(4) t(1) by (simp add: alone_def v)
  qed
  have m: "s = moved s u" using st(2) by (simp add: agrees_moved)
  from j t have tc: "task_call (j_task j) s = Inr (f, p)"
    using task_call_tasks [of s "j_start j"] by (simp add: job_runs_def)
  show ?thesis
  proof (cases "threads s ! i")
    case (WGot x)
    with st have x: "x = j_task j" "u = j_start j" by (auto split: if_splits)
    have "alone j (set_thread i (WMark x) s)" using st(2) x by (intro to [of _ u]) simp_all
    with WGot i t(2) run x show ?thesis by (simp add: worker_step_def)
  next
    case (WMark x)
    with st have x: "x = j_task j" "u = j_start j" by (auto split: if_splits)
    have "alone j (set_thread i (WEnter x) (count_busy s))"
      using st(2) x run by (intro busy [of _ u]) (simp_all add: count_busy_def)
    with WMark i show ?thesis by (simp add: worker_step_def)
  next
    case (WEnter x)
    with st have x: "x = j_task j" "u = j_start j" by (auto split: if_splits)
    with j have "task_enter f p (moved s u) = Inr (True, moved s u)" by (simp add: job_runs_def enter_moved)
    then have "task_enter f p s = Inr (True, s)" by (simp only: m [symmetric])
    moreover have "alone j (set_thread i (WIo x) s)" using st(2) x by (intro to [of _ u]) simp_all
    ultimately show ?thesis using WEnter i x tc by (simp add: worker_step_def)
  next
    case (WIo x)
    with st have x: "x = j_task j" "u = j_start j" by (auto split: if_splits)
    with j have "task_io f p (moved s u) = Inr (j_ok j, j_map j, moved s (j_done_io j))"
      by (simp add: job_runs_def io_moved)
    then have io: "task_io f p s = Inr (j_ok j, j_map j, moved s (j_done_io j))" by (simp only: m [symmetric])
    have "alone j (set_thread i (WStat x (j_ok j) (j_map j)) (moved s (j_done_io j)))"
      using x quiet_io [OF io] by (intro to [of _ "j_done_io j"]) simp_all
    with io show ?thesis using WIo i x tc by (simp add: worker_step_def)
  next
    case (WStat x ok a)
    with st have x: "x = j_task j" "ok = j_ok j" "a = j_map j" "u = j_done_io j" by (auto split: if_splits)
    with j have "mmap_record_status p ok (moved s u) = Inr (moved s (j_recorded j))"
      by (simp add: job_runs_def record_moved)
    then have rec: "mmap_record_status p ok s = Inr (moved s (j_recorded j))" by (simp only: m [symmetric])
    have "alone j (set_thread i (WClean x a) (moved s (j_recorded j)))"
      using x quiet_record [OF rec] by (intro to [of _ "j_recorded j"]) simp_all
    with rec show ?thesis using WStat i x tc by (simp add: worker_step_def)
  next
    case (WClean x a)
    with st have x: "x = j_task j" "a = j_map j" "u = j_recorded j" by (auto split: if_splits)
    with j have "task_cleanup f p a (moved s u) = Inr (moved s (j_end j))"
      by (simp add: job_runs_def cleanup_moved)
    then have cl: "task_cleanup f p a s = Inr (moved s (j_end j))" by (simp only: m [symmetric])
    have "alone j (set_thread i WFinish (moved s (j_end j)))"
      using x quiet_cleanup [OF cl] by (intro to [of _ "j_end j"]) simp_all
    with cl show ?thesis using WClean i x tc by (simp add: worker_step_def)
  next
    case WFinish
    let ?v = "set_thread i WAcquire (count_idle s)"
    have "resting ?v" using others i by (auto simp: resting_def nth_list_update_if count_idle_def)
    moreover have "agrees ?v (j_end j)" using st WFinish by (simp add: agrees_def count_idle_def)
    moreover have "queue_wf (count_idle s)" "pending_tasks (count_idle s) = []"
      using same_queue [of "count_idle s" s] wf q by (simp_all add: count_idle_def)
    ultimately have "alone j ?v" using run t(1) by (simp add: alone_def count_idle_def)
    with WFinish i show ?thesis by (simp add: worker_step_def)
  qed (use st in simp_all)
qed

text \<open>A thread without a task registers, or takes the task.\<close>

lemma start_step:
  assumes a: "alone j s" and i: "i < length (threads s)" "threads s ! i = WStart"
  shows "alone j (set_thread i WAcquire (count_alive s))"
proof -
  let ?v = "set_thread i WAcquire (count_alive s)"
  have q: "pending_tasks ?v = pending_tasks s" "queue_wf s \<Longrightarrow> queue_wf ?v"
    using same_queue [of "count_alive s" s] by (simp_all add: count_alive_def)
  have r: "resting s \<Longrightarrow> resting ?v" by (auto simp: resting_def count_alive_def nth_list_update_if)
  have g: "agrees ?v u = agrees s u" for u by (simp add: agrees_def count_alive_def)
  have "working j ?v" if "working j s"
  proof -
    from that obtain k u where k: "k < length (threads s)" "stage j (threads s ! k) = Some u" "agrees s u"
      "\<forall>l < length (threads s). l \<noteq> k \<longrightarrow> at_rest (threads s ! l)" unfolding working_def by auto
    with i have "k \<noteq> i" by auto
    with k g show ?thesis unfolding working_def
      by (intro exI [of _ k]) (auto simp: count_alive_def nth_list_update_if agrees_def)
  qed
  with a q r g show ?thesis by (auto simp: alone_def count_alive_def)
qed

lemma take_step:
  assumes a: "alone j s" and i: "i < length (threads s)" "threads s ! i = WAcquire"
    and m: "worker_step i s = Some m"
  shows "\<exists>s'. m = Inr s' \<and> alone j s'"
proof -
  from m i obtain x where x: "acquire_task s = Some x" "m = and_then x (\<lambda>(t, s'). Inr (set_thread i (WGot t) s'))"
    by (auto simp: worker_step_def)
  from a have wf: "queue_wf s" by (simp add: alone_def)
  from acquire_task_spec [OF wf x(1)] obtain t s' where s': "x = Inr (t, s')" "s' = s\<lparr>tqueue := tqueue s'\<rparr>" "queue_wf s'"
    by blast
  with acquire_task_pending [OF wf] x(1) have p: "pending_tasks s = t # pending_tasks s'" by simp
  with a have j: "t = j_task j" "pending_tasks s' = []" "resting s" "agrees s (j_start j)" by (auto simp: alone_def)
  have e: "threads s' = threads s" "pinfo s' = pinfo s" "tasks s' = tasks s" "agrees s' u = agrees s u" for u
    by (subst s'(2), simp add: agrees_def)+
  have "working j (set_thread i (WGot t) s')"
    using i j by (intro working_set) (auto simp: e resting_def)
  with a j s'(3) have "alone j (set_thread i (WGot t) s')" by (simp add: alone_def e)
  with x s'(1) show ?thesis by simp
qed

lemma alone_step:
  assumes j: "job_runs f p j" and a: "alone j s" and m: "worker_step i s = Some m"
  shows "\<exists>s'. m = Inr s' \<and> alone j s'"
proof -
  from m have i: "i < length (threads s)" by (auto simp: worker_step_def split: if_splits)
  show ?thesis
  proof (cases "at_rest (threads s ! i)")
    case True
    with m i show ?thesis using start_step [OF a i] take_step [OF a i _ m]
      by (auto simp: at_rest_def worker_step_def)
  next
    case False
    with a i have q: "pending_tasks s = []" and "working j s" by (auto simp: alone_def resting_def)
    then obtain k u where k: "k < length (threads s)" "stage j (threads s ! k) = Some u" "agrees s u"
      "\<forall>l < length (threads s). l \<noteq> k \<longrightarrow> at_rest (threads s ! l)" unfolding working_def by auto
    with False i have [simp]: "k = i" by auto
    from j obtain tk where "deref (tasks (j_start j)) (j_task j) = Inr tk"
      by (auto simp: job_runs_def task_call_def)
    with a k q holder_step [OF j _ _ _ _ q i, of tk u] m show ?thesis by (auto simp: alone_def)
  qed
qed

lemma alone_run:
  assumes j: "job_runs f p j"
  shows "alone j s \<Longrightarrow> run mmap_exec (map EvWorker is) s = Some s' \<Longrightarrow>
    alone j s' \<and> length is + pool_work s' \<le> pool_work s"
proof (induction "is" arbitrary: s)
  case (Cons i "is")
  from Cons.prems(2) obtain u where u: "worker_step i s = Some (Inr u)"
    "run mmap_exec (map EvWorker is) u = Some s'"
    by (auto split: option.splits sum.splits)
  from alone_step [OF j Cons.prems(1) u(1)] have "alone j u" by simp
  with Cons.IH [OF _ u(2)] worker_work [OF _ u(1)] Cons.prems(1) show ?case
    by (fastforce simp: alone_def)
qed simp

text \<open>Where no thread can take a step the task is done.\<close>

lemma alone_stuck:
  assumes j: "job_runs f p j" and a: "alone j s" and stuck: "\<forall>i. worker_step i s = None"
    and some: "\<exists>i < length (threads s). threads s ! i \<noteq> WNone"
  shows "pending_tasks s = [] \<and> resting s \<and> agrees s (j_end j)"
proof -
  have "\<not> working j s"
  proof
    assume "working j s"
    then obtain k u where k: "k < length (threads s)" "stage j (threads s ! k) = Some u" unfolding working_def by auto
    with stuck have "worker_at k (threads s ! k) s = None" by (metis worker_step_def)
    with k(2) show False by (cases "threads s ! k") auto
  qed
  moreover have "pending_tasks s = []" if r: "resting s"
  proof -
    from some obtain k where k: "k < length (threads s)" "threads s ! k \<noteq> WNone" by blast
    with r have "threads s ! k = WStart \<or> threads s ! k = WAcquire" by (auto simp: resting_def at_rest_def)
    moreover from k stuck have "worker_at k (threads s ! k) s = None" by (metis worker_step_def)
    ultimately have "acquire_task s = None" by auto
    with a show ?thesis by (simp add: alone_def pending_tasks_empty acquire_task_None)
  qed
  ultimately show ?thesis using a by (auto simp: alone_def)
qed

lemma alone_agrees:
  "alone j s \<Longrightarrow> \<exists>u \<in> {j_start j, j_done_io j, j_recorded j, j_end j}. agrees s u"
  by (auto simp: alone_def working_def split: if_splits elim!: stage.elims)

text \<open>A pool that is started and has nothing to do.\<close>

definition idle_pool :: "mmap_sys \<Rightarrow> bool" where
  "idle_pool s \<longleftrightarrow> isInitialized (pinfo s) \<and> isRunning (pinfo s) \<and> queue_wf s \<and> pending_tasks s = [] \<and>
     resting s \<and> some_thread s \<and> totaln s < LIST_LIMIT"

lemma workers_some_thread:
  "some_thread s \<Longrightarrow> run mmap_exec (map EvWorker is) s = Some s' \<Longrightarrow> some_thread s'"
proof (induction "is" arbitrary: s)
  case (Cons i "is")
  from Cons.prems(2) obtain u where u: "worker_step i s = Some (Inr u)"
    "run mmap_exec (map EvWorker is) u = Some s'"
    by (auto split: option.splits sum.splits)
  from Cons.IH [OF worker_some_thread [OF u(1) Cons.prems(1)] u(2)] show ?case .
qed simp

text \<open>What every run of the pool threads gives: no fault, an end, and at the end the function's result.\<close>

lemma alone_outcome:
  assumes j: "job_runs f p j" and a: "alone j s" "some_thread s"
    and r: "run mmap_exec (map EvWorker is) s = Some s'"
  shows "length is \<le> pool_work s \<and> (\<forall>i x. worker_step i s' \<noteq> Some (Inl x)) \<and>
         (\<exists>u \<in> {j_start j, j_done_io j, j_recorded j, j_end j}. agrees s' u) \<and>
         ((\<forall>i. worker_step i s' = None) \<longrightarrow> agrees s' (j_end j))"
proof -
  from alone_run [OF j a(1) r] have s': "alone j s'" "length is + pool_work s' \<le> pool_work s" by auto
  with alone_step [OF j s'(1)] alone_agrees [OF s'(1)] alone_stuck [OF j s'(1)]
    workers_some_thread [OF a(2) r] show ?thesis
    by (fastforce simp: some_thread_def)
qed

end
