(* ===== verification/Client_Mmap.thy ===== *)
theory Client_Mmap
  imports Client_Read Mmap_Alone
begin

text \<open>
  A picture read or written through the mmap accessor, with the pool threads in any order, against
  \<open>sync_read_one_picture_to_file\<close> and \<open>sync_write_one_picture_to_file\<close>. The flag \<open>wr\<close> says which
  of the two a request is for.
\<close>

section \<open>Calls that are not refused\<close>

text \<open>Nothing is refused, and no block or mapping lies where the next one will.\<close>

definition spacious :: "world \<Rightarrow> bool" where
  "spacious w \<longleftrightarrow> calm w \<and> (\<forall>a. brk w \<le> a \<longrightarrow> mmaps w a = None)"

definition grown :: "world \<Rightarrow> world \<Rightarrow> bool" where
  "grown w w' \<longleftrightarrow> heap w' = heap w \<and> mmaps w' = mmaps w \<and> parrs w' = parrs w \<and> refuse w' = refuse w \<and>
     brk w \<le> brk w'"

lemma grown_trans: "grown u v \<Longrightarrow> grown v w \<Longrightarrow> grown u w"
  by (simp add: grown_def)

lemma grown_spacious: "grown w w' \<Longrightarrow> spacious w \<Longrightarrow> spacious w'"
  by (auto simp: grown_def spacious_def calm_def)

lemma same_store_grown: "same_store w w' \<Longrightarrow> grown w w'"
  by (simp add: same_store_def grown_def)

abbreviation mmode_of :: "bool \<Rightarrow> open_mode" where
  "mmode_of wr \<equiv> if wr then RdwrCreatTrunc else Rdonly"

definition holds_open :: "bool \<Rightarrow> string \<Rightarrow> int \<Rightarrow> world \<Rightarrow> world \<Rightarrow> bool" where
  "holds_open wr p fd w w' \<longleftrightarrow> 0 \<le> fd \<and> fd_lookup w fd = None \<and>
     (\<forall>k. fd_lookup w' k = (if k = fd then Some \<lparr>o_path = p, o_mode = mmode_of wr, o_pos = 0\<rparr> else fd_lookup w k))"

text \<open>The file a request starts with.\<close>

definition prepared_file :: "bool \<Rightarrow> string \<Rightarrow> nat \<Rightarrow> world \<Rightarrow> world \<Rightarrow> bool" where
  "prepared_file wr p n w w' \<longleftrightarrow>
     (if wr then (\<exists>f. files w' = (files w)(p := Some f) \<and> f_content f = replicate n 0) else files w' = files w)"

section \<open>The request\<close>

definition ready_request :: "bool \<Rightarrow> u32 \<Rightarrow> mmap_request \<Rightarrow> bool" where
  "ready_request wr n r \<longleftrightarrow> r_isValid r \<and> direction (r_info r) = dir_of wr \<and> r_nbytes r = n \<and> r_offset r = 0"

lemma setup_calm:
  assumes s: "mmap_request_setup ci fd r w = (r', w')" and c: "calm w"
    and d: "fd_lookup w fd = Some \<lparr>o_path = p, o_mode = mmode_of wr, o_pos = 0\<rparr>"
    and f: "files w p = Some f" and i: "request_of wr ci p" "r_info r = ci"
  shows "same_store w w' \<and> same_fds w w' \<and>
         files w' = (if wr then (files w)(p := Some (f\<lparr>f_content := resize (unat (req_size ci)) (f_content f)\<rparr>)) else files w)"
proof -
  let ?d = "\<lparr>o_path = p, o_mode = mmode_of wr, o_pos = 0\<rparr>"
  obtain off w1 where o: "sys_lseek_cur fd (unat (req_offset ci)) w = (off, w1)" by fastforce
  from sys_lseek_cur_spec [OF o d] i have l: "files w1 = files w" "same_store w w1" "same_fds w w1"
    and d1: "fd_lookup w1 fd = Some ?d" using d by (auto simp: request_of_def same_fds_def)
  from l c have c1: "calm w1" by (simp add: same_store_def calm_def)
  obtain t w2 where t: "sys_ftruncate fd (unat (req_size ci)) w1 = (t, w2)" by fastforce
  have w': "w' = (if wr then w2 else w1)"
    using s o t i by (auto simp: mmap_request_setup_def Let_def request_of_def
        ASYNC_FILE_ACCESS_READ_def ASYNC_FILE_ACCESS_WRITE_def split: if_splits)
  have t2: "fds w2 = fds w1" "same_store w1 w2"
    "wr \<longrightarrow> files w2 = (files w1)(p := Some (f\<lparr>f_content := resize (unat (req_size ci)) (f_content f)\<rparr>))"
    using t c1 d1 f l(1)
    by (auto simp: sys_ftruncate_def ask_def calm_def can_write_def fd_lookup_def same_store_def Let_def split: if_splits)
  from t2(1) have "same_fds w1 w2" by (simp add: same_fds_def fd_lookup_def)
  with l(3) have "same_fds w w2" by (rule same_fds_trans)
  with l t2 w' show ?thesis by (simp add: same_store_def)
qed

lemma mmap_get_calm:
  assumes i: "request_of wr ci path" and w: "spacious (os s)" and c: "wr \<or> content (os s) path \<noteq> None"
  shows "\<exists>r w. mmap_get_request ci s = Inr (RET_OK, Addr (brk (os s)), put_req (Addr (brk (os s))) r (s\<lparr>os := w\<rparr>)) \<and>
           ready_request wr (req_size ci) r \<and> grown (os s) w \<and> holds_open wr path (r_fd r) (os s) w \<and>
           prepared_file wr path (unat (req_size ci)) (os s) w"
proof -
  let ?p = "Addr (brk (os s))"
  let ?w1 = "(os s)\<lparr>calls := Suc (calls (os s)), brk := Suc (brk (os s))\<rparr>"
  have n: "c_new (os s) = (?p, ?w1)"
    using w by (simp add: c_new_def ask_def fresh_addr_def calm_def spacious_def)
  have g1: "grown (os s) ?w1" "same_fds (os s) ?w1" "files ?w1 = files (os s)"
    by (simp_all add: grown_def same_fds_def fd_lookup_def)
  note sp1 = grown_spacious [OF g1(1) w]
  obtain fd w2 where o: "sys_open path (mmode_of wr) ?w1 = (fd, w2)" by fastforce
  have "opened_file (mmode_of wr) (files ?w1 path) \<noteq> None"
    using c by (auto simp: opened_file_def content_def split: option.splits)
  with open_calm [OF _ this o] sp1 have op: "opened path (mmode_of wr) fd ?w1 w2" "same_store ?w1 w2"
    by (auto simp: spacious_def)
  have m: "mmap_open_mode ci = mmode_of wr"
    using i by (auto simp: mmap_open_mode_def request_of_def ASYNC_FILE_ACCESS_READ_def ASYNC_FILE_ACCESS_WRITE_def)
  have re: "mmap_open_retry path ci ?w1 = (fd, w2)"
    unfolding m by (rule retry_do_good) (use o op in \<open>auto simp: opened_def\<close>)
  let ?r = "(new_request ci)\<lparr>r_isValid := True\<rparr>"
  obtain r2 w3 where st: "mmap_request_setup ci fd ?r w2 = (r2, w3)" by fastforce
  have ii: "copied_info ci = ci" "info_ok ci"
    using i by (auto simp: request_of_def aio_copied_info_def copied_info_def info_ok_def word_neq_0_conv)
  from op have d: "fd_lookup w2 fd = Some \<lparr>o_path = path, o_mode = mmode_of wr, o_pos = 0\<rparr>" by (simp add: opened_def)
  from op(1) obtain f where of: "opened_file (mmode_of wr) (files ?w1 path) = Some f"
    and fw: "files w2 = (files ?w1)(path := Some f)" by (auto simp: opened_def)
  then have f: "files w2 path = Some f" "wr \<longrightarrow> f_content f = []" "\<not> wr \<longrightarrow> files w2 = files ?w1"
    by (auto simp: opened_file_def fun_upd_idem split: option.splits)
  have c2: "calm w2" using op(2) sp1 by (auto simp: same_store_def calm_def spacious_def)
  note s3 = setup_calm [OF st c2 d f(1) i]
  from s3 ii have w3: "same_store w2 w3" "same_fds w2 w3"
    "files w3 = (if wr then (files w2)(path := Some (f\<lparr>f_content := resize (unat (req_size ci)) (f_content f)\<rparr>)) else files w2)"
    by simp_all
  from setup_fields [OF st d] ii i have r2: "ready_request wr (req_size ci) r2" "r_fd r2 = fd"
    by (auto simp: ready_request_def request_of_def)
  have "mmap_get_request ci s = Inr (RET_OK, ?p, put_req ?p r2 (s\<lparr>os := w3\<rparr>))"
    using i get_request_eq [OF n, of ci] ii re st op(1) by (simp add: file_name_def request_of_def opened_def)
  moreover have "grown (os s) w3"
    using grown_trans [OF g1(1) grown_trans [OF same_store_grown [OF op(2)] same_store_grown [OF w3(1)]]] .
  moreover have "holds_open wr path fd (os s) w3"
    using op(1) w3(2) g1(2) by (auto simp: holds_open_def opened_def same_fds_def)
  moreover have "prepared_file wr path (unat (req_size ci)) (os s) w3"
    using w3(3) fw f(2,3) g1(3) by (auto simp: prepared_file_def resize_def)
  ultimately show ?thesis using r2 by (intro exI [of _ r2] exI [of _ w3]) simp
qed

section \<open>Submitting it to an idle pool\<close>

definition stored :: "world \<Rightarrow> world \<Rightarrow> bool" where
  "stored w w' \<longleftrightarrow> kept w w' \<and> same_fds w w' \<and> mmaps w' = mmaps w"

lemma stored_trans: "stored u v \<Longrightarrow> stored v w \<Longrightarrow> stored u w"
  by (auto simp: stored_def intro: kept_trans same_fds_trans)

lemma stored_refl: "calm w \<Longrightarrow> stored w w"
  using kept_refl by (simp add: stored_def)

lemma stored_spacious: "stored w w' \<Longrightarrow> spacious w \<Longrightarrow> spacious w'"
  by (auto simp: stored_def kept_def spacious_def)

lemma enqueue_stored:
  assumes "enqueue_task t s = Inr (res, s')" "calm (os s)"
  shows "stored (os s) (os s')"
proof -
  from assms(1) obtain s1 w where g: "grow_queue s = Inr (res, s1)"
    and a: "arr_set (request_queue (tqueue s1)) (tailn s1) t (os s1) = Inr w" and s': "os s' = w"
    by (auto simp: enqueue_task_def Let_def)
  have 1: "stored (os s) (os s1)"
  proof (cases "q_totoalCnt (tqueue s) mod REQ_LIST_BUFSIZE = 0")
    case True
    with g obtain q v where r: "c_realloc_arr (request_queue (tqueue s))
        (unat (new_list_bufsize (q_totoalCnt (tqueue s))) div 8) (os s) = Inr (q, v)" and v: "os s1 = v"
      by (auto simp: grow_queue_def Let_def split: if_splits)
    have "mmaps v = mmaps (os s)"
      using r by (auto simp: c_realloc_arr_def c_malloc_arr_def ask_def Let_def split: ptr.splits option.splits if_splits)
    with realloc_keeps [OF r assms(2)] v show ?thesis by (simp add: stored_def)
  next
    case False
    with g have "s1 = s" by (simp add: grow_queue_def Let_def)
    with stored_refl [OF assms(2)] show ?thesis by simp
  qed
  then have c1: "calm (os s1)" by (simp add: stored_def kept_def)
  have "mmaps w = mmaps (os s1)" using a by (auto elim: arr_set_cases)
  with arr_set_keeps [OF a c1] have "stored (os s1) w" by (simp add: stored_def)
  with 1 show ?thesis unfolding s' by (rule stored_trans)
qed

text \<open>A pool that takes tasks, whatever its threads are doing.\<close>

definition pool_up :: "mmap_sys \<Rightarrow> bool" where
  "pool_up s \<longleftrightarrow> isInitialized (pinfo s) \<and> isRunning (pinfo s) \<and> queue_wf s \<and> totaln s < LIST_LIMIT"

lemma idle_pool_up: "idle_pool s \<Longrightarrow> pool_up s"
  by (simp add: idle_pool_def pool_up_def)

text \<open>From \<open>s\<close> to \<open>s'\<close>, the new request at \<open>a\<close> got a new task at the end of the queue; no other has changed.\<close>

definition submitted :: "bool \<Rightarrow> nat \<Rightarrow> ptr \<Rightarrow> nat \<Rightarrow> int \<Rightarrow> mmap_sys \<Rightarrow> mmap_sys \<Rightarrow> bool" where
  "submitted wr n b a fd s s' \<longleftrightarrow>
     (\<exists>r t tk. get_req (Addr a) s' = Inr r \<and> r_status r = REQUEST_STAT_SUBMITTED \<and> r_buf r = b \<and>
        unat (r_nbytes r) = n \<and> r_offset r = 0 \<and> r_fd r = fd \<and>
        task_call (Addr t) s' = Inr (if wr then FnMmapWrite else FnMmapRead, Addr a) \<and>
        brk (os s) \<le> t \<and> t < brk (os s') \<and> tasks s' = (tasks s)(t := Some tk) \<and>
        pending_tasks s' = pending_tasks s @ [Addr t] \<and> queue_wf s') \<and>
     (\<forall>c. c \<noteq> a \<longrightarrow> requests s' c = requests s c) \<and> threads s' = threads s \<and> pinfo s' = pinfo s"

lemma put_submits:
  assumes r: "get_req (Addr a) s = Inr r" "ready_request wr len r" "r_buf r = b" and pool: "pool_up s" and w: "spacious (os s)"
    and c: "mmap_put_request (Addr a) s = Inr (RET_OK, s')"
  shows "submitted wr (unat len) b a (r_fd r) s s' \<and> stored (os s) (os s')"
proof -
  let ?tk = "request_task (Addr a) r" and ?t = "brk (os s)"
  let ?w = "(os s)\<lparr>calls := Suc (calls (os s)), brk := Suc (brk (os s))\<rparr>"
  let ?s1 = "s\<lparr>os := ?w, tasks := (tasks s)(brk (os s) := Some ?tk)\<rparr>"
  have cw: "calm (os s)" using w by (simp add: spacious_def)
  have v: "r_isValid r" using r(2) by (simp add: ready_request_def)
  have n: "c_new (os s) = (Addr ?t, ?w)" using cw by (simp add: c_new_def ask_def fresh_addr_def calm_def)
  have tk: "\<not> t_is_sentinel ?tk" "t_function ?tk = Some (if wr then FnMmapWrite else FnMmapRead)" "t_argument ?tk = Addr a"
    using r(2) by (auto simp: request_task_def ready_request_def ASYNC_FILE_ACCESS_READ_def ASYNC_FILE_ACCESS_WRITE_def)
  have run: "isRunning (pinfo s)" "queue_wf s" "totaln s < LIST_LIMIT" using pool by (simp_all add: pool_up_def)
  have sub: "mmap_put_submit (Addr a) s = enqueue_task (Addr ?t) ?s1"
    using r(1) n run(1) tk(1) by (simp add: mmap_put_submit_def submit_new_task_def thread_pool_submit_def)
  from c r(1) v obtain res s2 where e: "enqueue_task (Addr ?t) ?s1 = Inr (res, s2)"
    and fin: "mmap_put_finish (Addr a) res s2 = Inr (RET_OK, s')"
    by (auto simp: mmap_put_request_def check_spec sub)
  note fr = enqueue_task_frame [OF e]
  have g2: "get_req (Addr a) s2 = Inr r" using r(1) fr by (simp add: get_req_def)
  with fin have s': "s' = put_req (Addr a) (r\<lparr>r_status := REQUEST_STAT_SUBMITTED\<rparr>) s2"
    by (auto simp: mmap_put_finish_def split: if_splits)
  have q1: "queue_wf ?s1" "pending_tasks ?s1 = pending_tasks s" using same_queue [of ?s1 s] run(2) by simp_all
  have lim: "totaln ?s1 < LIST_LIMIT" using run by simp
  have q2: "queue_wf s2" "pending_tasks s2 = pending_tasks s @ [Addr ?t]"
    using enqueue_task_spec [OF q1(1) lim e] enqueue_task_pending [OF q1(1) lim e] q1(2) by simp_all
  have q3: "queue_wf s'" "pending_tasks s' = pending_tasks s @ [Addr ?t]" using same_queue [of s' s2] q2 by (simp_all add: s')
  have "stored (os s) ?w" using cw by (auto simp: stored_def kept_def same_fds_def fd_lookup_def calm_def)
  moreover have "stored ?w (os s2)" using enqueue_stored [OF e] cw by (simp add: calm_def)
  ultimately have st: "stored (os s) (os s')" unfolding s' by (simp add: stored_trans)
  have th: "threads s' = threads s" "pinfo s' = pinfo s" "tasks s' = (tasks s)(?t := Some ?tk)" "?t < brk (os s')"
    "\<forall>c. c \<noteq> a \<longrightarrow> requests s' c = requests s c"
    using fr by (simp_all add: s' put_req_def)
  have "task_call (Addr ?t) s' = Inr (if wr then FnMmapWrite else FnMmapRead, Addr a)"
    using tk by (simp add: task_call_def th(3))
  moreover have "get_req (Addr a) s' = Inr (r\<lparr>r_status := REQUEST_STAT_SUBMITTED\<rparr>)" by (simp add: s')
  ultimately have "submitted wr (unat len) b a (r_fd r) s s'"
    unfolding submitted_def using q3 th r(2,3)
    by (intro conjI exI [of _ "r\<lparr>r_status := REQUEST_STAT_SUBMITTED\<rparr>"] exI [of _ ?t] exI [of _ ?tk])
      (simp_all add: ready_request_def)
  with st show ?thesis by simp
qed

text \<open>Preparing the request touches neither the queue nor the threads.\<close>

lemma submitted_from:
  assumes "submitted wr n b a fd u s'" "tqueue u = tqueue s" "parrs (os u) = parrs (os s)" "brk (os s) \<le> brk (os u)"
    "tasks u = tasks s" "threads u = threads s" "pinfo u = pinfo s" "\<forall>c. c \<noteq> a \<longrightarrow> requests u c = requests s c"
  shows "submitted wr n b a fd s s'"
  using assms(1) same_queue(1) [OF assms(2-4)] assms(4-8) unfolding submitted_def
  by (fastforce intro: order_trans)

lemma submitted_os:
  assumes "submitted wr n b a fd s s'" "parrs w = parrs (os s')" "brk w = brk (os s')"
  shows "submitted wr n b a fd s (s'\<lparr>os := w\<rparr>)"
proof -
  have "queue_wf (s'\<lparr>os := w\<rparr>) = queue_wf s'" "pending_tasks (s'\<lparr>os := w\<rparr>) = pending_tasks s'"
    using assms(2,3) same_queue [of "s'\<lparr>os := w\<rparr>" s'] same_queue [of s' "s'\<lparr>os := w\<rparr>"] by auto
  then show ?thesis using assms(1,3) by (simp add: submitted_def get_req_def task_call_def)
qed

section \<open>What the task does\<close>

text \<open>The states of the request and the store where a task that succeeds may be found.\<close>

definition unsettled_at :: "ptr \<Rightarrow> mmap_sys \<Rightarrow> bool" where
  "unsettled_at p u \<longleftrightarrow> (\<exists>r. get_req p u = Inr r \<and> r_status r = REQUEST_STAT_SUBMITTED)"

definition succeeded_at :: "ptr \<Rightarrow> mmap_sys \<Rightarrow> bool" where
  "succeeded_at p u \<longleftrightarrow> (\<exists>r. get_req p u = Inr r \<and> r_status r = REQUEST_STAT_IOSUCCESS)"

definition job_succeeds :: "ptr \<Rightarrow> job \<Rightarrow> bool" where
  "job_succeeds p j \<longleftrightarrow> unsettled_at p (j_start j) \<and> unsettled_at p (j_done_io j) \<and>
     succeeded_at p (j_recorded j) \<and> succeeded_at p (j_end j) \<and> os (j_recorded j) = os (j_done_io j)"

lemma close_calm:
  assumes "get_req (Addr a) s = Inr r" "0 < r_fd r" "fd_lookup (os s) (r_fd r) \<noteq> None"
  shows "\<exists>w. mmap_close_fd (Addr a) s = Inr (put_req (Addr a) (r\<lparr>r_fd := - 1\<rparr>) (s\<lparr>os := w\<rparr>)) \<and>
           same_store (os s) w \<and> files w = files (os s) \<and>
           (\<forall>k. fd_lookup w k = (if k = r_fd r then None else fd_lookup (os s) k))"
  using assms close_store [where w = "os s" and fd = "r_fd r"]
    sys_close_lookup [OF surjective_pairing, of "r_fd r" "os s"]
  by (intro exI [of _ "snd (sys_close (r_fd r) (os s))"]) (simp add: mmap_close_fd_def)

lemma mmap_calm:
  assumes "calm w" "fd_lookup w fd = Some \<lparr>o_path = path, o_mode = m, o_pos = k\<rparr>" "0 < n" "m \<noteq> WronlyCreat" "shared \<longrightarrow> m = RdwrCreatTrunc"
  shows "retry_do (sys_mmap n shared fd 0) (\<lambda>b. b = MapFailed) MAX_RETRY_TIMES 0 w =
    (Addr (brk w), w\<lparr>calls := Suc (calls w), brk := Suc (brk w), mmaps := (mmaps w)(brk w :=
       Some \<lparr>m_path = path, m_off = 0, m_len = n, m_shared = shared\<rparr>)\<rparr>)"
proof -
  have "fd_lookup (w\<lparr>calls := Suc (calls w)\<rparr>) fd = Some \<lparr>o_path = path, o_mode = m, o_pos = k\<rparr>"
    using assms(2) by (simp add: fd_lookup_def split: if_splits)
  then show ?thesis using assms
    by (intro retry_do_good) (auto simp: sys_mmap_def ask_def calm_def can_read_def can_write_def)
qed

lemma read_io_calm:
  assumes r: "get_req (Addr a) s = Inr r" "r_buf r = Addr e" "unat (r_nbytes r) = length c" "r_offset r = 0"
    and d: "fd_lookup (os s) (r_fd r) = Some \<lparr>o_path = path, o_mode = Rdonly, o_pos = 0\<rparr>"
    and f: "content (os s) path = Some c" "c \<noteq> []" and b: "heap (os s) e = Some old" "length old = length c"
    and w: "spacious (os s)"
  shows "mmapRead_io (Addr a) s = Inr (True, Addr (brk (os s)),
    s\<lparr>os := (os s)\<lparr>calls := Suc (calls (os s)), brk := Suc (brk (os s)), heap := (heap (os s))(e := Some c),
       mmaps := (mmaps (os s))(brk (os s) := Some \<lparr>m_path = path, m_off = 0, m_len = length c, m_shared = False\<rparr>)\<rparr>\<rparr>)"
proof -
  let ?w = "os s" and ?n = "length c" and ?m = "brk (os s)"
  let ?map = "\<lparr>m_path = path, m_off = 0, m_len = ?n, m_shared = False\<rparr>"
  let ?w1 = "?w\<lparr>calls := Suc (calls ?w), brk := Suc ?m, mmaps := (mmaps ?w)(?m := Some ?map)\<rparr>"
  have sp: "heap ?w ?m = None" using w by (simp add: spacious_def calm_def)
  from f(1) obtain g where g: "files ?w path = Some g" "f_content g = c" by (auto simp: content_def)
  have re: "retry_do (sys_mmap ?n False (r_fd r) 0) (\<lambda>b. b = MapFailed) MAX_RETRY_TIMES 0 ?w = (Addr ?m, ?w1)"
    using w f(2) by (intro mmap_calm [OF _ d]) (simp_all add: spacious_def)
  have "file_bytes c 0 ?n = c" by (simp add: file_bytes_inside)
  then have "mem_load (Addr ?m) ?n ?w1 = Inr c"
    using sp g page_ceil_ge [of ?n] by (simp add: mem_load_def)
  then have cp: "c_memcpy (Addr e) (Addr ?m) ?n ?w1 = Inr (?w1\<lparr>heap := (heap ?w)(e := Some c)\<rparr>)"
    using b by (simp add: c_memcpy_def mem_store_def overwrite_whole)
  show ?thesis using r re cp by (simp add: mmapRead_io_def)
qed

text \<open>The mapping \<open>m\<close> and the descriptor are gone, everything else in the system is as before.\<close>

definition released :: "nat \<Rightarrow> int \<Rightarrow> world \<Rightarrow> world \<Rightarrow> bool" where
  "released m fd w w' \<longleftrightarrow> same_store (w\<lparr>mmaps := (mmaps w)(m := None)\<rparr>) w' \<and> files w' = files w \<and>
     (\<forall>k. fd_lookup w' k = (if k = fd then None else fd_lookup w k))"

lemma close_released:
  assumes "get_req (Addr a) s = Inr r" "0 < r_fd r" "fd_lookup (os s) (r_fd r) \<noteq> None"
    and "os s = w\<lparr>mmaps := (mmaps w)(m := None)\<rparr>"
  shows "\<exists>w'. mmap_close_fd (Addr a) s = Inr (put_req (Addr a) (r\<lparr>r_fd := - 1\<rparr>) (s\<lparr>os := w'\<rparr>)) \<and>
           released m (r_fd r) w w'"
proof -
  have "fd_lookup (w\<lparr>mmaps := x\<rparr>) k = fd_lookup w k" for x k by (simp add: fd_lookup_def)
  with close_calm [OF assms(1-3)] show ?thesis unfolding released_def assms(4) by auto
qed

lemma read_cleanup_calm:
  assumes r: "get_req (Addr a) s = Inr r" "unat (r_nbytes r) = n" "0 < r_fd r" "fd_lookup (os s) (r_fd r) \<noteq> None"
    and m: "mmaps (os s) m = Some mp" "m_len mp = n"
  shows "\<exists>w'. mmapRead_cleanup (Addr a) (Addr m) s = Inr (put_req (Addr a) (r\<lparr>r_fd := - 1\<rparr>) (s\<lparr>os := w'\<rparr>)) \<and>
           released m (r_fd r) (os s) w'"
proof -
  let ?s = "s\<lparr>os := (os s)\<lparr>mmaps := (mmaps (os s))(m := None)\<rparr>\<rparr>"
  have "snd (sys_munmap (Addr m) n (os s)) = os ?s" using m by (simp add: sys_munmap_def)
  with r have c: "mmapRead_cleanup (Addr a) (Addr m) s = mmap_close_fd (Addr a) ?s"
    by (simp add: mmapRead_cleanup_def)
  have g: "get_req (Addr a) ?s = Inr r" using r(1) by (simp add: get_req_def)
  have "fd_lookup (os ?s) (r_fd r) \<noteq> None" using r(4) by (simp add: fd_lookup_def split: if_splits)
  from close_released [OF g r(3) this, of "os s" m] show ?thesis unfolding c by auto
qed

lemma write_io_calm:
  assumes r: "get_req (Addr a) s = Inr r" "r_buf r = Addr b" "unat (r_nbytes r) = length bs"
    and f: "content (os s) path = Some bs" and w: "spacious (os s)"
    and m: "mmaps (os s) b = Some \<lparr>m_path = path, m_off = 0, m_len = length bs, m_shared = True\<rparr>"
  shows "\<exists>fl. mmapWrite_io (Addr a) s = Inr (True, MapFailed, s\<lparr>os := (os s)\<lparr>calls := Suc (calls (os s)), files := fl\<rparr>\<rparr>) \<and>
           content ((os s)\<lparr>calls := Suc (calls (os s)), files := fl\<rparr>) = content (os s)"
proof -
  from f obtain g where g: "files (os s) path = Some g" "f_content g = bs" by (auto simp: content_def)
  let ?fl = "(files (os s))(path := Some (flush 0 (length bs) g))"
  have "sys_msync (Addr b) (length bs) (os s) = (0, (os s)\<lparr>calls := Suc (calls (os s)), files := ?fl\<rparr>)"
    using m g w by (simp add: sys_msync_def ask_def spacious_def calm_def)
  with r g show ?thesis
    by (intro exI [of _ ?fl]) (simp add: mmapWrite_io_def content_def fun_eq_iff flush_def)
qed

lemma write_cleanup_calm:
  assumes r: "get_req (Addr a) s = Inr r" "r_buf r = Addr b" "unat (r_nbytes r) = n" "0 < r_fd r"
      "fd_lookup (os s) (r_fd r) \<noteq> None"
    and m: "mmaps (os s) b = Some mp" "m_len mp = n"
  shows "\<exists>w'. mmapWrite_cleanup (Addr a) s =
             Inr (put_req (Addr a) (r\<lparr>r_buf := Null, r_fd := - 1\<rparr>) (s\<lparr>os := w'\<rparr>)) \<and>
           released b (r_fd r) (os s) w'"
proof -
  let ?s = "put_req (Addr a) (r\<lparr>r_buf := Null\<rparr>) (s\<lparr>os := (os s)\<lparr>mmaps := (mmaps (os s))(b := None)\<rparr>\<rparr>)"
  have "snd (sys_munmap (Addr b) n (os s)) = (os s)\<lparr>mmaps := (mmaps (os s))(b := None)\<rparr>"
    using m by (simp add: sys_munmap_def)
  with r have c: "mmapWrite_cleanup (Addr a) s = mmap_close_fd (Addr a) ?s"
    by (simp add: mmapWrite_cleanup_def mmap_unmap_buf_def)
  have "fd_lookup (os ?s) (r_fd r) \<noteq> None" using r(5) by (simp add: fd_lookup_def split: if_splits)
  with close_released [of a ?s "r\<lparr>r_buf := Null\<rparr>" "os s" b] r(4) show ?thesis
    unfolding c by (auto simp: put_req_os)
qed

lemma read_job:
  assumes t: "task_call t s = Inr (FnMmapRead, Addr a)"
    and r: "get_req (Addr a) s = Inr r" "r_status r = REQUEST_STAT_SUBMITTED" "r_buf r = Addr e"
      "unat (r_nbytes r) = length c" "r_offset r = 0" "0 < r_fd r"
    and d: "fd_lookup (os s) (r_fd r) = Some \<lparr>o_path = path, o_mode = Rdonly, o_pos = 0\<rparr>"
    and f: "content (os s) path = Some c" "c \<noteq> []" and b: "heap (os s) e = Some old" "length old = length c"
    and w: "spacious (os s)"
  shows "\<exists>j. job_runs FnMmapRead (Addr a) j \<and> j_task j = t \<and> j_start j = s \<and> job_succeeds (Addr a) j \<and>
           heap (os (j_done_io j)) = (heap (os s))(e := Some c) \<and> heap (os (j_end j)) = (heap (os s))(e := Some c) \<and>
           files (os (j_end j)) = files (os s) \<and> mmaps (os (j_end j)) = mmaps (os s) \<and>
           (\<forall>k. fd_lookup (os (j_end j)) k = (if k = r_fd r then None else fd_lookup (os s) k))"
proof -
  let ?w = "os s" and ?n = "length c" and ?m = "brk (os s)"
  let ?map = "\<lparr>m_path = path, m_off = 0, m_len = ?n, m_shared = False\<rparr>"
  let ?w2 = "?w\<lparr>calls := Suc (calls ?w), brk := Suc ?m, heap := (heap ?w)(e := Some c), mmaps := (mmaps ?w)(?m := Some ?map)\<rparr>"
  let ?r = "r\<lparr>r_status := REQUEST_STAT_IOSUCCESS\<rparr>"
  let ?s1 = "s\<lparr>os := ?w2\<rparr>" and ?s2 = "put_req (Addr a) ?r (s\<lparr>os := ?w2\<rparr>)"
  have io: "mmapRead_io (Addr a) s = Inr (True, Addr ?m, ?s1)" by (rule read_io_calm [OF r(1,3-5) d f b w])
  have g1: "get_req (Addr a) ?s1 = Inr r" using r(1) by (simp add: get_req_def)
  then have rec: "mmap_record_status (Addr a) True ?s1 = Inr ?s2"
    using r(2) by (simp add: mmap_record_status_def)
  have "fd_lookup (os ?s2) (r_fd ?r) \<noteq> None" using d by (simp add: fd_lookup_def split: if_splits)
  with read_cleanup_calm [of a ?s2 ?r ?n ?m ?map] r(4,6) obtain w4 where
    cl: "mmapRead_cleanup (Addr a) (Addr ?m) ?s2 = Inr (put_req (Addr a) (?r\<lparr>r_fd := - 1\<rparr>) (?s2\<lparr>os := w4\<rparr>))"
    and w4: "released ?m (r_fd ?r) ?w2 w4" by auto
  have "mmapRead_enter (Addr a) s = Inr (True, s)" using r(1,2) by (simp add: mmapRead_enter_def)
  with io rec cl t have "job_runs FnMmapRead (Addr a) \<lparr>j_task = t, j_ok = True, j_map = Addr ?m, j_start = s,
      j_done_io = ?s1, j_recorded = ?s2, j_end = put_req (Addr a) (?r\<lparr>r_fd := - 1\<rparr>) (?s2\<lparr>os := w4\<rparr>)\<rparr>" (is "job_runs _ _ ?j")
    by (simp add: job_runs_def)
  moreover have "job_succeeds (Addr a) ?j"
    using r(1,2) g1 by (simp add: job_succeeds_def unsettled_at_def succeeded_at_def)
  moreover have "mmaps ?w ?m = None" using w by (simp add: spacious_def)
  ultimately show ?thesis using w4
    by (intro exI [of _ ?j]) (simp add: released_def same_store_def fd_lookup_def fun_upd_idem)
qed

lemma write_job:
  assumes t: "task_call t s = Inr (FnMmapWrite, Addr a)"
    and r: "get_req (Addr a) s = Inr r" "r_status r = REQUEST_STAT_SUBMITTED" "r_buf r = Addr b"
      "unat (r_nbytes r) = length bs" "0 < r_fd r"
    and d: "fd_lookup (os s) (r_fd r) \<noteq> None" and f: "content (os s) path = Some bs"
    and m: "mmaps (os s) b = Some \<lparr>m_path = path, m_off = 0, m_len = length bs, m_shared = True\<rparr>"
    and w: "spacious (os s)"
  shows "\<exists>j. job_runs FnMmapWrite (Addr a) j \<and> j_task j = t \<and> j_start j = s \<and> job_succeeds (Addr a) j \<and>
           content (os (j_done_io j)) = content (os s) \<and> content (os (j_end j)) = content (os s) \<and>
           heap (os (j_end j)) = heap (os s) \<and> mmaps (os (j_end j)) = (mmaps (os s))(b := None) \<and>
           (\<forall>k. fd_lookup (os (j_end j)) k = (if k = r_fd r then None else fd_lookup (os s) k))"
proof -
  let ?n = "length bs" and ?r = "r\<lparr>r_status := REQUEST_STAT_IOSUCCESS\<rparr>"
  from write_io_calm [OF r(1,3,4) f w m] obtain fl where
    io: "mmapWrite_io (Addr a) s = Inr (True, MapFailed, s\<lparr>os := (os s)\<lparr>calls := Suc (calls (os s)), files := fl\<rparr>\<rparr>)"
    and c1: "content ((os s)\<lparr>calls := Suc (calls (os s)), files := fl\<rparr>) = content (os s)" by auto
  let ?w1 = "(os s)\<lparr>calls := Suc (calls (os s)), files := fl\<rparr>"
  let ?s1 = "s\<lparr>os := ?w1\<rparr>" and ?s2 = "put_req (Addr a) ?r (s\<lparr>os := ?w1\<rparr>)"
  have g1: "get_req (Addr a) ?s1 = Inr r" using r(1) by (simp add: get_req_def)
  then have rec: "mmap_record_status (Addr a) True ?s1 = Inr ?s2"
    using r(2) by (simp add: mmap_record_status_def)
  have "fd_lookup (os ?s2) (r_fd ?r) \<noteq> None" using d by (simp add: fd_lookup_def split: if_splits)
  with write_cleanup_calm [of a ?s2 ?r b ?n] r(3-5) m obtain w4 where
    cl: "mmapWrite_cleanup (Addr a) ?s2 = Inr (put_req (Addr a) (?r\<lparr>r_buf := Null, r_fd := - 1\<rparr>) (?s2\<lparr>os := w4\<rparr>))"
    and w4: "released b (r_fd ?r) ?w1 w4" by auto
  have "mmapWrite_enter (Addr a) s = Inr (True, s)" using r(1,2) by (simp add: mmapWrite_enter_def)
  with io rec cl t have "job_runs FnMmapWrite (Addr a) \<lparr>j_task = t, j_ok = True, j_map = MapFailed, j_start = s,
      j_done_io = ?s1, j_recorded = ?s2, j_end = put_req (Addr a) (?r\<lparr>r_buf := Null, r_fd := - 1\<rparr>) (?s2\<lparr>os := w4\<rparr>)\<rparr>"
      (is "job_runs _ _ ?j")
    by (simp add: job_runs_def)
  moreover have "job_succeeds (Addr a) ?j"
    using r(1,2) g1 by (simp add: job_succeeds_def unsettled_at_def succeeded_at_def)
  moreover have "content w4 = content ?w1" using w4 by (simp add: released_def content_def fun_eq_iff)
  ultimately show ?thesis using w4 c1
    by (intro exI [of _ ?j]) (simp add: released_def same_store_def fd_lookup_def)
qed

section \<open>The client's calls\<close>

lemma pool_up_same:
  assumes "pool_up s" "tqueue v = tqueue s" "parrs (os v) = parrs (os s)" "brk (os s) \<le> brk (os v)" "pinfo v = pinfo s"
  shows "pool_up v"
  using assms same_queue(2) [OF assms(2-4)] by (simp add: pool_up_def)

lemma in_mmap_os: "in_mmap (st\<lparr>p_os := w\<rparr>) = (in_mmap st)\<lparr>os := w\<rparr>"
  by (simp add: in_mmap_def)

lemma submit_read_mmap:
  assumes w: "spacious (p_os st)" "content (p_os st) name \<noteq> None" and pool: "pool_up (in_mmap st)"
    and i: "request_of False ci name" and c: "submit_read mmap_table ci buf st = Inr (RET_OK, b, st')"
  shows "\<exists>a e old fd. b = Addr e \<and> length old = unat (req_size ci) \<and> heap (p_os st) e = None \<and>
           brk (p_os st) \<le> a \<and> a < brk (p_os st') \<and> heap (p_os st') = (heap (p_os st))(e := Some old) \<and> files (p_os st') = files (p_os st) \<and>
           mmaps (p_os st') = mmaps (p_os st) \<and> spacious (p_os st') \<and> holds_open False name fd (p_os st) (p_os st') \<and>
           submitted False (unat (req_size ci)) b a fd (in_mmap st) (in_mmap st')"
proof -
  let ?s = "in_mmap st" and ?n = "unat (req_size ci)" and ?a = "brk (p_os st)"
  from mmap_get_calm [OF i, of ?s] w obtain r w1 where
    g: "mmap_get_request ci ?s = Inr (RET_OK, Addr ?a, put_req (Addr ?a) r (?s\<lparr>os := w1\<rparr>))"
    and r: "ready_request False (req_size ci) r" and gr: "grown (p_os st) w1"
    and w1: "holds_open False name (r_fd r) (p_os st) w1" "files w1 = files (p_os st)"
    by (auto simp: prepared_file_def)
  let ?e = "brk w1" and ?old = "replicate ?n (fill w1)"
  let ?s1 = "put_req (Addr ?a) r (?s\<lparr>os := w1\<rparr>)"
  let ?w2 = "w1\<lparr>calls := Suc (calls w1), brk := Suc (brk w1), heap := (heap w1)(?e := Some ?old)\<rparr>"
  note sp1 = grown_spacious [OF gr w(1)]
  have m: "c_malloc ?n w1 = (Addr ?e, ?w2)" using sp1 by (simp add: c_malloc_def ask_def spacious_def calm_def)
  let ?r = "r\<lparr>r_buf := Addr ?e\<rparr>"
  let ?s2 = "?s1\<lparr>os := ?w2\<rparr>" let ?s3 = "put_req (Addr ?a) ?r ?s2"
  have g2: "get_req (Addr ?a) ?s2 = Inr r" by (simp add: get_req_def put_req_def)
  have v: "r_isValid r" using r by (simp add: ready_request_def)
  have im: "mmap_request_import_read_buffer (Addr ?a) (Addr ?e) ?s2 = Inr (RET_OK, ?s3)"
    using check_spec [OF g2] v g2 by (simp add: mmap_request_import_read_buffer_def)
  let ?st1 = "of_mmap st ?s1" and ?st3 = "of_mmap ((of_mmap st ?s1)\<lparr>p_os := ?w2\<rparr>) ?s3"
  have "getRequest mmap_table ci st = Inr (RET_OK, Addr ?a, ?st1)" by (simp add: mmap_table_def on_mmap2_def g)
  moreover have "importReadBuf mmap_table (Addr ?a) (Addr ?e) (?st1\<lparr>p_os := ?w2\<rparr>) = Inr (RET_OK, ?st3)"
    by (simp add: mmap_table_def on_mmap_def in_mmap_os im del: and_then_Inr_iff)
  moreover have "p_os ?st1 = w1" by simp
  ultimately have "submit_read mmap_table ci buf st =
      and_then (putRequest mmap_table (Addr ?a) ?st3) (\<lambda>(res', st3). Inr (res', Addr ?e, st3))"
    unfolding submit_read_def by (simp only: and_then_simps prod.case m Let_def simp_thms if_False)
  moreover have "putRequest mmap_table (Addr ?a) ?st3 = on_mmap ?st3 (mmap_put_request (Addr ?a) ?s3)"
    by (simp only: mmap_table_def async_file_accessor.simps in_of_mmap)
  ultimately have "and_then (on_mmap ?st3 (mmap_put_request (Addr ?a) ?s3)) (\<lambda>(res', st3). Inr (res', Addr ?e, st3)) =
      Inr (RET_OK, b, st')" using c by (simp only:)
  then obtain s4 where put: "mmap_put_request (Addr ?a) ?s3 = Inr (RET_OK, s4)"
    and b: "b = Addr ?e" and s4: "st' = of_mmap ?st3 s4"
    unfolding on_mmap_def by (cases "mmap_put_request (Addr ?a) ?s3") (auto split: prod.splits)
  have st': "p_os st' = os s4" "in_mmap st' = s4" unfolding s4 by (simp_all only: in_of_mmap)
  have sp2: "spacious (os ?s3)" using sp1 by (auto simp: spacious_def calm_def)
  have up3: "pool_up ?s3" using gr by (intro pool_up_same [OF pool]) (simp_all add: grown_def)
  have "submitted False ?n (Addr ?e) ?a (r_fd ?r) ?s3 s4 \<and> stored (os ?s3) (os s4)"
    by (rule put_submits [OF _ _ _ up3 sp2 put]) (use r in \<open>simp_all add: ready_request_def\<close>)
  then have u3: "submitted False ?n b ?a (r_fd r) ?s3 s4" and k: "stored ?w2 (os s4)" by (simp_all add: b)
  have u: "submitted False ?n b ?a (r_fd r) ?s s4"
    by (rule submitted_from [OF u3]) (use gr in \<open>simp_all add: grown_def put_req_def\<close>)
  have fr: "heap (p_os st) ?e = None" "?a < brk (os s4)"
    using w(1) gr u by (auto simp: spacious_def calm_def grown_def submitted_def)
  have "same_fds w1 (os s4)" using k by (simp add: stored_def same_fds_def fd_lookup_def)
  with w1(1) have ho: "holds_open False name (r_fd r) (p_os st) (os s4)" by (simp add: holds_open_def same_fds_def)
  have "spacious (os s4)" using stored_spacious [OF k] sp2 by simp
  moreover have "heap (os s4) = (heap (p_os st))(?e := Some ?old)" "files (os s4) = files (p_os st)"
    "mmaps (os s4) = mmaps (p_os st)"
    using k gr w1(2) by (simp_all add: stored_def kept_def grown_def)
  moreover have "length ?old = ?n" by simp
  ultimately show ?thesis using b u ho fr unfolding st' by blast
qed

text \<open>The accessor is there already when the pool is started.\<close>

lemma mmap_instance:
  assumes "pool_up (in_mmap st)"
  shows "Async_File_Accessor_Get_Instance ASYNC_FILE_ACCESSOR_MMAP st = (Some mmap_table, of_mmap st (in_mmap st))"
  using assms by (simp add: Async_File_Accessor_Get_Instance_def MMAP_File_Accessor_Get_Instance_def
      pool_up_def ASYNC_FILE_ACCESSOR_AIO_def ASYNC_FILE_ACCESSOR_MMAP_def)

lemma async_read_mmap:
  assumes w: "spacious (p_os st)" "content (p_os st) name = Some c" "c \<noteq> []" "length c < 2 ^ 32"
    and pool: "pool_up (in_mmap st)" and n: "CHR 0x00 \<notin> set name" "length name < MAX_FILE_NAME_LEN"
    and a: "async_read_one_picture_to_file ASYNC_FILE_ACCESSOR_MMAP buf name st = Inr (RET_OK, b, len, st')"
  shows "\<exists>a e old fd. len = word_of_nat (length c) \<and> b = Addr e \<and> length old = length c \<and>
           heap (p_os st) e = None \<and> brk (p_os st) \<le> a \<and> a < brk (p_os st') \<and>
           heap (p_os st') = (heap (p_os st))(e := Some old) \<and> files (p_os st') = files (p_os st) \<and>
           mmaps (p_os st') = mmaps (p_os st) \<and> spacious (p_os st') \<and>
           holds_open False name fd (p_os st) (p_os st') \<and> submitted False (length c) b a fd (in_mmap st) (in_mmap st')"
proof -
  obtain fd0 w0 where o: "sys_open name Rdonly (p_os st) = (fd0, w0)" by fastforce
  from w(2) obtain f where f: "files (p_os st) name = Some f" "f_content f = c" by (auto simp: content_def)
  with open_calm [OF _ _ o] w(1) have op: "opened name Rdonly fd0 (p_os st) w0" "same_store (p_os st) w0"
    by (auto simp: spacious_def opened_file_def)
  then have fw0: "files w0 = files (p_os st)" using f by (simp add: opened_def opened_file_def fun_upd_idem)
  note gr0 = same_store_grown [OF op(2)]
  have s: "sys_fstat fd0 w0 = Some (length c)" using op(1) f fw0 by (simp add: sys_fstat_def opened_def)
  let ?len = "word_of_nat (length c) :: u32"
  have l: "unat ?len = length c" using w(4) by (simp add: unat_of_nat)
  then have l0: "?len \<noteq> 0" using w(3) by auto
  let ?u = "st\<lparr>p_os := w0\<rparr>" let ?st = "of_mmap ?u (in_mmap ?u)"
  have os: "p_os ?st = w0" by simp
  have id0: "pool_up (in_mmap ?u)"
    unfolding in_mmap_os using gr0 by (intro pool_up_same [OF pool]) (simp_all add: grown_def)
  have inst: "Async_File_Accessor_Get_Instance ASYNC_FILE_ACCESSOR_MMAP (st\<lparr>p_os := w0\<rparr>) = (Some mmap_table, ?st)"
    by (rule mmap_instance [OF id0])
  from a obtain ci st2 where ci: "client_info ASYNC_FILE_ACCESS_READ name ?len = Inr ci"
    and sr: "submit_read mmap_table ci buf ?st = Inr (RET_OK, b, st2)"
    and st': "st' = st2\<lparr>p_os := snd (sys_close fd0 (p_os st2))\<rparr>" and len: "len = ?len"
    unfolding async_read_one_picture_to_file_def o prod.case s option.case Let_def inst by auto
  have i: "request_of False ci name \<and> req_size ci = ?len"
    using client_info_request [OF n l0, of False ci] ci by simp
  have "spacious (p_os ?st)" "content (p_os ?st) name \<noteq> None"
    using grown_spacious [OF gr0 w(1)] f(1) fw0 unfolding os by (simp_all add: content_def)
  from submit_read_mmap [OF this _ conjunct1 [OF i] sr] id0 i obtain a e old fd where
    b: "b = Addr e" "length old = length c" "heap (p_os st2) = (heap w0)(e := Some old)"
      "heap w0 e = None" "brk w0 \<le> a" "a < brk (p_os st2)"
    and k: "files (p_os st2) = files w0" "mmaps (p_os st2) = mmaps w0" "spacious (p_os st2)"
    and ho: "holds_open False name fd w0 (p_os st2)" and u: "submitted False (length c) b a fd (in_mmap ?u) (in_mmap st2)"
    unfolding os by (auto simp: l)
  let ?w = "snd (sys_close fd0 (p_os st2))"
  have cl: "same_store (p_os st2) ?w" "files ?w = files (p_os st2)"
    using close_store [where w = "p_os st2" and fd = fd0] by auto
  have "fd_lookup ?w j = (if j = fd0 then None else fd_lookup (p_os st2) j)" for j
    by (rule sys_close_lookup [OF surjective_pairing])
  then have "holds_open False name fd (p_os st) ?w" using ho op(1) by (auto simp: holds_open_def opened_def split: if_splits)
  moreover have "submitted False (length c) b a fd (in_mmap ?u) (in_mmap st')"
    unfolding st' in_mmap_os by (rule submitted_os) (use u cl in \<open>simp_all add: same_store_def in_mmap_os\<close>)
  then have "submitted False (length c) b a fd (in_mmap st) (in_mmap st')"
    by (rule submitted_from) (use gr0 in \<open>simp_all add: in_mmap_os grown_def\<close>)
  moreover have "spacious ?w" using cl(1) k(3) same_store_grown grown_spacious by blast
  moreover have "heap ?w = (heap (p_os st))(e := Some old)" "files ?w = files (p_os st)" "mmaps ?w = mmaps (p_os st)"
    using cl k b(3) op(2) fw0 by (simp_all add: same_store_def)
  moreover have "heap (p_os st) e = None" "brk (p_os st) \<le> a" "a < brk ?w"
    using b(4-6) cl(1) gr0 by (simp_all add: same_store_def grown_def)
  ultimately show ?thesis using b(1,2) len by (intro exI [of _ a] exI [of _ e] exI [of _ old] exI [of _ fd]) (simp add: st')
qed

lemma submit_write_mmap:
  assumes w: "spacious (p_os st)" and pool: "pool_up (in_mmap st)" and i: "request_of True ci name"
    and b: "heap (p_os st) e0 = Some bs" "unat (req_size ci) = length bs"
    and c: "submit_write mmap_table ci (Addr e0) st = Inr (RET_OK, st')"
  shows "\<exists>a m fd. brk (p_os st) \<le> a \<and> a < brk (p_os st') \<and>
           heap (p_os st') = heap (p_os st) \<and> content (p_os st') = (content (p_os st))(name := Some bs) \<and>
           mmaps (p_os st) m = None \<and>
           mmaps (p_os st') = (mmaps (p_os st))(m := Some \<lparr>m_path = name, m_off = 0, m_len = length bs, m_shared = True\<rparr>) \<and>
           spacious (p_os st') \<and> holds_open True name fd (p_os st) (p_os st') \<and>
           submitted True (length bs) (Addr m) a fd (in_mmap st) (in_mmap st')"
proof -
  let ?s = "in_mmap st" and ?n = "length bs" and ?a = "brk (p_os st)"
  from mmap_get_calm [OF i, of ?s] w b(2) obtain r w1 f where
    g: "mmap_get_request ci ?s = Inr (RET_OK, Addr ?a, put_req (Addr ?a) r (?s\<lparr>os := w1\<rparr>))"
    and r: "ready_request True (req_size ci) r" and gr: "grown (p_os st) w1"
    and ho: "holds_open True name (r_fd r) (p_os st) w1"
    and f: "files w1 = (files (p_os st))(name := Some f)" "f_content f = replicate ?n 0"
    by (auto simp: prepared_file_def)
  let ?s1 = "put_req (Addr ?a) r (?s\<lparr>os := w1\<rparr>)" and ?m = "brk w1"
  let ?map = "\<lparr>m_path = name, m_off = 0, m_len = ?n, m_shared = True\<rparr>"
  note sp1 = grown_spacious [OF gr w]
  have n: "0 < ?n" using i b(2) by (metis request_of_def unat_gt_0)
  have rr: "r_isValid r" "unat (r_nbytes r) = ?n" "r_offset r = 0" "r_nbytes r \<noteq> 0"
    using r b(2) n by (auto simp: ready_request_def)
  have d: "fd_lookup w1 (r_fd r) = Some \<lparr>o_path = name, o_mode = RdwrCreatTrunc, o_pos = 0\<rparr>"
    using ho by (simp add: holds_open_def)
  let ?w2 = "w1\<lparr>calls := Suc (calls w1), brk := Suc ?m, mmaps := (mmaps w1)(?m := Some ?map)\<rparr>"
  have mm: "retry_do (sys_mmap ?n True (r_fd r) 0) (\<lambda>b. b = MapFailed) MAX_RETRY_TIMES 0 w1 = (Addr ?m, ?w2)"
    using sp1 n by (intro mmap_calm [OF _ d]) (simp_all add: spacious_def)
  let ?r = "r\<lparr>r_buf := Addr ?m, r_isAlloced := True\<rparr>"
  let ?s2 = "put_req (Addr ?a) ?r (?s1\<lparr>os := ?w2\<rparr>)"
  have g1: "get_req (Addr ?a) ?s1 = Inr r" by simp
  have al: "mmap_request_alloc_write_buffer (Addr ?a) Null ?s1 = Inr (RET_OK, Addr ?m, ?s2)"
    using check_spec [OF g1] rr mm by (simp add: mmap_request_alloc_write_buffer_def put_req_os)
  have h: "heap w1 = heap (p_os st)" "heap w1 ?m = None" "mmaps w1 = mmaps (p_os st)" "mmaps w1 ?m = None"
    using gr sp1 by (simp_all add: grown_def spacious_def calm_def)
  let ?w3 = "?w2\<lparr>files := (files w1)(name := Some (f\<lparr>f_content := bs\<rparr>))\<rparr>"
  have "mem_load (Addr e0) ?n ?w2 = Inr bs" using b(1) h(1) by (simp add: mem_load_def)
  moreover have "mem_store (Addr ?m) bs ?w2 = Inr ?w3"
    using h f page_ceil_ge [of ?n] by (simp add: mem_store_def overwrite_whole)
  ultimately have cp: "c_memcpy (Addr ?m) (Addr e0) ?n ?w2 = Inr ?w3" by (simp add: c_memcpy_def)
  let ?st1 = "of_mmap st ?s1" and ?st2 = "of_mmap (of_mmap st ?s1) ?s2" and ?s3 = "?s2\<lparr>os := ?w3\<rparr>"
  have "getRequest mmap_table ci st = Inr (RET_OK, Addr ?a, ?st1)" by (simp add: mmap_table_def on_mmap2_def g)
  moreover have "allocWriteBuf mmap_table (Addr ?a) Null ?st1 = Inr (RET_OK, Addr ?m, ?st2)"
    by (simp add: mmap_table_def on_mmap2_def al del: and_then_Inr_iff)
  moreover have "p_os ?st2 = ?w2" by simp
  ultimately have "submit_write mmap_table ci (Addr e0) st = putRequest mmap_table (Addr ?a) (?st2\<lparr>p_os := ?w3\<rparr>)"
    unfolding submit_write_def by (simp only: and_then_simps prod.case simp_thms if_False b(2) cp)
  moreover have "putRequest mmap_table (Addr ?a) (?st2\<lparr>p_os := ?w3\<rparr>) =
      on_mmap (?st2\<lparr>p_os := ?w3\<rparr>) (mmap_put_request (Addr ?a) ?s3)"
    by (simp only: mmap_table_def async_file_accessor.simps in_of_mmap in_mmap_os)
  ultimately have "on_mmap (?st2\<lparr>p_os := ?w3\<rparr>) (mmap_put_request (Addr ?a) ?s3) = Inr (RET_OK, st')" using c by (simp only:)
  then obtain s4 where put: "mmap_put_request (Addr ?a) ?s3 = Inr (RET_OK, s4)"
    and s4: "st' = of_mmap (?st2\<lparr>p_os := ?w3\<rparr>) s4"
    unfolding on_mmap_def by (cases "mmap_put_request (Addr ?a) ?s3") (auto split: prod.splits)
  have st': "p_os st' = os s4" "in_mmap st' = s4" unfolding s4 by (simp_all only: in_of_mmap)
  have sp3: "spacious (os ?s3)" using sp1 by (auto simp: spacious_def calm_def)
  have up3: "pool_up ?s3" using gr by (intro pool_up_same [OF pool]) (simp_all add: grown_def)
  have g3: "get_req (Addr ?a) ?s3 = Inr ?r" by (simp add: get_req_def put_req_def)
  have "submitted True (unat (req_size ci)) (Addr ?m) ?a (r_fd ?r) ?s3 s4 \<and> stored (os ?s3) (os s4)"
    by (rule put_submits [OF g3 _ _ up3 sp3 put]) (use r in \<open>simp_all add: ready_request_def\<close>)
  then have u3: "submitted True ?n (Addr ?m) ?a (r_fd r) ?s3 s4" and k: "stored ?w3 (os s4)" by (simp_all add: b(2))
  have u: "submitted True ?n (Addr ?m) ?a (r_fd r) ?s s4"
    by (rule submitted_from [OF u3]) (use gr in \<open>simp_all add: grown_def put_req_def\<close>)
  have fr: "?a < brk (os s4)" using u by (auto simp: submitted_def)
  have "same_fds w1 (os s4)" using k by (simp add: stored_def same_fds_def fd_lookup_def)
  with ho have "holds_open True name (r_fd r) (p_os st) (os s4)" by (simp add: holds_open_def same_fds_def)
  moreover have "spacious (os s4)" using stored_spacious [OF k] sp3 by simp
  moreover have "heap (os s4) = heap (p_os st)" "mmaps (os s4) = (mmaps (p_os st))(?m := Some ?map)"
    using k h by (simp_all add: stored_def kept_def)
  moreover have "content (os s4) = (content (p_os st))(name := Some bs)"
    using k f(1) by (simp add: stored_def kept_def content_def fun_eq_iff)
  ultimately show ?thesis using u h fr unfolding st' by (intro exI [of _ ?a] exI [of _ ?m] exI [of _ "r_fd r"]) simp
qed

lemma async_write_mmap:
  assumes w: "spacious (p_os st)" and pool: "pool_up (in_mmap st)"
    and b: "heap (p_os st) e0 = Some bs" "bs \<noteq> []" "length bs < 2 ^ 32" "len = word_of_nat (length bs)"
    and n: "CHR 0x00 \<notin> set name" "length name < MAX_FILE_NAME_LEN"
    and a: "async_write_one_picture_to_file ASYNC_FILE_ACCESSOR_MMAP (Addr e0) name len st = Inr (RET_OK, st')"
  shows "\<exists>a m fd. brk (p_os st) \<le> a \<and> a < brk (p_os st') \<and>
           heap (p_os st') = heap (p_os st) \<and> content (p_os st') = (content (p_os st))(name := Some bs) \<and>
           mmaps (p_os st) m = None \<and>
           mmaps (p_os st') = (mmaps (p_os st))(m := Some \<lparr>m_path = name, m_off = 0, m_len = length bs, m_shared = True\<rparr>) \<and>
           spacious (p_os st') \<and> holds_open True name fd (p_os st) (p_os st') \<and>
           submitted True (length bs) (Addr m) a fd (in_mmap st) (in_mmap st')"
proof -
  have l: "unat len = length bs" using b(3,4) by (simp add: unat_of_nat)
  then have l0: "len \<noteq> 0" using b(2) by auto
  let ?st = "of_mmap st (in_mmap st)"
  from a l0 obtain ci where ci: "client_info ASYNC_FILE_ACCESS_WRITE name len = Inr ci"
    and sw: "submit_write mmap_table ci (Addr e0) ?st = Inr (RET_OK, st')"
    unfolding async_write_one_picture_to_file_def mmap_instance [OF pool] prod.case by (auto split: if_splits)
  have i: "request_of True ci name \<and> req_size ci = len"
    using client_info_request [OF n l0, of True ci] ci by simp
  show ?thesis
    using submit_write_mmap [of ?st ci name e0 bs st'] w pool b(1) i sw l by simp
qed

section \<open>The pool threads run\<close>

lemma pool_run_process:
  "run process_exec (map (\<lambda>i. MmapEvent (EvWorker i)) is) st = Some st' \<Longrightarrow>
   run mmap_exec (map EvWorker is) (in_mmap st) = Some (in_mmap st')"
proof (induction "is" arbitrary: st)
  case (Cons i "is")
  from Cons.prems obtain u where u: "process_exec (MmapEvent (EvWorker i)) st = Some (Inr u)"
    "run process_exec (map (\<lambda>i. MmapEvent (EvWorker i)) is) u = Some st'"
    by (auto simp: run_Cons_Some simp del: run.simps process_exec.simps)
  from u(1) obtain s where "mmap_exec (EvWorker i) (in_mmap st) = Some (Inr s)" "in_mmap u = s" by auto
  with Cons.IH [OF u(2)] show ?case by simp
qed simp

lemma job_in_process:
  assumes j: "job_runs f p j" "job_succeeds p j" "j_start j = in_mmap st" "pending_tasks (in_mmap st) = [j_task j]"
    and pool: "isRunning (pinfo (in_mmap st))" "queue_wf (in_mmap st)" "resting (in_mmap st)" "some_thread (in_mmap st)"
    and r: "run process_exec (map (\<lambda>i. MmapEvent (EvWorker i)) is) st = Some st'"
  shows "length is \<le> pool_work (in_mmap st) \<and>
         (\<forall>i x. process_exec (MmapEvent (EvWorker i)) st' \<noteq> Some (Inl x)) \<and>
         (unsettled_at p (in_mmap st') \<or>
          succeeded_at p (in_mmap st') \<and> (p_os st' = os (j_done_io j) \<or> p_os st' = os (j_end j))) \<and>
         ((\<forall>i. process_exec (MmapEvent (EvWorker i)) st' = None) \<longrightarrow>
            succeeded_at p (in_mmap st') \<and> p_os st' = os (j_end j))"
proof -
  have "alone j (in_mmap st)" using j(3,4) pool by (simp add: alone_def agrees_def)
  note o = alone_outcome [OF j(1) this pool(4) pool_run_process [OF r]]
  have at: "agrees (in_mmap st') u \<Longrightarrow> p_os st' = os u \<and> (unsettled_at p u \<longrightarrow> unsettled_at p (in_mmap st')) \<and>
      (succeeded_at p u \<longrightarrow> succeeded_at p (in_mmap st'))" for u
    by (simp add: agrees_def unsettled_at_def succeeded_at_def get_req_def)
  have sys: "process_exec (MmapEvent (EvWorker i)) st' = Some (Inl x) \<longleftrightarrow> worker_step i (in_mmap st') = Some (Inl x)"
    "process_exec (MmapEvent (EvWorker i)) st' = None \<longleftrightarrow> worker_step i (in_mmap st') = None" for i x
    by (auto simp: and_then_Inl_iff)
  from o j(2) at show ?thesis unfolding sys job_succeeds_def by auto
qed

lemma submitted_alone:
  assumes "submitted wr n b a fd s0 s" "idle_pool s0"
  obtains r t where "get_req (Addr a) s = Inr r" "r_status r = REQUEST_STAT_SUBMITTED" "r_buf r = b"
    "unat (r_nbytes r) = n" "r_offset r = 0" "r_fd r = fd"
    "task_call t s = Inr (if wr then FnMmapWrite else FnMmapRead, Addr a)"
    "isRunning (pinfo s)" "queue_wf s" "pending_tasks s = [t]" "resting s" "some_thread s"
proof -
  have "isRunning (pinfo s)" "resting s" "some_thread s" "pending_tasks s0 = []"
    using assms by (simp_all add: submitted_def idle_pool_def resting_def some_thread_def)
  with assms(1) that show thesis unfolding submitted_def by fastforce
qed

text \<open>
  C14: the mmap accessor reads what plain input reads: when nothing is refused, the pool is idle and a client's
  read of a picture, with no pool thread taking a step inside the call, reports success, then a request is
  \<open>SUBMITTED\<close>, and from the return of the call on, every run of the
  pool threads, in any order, ends without a fault after a bounded number of steps; on the way that
  request is \<open>SUBMITTED\<close>, or it is \<open>IOSUCCESS\<close> and the client's buffer already holds the file; and in
  the end the buffer, the size, the files and the open descriptors are those that
  \<open>sync_read_one_picture_to_file\<close> gives, and no mapping is left. (A pool thread that finishes inside the call,
  before line 451 of \<open>mmap_put_request\<close>, is the race of \<open>interrupted_put_loses_the_completion\<close>; there the
  request stays \<open>SUBMITTED\<close>.)
\<close>
theorem mmap_read_like_sync_read:
  assumes w: "spacious (p_os st)" "content (p_os st) name = Some c" "c \<noteq> []" "length c < 2 ^ 32"
    and pool: "idle_pool (in_mmap st)" and n: "CHR 0x00 \<notin> set name" "length name < MAX_FILE_NAME_LEN"
    and std: "fd_lookup (p_os st) 0 \<noteq> None"
    and a: "async_read_one_picture_to_file ASYNC_FILE_ACCESSOR_MMAP buf name st = Inr (RET_OK, b, len, st1)"
    and s: "sync_read_one_picture_to_file name (p_os st) = Inr (res, b', len', w')"
  shows "\<exists>q e e'. b = Addr e \<and> b' = Addr e' \<and> heap w' e' = Some c \<and> res = RET_OK \<and> len = len' \<and>
           unsettled_at (Addr q) (in_mmap st1) \<and>
           (\<forall>is st2. run process_exec (map (\<lambda>i. MmapEvent (EvWorker i)) is) st1 = Some st2 \<longrightarrow>
              length is \<le> pool_work (in_mmap st1) \<and>
              (\<forall>i x. process_exec (MmapEvent (EvWorker i)) st2 \<noteq> Some (Inl x)) \<and>
              (unsettled_at (Addr q) (in_mmap st2) \<or>
               succeeded_at (Addr q) (in_mmap st2) \<and> heap (p_os st2) e = heap w' e') \<and>
              ((\<forall>i. process_exec (MmapEvent (EvWorker i)) st2 = None) \<longrightarrow>
                 succeeded_at (Addr q) (in_mmap st2) \<and> files (p_os st2) = files w' \<and>
                 same_fds w' (p_os st2) \<and> mmaps (p_os st2) = mmaps (p_os st)))"
proof -
  from async_read_mmap [OF w idle_pool_up [OF pool] n a] obtain q e old fd where
    l: "len = word_of_nat (length c)" "b = Addr e" "length old = length c" "heap (p_os st1) = (heap (p_os st))(e := Some old)"
    and k: "files (p_os st1) = files (p_os st)" "mmaps (p_os st1) = mmaps (p_os st)" "spacious (p_os st1)"
    and ho: "holds_open False name fd (p_os st) (p_os st1)"
    and u: "submitted False (length c) b q fd (in_mmap st) (in_mmap st1)" by auto
  obtain r t where r: "get_req (Addr q) (in_mmap st1) = Inr r" "r_status r = REQUEST_STAT_SUBMITTED" "r_buf r = Addr e"
    "unat (r_nbytes r) = length c" "r_offset r = 0" "r_fd r = fd" and t: "task_call t (in_mmap st1) = Inr (FnMmapRead, Addr q)"
    and p: "isRunning (pinfo (in_mmap st1))" "queue_wf (in_mmap st1)" "resting (in_mmap st1)" "some_thread (in_mmap st1)"
      "pending_tasks (in_mmap st1) = [t]"
    by (rule submitted_alone [OF u pool]) (use l(2) in auto)
  from r(1,2) have un: "unsettled_at (Addr q) (in_mmap st1)" by (simp add: unsettled_at_def)
  from ho std have fd: "0 < fd" by (cases "fd = 0") (auto simp: holds_open_def)
  have d: "fd_lookup (os (in_mmap st1)) (r_fd r) = Some \<lparr>o_path = name, o_mode = Rdonly, o_pos = 0\<rparr>"
    using ho r(6) by (simp add: holds_open_def)
  have ct: "content (os (in_mmap st1)) name = Some c" using w(2) k(1) by (simp add: content_def)
  from read_job [OF t r(1-5) _ d ct w(3) _ l(3)] l(4) k(3) fd r(6) obtain j where
    j: "job_runs FnMmapRead (Addr q) j" "job_succeeds (Addr q) j" "j_start j = in_mmap st1" "j_task j = t"
    and h: "heap (os (j_done_io j)) e = Some c" "heap (os (j_end j)) e = Some c"
    and fin: "files (os (j_end j)) = files (p_os st)" "mmaps (os (j_end j)) = mmaps (p_os st)"
      "\<forall>k. fd_lookup (os (j_end j)) k = (if k = fd then None else fd_lookup (p_os st1) k)"
    using k(1,2) by auto
  from sync_read_ok [OF _ w(2,4)] w(1) s have y: "res = RET_OK" "b' = Addr (brk (p_os st))" "len' = word_of_nat (length c)"
    "files w' = files (p_os st)" "heap w' (brk (p_os st)) = Some c" "same_fds (p_os st) w'" by (auto simp: spacious_def)
  have fds: "same_fds w' (os (j_end j))" using fin(3) ho y(6) by (auto simp: same_fds_def holds_open_def)
  have run: "length is \<le> pool_work (in_mmap st1) \<and>
      (\<forall>i x. process_exec (MmapEvent (EvWorker i)) st2 \<noteq> Some (Inl x)) \<and>
      (unsettled_at (Addr q) (in_mmap st2) \<or> succeeded_at (Addr q) (in_mmap st2) \<and> heap (p_os st2) e = Some c) \<and>
      ((\<forall>i. process_exec (MmapEvent (EvWorker i)) st2 = None) \<longrightarrow> succeeded_at (Addr q) (in_mmap st2) \<and>
         files (p_os st2) = files (p_os st) \<and> same_fds w' (p_os st2) \<and> mmaps (p_os st2) = mmaps (p_os st))"
    if "run process_exec (map (\<lambda>i. MmapEvent (EvWorker i)) is) st1 = Some st2" for "is" st2
  proof -
    from p(5) j(4) have "pending_tasks (in_mmap st1) = [j_task j]" by simp
    from job_in_process [OF j(1-3) this p(1-4) that] h fin(1,2) fds show ?thesis by auto
  qed
  show ?thesis unfolding y(4) [symmetric]
    by (intro exI [of _ q] exI [of _ e] exI [of _ "brk (p_os st)"] conjI allI impI)
      (use run l y un in \<open>auto simp del: process_exec.simps\<close>)
qed

text \<open>A process whose pool has served the request of the concrete run and is idle again.\<close>

definition pool_world :: process where
  "pool_world = \<lparr>p_os = demo_os_done, p_mmap = demo_at WAcquire 0 (- 1) REQUEST_STAT_IOSUCCESS demo_os_done,
     p_aio = g_aioFileAccessor demo_world\<rparr>"

lemma resting_list: "resting s \<longleftrightarrow> list_all at_rest (threads s)"
  by (simp add: resting_def list_all_length)

lemma pool_world_state:
  "spacious (p_os pool_world)" "idle_pool (in_mmap pool_world)"
  "content (p_os pool_world) ''in'' = Some [7, 8, 9]" "fd_lookup (p_os pool_world) 0 \<noteq> None"
  "heap (p_os pool_world) 3 = Some [7, 8, 9]"
proof -
  let ?s = "in_mmap pool_world"
  have e: "tqueue ?s = \<lparr>request_queue = Addr 5, q_head = 1, q_tail = 1, q_todoCnt = 0, q_totoalCnt = 1\<rparr>"
    "threads ?s = [WAcquire, WStart, WStart, WStart, WStart]" "isInitialized (pinfo (p_mmap pool_world))" "isRunning (pinfo (p_mmap pool_world))"
    "parrs (p_os pool_world) = [5 \<mapsto> demo_arr]" "brk (p_os pool_world) = 7"
    by (simp_all add: pool_world_def in_mmap_def demo_at_def demo_os_done_def demo_os_copied_def demo_os_queued_def)
  have "queue_wf ?s" by (simp add: queue_wf_def queue_arr_def slot_def demo_arr_def e)
  moreover have "some_thread ?s" unfolding some_thread_def e(2) by (intro exI [of _ 0]) simp
  ultimately show "idle_pool ?s" by (simp add: idle_pool_def e pending_tasks_def resting_list LIST_LIMIT_def)
  show "spacious (p_os pool_world)" "content (p_os pool_world) ''in'' = Some [7, 8, 9]" "fd_lookup (p_os pool_world) 0 \<noteq> None"
    "heap (p_os pool_world) 3 = Some [7, 8, 9]"
    by (simp_all add: pool_world_def demo_os_done_def demo_os_copied_def demo_os_queued_def demo_os_def
        spacious_def calm_def content_def demo_file_def fd_lookup_def)
qed

theorem mmap_read_like_sync_read_witness:
  "\<exists>b len st1. async_read_one_picture_to_file ASYNC_FILE_ACCESSOR_MMAP Null ''in'' pool_world = Inr (RET_OK, b, len, st1) \<and>
     (\<exists>q. unsettled_at (Addr q) (in_mmap st1)) \<and>
     (\<forall>i x. process_exec (MmapEvent (EvWorker i)) st1 \<noteq> Some (Inl x))"
  (is "\<exists>b len st1. ?c = _ \<and> _")
proof -
  note w = pool_world_state
  have "case ?c of Inr (res, b, len, st') \<Rightarrow> res = RET_OK | Inl f \<Rightarrow> False" by code_simp
  then obtain b len st1 where c: "?c = Inr (RET_OK, b, len, st1)" by (auto split: sum.splits)
  have "calm (p_os pool_world)" using w(1) by (simp add: spacious_def)
  from sync_read_ok [OF this w(3)] obtain len' w' where s: "sync_read_one_picture_to_file ''in'' (p_os pool_world) =
    Inr (RET_OK, Addr (brk (p_os pool_world)), len', w')" by auto
  have "CHR 0x00 \<notin> set ''in''" "length ''in'' < MAX_FILE_NAME_LEN" "[7, 8, 9 :: u8] \<noteq> []" "length [7, 8, 9 :: u8] < 2 ^ 32"
    by (simp_all add: MAX_FILE_NAME_LEN_def)
  from mmap_read_like_sync_read [OF w(1,3) this(3,4) w(2) this(1,2) w(4) c s] c show ?thesis
    by (metis list.map(1) run.simps(1))
qed

text \<open>
  C15: the mmap accessor writes what plain output writes: when nothing is refused, the pool is idle and a client's
  write of a picture, with no pool thread taking a step inside the call, reports success, then a request is
  \<open>SUBMITTED\<close>, and from the return of the call on, every run of the pool threads ends without a fault after a bounded number of steps, at every moment of it the request
  is \<open>SUBMITTED\<close> or \<open>IOSUCCESS\<close> and the files have the contents that \<open>sync_write_one_picture_to_file\<close>
  gives, and in the end the request is \<open>IOSUCCESS\<close>, the client's memory and the descriptors are those
  of the synchronous write and the mapping is gone. A longer old file is truncated, unlike with the AIO accessor.
  (A pool thread that finishes inside the call is the race of \<open>interrupted_put_loses_the_completion\<close>.)
\<close>
theorem mmap_write_like_sync_write:
  assumes w: "spacious (p_os st)" and pool: "idle_pool (in_mmap st)"
    and b: "heap (p_os st) e = Some bs" "bs \<noteq> []" "length bs < 2 ^ 32" "len = word_of_nat (length bs)"
    and n: "CHR 0x00 \<notin> set name" "length name < MAX_FILE_NAME_LEN" and std: "fd_lookup (p_os st) 0 \<noteq> None"
    and a: "async_write_one_picture_to_file ASYNC_FILE_ACCESSOR_MMAP (Addr e) name len st = Inr (RET_OK, st1)"
    and s: "sync_write_one_picture_to_file (Addr e) name len (p_os st) = Inr (res, w')"
  shows "\<exists>q. res = RET_OK \<and> content w' = (content (p_os st))(name := Some bs) \<and>
           unsettled_at (Addr q) (in_mmap st1) \<and>
           (\<forall>is st2. run process_exec (map (\<lambda>i. MmapEvent (EvWorker i)) is) st1 = Some st2 \<longrightarrow>
              length is \<le> pool_work (in_mmap st1) \<and>
              (\<forall>i x. process_exec (MmapEvent (EvWorker i)) st2 \<noteq> Some (Inl x)) \<and>
              (unsettled_at (Addr q) (in_mmap st2) \<or>
               succeeded_at (Addr q) (in_mmap st2) \<and> content (p_os st2) = content w') \<and>
              ((\<forall>i. process_exec (MmapEvent (EvWorker i)) st2 = None) \<longrightarrow>
                 succeeded_at (Addr q) (in_mmap st2) \<and> heap (p_os st2) = heap w' \<and>
                 same_fds w' (p_os st2) \<and> mmaps (p_os st2) = mmaps (p_os st)))"
proof -
  from async_write_mmap [OF w idle_pool_up [OF pool] b n a] obtain q m fd where
    k: "heap (p_os st1) = heap (p_os st)" "content (p_os st1) = (content (p_os st))(name := Some bs)"
      "mmaps (p_os st) m = None" "spacious (p_os st1)"
      "mmaps (p_os st1) = (mmaps (p_os st))(m := Some \<lparr>m_path = name, m_off = 0, m_len = length bs, m_shared = True\<rparr>)"
    and ho: "holds_open True name fd (p_os st) (p_os st1)"
    and u: "submitted True (length bs) (Addr m) q fd (in_mmap st) (in_mmap st1)" by auto
  obtain r t where r: "get_req (Addr q) (in_mmap st1) = Inr r" "r_status r = REQUEST_STAT_SUBMITTED" "r_buf r = Addr m"
    "unat (r_nbytes r) = length bs" "r_fd r = fd" and t: "task_call t (in_mmap st1) = Inr (FnMmapWrite, Addr q)"
    and p: "isRunning (pinfo (in_mmap st1))" "queue_wf (in_mmap st1)" "resting (in_mmap st1)" "some_thread (in_mmap st1)"
      "pending_tasks (in_mmap st1) = [t]"
    by (rule submitted_alone [OF u pool]) auto
  from r(1,2) have un: "unsettled_at (Addr q) (in_mmap st1)" by (simp add: unsettled_at_def)
  from ho std have fd: "0 < fd" by (cases "fd = 0") (auto simp: holds_open_def)
  have d: "fd_lookup (os (in_mmap st1)) (r_fd r) \<noteq> None" using ho r(5) by (simp add: holds_open_def)
  have ct: "content (os (in_mmap st1)) name = Some bs" "mmaps (os (in_mmap st1)) m =
      Some \<lparr>m_path = name, m_off = 0, m_len = length bs, m_shared = True\<rparr>" "spacious (os (in_mmap st1))"
    using k by simp_all
  from write_job [OF t r(1-4) _ d ct] fd r(5) obtain j where
    j: "job_runs FnMmapWrite (Addr q) j" "job_succeeds (Addr q) j" "j_start j = in_mmap st1" "j_task j = t"
    and fin: "content (os (j_done_io j)) = content (p_os st1)" "content (os (j_end j)) = content (p_os st1)"
      "heap (os (j_end j)) = heap (p_os st)" "mmaps (os (j_end j)) = mmaps (p_os st)"
      "\<forall>k. fd_lookup (os (j_end j)) k = (if k = fd then None else fd_lookup (p_os st1) k)"
    using k by (auto simp: fun_upd_idem)
  have cw: "calm (p_os st)" using w by (simp add: spacious_def)
  from sync_write_ok [OF cw b, of name] s have y: "res = RET_OK" "content w' = (content (p_os st))(name := Some bs)"
    "heap w' = heap (p_os st)" "same_fds (p_os st) w'" by auto
  have fds: "same_fds w' (os (j_end j))" using fin(5) ho y(4) by (auto simp: same_fds_def holds_open_def)
  have run: "length is \<le> pool_work (in_mmap st1) \<and>
      (\<forall>i x. process_exec (MmapEvent (EvWorker i)) st2 \<noteq> Some (Inl x)) \<and>
      (unsettled_at (Addr q) (in_mmap st2) \<or> succeeded_at (Addr q) (in_mmap st2) \<and> content (p_os st2) = content w') \<and>
      ((\<forall>i. process_exec (MmapEvent (EvWorker i)) st2 = None) \<longrightarrow> succeeded_at (Addr q) (in_mmap st2) \<and>
         heap (p_os st2) = heap w' \<and> same_fds w' (p_os st2) \<and> mmaps (p_os st2) = mmaps (p_os st))"
    if "run process_exec (map (\<lambda>i. MmapEvent (EvWorker i)) is) st1 = Some st2" for "is" st2
  proof -
    from p(5) j(4) have "pending_tasks (in_mmap st1) = [j_task j]" by simp
    from job_in_process [OF j(1-3) this p(1-4) that] fin(1-4) fds k(2) y show ?thesis by auto
  qed
  show ?thesis
    by (intro exI [of _ q] conjI allI impI) (use run y un in \<open>auto simp del: process_exec.simps\<close>)
qed

theorem mmap_write_like_sync_write_witness:
  "\<exists>st1 q. async_write_one_picture_to_file ASYNC_FILE_ACCESSOR_MMAP (Addr 3) ''out'' 3 pool_world = Inr (RET_OK, st1) \<and>
     unsettled_at (Addr q) (in_mmap st1) \<and>
     (\<forall>i x. process_exec (MmapEvent (EvWorker i)) st1 \<noteq> Some (Inl x))"
  (is "\<exists>st1 q. ?c = _ \<and> _")
proof -
  note w = pool_world_state
  have "case ?c of Inr (res, st') \<Rightarrow> res = RET_OK | Inl f \<Rightarrow> False" by code_simp
  then obtain st1 where c: "?c = Inr (RET_OK, st1)" by (auto split: sum.splits)
  have l: "[7, 8, 9 :: u8] \<noteq> []" "length [7, 8, 9 :: u8] < 2 ^ 32" "(3 :: u32) = word_of_nat (length [7, 8, 9 :: u8])"
    "CHR 0x00 \<notin> set ''out''" "length ''out'' < MAX_FILE_NAME_LEN"
    by (simp_all add: MAX_FILE_NAME_LEN_def)
  have "calm (p_os pool_world)" using w(1) by (simp add: spacious_def)
  from sync_write_ok [OF this w(5) l(1-3), of "''out''"] obtain w' where
    s: "sync_write_one_picture_to_file (Addr 3) ''out'' 3 (p_os pool_world) = Inr (RET_OK, w')" by auto
  from mmap_write_like_sync_write [OF w(1,2,5) l w(4) c s] c show ?thesis
    by (metis list.map(1) run.simps(1))
qed

end
