(* ===== verification/In_Flight.thy ===== *)
theory In_Flight
  imports Client_Mmap
begin

text \<open>
  Any number of the client's requests at once, served by all pool threads: each request in flight
  owns its buffer, its descriptor and its mapping, and moves from the queue to a thread and from phase to phase
  while the others move; what one phase does leaves what the others own alone.
\<close>

section \<open>A request in flight\<close>

text \<open>
  What was asked for: the data, and the block (of a read) or the mapping (of a write) that carries it.
\<close>

record flight =
  f_wr :: bool
  f_path :: string
  f_data :: "u8 list"
  f_mem :: nat
  f_fd :: int

abbreviation flight_fn :: "flight \<Rightarrow> task_fn" where
  "flight_fn F \<equiv> if f_wr F then FnMmapWrite else FnMmapRead"

text \<open>Where it is: in the queue, with a thread, between the phases with the mapping of a read, or done.\<close>

datatype place = Waiting | Taken nat | Copied nat ptr | Recorded nat ptr | Landed

fun place_thread :: "place \<Rightarrow> nat option" where
  "place_thread (Taken i) = Some i"
| "place_thread (Copied i x) = Some i"
| "place_thread (Recorded i x) = Some i"
| "place_thread _ = None"

fun unread :: "place \<Rightarrow> bool" where
  "unread Waiting = True"
| "unread (Taken i) = True"
| "unread _ = False"

fun settled :: "place \<Rightarrow> bool" where
  "settled (Recorded i x) = True"
| "settled Landed = True"
| "settled _ = False"

fun read_map :: "place \<Rightarrow> ptr" where
  "read_map (Copied i x) = x"
| "read_map (Recorded i x) = x"
| "read_map _ = MapFailed"

text \<open>The mapping it owns at a place.\<close>

definition owned :: "flight \<Rightarrow> place \<Rightarrow> ptr" where
  "owned F pl = (if f_wr F then if pl = Landed then MapFailed else Addr (f_mem F) else read_map pl)"

definition flight_map :: "flight \<Rightarrow> mapping" where
  "flight_map F = \<lparr>m_path = f_path F, m_off = 0, m_len = length (f_data F), m_shared = f_wr F\<rparr>"

text \<open>What holds of request \<open>a\<close> and of what it owns at a place.\<close>

definition airborne :: "flight \<Rightarrow> mmap_request \<Rightarrow> world \<Rightarrow> bool" where
  "airborne F r w \<longleftrightarrow> r_fd r = f_fd F \<and> unat (r_nbytes r) = length (f_data F) \<and> r_offset r = 0 \<and>
     r_buf r = Addr (f_mem F) \<and>
     fd_lookup w (f_fd F) = Some \<lparr>o_path = f_path F, o_mode = mmode_of (f_wr F), o_pos = 0\<rparr>"

definition flight_ok :: "flight \<Rightarrow> place \<Rightarrow> nat \<Rightarrow> mmap_sys \<Rightarrow> bool" where
  "flight_ok F pl a s \<longleftrightarrow> 0 < f_fd F \<and> f_data F \<noteq> [] \<and>
     (\<exists>r. requests s a = Some r \<and> (pl \<noteq> Landed \<longrightarrow> airborne F r (os s)) \<and>
        (\<not> f_wr F \<longrightarrow> r_buf r = Addr (f_mem F)) \<and>
        r_status r = (if settled pl then REQUEST_STAT_IOSUCCESS else REQUEST_STAT_SUBMITTED)) \<and>
     (f_wr F \<or> pl \<noteq> Landed \<longrightarrow> content (os s) (f_path F) = Some (f_data F)) \<and>
     (\<not> f_wr F \<longrightarrow> (\<exists>b. heap (os s) (f_mem F) = Some b \<and> length b = length (f_data F) \<and>
                          (\<not> unread pl \<longrightarrow> b = f_data F))) \<and>
     (f_wr F \<or> unread pl \<or> pl = Landed \<or> (\<exists>y. read_map pl = Addr y)) \<and>
     (\<forall>y. owned F pl = Addr y \<longrightarrow> mmaps (os s) y = Some (flight_map F))"

text \<open>What a phase of request \<open>a\<close> may change as it goes from one place to the next.\<close>

definition moves :: "flight \<Rightarrow> nat \<Rightarrow> place \<Rightarrow> place \<Rightarrow> mmap_sys \<Rightarrow> mmap_sys \<Rightarrow> bool" where
  "moves F a pl pl' s s' \<longleftrightarrow>
     (\<forall>b. b \<noteq> a \<longrightarrow> requests s' b = requests s b) \<and> content (os s') = content (os s) \<and>
     (\<forall>k. k \<noteq> f_fd F \<longrightarrow> fd_lookup (os s') k = fd_lookup (os s) k) \<and>
     (pl' = Landed \<longrightarrow> fd_lookup (os s') (f_fd F) = None) \<and>
     (\<forall>y. f_wr F \<or> y \<noteq> f_mem F \<longrightarrow> heap (os s') y = heap (os s) y) \<and>
     (\<forall>y. owned F pl \<noteq> Addr y \<longrightarrow> owned F pl' \<noteq> Addr y \<longrightarrow> mmaps (os s') y = mmaps (os s) y) \<and>
     (\<forall>y. owned F pl' = Addr y \<longrightarrow> owned F pl = Addr y \<or> mmaps (os s) y = None) \<and>
     (\<forall>y. owned F pl = Addr y \<longrightarrow> owned F pl' \<noteq> Addr y \<longrightarrow> mmaps (os s') y = None) \<and>
     spacious (os s')"

text \<open>Another request is where it was.\<close>

definition apart :: "flight \<Rightarrow> place \<Rightarrow> flight \<Rightarrow> place \<Rightarrow> bool" where
  "apart F pl G ql \<longleftrightarrow>
     (pl = Landed \<or> ql = Landed \<or> f_fd F \<noteq> f_fd G) \<and>
     (f_wr F \<or> f_wr G \<or> f_mem F \<noteq> f_mem G) \<and>
     (\<forall>y. owned F pl = Addr y \<longrightarrow> owned G ql \<noteq> Addr y)"

lemma apart_sym: "apart F pl G ql \<longleftrightarrow> apart G ql F pl"
  by (auto simp: apart_def)

lemma others_fly_on:
  assumes m: "moves F a pl pl' s s'" and g: "flight_ok G ql b s" and ab: "b \<noteq> a"
    and d: "apart F pl G ql" and d': "apart F pl' G ql" and fly: "pl \<noteq> Landed"
  shows "flight_ok G ql b s'"
proof -
  from m ab have r: "requests s' b = requests s b" "content (os s') = content (os s)" by (simp_all add: moves_def)
  have f: "ql \<noteq> Landed \<Longrightarrow> fd_lookup (os s') (f_fd G) = fd_lookup (os s) (f_fd G)"
    using m d fly by (auto simp: moves_def apart_def)
  have h: "\<not> f_wr G \<Longrightarrow> heap (os s') (f_mem G) = heap (os s) (f_mem G)"
    using m d by (auto simp: moves_def apart_def)
  have o: "owned G ql = Addr y \<Longrightarrow> mmaps (os s') y = mmaps (os s) y" for y
    using m d d' by (auto simp: moves_def apart_def)
  show ?thesis using g r f h o by (auto simp: flight_ok_def airborne_def)
qed

lemma still_apart:
  assumes m: "moves F a pl pl' s s'" and g: "flight_ok G ql b s" and d: "apart F pl G ql" and fly: "pl \<noteq> Landed"
  shows "apart F pl' G ql"
proof -
  have "owned G ql \<noteq> Addr y" if "owned F pl' = Addr y" for y
    using m d g that by (fastforce simp: moves_def apart_def flight_ok_def)
  with d fly show ?thesis by (auto simp: apart_def)
qed

section \<open>Its phases\<close>

lemma fd_lookup_cong: "fds w' = fds w \<Longrightarrow> fd_lookup w' k = fd_lookup w k"
  by (simp add: fd_lookup_def)

lemma flight_req:
  assumes "flight_ok F pl a s"
  obtains r where "get_req (Addr a) s = Inr r" "requests s a = Some r" "pl \<noteq> Landed \<Longrightarrow> airborne F r (os s)"
    "r_status r = (if settled pl then REQUEST_STAT_IOSUCCESS else REQUEST_STAT_SUBMITTED)"
proof -
  from assms obtain r where "requests s a = Some r" "pl \<noteq> Landed \<longrightarrow> airborne F r (os s)"
    "r_status r = (if settled pl then REQUEST_STAT_IOSUCCESS else REQUEST_STAT_SUBMITTED)"
    unfolding flight_ok_def by blast
  with that [of r] show thesis by (simp add: get_req_def)
qed

lemma enter_flies:
  assumes "flight_ok F (Taken i) a s"
  shows "task_enter (flight_fn F) (Addr a) s = Inr (True, s)"
proof -
  obtain r where "get_req (Addr a) s = Inr r" "r_status r = REQUEST_STAT_SUBMITTED"
    by (rule flight_req [OF assms]) simp
  then show ?thesis by (simp add: mmapRead_enter_def mmapWrite_enter_def)
qed

lemma read_io_flies:
  assumes f: "flight_ok F (Taken i) a s" and rd: "\<not> f_wr F" and w: "spacious (os s)"
  shows "\<exists>x s'. mmapRead_io (Addr a) s = Inr (True, x, s') \<and>
           flight_ok F (Copied i x) a s' \<and> moves F a (Taken i) (Copied i x) s s'"
proof -
  obtain r where r: "get_req (Addr a) s = Inr r" "requests s a = Some r" "airborne F r (os s)"
    "r_status r = REQUEST_STAT_SUBMITTED" by (rule flight_req [OF f]) simp
  from f rd obtain b where b: "heap (os s) (f_mem F) = Some b" "length b = length (f_data F)"
    and c: "content (os s) (f_path F) = Some (f_data F)" "f_data F \<noteq> []" "0 < f_fd F"
    by (auto simp: flight_ok_def)
  let ?m = "brk (os s)"
  let ?w = "(os s)\<lparr>calls := Suc (calls (os s)), brk := Suc ?m, heap := (heap (os s))(f_mem F := Some (f_data F)),
    mmaps := (mmaps (os s))(?m := Some (flight_map F))\<rparr>"
  have io: "mmapRead_io (Addr a) s = Inr (True, Addr ?m, s\<lparr>os := ?w\<rparr>)"
    using read_io_calm [OF r(1) _ _ _ _ c(1,2) b w] r(3) rd by (simp add: airborne_def flight_map_def)
  have n: "mmaps (os s) ?m = None" "heap (os s) ?m = None" using w by (simp_all add: spacious_def calm_def)
  then have "f_mem F \<noteq> ?m" using b(1) by auto
  moreover have "f_mem F < ?m" using w b(1) by (fastforce simp: spacious_def calm_def linorder_not_less [symmetric])
  ultimately have sp: "spacious ?w" using w by (auto simp: spacious_def calm_def)
  have fd: "fd_lookup ?w k = fd_lookup (os s) k" for k by (rule fd_lookup_cong) simp
  have ct: "content ?w = content (os s)" by (simp add: content_def fun_eq_iff)
  have "flight_ok F (Copied i (Addr ?m)) a (s\<lparr>os := ?w\<rparr>)"
    using r c rd fd by (simp add: flight_ok_def airborne_def owned_def ct)
  moreover have "moves F a (Taken i) (Copied i (Addr ?m)) s (s\<lparr>os := ?w\<rparr>)"
    using sp fd n rd by (simp add: moves_def ct owned_def)
  ultimately show ?thesis using io by blast
qed

lemma write_io_flies:
  assumes f: "flight_ok F (Taken i) a s" and wr: "f_wr F" and w: "spacious (os s)"
  shows "\<exists>x s'. mmapWrite_io (Addr a) s = Inr (True, x, s') \<and>
           flight_ok F (Copied i x) a s' \<and> moves F a (Taken i) (Copied i x) s s'"
proof -
  obtain r where r: "get_req (Addr a) s = Inr r" "requests s a = Some r" "airborne F r (os s)"
    "r_status r = REQUEST_STAT_SUBMITTED" by (rule flight_req [OF f]) simp
  from f wr have c: "content (os s) (f_path F) = Some (f_data F)" "f_data F \<noteq> []" "0 < f_fd F"
    and m: "mmaps (os s) (f_mem F) = Some (flight_map F)" by (auto simp: flight_ok_def owned_def)
  from write_io_calm [OF r(1) _ _ c(1) w] r(3) m wr obtain fl where
    io: "mmapWrite_io (Addr a) s = Inr (True, MapFailed, s\<lparr>os := (os s)\<lparr>calls := Suc (calls (os s)), files := fl\<rparr>\<rparr>)"
    and ct: "content ((os s)\<lparr>calls := Suc (calls (os s)), files := fl\<rparr>) = content (os s)"
    by (auto simp: airborne_def flight_map_def)
  let ?w = "(os s)\<lparr>calls := Suc (calls (os s)), files := fl\<rparr>"
  have fd: "fd_lookup ?w k = fd_lookup (os s) k" for k by (rule fd_lookup_cong) simp
  have "flight_ok F (Copied i MapFailed) a (s\<lparr>os := ?w\<rparr>)"
    using r c wr fd m by (simp add: flight_ok_def airborne_def owned_def ct)
  moreover have "moves F a (Taken i) (Copied i MapFailed) s (s\<lparr>os := ?w\<rparr>)"
    using w fd wr by (simp add: moves_def ct owned_def spacious_def calm_def)
  ultimately show ?thesis using io by blast
qed

lemma io_flies:
  assumes "flight_ok F (Taken i) a s" "spacious (os s)"
  shows "\<exists>x s'. task_io (flight_fn F) (Addr a) s = Inr (True, x, s') \<and>
           flight_ok F (Copied i x) a s' \<and> moves F a (Taken i) (Copied i x) s s'"
  using read_io_flies [OF assms(1) _ assms(2)] write_io_flies [OF assms(1) _ assms(2)] by auto

lemma record_flies:
  assumes f: "flight_ok F (Copied i x) a s" and w: "spacious (os s)"
  shows "\<exists>s'. mmap_record_status (Addr a) True s = Inr s' \<and>
           flight_ok F (Recorded i x) a s' \<and> moves F a (Copied i x) (Recorded i x) s s'"
proof -
  obtain r where r: "get_req (Addr a) s = Inr r" "requests s a = Some r" "airborne F r (os s)"
    "r_status r = REQUEST_STAT_SUBMITTED" by (rule flight_req [OF f]) simp
  let ?s = "put_req (Addr a) (r\<lparr>r_status := REQUEST_STAT_IOSUCCESS\<rparr>) s"
  have "mmap_record_status (Addr a) True s = Inr ?s" using r by (simp add: mmap_record_status_def)
  moreover have "flight_ok F (Recorded i x) a ?s"
    using f r(3) by (auto simp: flight_ok_def put_req_def airborne_def owned_def)
  moreover have "moves F a (Copied i x) (Recorded i x) s ?s"
    using w by (auto simp: moves_def put_req_def owned_def)
  ultimately show ?thesis by blast
qed

lemma released_moves:
  assumes f: "flight_ok F (Recorded i x) a s" and r: "requests s a = Some r" and w: "spacious (os s)"
    and o: "owned F (Recorded i x) = Addr y" and rel: "released y (f_fd F) (os s) w'"
    and q: "r_status q = r_status r" "\<not> f_wr F \<longrightarrow> r_buf q = r_buf r"
  shows "flight_ok F Landed a (put_req (Addr a) q (s\<lparr>os := w'\<rparr>)) \<and>
         moves F a (Recorded i x) Landed s (put_req (Addr a) q (s\<lparr>os := w'\<rparr>))"
proof -
  from rel have k: "heap w' = heap (os s)" "mmaps w' = (mmaps (os s))(y := None)" "brk w' = brk (os s)"
      "refuse w' = refuse (os s)" "files w' = files (os s)"
    and fd: "fd_lookup w' k = (if k = f_fd F then None else fd_lookup (os s) k)" for k
    by (simp_all add: released_def same_store_def)
  have ct: "content w' = content (os s)" using k by (simp add: content_def fun_eq_iff)
  have sp: "spacious w'" using w k by (simp add: spacious_def calm_def)
  have "flight_ok F Landed a (put_req (Addr a) q (s\<lparr>os := w'\<rparr>))"
    using f r q k by (auto simp: flight_ok_def put_req_def owned_def ct)
  moreover have "moves F a (Recorded i x) Landed s (put_req (Addr a) q (s\<lparr>os := w'\<rparr>))"
    using o sp k fd by (auto simp: moves_def put_req_def ct owned_def split: if_splits)
  ultimately show ?thesis ..
qed

lemma cleanup_flies:
  assumes f: "flight_ok F (Recorded i x) a s" and w: "spacious (os s)"
  shows "\<exists>s'. task_cleanup (flight_fn F) (Addr a) x s = Inr s' \<and>
           flight_ok F Landed a s' \<and> moves F a (Recorded i x) Landed s s'"
proof -
  obtain r where r: "get_req (Addr a) s = Inr r" "requests s a = Some r" "airborne F r (os s)"
    "r_status r = REQUEST_STAT_IOSUCCESS" by (rule flight_req [OF f]) simp
  have fd: "0 < r_fd r" "fd_lookup (os s) (r_fd r) \<noteq> None" "r_fd r = f_fd F" "unat (r_nbytes r) = length (f_data F)"
    "r_buf r = Addr (f_mem F)"
    using f r(3) by (auto simp: flight_ok_def airborne_def)
  have l: "m_len (flight_map F) = length (f_data F)" by (simp add: flight_map_def)
  show ?thesis
  proof (cases "f_wr F")
    case True
    then have y: "owned F (Recorded i x) = Addr (f_mem F)" by (simp add: owned_def)
    with f have "mmaps (os s) (f_mem F) = Some (flight_map F)" by (simp add: flight_ok_def)
    from write_cleanup_calm [OF r(1) fd(5,4,1,2) this l] obtain w' where
      c: "mmapWrite_cleanup (Addr a) s = Inr (put_req (Addr a) (r\<lparr>r_buf := Null, r_fd := - 1\<rparr>) (s\<lparr>os := w'\<rparr>))"
      and rel: "released (f_mem F) (f_fd F) (os s) w'" using fd(3) by auto
    with released_moves [OF f r(2) w y rel, of "r\<lparr>r_buf := Null, r_fd := - 1\<rparr>"] True show ?thesis by simp
  next
    case False
    with f obtain y where x: "x = Addr y" by (auto simp: flight_ok_def)
    with False have y: "owned F (Recorded i x) = Addr y" by (simp add: owned_def)
    with f have "mmaps (os s) y = Some (flight_map F)" by (simp add: flight_ok_def)
    from read_cleanup_calm [OF r(1) fd(4,1,2) this l] obtain w' where
      c: "mmapRead_cleanup (Addr a) (Addr y) s = Inr (put_req (Addr a) (r\<lparr>r_fd := - 1\<rparr>) (s\<lparr>os := w'\<rparr>))"
      and rel: "released y (f_fd F) (os s) w'" using fd(3) by auto
    with released_moves [OF f r(2) w y rel, of "r\<lparr>r_fd := - 1\<rparr>"] False x show ?thesis by simp
  qed
qed

section \<open>All of them\<close>

type_synonym flights = "nat \<Rightarrow> flight option"

text \<open>Task \<open>t\<close> is the one of request \<open>a\<close>.\<close>

definition carries :: "flights \<Rightarrow> mmap_sys \<Rightarrow> ptr \<Rightarrow> nat \<Rightarrow> bool" where
  "carries fl s t a \<longleftrightarrow> (\<exists>F. fl a = Some F \<and> task_call t s = Inr (flight_fn F, Addr a))"

lemma carries_tasks: "tasks s' = tasks s \<Longrightarrow> carries fl s' t a \<longleftrightarrow> carries fl s t a"
  by (simp add: carries_def task_call_def)

lemma carries_unique: "carries fl s t a \<Longrightarrow> carries fl s t b \<Longrightarrow> b = a"
  unfolding carries_def by (elim exE conjE) (simp only: sum.inject prod.inject ptr.inject)

fun pc_place :: "nat \<Rightarrow> wpc \<Rightarrow> place option" where
  "pc_place i (WGot t) = Some (Taken i)"
| "pc_place i (WMark t) = Some (Taken i)"
| "pc_place i (WEnter t) = Some (Taken i)"
| "pc_place i (WIo t) = Some (Taken i)"
| "pc_place i (WStat t ok x) = (if ok then Some (Copied i x) else None)"
| "pc_place i (WClean t x) = Some (Recorded i x)"
| "pc_place i _ = None"

lemma pc_place_thread: "pc_place i pc = Some p \<Longrightarrow> place_thread p = Some i"
  by (cases pc) (auto split: if_splits)

lemma pc_place_held: "pc_place i pc = Some p \<Longrightarrow> held_task pc \<noteq> None"
  by (cases pc) auto

text \<open>
  The queue and the threads have the tasks of the requests that are not done, each at one place.
\<close>

definition thread_flies :: "flights \<Rightarrow> (nat \<Rightarrow> place) \<Rightarrow> mmap_sys \<Rightarrow> nat \<Rightarrow> bool" where
  "thread_flies fl pl s i \<longleftrightarrow> threads s ! i \<noteq> WExit \<and> threads s ! i \<noteq> WJoined \<and>
     (\<forall>t. held_task (threads s ! i) = Some t \<longrightarrow>
        (\<exists>a. carries fl s t a \<and> pc_place i (threads s ! i) = Some (pl a)))"

definition crewed :: "flights \<Rightarrow> (nat \<Rightarrow> place) \<Rightarrow> mmap_sys \<Rightarrow> bool" where
  "crewed fl pl s \<longleftrightarrow>
     (\<exists>as. list_all2 (carries fl s) (pending_tasks s) as \<and> distinct as \<and>
        set as = {a. fl a \<noteq> None \<and> pl a = Waiting}) \<and>
     (\<forall>i < length (threads s). thread_flies fl pl s i) \<and>
     (\<forall>a i. fl a \<noteq> None \<longrightarrow> place_thread (pl a) = Some i \<longrightarrow> i < length (threads s) \<and>
        (\<exists>t. held_task (threads s ! i) = Some t \<and> carries fl s t a))"

text \<open>What the requests own, and that everything else is as it was in \<open>s0\<close>.\<close>

definition owns_map :: "flights \<Rightarrow> (nat \<Rightarrow> place) \<Rightarrow> nat \<Rightarrow> bool" where
  "owns_map fl pl y \<longleftrightarrow> (\<exists>a F. fl a = Some F \<and> owned F (pl a) = Addr y)"

definition owns_fd :: "flights \<Rightarrow> (nat \<Rightarrow> place) \<Rightarrow> int \<Rightarrow> bool" where
  "owns_fd fl pl k \<longleftrightarrow> (\<exists>a F. fl a = Some F \<and> pl a \<noteq> Landed \<and> f_fd F = k)"

definition owns_block :: "flights \<Rightarrow> nat \<Rightarrow> bool" where
  "owns_block fl y \<longleftrightarrow> (\<exists>a F. fl a = Some F \<and> \<not> f_wr F \<and> f_mem F = y)"

definition owns_file :: "flights \<Rightarrow> string \<Rightarrow> bool" where
  "owns_file fl p \<longleftrightarrow> (\<exists>a F. fl a = Some F \<and> f_wr F \<and> f_path F = p)"

definition untouched :: "flights \<Rightarrow> (nat \<Rightarrow> place) \<Rightarrow> mmap_sys \<Rightarrow> mmap_sys \<Rightarrow> bool" where
  "untouched fl pl s0 s \<longleftrightarrow>
     (\<forall>b. fl b = None \<longrightarrow> requests s b = requests s0 b) \<and>
     (\<forall>y. if owns_map fl pl y then mmaps (os s0) y = None else mmaps (os s) y = mmaps (os s0) y) \<and>
     (\<forall>k. if owns_fd fl pl k then fd_lookup (os s0) k = None else fd_lookup (os s) k = fd_lookup (os s0) k) \<and>
     (\<forall>y. if owns_block fl y then heap (os s0) y = None else heap (os s) y = heap (os s0) y) \<and>
     (\<forall>p. \<not> owns_file fl p \<longrightarrow> content (os s) p = content (os s0) p)"

text \<open>Each request is all right, no two share anything, and nothing else is touched.\<close>

definition aloft :: "flights \<Rightarrow> (nat \<Rightarrow> place) \<Rightarrow> mmap_sys \<Rightarrow> mmap_sys \<Rightarrow> bool" where
  "aloft fl pl s0 s \<longleftrightarrow> spacious (os s) \<and>
     (\<forall>a F. fl a = Some F \<longrightarrow> flight_ok F (pl a) a s) \<and>
     (\<forall>a b F G. a \<noteq> b \<longrightarrow> fl a = Some F \<longrightarrow> fl b = Some G \<longrightarrow> apart F (pl a) G (pl b)) \<and>
     untouched fl pl s0 s"

text \<open>New requests and tasks lie above all there are.\<close>

definition fenced :: "flights \<Rightarrow> mmap_sys \<Rightarrow> bool" where
  "fenced fl s \<longleftrightarrow> (\<forall>a. fl a \<noteq> None \<longrightarrow> a < brk (os s)) \<and> (\<forall>t. tasks s t \<noteq> None \<longrightarrow> t < brk (os s))"

lemma fenced_grown: "fenced fl s \<Longrightarrow> tasks s' = tasks s \<Longrightarrow> brk (os s) \<le> brk (os s') \<Longrightarrow> fenced fl s'"
  by (auto simp: fenced_def intro: less_le_trans)

definition in_flight :: "flights \<Rightarrow> (nat \<Rightarrow> place) \<Rightarrow> mmap_sys \<Rightarrow> mmap_sys \<Rightarrow> bool" where
  "in_flight fl pl s0 s \<longleftrightarrow> isInitialized (pinfo s) \<and> isRunning (pinfo s) \<and> queue_wf s \<and> fenced fl s \<and>
     crewed fl pl s \<and> aloft fl pl s0 s"

text \<open>What request \<open>a\<close> owns at a place, and what the others own.\<close>

lemma owns_map_at:
  "owns_map fl (pl(a := p)) y \<longleftrightarrow> (\<exists>F. fl a = Some F \<and> owned F p = Addr y) \<or> owns_map (fl(a := None)) pl y"
proof -
  have "fl b = Some G \<and> owned G ((pl(a := p)) b) = Addr y \<longleftrightarrow>
      b = a \<and> fl a = Some G \<and> owned G p = Addr y \<or> (fl(a := None)) b = Some G \<and> owned G (pl b) = Addr y" for b G
    by simp
  then show ?thesis unfolding owns_map_def by blast
qed

lemma owns_fd_at:
  "owns_fd fl (pl(a := p)) k \<longleftrightarrow> (\<exists>F. fl a = Some F \<and> p \<noteq> Landed \<and> f_fd F = k) \<or> owns_fd (fl(a := None)) pl k"
proof -
  have "fl b = Some G \<and> (pl(a := p)) b \<noteq> Landed \<and> f_fd G = k \<longleftrightarrow>
      b = a \<and> fl a = Some G \<and> p \<noteq> Landed \<and> f_fd G = k \<or> (fl(a := None)) b = Some G \<and> pl b \<noteq> Landed \<and> f_fd G = k" for b G
    by simp
  then show ?thesis unfolding owns_fd_def by blast
qed

lemma untouched_moves:
  assumes un: "untouched fl pl s0 s" and a: "fl a = Some F" "pl a \<noteq> Landed" and m: "moves F a (pl a) p s s'"
  shows "untouched fl (pl(a := p)) s0 s'"
proof -
  let ?pl = "pl(a := p)"
  have om: "owns_map fl pl y \<longleftrightarrow> owned F (pl a) = Addr y \<or> owns_map (fl(a := None)) pl y"
    "owns_map fl ?pl y \<longleftrightarrow> owned F p = Addr y \<or> owns_map (fl(a := None)) pl y" for y
    using owns_map_at [of fl pl a "pl a" y] owns_map_at [of fl pl a p y] a(1) by simp_all
  have of: "owns_fd fl pl k \<longleftrightarrow> f_fd F = k \<or> owns_fd (fl(a := None)) pl k"
    "owns_fd fl ?pl k \<longleftrightarrow> p \<noteq> Landed \<and> f_fd F = k \<or> owns_fd (fl(a := None)) pl k" for k
    using owns_fd_at [of fl pl a "pl a" k] owns_fd_at [of fl pl a p k] a by simp_all
  have "if owns_map fl ?pl y then mmaps (os s0) y = None else mmaps (os s') y = mmaps (os s0) y" for y
  proof -
    have u: "if owns_map fl pl y then mmaps (os s0) y = None else mmaps (os s) y = mmaps (os s0) y"
      using un by (simp add: untouched_def)
    have "owned F (pl a) \<noteq> Addr y \<longrightarrow> owned F p \<noteq> Addr y \<longrightarrow> mmaps (os s') y = mmaps (os s) y"
      "owned F p = Addr y \<longrightarrow> owned F (pl a) = Addr y \<or> mmaps (os s) y = None"
      "owned F (pl a) = Addr y \<longrightarrow> owned F p \<noteq> Addr y \<longrightarrow> mmaps (os s') y = None"
      using m by (simp_all add: moves_def)
    with u show ?thesis unfolding om by presburger
  qed
  moreover have "if owns_fd fl ?pl k then fd_lookup (os s0) k = None else fd_lookup (os s') k = fd_lookup (os s0) k" for k
  proof -
    have u: "if owns_fd fl pl k then fd_lookup (os s0) k = None else fd_lookup (os s) k = fd_lookup (os s0) k"
      using un by (simp add: untouched_def)
    have "k \<noteq> f_fd F \<longrightarrow> fd_lookup (os s') k = fd_lookup (os s) k"
      "p = Landed \<longrightarrow> fd_lookup (os s') (f_fd F) = None" using m by (simp_all add: moves_def)
    with u show ?thesis unfolding of by (cases "k = f_fd F") auto
  qed
  moreover have "if owns_block fl y then heap (os s0) y = None else heap (os s') y = heap (os s0) y" for y
  proof (cases "owns_block fl y")
    case False
    with a(1) have "f_wr F \<or> y \<noteq> f_mem F" by (auto simp: owns_block_def)
    with m have "heap (os s') y = heap (os s) y" unfolding moves_def by blast
    with un False show ?thesis by (simp add: untouched_def)
  qed (use un in \<open>simp add: untouched_def\<close>)
  moreover have "content (os s') q = content (os s0) q" if "\<not> owns_file fl q" for q
    using un m that by (simp add: untouched_def moves_def)
  moreover have "requests s' b = requests s0 b" if "fl b = None" for b
  proof -
    from that a(1) have "b \<noteq> a" by auto
    with m have "requests s' b = requests s b" unfolding moves_def by blast
    with un that show ?thesis by (simp add: untouched_def)
  qed
  ultimately show ?thesis unfolding untouched_def by blast
qed

lemma aloft_moves:
  assumes al: "aloft fl pl s0 s" and a: "fl a = Some F" "pl a \<noteq> Landed"
    and f: "flight_ok F p a s'" and m: "moves F a (pl a) p s s'"
  shows "aloft fl (pl(a := p)) s0 s'"
proof -
  have g: "flight_ok G (pl b) b s" "apart F (pl a) G (pl b)" if "fl b = Some G" "b \<noteq> a" for b G
    using al that a(1) by (auto simp: aloft_def)
  have ap: "apart F p G (pl b)" if "fl b = Some G" "b \<noteq> a" for b G
    by (rule still_apart [OF m g [OF that] a(2)])
  have ok: "flight_ok G (pl b) b s'" if "fl b = Some G" "b \<noteq> a" for b G
    by (rule others_fly_on [OF m g(1) [OF that] that(2) g(2) [OF that] ap [OF that] a(2)])
  have two: "apart G ((pl(a := p)) b) H ((pl(a := p)) c)" if "b \<noteq> c" "fl b = Some G" "fl c = Some H" for b c G H
    using that a(1) ap [of c H] ap [of b G] apart_sym [of F p G "pl b"] al
    by (cases "b = a"; cases "c = a") (auto simp: aloft_def)
  have "untouched fl pl s0 s" using al by (simp add: aloft_def)
  note un = untouched_moves [where p = p, OF this a m]
  from m have "spacious (os s')" by (simp add: moves_def)
  moreover have "flight_ok G ((pl(a := p)) b) b s'" if "fl b = Some G" for b G
    using that f ok a(1) by (cases "b = a") auto
  ultimately show ?thesis using two un unfolding aloft_def by blast
qed

lemma crewed_moves:
  assumes c: "crewed fl pl s" and i: "i < length (threads s)" "held_task (threads s ! i) = Some t"
    and t: "carries fl s t a" and s': "threads s' = threads s" "tasks s' = tasks s" "pending_tasks s' = pending_tasks s"
    and p: "held_task pc = Some t \<and> pc_place i pc = Some p \<or> held_task pc = None \<and> p = Landed"
      "pc \<noteq> WExit" "pc \<noteq> WJoined"
  shows "crewed fl (pl(a := p)) (set_thread i pc s')"
proof -
  let ?s = "set_thread i pc s'"
  have tk: "carries fl ?s = carries fl s" by (intro ext carries_tasks) (simp add: s')
  from c i t have pla: "pc_place i (threads s ! i) = Some (pl a)"
    unfolding crewed_def thread_flies_def by (metis carries_unique)
  then have at: "place_thread (pl a) = Some i" by (rule pc_place_thread)
  have p1: "place_thread p = Some i \<or> p = Landed" using p(1) pc_place_thread by blast
  then have nw: "p \<noteq> Waiting" "pl a \<noteq> Waiting" using at by auto
  from c obtain as where as: "list_all2 (carries fl s) (pending_tasks s) as" "distinct as"
    "set as = {b. fl b \<noteq> None \<and> pl b = Waiting}" by (auto simp: crewed_def)
  have "{b. fl b \<noteq> None \<and> pl b = Waiting} = {b. fl b \<noteq> None \<and> (pl(a := p)) b = Waiting}"
    using nw by auto
  with as have "list_all2 (carries fl ?s) (pending_tasks ?s) as" "distinct as"
    "set as = {b. fl b \<noteq> None \<and> (pl(a := p)) b = Waiting}" by (simp_all add: tk s')
  moreover have "thread_flies fl (pl(a := p)) ?s k" if k: "k < length (threads ?s)" for k
  proof (cases "k = i")
    case True
    with p t i show ?thesis by (auto simp: thread_flies_def tk s')
  next
    case False
    have "thread_flies fl pl s k" using c k by (simp add: crewed_def s')
    moreover have "b \<noteq> a" if "pc_place k (threads s ! k) = Some (pl b)" for b
      using pc_place_thread [OF that] at False by auto
    ultimately show ?thesis using False unfolding thread_flies_def by (simp add: tk s') (metis fun_upd_other)
  qed
  moreover have "k < length (threads ?s) \<and> (\<exists>u. held_task (threads ?s ! k) = Some u \<and> carries fl ?s u b)"
    if b: "fl b \<noteq> None" "place_thread ((pl(a := p)) b) = Some k" for b k
  proof (cases "b = a")
    case True
    with b p1 have "k = i" by auto
    with p t i b True show ?thesis by (auto simp: tk s')
  next
    case False
    with b have "fl b \<noteq> None" "place_thread (pl b) = Some k" by simp_all
    with c obtain u where u: "k < length (threads s)" "held_task (threads s ! k) = Some u" "carries fl s u b"
      unfolding crewed_def by blast
    with i t False have "k \<noteq> i" using carries_unique by fastforce
    with u show ?thesis by (simp add: tk s')
  qed
  ultimately show ?thesis unfolding crewed_def by blast
qed

section \<open>A thread takes a step\<close>

lemma flight_ok_taken:
  "flight_ok F (Taken i) a s \<longleftrightarrow> flight_ok F Waiting a s"
  by (simp add: flight_ok_def owned_def)

lemma apart_taken:
  "apart F (Taken i) G q \<longleftrightarrow> apart F Waiting G q"
  by (simp add: apart_def owned_def)

lemma aloft_same:
  "requests s' = requests s \<Longrightarrow> os s' = os s \<Longrightarrow> aloft fl pl s0 s \<Longrightarrow> aloft fl pl s0 s'"
  by (simp add: aloft_def flight_ok_def untouched_def)

text \<open>Steps of a thread with a task.\<close>

lemma holder_flies:
  assumes f: "in_flight fl pl s0 s" and i: "i < length (threads s)" "held_task (threads s ! i) = Some t"
  shows "\<exists>s' pl'. worker_step i s = Some (Inr s') \<and> in_flight fl pl' s0 s'"
proof -
  from f have c: "crewed fl pl s" and al: "aloft fl pl s0 s" and fe: "fenced fl s"
    and run: "isRunning (pinfo s)" "queue_wf s" "isInitialized (pinfo s)"
    by (simp_all add: in_flight_def)
  from c i obtain a where a: "carries fl s t a" "pc_place i (threads s ! i) = Some (pl a)"
    unfolding crewed_def thread_flies_def by blast
  then obtain F where F: "fl a = Some F" and tc: "task_call t s = Inr (flight_fn F, Addr a)"
    unfolding carries_def by blast
  from al F have fo: "flight_ok F (pl a) a s" and sp: "spacious (os s)" by (simp_all add: aloft_def)
  have nl: "pl a \<noteq> Landed" using pc_place_thread [OF a(2)] by auto
  have go: "\<exists>s' pl'. Inr (set_thread i pc v) = Inr s' \<and> in_flight fl pl' s0 s'"
    if p: "held_task pc = Some t \<and> pc_place i pc = Some p \<or> held_task pc = None \<and> p = Landed"
      "pc \<noteq> WExit" "pc \<noteq> WJoined"
    and v: "quiet s v" "flight_ok F p a v" "moves F a (pl a) p s v" for pc v p
  proof -
    note q = quiet_same [OF v(1)]
    have "crewed fl (pl(a := p)) (set_thread i pc v)"
      by (rule crewed_moves [OF c i a(1) q(5) q(3) quiet_pending [OF v(1)] p])
    moreover have "aloft fl (pl(a := p)) s0 (set_thread i pc v)"
      by (rule aloft_same [OF _ _ aloft_moves [OF al F nl v(2,3)]]) simp_all
    moreover have "fenced fl (set_thread i pc v)" by (rule fenced_grown [OF fe]) (simp_all add: q)
    ultimately show ?thesis
      using run quiet_queue_wf [OF v(1) run(2)] q(4) unfolding in_flight_def
      by (intro exI [of _ "set_thread i pc v"] exI [of _ "pl(a := p)"]) simp
  qed
  have stay: "\<exists>s' pl'. Inr (set_thread i pc v) = Inr s' \<and> in_flight fl pl' s0 s'"
    if p: "held_task pc = Some t" "pc_place i pc = Some (pl a)" and v: "v = s\<lparr>pinfo := pinfo v\<rparr>" "isRunning (pinfo v)" "isInitialized (pinfo v)" for pc v
  proof -
    have q: "threads v = threads s" "os v = os s" "tqueue v = tqueue s" "tasks v = tasks s" "requests v = requests s"
      by (subst v(1), simp)+
    have w: "queue_wf v" "pending_tasks v = pending_tasks s" using same_queue [of v s] run(2) q by simp_all
    have "crewed fl (pl(a := pl a)) (set_thread i pc v)"
      using p by (intro crewed_moves [OF c i a(1) q(1) q(4) w(2)]) auto
    moreover have "aloft fl pl s0 (set_thread i pc v)" by (rule aloft_same [OF _ _ al]) (simp_all add: q)
    moreover have "fenced fl (set_thread i pc v)" by (rule fenced_grown [OF fe]) (simp_all add: q)
    ultimately show ?thesis using w(1) v(2,3) unfolding in_flight_def by (intro exI [of _ "set_thread i pc v"] exI [of _ pl]) simp
  qed
  from tc obtain tk where tk: "deref (tasks s) t = Inr tk" by (auto simp: task_call_def)
  show ?thesis
  proof (cases "threads s ! i")
    case (WGot x)
    with i have x: "x = t" by simp
    from WGot a(2) have "pc_place i (WMark t) = Some (pl a)" by simp
    from stay [OF _ this, of s] run(1,3) WGot i(1) tk x show ?thesis by (simp add: worker_step_def)
  next
    case (WMark x)
    with i have x: "x = t" by simp
    from WMark a(2) have "pc_place i (WEnter t) = Some (pl a)" by simp
    from stay [OF _ this, of "count_busy s"] run(1,3) WMark i(1) x show ?thesis by (simp add: worker_step_def count_busy_def)
  next
    case (WEnter x)
    with i have x: "x = t" by simp
    from WEnter a(2) have p: "pl a = Taken i" "pc_place i (WIo t) = Some (pl a)" by simp_all
    have "task_enter (flight_fn F) (Addr a) s = Inr (True, s)" using fo unfolding p(1) by (rule enter_flies)
    with stay [OF _ p(2), of s] run(1,3) WEnter i(1) x tc show ?thesis by (simp add: worker_step_def)
  next
    case (WIo x)
    with i have x: "x = t" by simp
    from WIo a(2) have p: "pl a = Taken i" by simp
    from io_flies [of F i a s] sp fo p obtain m v where io: "task_io (flight_fn F) (Addr a) s = Inr (True, m, v)"
      and v: "flight_ok F (Copied i m) a v" "moves F a (pl a) (Copied i m) s v" by auto
    from go [OF _ _ _ quiet_io [OF io] v, of "WStat t True m"] io WIo i(1) x tc show ?thesis
      by (simp add: worker_step_def)
  next
    case (WStat x ok m)
    with i have x: "x = t" by simp
    from WStat a(2) have p: "pl a = Copied i m" "ok" by (auto split: if_splits)
    from record_flies [of F i m a s] sp fo p obtain v where rec: "mmap_record_status (Addr a) ok s = Inr v"
      and v: "flight_ok F (Recorded i m) a v" "moves F a (pl a) (Recorded i m) s v" by auto
    from go [OF _ _ _ quiet_record [OF rec] v, of "WClean t m"] rec WStat i(1) x tc show ?thesis
      by (simp add: worker_step_def)
  next
    case (WClean x m)
    with i have x: "x = t" by simp
    from WClean a(2) have p: "pl a = Recorded i m" by simp
    from cleanup_flies [of F i m a s] sp fo p obtain v where cl: "task_cleanup (flight_fn F) (Addr a) m s = Inr v"
      and v: "flight_ok F Landed a v" "moves F a (pl a) Landed s v" by auto
    from go [OF _ _ _ quiet_cleanup [OF cl] v, of WFinish] cl WClean i(1) x tc show ?thesis
      by (simp add: worker_step_def)
  qed (use i in simp_all)
qed

text \<open>Steps of a thread without one.\<close>

lemma crewed_idle:
  assumes c: "crewed fl pl s" and i: "held_task (threads s ! i) = None"
    and s': "threads s' = threads s" "tasks s' = tasks s" "pending_tasks s' = pending_tasks s"
    and p: "held_task pc = None" "pc \<noteq> WExit" "pc \<noteq> WJoined"
  shows "crewed fl pl (set_thread i pc s')"
proof -
  have tk: "carries fl (set_thread i pc s') = carries fl s" by (intro ext carries_tasks) (simp add: s')
  have th: "thread_flies fl pl (set_thread i pc s') k" if "k < length (threads s)" "thread_flies fl pl s k" for k
    using that p by (cases "k = i") (simp_all add: thread_flies_def tk s')
  have held: "held_task (threads (set_thread i pc s') ! k) = Some t" if "held_task (threads s ! k) = Some t" for k t
    using that i by (cases "k = i") (simp_all add: s')
  have l: "length (threads (set_thread i pc s')) = length (threads s)"
    "pending_tasks (set_thread i pc s') = pending_tasks s" by (simp_all add: s')
  show ?thesis using c th held unfolding crewed_def tk l by blast
qed

lemma idle_flies:
  assumes f: "in_flight fl pl s0 s" and i: "held_task (threads s ! i) = None"
    and v: "v = s\<lparr>pinfo := pinfo v\<rparr>" "isRunning (pinfo v)" "isInitialized (pinfo v)"
  shows "in_flight fl pl s0 (set_thread i WAcquire v)"
proof -
  have q: "threads v = threads s" "os v = os s" "tqueue v = tqueue s" "tasks v = tasks s" "requests v = requests s"
    by (subst v(1), simp)+
  from f have c: "crewed fl pl s" "aloft fl pl s0 s" "queue_wf s" "fenced fl s" by (simp_all add: in_flight_def)
  have w: "queue_wf v" "pending_tasks v = pending_tasks s" using same_queue [of v s] c(3) q by simp_all
  have "crewed fl pl (set_thread i WAcquire v)" using crewed_idle [OF c(1) i q(1,4) w(2)] by simp
  moreover have "aloft fl pl s0 (set_thread i WAcquire v)" by (rule aloft_same [OF _ _ c(2)]) (simp_all add: q)
  moreover have "fenced fl (set_thread i WAcquire v)" by (rule fenced_grown [OF c(4)]) (simp_all add: q)
  ultimately show ?thesis using w(1) v(2,3) by (simp add: in_flight_def)
qed

lemma take_flies:
  assumes f: "in_flight fl pl s0 s" and i: "i < length (threads s)" "threads s ! i = WAcquire"
    and m: "worker_step i s = Some m"
  shows "\<exists>s' pl'. m = Inr s' \<and> in_flight fl pl' s0 s'"
proof -
  from f have c: "crewed fl pl s" and al: "aloft fl pl s0 s" and wf: "queue_wf s" and fe: "fenced fl s"
    and run: "isRunning (pinfo s)" "isInitialized (pinfo s)" by (simp_all add: in_flight_def)
  from m i obtain x where x: "acquire_task s = Some x" "m = and_then x (\<lambda>(t, s'). Inr (set_thread i (WGot t) s'))"
    by (auto simp: worker_step_def)
  from acquire_task_spec [OF wf x(1)] obtain t v where v: "x = Inr (t, v)" "v = s\<lparr>tqueue := tqueue v\<rparr>" "queue_wf v"
    by blast
  with acquire_task_pending [OF wf] x(1) have pend: "pending_tasks s = t # pending_tasks v" by simp
  have e: "threads v = threads s" "pinfo v = pinfo s" "tasks v = tasks s" "os v = os s" "requests v = requests s"
    by (subst v(2), simp)+
  let ?s = "set_thread i (WGot t) v"
  have tk: "carries fl ?s = carries fl s" by (intro ext carries_tasks) (simp add: e)
  from c obtain as where as: "list_all2 (carries fl s) (pending_tasks s) as" "distinct as"
    "set as = {b. fl b \<noteq> None \<and> pl b = Waiting}" by (auto simp: crewed_def)
  with pend obtain a rest where r: "as = a # rest" "carries fl s t a" "list_all2 (carries fl s) (pending_tasks v) rest"
    by (auto simp: list_all2_Cons1)
  let ?pl = "pl(a := Taken i)"
  from as(3) r(1) obtain F where F: "fl a = Some F" "pl a = Waiting" by auto
  from as r have "distinct rest" "set rest = {b. fl b \<noteq> None \<and> ?pl b = Waiting}" by auto
  with r have "list_all2 (carries fl ?s) (pending_tasks ?s) rest" "distinct rest"
    "set rest = {b. fl b \<noteq> None \<and> ?pl b = Waiting}" by (simp_all add: tk)
  moreover have "thread_flies fl ?pl ?s k" if k: "k < length (threads ?s)" for k
  proof (cases "k = i")
    case True
    with r(2) i show ?thesis by (auto simp: thread_flies_def tk e)
  next
    case False
    have "thread_flies fl pl s k" using c k by (simp add: crewed_def e)
    moreover have "b \<noteq> a" if "pc_place k (threads s ! k) = Some (pl b)" for b
      using pc_place_thread [OF that] F(2) by auto
    ultimately show ?thesis using False unfolding thread_flies_def by (simp add: tk e) (metis fun_upd_other)
  qed
  moreover have "k < length (threads ?s) \<and> (\<exists>u. held_task (threads ?s ! k) = Some u \<and> carries fl ?s u b)"
    if b: "fl b \<noteq> None" "place_thread (?pl b) = Some k" for b k
  proof (cases "b = a")
    case True
    with b have "k = i" by simp
    with True r(2) i show ?thesis by (simp add: tk e)
  next
    case False
    with b have "fl b \<noteq> None" "place_thread (pl b) = Some k" by simp_all
    with c obtain u where u: "k < length (threads s)" "held_task (threads s ! k) = Some u" "carries fl s u b"
      unfolding crewed_def by blast
    with i have "k \<noteq> i" by auto
    with u show ?thesis by (simp add: tk e)
  qed
  ultimately have "crewed fl ?pl ?s" unfolding crewed_def by blast
  moreover have "aloft fl ?pl s0 ?s"
  proof -
    have o: "owned G (?pl b) = owned G (pl b)" for G b using F(2) by (simp add: owned_def)
    have "flight_ok G (?pl b) b s \<longleftrightarrow> flight_ok G (pl b) b s" for G b using F(2) flight_ok_taken by auto
    moreover have l: "?pl b = Landed \<longleftrightarrow> pl b = Landed" for b using F(2) by simp
    have "apart G (?pl b) H (?pl d) \<longleftrightarrow> apart G (pl b) H (pl d)" for G b H d
      unfolding apart_def o l ..
    moreover have "untouched fl ?pl s0 s \<longleftrightarrow> untouched fl pl s0 s" unfolding untouched_def owns_map_def owns_fd_def o l ..
    ultimately have "aloft fl ?pl s0 s" using al unfolding aloft_def by simp
    then show ?thesis by (rule aloft_same [rotated 2]) (simp_all add: e)
  qed
  moreover have "fenced fl ?s" by (rule fenced_grown [OF fe]) (simp_all add: e)
  ultimately have "in_flight fl ?pl s0 ?s" using run v(3) by (simp add: in_flight_def e)
  with x v(1) show ?thesis by auto
qed

lemma worker_flies:
  assumes f: "in_flight fl pl s0 s" and m: "worker_step i s = Some m"
  shows "\<exists>s' pl'. m = Inr s' \<and> in_flight fl pl' s0 s'"
proof -
  from m have i: "i < length (threads s)" by (auto simp: worker_step_def split: if_splits)
  from f have run: "isRunning (pinfo s)" "isInitialized (pinfo s)" by (simp_all add: in_flight_def)
  show ?thesis
  proof (cases "held_task (threads s ! i)")
    case (Some t)
    with holder_flies [OF f i] m show ?thesis by auto
  next
    case None
    have "in_flight fl pl s0 (set_thread i WAcquire (count_alive s))" "in_flight fl pl s0 (set_thread i WAcquire (count_idle s))"
      using run by (auto intro!: idle_flies [OF f None] simp: count_alive_def count_idle_def)
    with m i None take_flies [OF f i _ m] show ?thesis by (cases "threads s ! i") (auto simp: worker_step_def)
  qed
qed

text \<open>Where no thread can take a step, all have landed.\<close>

lemma stuck_landed:
  assumes f: "in_flight fl pl s0 s" and stuck: "\<forall>i. worker_step i s = None" and some: "some_thread s"
    and a: "fl a \<noteq> None"
  shows "pl a = Landed"
proof -
  from f have c: "crewed fl pl s" and wf: "queue_wf s" by (simp_all add: in_flight_def)
  have none: "held_task (threads s ! k) = None" if "k < length (threads s)" for k
  proof (rule ccontr)
    assume "held_task (threads s ! k) \<noteq> None"
    with holder_flies [OF f that] stuck show False by fastforce
  qed
  from some obtain k where k: "k < length (threads s)" "threads s ! k \<noteq> WNone" by (auto simp: some_thread_def)
  with c have "threads s ! k \<noteq> WExit" "threads s ! k \<noteq> WJoined" by (simp_all add: crewed_def thread_flies_def)
  moreover from k stuck have w: "worker_at k (threads s ! k) s = None" by (metis worker_step_def)
  ultimately have "threads s ! k = WAcquire" using none [OF k(1)] k(2) by (cases "threads s ! k") auto
  with w have "pending_tasks s = []" by (simp add: pending_tasks_empty [OF wf] acquire_task_None)
  with c have "{b. fl b \<noteq> None \<and> pl b = Waiting} = {}" unfolding crewed_def by (elim conjE exE) simp
  with a have "pl a \<noteq> Waiting" by blast
  moreover have "place_thread (pl a) = None"
  proof (cases "place_thread (pl a)")
    case (Some j)
    with c a have "j < length (threads s)" "held_task (threads s ! j) \<noteq> None" unfolding crewed_def by blast+
    with none show ?thesis by simp
  qed simp
  ultimately show ?thesis by (cases "pl a") auto
qed

section \<open>The client submits another one\<close>

definition takes_off :: "flights \<Rightarrow> flight \<Rightarrow> world \<Rightarrow> world \<Rightarrow> bool" where
  "takes_off fl F w w' \<longleftrightarrow> holds_open (f_wr F) (f_path F) (f_fd F) w w' \<and> 0 < f_fd F \<and> f_data F \<noteq> [] \<and> spacious w' \<and>
     content w' (f_path F) = Some (f_data F) \<and>
     (\<forall>q. \<not> f_wr F \<or> q \<noteq> f_path F \<longrightarrow> content w' q = content w q) \<and>
     (f_wr F \<longrightarrow> (\<forall>a G. fl a = Some G \<longrightarrow> f_path G \<noteq> f_path F)) \<and>
     (if f_wr F then heap w' = heap w \<and> mmaps w (f_mem F) = None \<and> mmaps w' = (mmaps w)(f_mem F := Some (flight_map F))
      else mmaps w' = mmaps w \<and> heap w (f_mem F) = None \<and>
        (\<exists>b. length b = length (f_data F) \<and> heap w' = (heap w)(f_mem F := Some b)))"

lemma untouched_joins:
  assumes un: "untouched fl pl s0 s" and new: "fl a = None" and t: "takes_off fl F (os s) (os s')"
    and o: "\<forall>c. c \<noteq> a \<longrightarrow> requests s' c = requests s c"
    and g: "\<And>b G. fl b = Some G \<Longrightarrow> flight_ok G (pl b) b s"
  shows "untouched (fl(a := Some F)) (pl(a := Waiting)) s0 s'"
proof -
  let ?fl = "fl(a := Some F)" and ?pl = "pl(a := Waiting)"
  have fl: "?fl(a := None) = fl" using new by auto
  have eq: "?fl b = Some G \<longleftrightarrow> b = a \<and> G = F \<or> fl b = Some G" for b G using new by auto
  have om: "owns_map ?fl ?pl y \<longleftrightarrow> f_wr F \<and> f_mem F = y \<or> owns_map fl pl y" for y
    unfolding owns_map_at fl by (auto simp: owned_def split: if_splits)
  have of: "owns_fd ?fl ?pl k \<longleftrightarrow> f_fd F = k \<or> owns_fd fl pl k" for k
    unfolding owns_fd_at fl by auto
  have ob: "owns_block ?fl y \<longleftrightarrow> \<not> f_wr F \<and> f_mem F = y \<or> owns_block fl y" for y
    unfolding owns_block_def eq by blast
  have ow: "owns_file ?fl q \<longleftrightarrow> f_wr F \<and> f_path F = q \<or> owns_file fl q" for q
    unfolding owns_file_def eq by blast
  have mo: "owns_map fl pl y \<Longrightarrow> mmaps (os s) y \<noteq> None" for y using g by (fastforce simp: owns_map_def flight_ok_def)
  have fo: "owns_fd fl pl k \<Longrightarrow> fd_lookup (os s) k \<noteq> None" for k
    using g by (fastforce simp: owns_fd_def flight_ok_def airborne_def)
  have bo: "owns_block fl y \<Longrightarrow> heap (os s) y \<noteq> None" for y using g by (fastforce simp: owns_block_def flight_ok_def)
  have "if owns_map ?fl ?pl y then mmaps (os s0) y = None else mmaps (os s') y = mmaps (os s0) y" for y
    using un t mo [of y] unfolding untouched_def takes_off_def om by (auto split: if_splits)
  moreover have "if owns_fd ?fl ?pl k then fd_lookup (os s0) k = None else fd_lookup (os s') k = fd_lookup (os s0) k" for k
    using un t fo [of k] unfolding untouched_def takes_off_def holds_open_def of by (auto split: if_splits)
  moreover have "if owns_block ?fl y then heap (os s0) y = None else heap (os s') y = heap (os s0) y" for y
    using un t bo [of y] unfolding untouched_def takes_off_def ob by (auto split: if_splits)
  moreover have "content (os s') q = content (os s0) q" if "\<not> owns_file ?fl q" for q
  proof -
    have "\<not> owns_file fl q" "\<not> f_wr F \<or> q \<noteq> f_path F" using that unfolding ow by auto
    with un t show ?thesis by (simp add: untouched_def takes_off_def)
  qed
  moreover have "requests s' b = requests s0 b" if "?fl b = None" for b
    using un o that by (simp add: untouched_def split: if_splits)
  ultimately show ?thesis unfolding untouched_def by blast
qed

lemma aloft_joins:
  assumes al: "aloft fl pl s0 s" and new: "fl a = None" and t: "takes_off fl F (os s) (os s')"
    and r: "requests s' a = Some r" "airborne F r (os s')" "r_status r = REQUEST_STAT_SUBMITTED"
    and o: "\<forall>c. c \<noteq> a \<longrightarrow> requests s' c = requests s c"
  shows "aloft (fl(a := Some F)) (pl(a := Waiting)) s0 s'"
proof -
  let ?fl = "fl(a := Some F)" and ?pl = "pl(a := Waiting)"
  have "r_buf r = Addr (f_mem F)" using r(2) by (simp add: airborne_def)
  then have ok: "flight_ok F Waiting a s'"
    using t r by (auto simp: flight_ok_def takes_off_def owned_def split: if_splits)
  have g: "flight_ok G (pl b) b s" if "fl b = Some G" for b G using al that by (simp add: aloft_def)
  have old: "flight_ok G (pl b) b s'" if b: "fl b = Some G" for b G
  proof -
    note gb = g [OF b]
    have "b \<noteq> a" using b new by auto
    with o have 1: "requests s' b = requests s b" by simp
    have "content (os s') (f_path G) = content (os s) (f_path G)" using t b by (cases "f_wr F") (auto simp: takes_off_def)
    moreover have "pl b \<noteq> Landed \<Longrightarrow> fd_lookup (os s') (f_fd G) = fd_lookup (os s) (f_fd G)"
      using gb t by (auto simp: flight_ok_def airborne_def takes_off_def holds_open_def)
    moreover have "\<not> f_wr G \<Longrightarrow> heap (os s') (f_mem G) = heap (os s) (f_mem G)"
      using gb t by (auto simp: flight_ok_def takes_off_def split: if_splits)
    moreover have "owned G (pl b) = Addr y \<Longrightarrow> mmaps (os s') y = mmaps (os s) y" for y
      using gb t by (auto simp: flight_ok_def takes_off_def split: if_splits)
    ultimately show ?thesis using gb 1 by (auto simp: flight_ok_def airborne_def)
  qed
  have ap: "apart F Waiting G (pl b)" if b: "fl b = Some G" for b G
  proof -
    note gb = g [OF b]
    have "pl b \<noteq> Landed \<Longrightarrow> f_fd F \<noteq> f_fd G"
      using gb t by (auto simp: flight_ok_def airborne_def takes_off_def holds_open_def)
    moreover have "\<not> f_wr F \<Longrightarrow> \<not> f_wr G \<Longrightarrow> f_mem F \<noteq> f_mem G"
      using gb t by (auto simp: flight_ok_def takes_off_def)
    moreover have "owned F Waiting = Addr y \<Longrightarrow> owned G (pl b) \<noteq> Addr y" for y
      using gb t by (auto simp: flight_ok_def takes_off_def owned_def split: if_splits)
    ultimately show ?thesis by (auto simp: apart_def)
  qed
  have "apart G (?pl b) H (?pl c)" if "b \<noteq> c" "?fl b = Some G" "?fl c = Some H" for b c G H
    using that ap [of c H] ap [of b G] apart_sym [of F Waiting G "pl b"] al
    by (cases "b = a"; cases "c = a") (auto simp: aloft_def)
  moreover have "flight_ok G (?pl b) b s'" if "?fl b = Some G" for b G
    using that ok old by (cases "b = a") auto
  moreover have "untouched ?fl ?pl s0 s'"
    by (rule untouched_joins [OF _ new t o]) (use al g in \<open>simp_all add: aloft_def\<close>)
  moreover from t have "spacious (os s')" by (simp add: takes_off_def)
  ultimately show ?thesis unfolding aloft_def by blast
qed

lemma crewed_joins:
  assumes c: "crewed fl pl s" and fe: "fenced fl s" and new: "fl a = None"
    and t: "task_call (Addr t) s' = Inr (flight_fn F, Addr a)" "brk (os s) \<le> t" "tasks s' = (tasks s)(t := Some tk)"
    and p: "pending_tasks s' = pending_tasks s @ [Addr t]" "threads s' = threads s"
  shows "crewed (fl(a := Some F)) (pl(a := Waiting)) s'"
proof -
  let ?fl = "fl(a := Some F)" and ?pl = "pl(a := Waiting)"
  have cb: "carries ?fl s' u b \<and> b \<noteq> a" if u: "carries fl s u b" for u b
  proof -
    from u obtain G where G: "fl b = Some G" "task_call u s = Inr (flight_fn G, Addr b)" by (auto simp: carries_def)
    have ba: "b \<noteq> a" using G(1) new by auto
    from G(2) obtain k where k: "u = Addr k" "tasks s k \<noteq> None" by (cases u) (auto simp: task_call_def deref_Inr_iff)
    with fe t(2) have "k \<noteq> t" by (auto simp: fenced_def)
    with k t(3) have "task_call u s' = task_call u s" by (simp add: task_call_def deref_def)
    with G ba show ?thesis by (simp add: carries_def)
  qed
  have own: "carries ?fl s' (Addr t) a" using t(1) by (simp add: carries_def)
  from c obtain as where as: "list_all2 (carries fl s) (pending_tasks s) as" "distinct as"
    "set as = {b. fl b \<noteq> None \<and> pl b = Waiting}" by (auto simp: crewed_def)
  have "list_all2 (carries ?fl s') (pending_tasks s) as" by (rule list_all2_mono [OF as(1)]) (use cb in blast)
  with own have "list_all2 (carries ?fl s') (pending_tasks s') (as @ [a])"
    unfolding p(1) by (intro list_all2_appendI) simp_all
  moreover have "distinct (as @ [a])" "set (as @ [a]) = {b. ?fl b \<noteq> None \<and> ?pl b = Waiting}"
    using as(2,3) new by auto
  moreover have "thread_flies ?fl ?pl s' i" if i: "i < length (threads s')" for i
  proof -
    from c i have "thread_flies fl pl s i" by (simp add: crewed_def p(2))
    with cb show ?thesis unfolding thread_flies_def p(2) by (metis fun_upd_other)
  qed
  moreover have "i < length (threads s') \<and> (\<exists>u. held_task (threads s' ! i) = Some u \<and> carries ?fl s' u b)"
    if b: "?fl b \<noteq> None" "place_thread (?pl b) = Some i" for b i
  proof -
    from b have "fl b \<noteq> None" "place_thread (pl b) = Some i" by (auto split: if_splits)
    with c cb show ?thesis unfolding crewed_def p(2) by blast
  qed
  ultimately show ?thesis unfolding crewed_def by blast
qed

lemma joins_flight:
  assumes f: "in_flight fl pl s0 s" and t: "takes_off fl F (os s) (os s')" and a: "brk (os s) \<le> a" "a < brk (os s')"
    and u: "submitted (f_wr F) (length (f_data F)) (Addr (f_mem F)) a (f_fd F) s s'"
  shows "in_flight (fl(a := Some F)) (pl(a := Waiting)) s0 s'"
proof -
  from f have c: "crewed fl pl s" and al: "aloft fl pl s0 s" and fe: "fenced fl s"
    and run: "isRunning (pinfo s)" "isInitialized (pinfo s)" by (simp_all add: in_flight_def)
  from fe a have new: "fl a = None" unfolding fenced_def by (metis leD)
  from u obtain r t tk where r: "get_req (Addr a) s' = Inr r" "r_status r = REQUEST_STAT_SUBMITTED" "r_buf r = Addr (f_mem F)"
      "unat (r_nbytes r) = length (f_data F)" "r_offset r = 0" "r_fd r = f_fd F"
    and tc: "task_call (Addr t) s' = Inr (flight_fn F, Addr a)" "brk (os s) \<le> t" "tasks s' = (tasks s)(t := Some tk)"
    and p: "pending_tasks s' = pending_tasks s @ [Addr t]" "t < brk (os s')" "queue_wf s'"
    and o: "\<forall>c. c \<noteq> a \<longrightarrow> requests s' c = requests s c" "threads s' = threads s" "pinfo s' = pinfo s"
    unfolding submitted_def by (elim conjE exE) simp
  have "airborne F r (os s')" using r t by (simp add: airborne_def takes_off_def holds_open_def)
  with r have "aloft (fl(a := Some F)) (pl(a := Waiting)) s0 s'"
    by (intro aloft_joins [OF al new t _ _ _ o(1)]) (simp_all add: get_req_def deref_Inr_iff)
  moreover have "crewed (fl(a := Some F)) (pl(a := Waiting)) s'" by (rule crewed_joins [OF c fe new tc p(1) o(2)])
  moreover have "fenced (fl(a := Some F)) s'" using fe tc(2,3) p(2) a by (auto simp: fenced_def)
  ultimately show ?thesis using run p(3) o(3) by (simp add: in_flight_def)
qed

end
