(* ===== verification/Client_Session.thy ===== *)
theory Client_Session
  imports In_Flight
begin

text \<open>
  A client of the mmap accessor that reads and writes any number of pictures while the pool threads
  work between its calls, in any order: all its requests are served, each read gets the bytes of its file,
  each write its own.
\<close>

section \<open>The client and the pool\<close>

text \<open>
  The process \<open>st\<close> a client can reach from \<open>st0\<close> with calls that report success, and what it asked for: the buffer, file and
  data of each read, the file and data of each write. It does not write a file twice, nor one it
  reads. Between any two calls any thread of the pool may take any number of steps; inside a call none does.
\<close>

inductive session ::
  "process \<Rightarrow> (ptr \<times> string \<times> u8 list) list \<Rightarrow> (string \<times> u8 list) list \<Rightarrow> process \<Rightarrow> bool" for st0 where
  start: "session st0 [] [] st0"
| thread: "session st0 rs ws st \<Longrightarrow> process_exec (MmapEvent (EvWorker i)) st = Some (Inr st') \<Longrightarrow>
    session st0 rs ws st'"
| reads: "session st0 rs ws st \<Longrightarrow> content (p_os st) name = Some c \<Longrightarrow> c \<noteq> [] \<Longrightarrow> length c < 2 ^ 32 \<Longrightarrow>
    CHR 0x00 \<notin> set name \<Longrightarrow> length name < MAX_FILE_NAME_LEN \<Longrightarrow> totaln (in_mmap st) < LIST_LIMIT \<Longrightarrow>
    async_read_one_picture_to_file ASYNC_FILE_ACCESSOR_MMAP buf name st = Inr (RET_OK, b, len, st') \<Longrightarrow>
    session st0 ((b, name, c) # rs) ws st'"
| writes: "session st0 rs ws st \<Longrightarrow> heap (p_os st) e = Some bs \<Longrightarrow> bs \<noteq> [] \<Longrightarrow> length bs < 2 ^ 32 \<Longrightarrow>
    len = word_of_nat (length bs) \<Longrightarrow> CHR 0x00 \<notin> set name \<Longrightarrow> length name < MAX_FILE_NAME_LEN \<Longrightarrow>
    totaln (in_mmap st) < LIST_LIMIT \<Longrightarrow> name \<notin> (fst \<circ> snd) ` set rs \<Longrightarrow> name \<notin> fst ` set ws \<Longrightarrow>
    async_write_one_picture_to_file ASYNC_FILE_ACCESSOR_MMAP (Addr e) name len st = Inr (RET_OK, st') \<Longrightarrow>
    session st0 rs ((name, bs) # ws) st'"

text \<open>A process whose pool has nothing to do and which nothing is refused.\<close>

definition at_ease :: "process \<Rightarrow> bool" where
  "at_ease st \<longleftrightarrow> idle_pool (in_mmap st) \<and> spacious (p_os st) \<and> fd_lookup (p_os st) 0 \<noteq> None \<and>
     (\<forall>t. tasks (p_mmap st) t \<noteq> None \<longrightarrow> t < brk (p_os st))"

section \<open>Its requests are in flight\<close>

definition read_entry :: "flight \<Rightarrow> ptr \<times> string \<times> u8 list" where
  "read_entry F = (Addr (f_mem F), f_path F, f_data F)"

definition write_entry :: "flight \<Rightarrow> string \<times> u8 list" where
  "write_entry F = (f_path F, f_data F)"

definition logged :: "flights \<Rightarrow> (ptr \<times> string \<times> u8 list) list \<Rightarrow> (string \<times> u8 list) list \<Rightarrow> bool" where
  "logged fl rs ws \<longleftrightarrow> distinct (map fst rs) \<and> distinct (map fst ws) \<and>
     (\<forall>x. x \<in> set rs \<longleftrightarrow> (\<exists>a F. fl a = Some F \<and> \<not> f_wr F \<and> read_entry F = x)) \<and>
     (\<forall>x. x \<in> set ws \<longleftrightarrow> (\<exists>a F. fl a = Some F \<and> f_wr F \<and> write_entry F = x))"

definition session_inv ::
  "process \<Rightarrow> (ptr \<times> string \<times> u8 list) list \<Rightarrow> (string \<times> u8 list) list \<Rightarrow> process \<Rightarrow> bool" where
  "session_inv st0 rs ws st \<longleftrightarrow> some_thread (in_mmap st) \<and>
     (\<exists>fl pl. in_flight fl pl (in_mmap st0) (in_mmap st) \<and> logged fl rs ws)"

lemma session_starts:
  assumes "at_ease st"
  shows "session_inv st [] [] st"
proof -
  let ?s = "in_mmap st" and ?fl = "(\<lambda>_. None) :: flights" and ?pl = "\<lambda>_. Landed"
  from assms have i: "idle_pool ?s" and w: "spacious (os ?s)" and t: "\<forall>t. tasks ?s t \<noteq> None \<longrightarrow> t < brk (os ?s)"
    by (simp_all add: at_ease_def in_mmap_def)
  have rest: "threads ?s ! k \<noteq> WExit \<and> threads ?s ! k \<noteq> WJoined \<and> held_task (threads ?s ! k) = None"
    if "k < length (threads ?s)" for k
  proof -
    from i that have "at_rest (threads ?s ! k)" by (simp add: idle_pool_def resting_def)
    then show ?thesis by (auto simp: at_rest_def)
  qed
  then have "crewed ?fl ?pl ?s" using i by (simp add: crewed_def thread_flies_def idle_pool_def)
  moreover have "aloft ?fl ?pl ?s ?s"
    using w by (simp add: aloft_def untouched_def owns_map_def owns_fd_def owns_block_def)
  moreover have "fenced ?fl ?s" using t by (simp add: fenced_def)
  ultimately have "in_flight ?fl ?pl ?s ?s" using i by (simp add: in_flight_def idle_pool_def)
  moreover have "logged ?fl [] []" by (simp add: logged_def)
  ultimately show ?thesis using i unfolding session_inv_def idle_pool_def by blast
qed

lemma session_thread:
  assumes inv: "session_inv st0 rs ws st" and e: "process_exec (MmapEvent (EvWorker i)) st = Some m"
  shows "\<exists>st'. m = Inr st' \<and> session_inv st0 rs ws st'"
proof -
  from inv obtain fl pl where f: "in_flight fl pl (in_mmap st0) (in_mmap st)" "logged fl rs ws"
    and some: "some_thread (in_mmap st)" by (auto simp: session_inv_def)
  from e obtain n where n: "worker_step i (in_mmap st) = Some n" "m = and_then n (\<lambda>s. Inr (of_mmap st s))" by auto
  from worker_flies [OF f(1) n(1)] obtain s' pl' where s': "n = Inr s'" "in_flight fl pl' (in_mmap st0) s'" by blast
  with worker_some_thread [of i "in_mmap st" s'] n some have "some_thread s'" by simp
  with s' f(2) n(2) show ?thesis by (auto simp: session_inv_def)
qed

text \<open>A flight more, and its entry.\<close>

lemma new_flight: "fl a = None \<Longrightarrow> (fl(a := Some F)) b = Some G \<longleftrightarrow> b = a \<and> G = F \<or> fl b = Some G"
  by auto

lemma logged_read:
  assumes l: "logged fl rs ws" and new: "fl a = None" and F: "\<not> f_wr F" "fst (read_entry F) \<notin> fst ` set rs"
  shows "logged (fl(a := Some F)) (read_entry F # rs) ws"
proof -
  note eq = new_flight [of fl a F, OF new]
  have "x \<in> set (read_entry F # rs) \<longleftrightarrow> (\<exists>b G. (fl(a := Some F)) b = Some G \<and> \<not> f_wr G \<and> read_entry G = x)" for x
    unfolding eq using l F(1) unfolding logged_def set_simps insert_iff by blast
  moreover have "x \<in> set ws \<longleftrightarrow> (\<exists>b G. (fl(a := Some F)) b = Some G \<and> f_wr G \<and> write_entry G = x)" for x
    unfolding eq using l F(1) unfolding logged_def by blast
  ultimately show ?thesis using l F(2) unfolding logged_def by simp
qed

lemma logged_write:
  assumes l: "logged fl rs ws" and new: "fl a = None" and F: "f_wr F" "f_path F \<notin> fst ` set ws"
  shows "logged (fl(a := Some F)) rs (write_entry F # ws)"
proof -
  note eq = new_flight [of fl a F, OF new]
  have "x \<in> set (write_entry F # ws) \<longleftrightarrow> (\<exists>b G. (fl(a := Some F)) b = Some G \<and> f_wr G \<and> write_entry G = x)" for x
    unfolding eq using l F(1) unfolding logged_def set_simps insert_iff by blast
  moreover have "x \<in> set rs \<longleftrightarrow> (\<exists>b G. (fl(a := Some F)) b = Some G \<and> \<not> f_wr G \<and> read_entry G = x)" for x
    unfolding eq using l F(1) unfolding logged_def by blast
  moreover have "fst (write_entry F) \<notin> fst ` set ws" using F(2) by (simp add: write_entry_def)
  ultimately show ?thesis using l unfolding logged_def by simp
qed

text \<open>The standard input keeps descriptor 0 busy.\<close>

lemma stdin_stays:
  assumes "in_flight fl pl (in_mmap st0) (in_mmap st)" "fd_lookup (p_os st0) 0 \<noteq> None"
  shows "fd_lookup (p_os st) 0 \<noteq> None"
  using assms unfolding in_flight_def aloft_def untouched_def by (metis in_fields(1))

lemma fresh_fd:
  assumes "holds_open wr p fd w w'" "fd_lookup w 0 \<noteq> None"
  shows "0 < fd"
  using assms by (cases "fd = 0") (auto simp: holds_open_def)

lemma session_some_thread: "submitted wr n b a fd s s' \<Longrightarrow> some_thread s \<Longrightarrow> some_thread s'"
  by (simp add: submitted_def some_thread_def)

lemma flight_up:
  assumes "in_flight fl pl s0 s" "totaln s < LIST_LIMIT"
  shows "pool_up s" "spacious (os s)" "brk (os s) \<le> a \<Longrightarrow> fl a = None"
proof -
  show "pool_up s" "spacious (os s)" using assms by (simp_all add: in_flight_def pool_up_def aloft_def)
  show "fl a = None" if "brk (os s) \<le> a" using assms(1) that unfolding in_flight_def fenced_def by (metis leD)
qed

lemma session_reads:
  assumes inv: "session_inv st0 rs ws st" and std: "fd_lookup (p_os st0) 0 \<noteq> None"
    and c: "content (p_os st) name = Some c" "c \<noteq> []" "length c < 2 ^ 32"
    and n: "CHR 0x00 \<notin> set name" "length name < MAX_FILE_NAME_LEN" and lim: "totaln (in_mmap st) < LIST_LIMIT"
    and a: "async_read_one_picture_to_file ASYNC_FILE_ACCESSOR_MMAP buf name st = Inr (RET_OK, b, len, st')"
  shows "session_inv st0 ((b, name, c) # rs) ws st'"
proof -
  from inv obtain fl pl where f: "in_flight fl pl (in_mmap st0) (in_mmap st)" and l: "logged fl rs ws"
    and some: "some_thread (in_mmap st)" by (auto simp: session_inv_def)
  have up: "pool_up (in_mmap st)" "spacious (p_os st)" using flight_up [OF f lim] by simp_all
  from async_read_mmap [OF up(2) c up(1) n a] obtain q e old fd where
    b: "b = Addr e" "length old = length c" "heap (p_os st) e = None" "brk (p_os st) \<le> q" "q < brk (p_os st')"
      "heap (p_os st') = (heap (p_os st))(e := Some old)"
    and k: "files (p_os st') = files (p_os st)" "mmaps (p_os st') = mmaps (p_os st)" "spacious (p_os st')"
    and ho: "holds_open False name fd (p_os st) (p_os st')"
    and u: "submitted False (length c) b q fd (in_mmap st) (in_mmap st')" by auto
  let ?F = "\<lparr>f_wr = False, f_path = name, f_data = c, f_mem = e, f_fd = fd\<rparr>"
  have new: "fl q = None" using flight_up(3) [OF f lim] b(4) by simp
  have ct: "content (p_os st') = content (p_os st)" using k(1) by (simp add: content_def fun_eq_iff)
  have "takes_off fl ?F (os (in_mmap st)) (os (in_mmap st'))"
    using ho fresh_fd [OF ho stdin_stays [OF f std]] c k b ct by (auto simp: takes_off_def)
  then have "in_flight (fl(q := Some ?F)) (pl(q := Waiting)) (in_mmap st0) (in_mmap st')"
    by (rule joins_flight [OF f]) (use b u in simp_all)
  moreover have "b \<notin> fst ` set rs"
  proof
    assume "b \<in> fst ` set rs"
    with l b(1) obtain d G where G: "fl d = Some G" "\<not> f_wr G" "f_mem G = e"
      unfolding logged_def read_entry_def by fastforce
    with f have "flight_ok G (pl d) d (in_mmap st)" by (simp add: in_flight_def aloft_def)
    with G b(3) show False by (auto simp: flight_ok_def)
  qed
  then have "logged (fl(q := Some ?F)) ((b, name, c) # rs) ws"
    using logged_read [OF l new, of ?F] b(1) by (simp add: read_entry_def)
  ultimately show ?thesis using session_some_thread [OF u some] unfolding session_inv_def by blast
qed

lemma session_writes:
  assumes inv: "session_inv st0 rs ws st" and std: "fd_lookup (p_os st0) 0 \<noteq> None"
    and c: "heap (p_os st) e = Some bs" "bs \<noteq> []" "length bs < 2 ^ 32" "len = word_of_nat (length bs)"
    and n: "CHR 0x00 \<notin> set name" "length name < MAX_FILE_NAME_LEN" and lim: "totaln (in_mmap st) < LIST_LIMIT"
    and other: "name \<notin> (fst \<circ> snd) ` set rs" "name \<notin> fst ` set ws"
    and a: "async_write_one_picture_to_file ASYNC_FILE_ACCESSOR_MMAP (Addr e) name len st = Inr (RET_OK, st')"
  shows "session_inv st0 rs ((name, bs) # ws) st'"
proof -
  from inv obtain fl pl where f: "in_flight fl pl (in_mmap st0) (in_mmap st)" and l: "logged fl rs ws"
    and some: "some_thread (in_mmap st)" by (auto simp: session_inv_def)
  have up: "pool_up (in_mmap st)" "spacious (p_os st)" using flight_up [OF f lim] by simp_all
  from async_write_mmap [OF up(2,1) c n a] obtain q m fd where
    b: "brk (p_os st) \<le> q" "q < brk (p_os st')" "heap (p_os st') = heap (p_os st)" "mmaps (p_os st) m = None"
      "mmaps (p_os st') = (mmaps (p_os st))(m := Some \<lparr>m_path = name, m_off = 0, m_len = length bs, m_shared = True\<rparr>)"
    and ct: "content (p_os st') = (content (p_os st))(name := Some bs)" and sp: "spacious (p_os st')"
    and ho: "holds_open True name fd (p_os st) (p_os st')"
    and u: "submitted True (length bs) (Addr m) q fd (in_mmap st) (in_mmap st')" by auto
  let ?F = "\<lparr>f_wr = True, f_path = name, f_data = bs, f_mem = m, f_fd = fd\<rparr>"
  have new: "fl q = None" using flight_up(3) [OF f lim] b(1) by simp
  have paths: "f_path G \<noteq> name" if G: "fl d = Some G" for d G
  proof (cases "f_wr G")
    case True
    with l G have "write_entry G \<in> set ws" unfolding logged_def by blast
    with other(2) show ?thesis by (force simp: write_entry_def)
  next
    case False
    with l G have "read_entry G \<in> set rs" unfolding logged_def by blast
    with other(1) show ?thesis by (force simp: read_entry_def)
  qed
  have "takes_off fl ?F (os (in_mmap st)) (os (in_mmap st'))"
    using ho fresh_fd [OF ho stdin_stays [OF f std]] c(2) sp b ct paths by (auto simp: takes_off_def flight_map_def)
  then have "in_flight (fl(q := Some ?F)) (pl(q := Waiting)) (in_mmap st0) (in_mmap st')"
    by (rule joins_flight [OF f]) (use b u in simp_all)
  moreover have "logged (fl(q := Some ?F)) rs ((name, bs) # ws)"
    using logged_write [OF l new, of ?F] other(2) by (simp add: write_entry_def)
  ultimately show ?thesis using session_some_thread [OF u some] unfolding session_inv_def by blast
qed

lemma session_keeps:
  assumes "session st0 rs ws st" "at_ease st0"
  shows "session_inv st0 rs ws st"
proof -
  from assms(2) have std: "fd_lookup (p_os st0) 0 \<noteq> None" by (simp add: at_ease_def)
  from assms(1) show ?thesis
  proof induction
    case start
    show ?case by (rule session_starts [OF assms(2)])
  next
    case (thread rs ws st i st')
    from session_thread [OF thread.IH thread.hyps(2)] show ?case by simp
  next
    case (reads rs ws st name c buf b len st')
    show ?case by (rule session_reads [OF reads.IH std reads.hyps(2-8)])
  next
    case (writes rs ws st e bs len name st')
    show ?case by (rule session_writes [OF writes.IH std writes.hyps(2-11)])
  qed
qed

section \<open>What the client finds\<close>

lemma session_run:
  "session_inv st0 rs ws st \<Longrightarrow> run process_exec (map (\<lambda>i. MmapEvent (EvWorker i)) is) st = Some st' \<Longrightarrow>
   length is + pool_work (in_mmap st') \<le> pool_work (in_mmap st)"
proof (induction "is" arbitrary: st)
  case (Cons i "is")
  from Cons.prems(2) obtain u where u: "process_exec (MmapEvent (EvWorker i)) st = Some (Inr u)"
    "run process_exec (map (\<lambda>i. MmapEvent (EvWorker i)) is) u = Some st'"
    by (auto simp: run_Cons_Some simp del: run.simps process_exec.simps)
  from u(1) have "worker_step i (in_mmap st) = Some (Inr (in_mmap u))" by auto
  moreover have "queue_wf (in_mmap st)" using Cons.prems(1) by (auto simp: session_inv_def in_flight_def)
  ultimately have "pool_work (in_mmap u) < pool_work (in_mmap st)" by (rule worker_work [rotated])
  moreover from session_thread [OF Cons.prems(1) u(1)] have "session_inv st0 rs ws u" by simp
  from Cons.IH [OF this u(2)] have "length is + pool_work (in_mmap st') \<le> pool_work (in_mmap u)" .
  ultimately show ?case by simp
qed simp

lemma logged_content:
  assumes l: "logged fl rs ws" and f: "in_flight fl pl s0 s"
  shows "content (os s) = content (os s0) ++ map_of ws"
proof
  fix p
  show "content (os s) p = (content (os s0) ++ map_of ws) p"
  proof (cases "map_of ws p")
    case None
    have "\<not> owns_file fl p"
    proof
      assume "owns_file fl p"
      then obtain a F where F: "fl a = Some F" "f_wr F" "f_path F = p" by (auto simp: owns_file_def)
      with l have "write_entry F \<in> set ws" unfolding logged_def by blast
      with F(3) None show False by (force simp: write_entry_def map_of_eq_None_iff)
    qed
    with f None show ?thesis by (simp add: in_flight_def aloft_def untouched_def map_add_def)
  next
    case (Some bs)
    then have "(p, bs) \<in> set ws" by (rule map_of_SomeD)
    with l obtain a F where "fl a = Some F" "f_wr F" "write_entry F = (p, bs)" unfolding logged_def by blast
    with f Some show ?thesis by (auto simp: in_flight_def aloft_def flight_ok_def write_entry_def map_add_def)
  qed
qed

lemma logged_reads:
  assumes l: "logged fl rs ws" and f: "in_flight fl pl s0 s" and x: "(b, name, c) \<in> set rs"
  shows "\<exists>q r e old. b = Addr e \<and> get_req (Addr q) s = Inr r \<and> r_buf r = b \<and> fl q \<noteq> None \<and>
           heap (os s) e = Some old \<and> length old = length c \<and>
           (r_status r = REQUEST_STAT_SUBMITTED \<or> r_status r = REQUEST_STAT_IOSUCCESS \<and> old = c) \<and>
           (pl q = Landed \<longrightarrow> old = c)"
proof -
  from l x obtain a F where F: "fl a = Some F" "\<not> f_wr F" "read_entry F = (b, name, c)" unfolding logged_def by blast
  with f have ok: "flight_ok F (pl a) a s" by (simp add: in_flight_def aloft_def)
  then obtain r where r: "requests s a = Some r" "r_buf r = Addr (f_mem F)"
    "r_status r = (if settled (pl a) then REQUEST_STAT_IOSUCCESS else REQUEST_STAT_SUBMITTED)"
    using F(2) unfolding flight_ok_def by blast
  from ok F(2) obtain old where o: "heap (os s) (f_mem F) = Some old" "length old = length (f_data F)"
    "\<not> unread (pl a) \<longrightarrow> old = f_data F" unfolding flight_ok_def by blast
  have "settled (pl a) \<Longrightarrow> \<not> unread (pl a)" by (cases "pl a") auto
  with r o F show ?thesis
    by (intro exI [of _ a] exI [of _ r] exI [of _ "f_mem F"] exI [of _ old]) (auto simp: read_entry_def get_req_def)
qed

text \<open>When all have landed nothing is owned but the buffers.\<close>

lemma all_landed:
  assumes l: "logged fl rs ws" and f: "in_flight fl pl s0 s" and land: "\<And>a. fl a \<noteq> None \<Longrightarrow> pl a = Landed"
  shows "mmaps (os s) = mmaps (os s0)" "same_fds (os s0) (os s)"
    "requests s q = Some r \<Longrightarrow> r_status r = REQUEST_STAT_SUBMITTED \<Longrightarrow> requests s0 q = Some r"
    "Addr e \<notin> fst ` set rs \<Longrightarrow> heap (os s) e = heap (os s0) e"
proof -
  from f have un: "untouched fl pl s0 s" by (simp add: in_flight_def aloft_def)
  have at: "fl a = Some F \<Longrightarrow> pl a = Landed" for a F using land by simp
  have "owned F Landed \<noteq> Addr y" for F y by (simp add: owned_def)
  then have "\<not> owns_map fl pl y" for y unfolding owns_map_def using at by metis
  moreover have "\<not> owns_fd fl pl k" for k unfolding owns_fd_def using at by blast
  ultimately show "mmaps (os s) = mmaps (os s0)" "same_fds (os s0) (os s)"
    using un by (simp_all add: untouched_def same_fds_def fun_eq_iff)
  show "requests s0 q = Some r" if r: "requests s q = Some r" "r_status r = REQUEST_STAT_SUBMITTED"
  proof (cases "fl q")
    case None
    with un r show ?thesis by (simp add: untouched_def)
  next
    case (Some F)
    with f land have "flight_ok F Landed q s" unfolding in_flight_def aloft_def by (metis option.distinct(1))
    with r show ?thesis by (simp add: flight_ok_def)
  qed
  show "heap (os s) e = heap (os s0) e" if e: "Addr e \<notin> fst ` set rs"
  proof -
    have "\<not> owns_block fl e"
    proof
      assume "owns_block fl e"
      then obtain a F where F: "fl a = Some F" "\<not> f_wr F" "f_mem F = e" by (auto simp: owns_block_def)
      with l have "read_entry F \<in> set rs" unfolding logged_def by blast
      with F(3) e show False by (force simp: read_entry_def)
    qed
    with un show ?thesis by (simp add: untouched_def)
  qed
qed

text \<open>
  C13: all requests a client has in flight at once are served, whatever the pool threads do between its calls: in
  every process a client of the mmap accessor reaches with any number of reads and writes that report
  success, each call in one piece (no thread takes a step inside one; a thread that finishes before line 451
  of the call is the race of \<open>interrupted_put_loses_the_completion\<close>), and any steps of the threads between
  any two calls, no thread faults, the threads come to rest after a bounded
  number of steps, the buffers of the reads are distinct and each belongs to a request that is
  \<open>SUBMITTED\<close>, or \<open>IOSUCCESS\<close> with the bytes of the file in the buffer; the files have the contents that were
  written and no others have changed. When no thread can take a step, each buffer has its bytes, no new request is
  \<open>SUBMITTED\<close>, and descriptors, mappings and all other memory are as at the start.
\<close>
theorem requests_in_flight_are_served:
  assumes "at_ease st0" "session st0 rs ws st"
  shows "(\<forall>is st'. run process_exec (map (\<lambda>i. MmapEvent (EvWorker i)) is) st = Some st' \<longrightarrow>
            length is \<le> pool_work (in_mmap st)) \<and>
         (\<forall>i x. process_exec (MmapEvent (EvWorker i)) st \<noteq> Some (Inl x)) \<and>
         distinct (map fst rs) \<and>
         (\<forall>(b, name, c) \<in> set rs. \<exists>q r e old. b = Addr e \<and> get_req (Addr q) (in_mmap st) = Inr r \<and> r_buf r = b \<and>
            heap (p_os st) e = Some old \<and> length old = length c \<and>
            (r_status r = REQUEST_STAT_SUBMITTED \<or> r_status r = REQUEST_STAT_IOSUCCESS \<and> old = c)) \<and>
         content (p_os st) = content (p_os st0) ++ map_of ws \<and>
         ((\<forall>i. process_exec (MmapEvent (EvWorker i)) st = None) \<longrightarrow>
            (\<forall>(b, name, c) \<in> set rs. \<exists>e. b = Addr e \<and> heap (p_os st) e = Some c) \<and>
            (\<forall>e. Addr e \<notin> fst ` set rs \<longrightarrow> heap (p_os st) e = heap (p_os st0) e) \<and>
            (\<forall>q r. requests (p_mmap st) q = Some r \<longrightarrow> r_status r = REQUEST_STAT_SUBMITTED \<longrightarrow>
               requests (p_mmap st0) q = Some r) \<and>
            same_fds (p_os st0) (p_os st) \<and> mmaps (p_os st) = mmaps (p_os st0))"
proof -
  have inv: "session_inv st0 rs ws st" by (rule session_keeps [OF assms(2,1)])
  then obtain fl pl where f: "in_flight fl pl (in_mmap st0) (in_mmap st)" and l: "logged fl rs ws"
    and some: "some_thread (in_mmap st)" by (auto simp: session_inv_def)
  have bound: "length is \<le> pool_work (in_mmap st)"
    if "run process_exec (map (\<lambda>i. MmapEvent (EvWorker i)) is) st = Some st'" for "is" st'
    using session_run [OF inv that] by simp
  have fault: "process_exec (MmapEvent (EvWorker i)) st \<noteq> Some (Inl x)" for i x
    using session_thread [OF inv] by blast
  have reads: "\<exists>q r e old. b = Addr e \<and> get_req (Addr q) (in_mmap st) = Inr r \<and> r_buf r = b \<and>
            heap (p_os st) e = Some old \<and> length old = length c \<and>
            (r_status r = REQUEST_STAT_SUBMITTED \<or> r_status r = REQUEST_STAT_IOSUCCESS \<and> old = c)"
    if "(b, name, c) \<in> set rs" for b name c
    using logged_reads [OF l f that] by auto
  have stuck: "pl a = Landed" if "\<forall>i. process_exec (MmapEvent (EvWorker i)) st = None" "fl a \<noteq> None" for a
    using stuck_landed [OF f _ some that(2)] that(1) by simp
  have landed: "\<exists>e. b = Addr e \<and> heap (p_os st) e = Some c"
    if "\<forall>i. process_exec (MmapEvent (EvWorker i)) st = None" "(b, name, c) \<in> set rs" for b name c
    using logged_reads [OF l f that(2)] stuck [OF that(1)] by auto
  have "distinct (map fst rs)" using l by (simp add: logged_def)
  moreover have "content (p_os st) = content (p_os st0) ++ map_of ws" using logged_content [OF l f] by simp
  ultimately show ?thesis
    using bound fault reads landed all_landed [OF l f stuck] by (auto simp del: process_exec.simps)
qed

section \<open>A session\<close>

text \<open>Two reads of the same picture with a step of thread 1 in between, and a write of it.\<close>

definition demo_calls :: "(ptr \<times> ptr \<times> process \<times> process \<times> process \<times> process) option" where
  "demo_calls =
     (case async_read_one_picture_to_file ASYNC_FILE_ACCESSOR_MMAP Null ''in'' pool_world of
        Inl f \<Rightarrow> None
      | Inr (res1, b1, len1, st1) \<Rightarrow>
          (case process_exec (MmapEvent (EvWorker 1)) st1 of
             Some (Inr st2) \<Rightarrow>
               (case async_read_one_picture_to_file ASYNC_FILE_ACCESSOR_MMAP Null ''in'' st2 of
                  Inl f \<Rightarrow> None
                | Inr (res2, b2, len2, st3) \<Rightarrow>
                    (case async_write_one_picture_to_file ASYNC_FILE_ACCESSOR_MMAP (Addr 3) ''out'' 3 st3 of
                       Inl f \<Rightarrow> None
                     | Inr (res3, st4) \<Rightarrow>
                         if res1 = RET_OK \<and> res2 = RET_OK \<and> res3 = RET_OK \<and>
                            content (p_os st2) ''in'' = Some [7, 8, 9] \<and> heap (p_os st3) 3 = Some [7, 8, 9] \<and>
                            q_totoalCnt (tqueue (p_mmap st2)) = 2 \<and> q_totoalCnt (tqueue (p_mmap st3)) = 3
                         then Some (b1, b2, st1, st2, st3, st4) else None))
           | _ \<Rightarrow> None))"

lemma demo_calls_succeed: "demo_calls \<noteq> None"
  by code_simp

lemma demo_session:
  "\<exists>b1 b2 st. session pool_world [(b2, ''in'', [7, 8, 9]), (b1, ''in'', [7, 8, 9])] [(''out'', [7, 8, 9])] st"
proof -
  note w = pool_world_state
  from demo_calls_succeed obtain b1 len1 st1 st2 b2 len2 st3 st4 where
    c1: "async_read_one_picture_to_file ASYNC_FILE_ACCESSOR_MMAP Null ''in'' pool_world = Inr (RET_OK, b1, len1, st1)"
    and c2: "process_exec (MmapEvent (EvWorker 1)) st1 = Some (Inr st2)"
    and c3: "async_read_one_picture_to_file ASYNC_FILE_ACCESSOR_MMAP Null ''in'' st2 = Inr (RET_OK, b2, len2, st3)"
    and c4: "async_write_one_picture_to_file ASYNC_FILE_ACCESSOR_MMAP (Addr 3) ''out'' 3 st3 = Inr (RET_OK, st4)"
    and k: "content (p_os st2) ''in'' = Some [7, 8, 9]" "heap (p_os st3) 3 = Some [7, 8, 9]"
      "q_totoalCnt (tqueue (p_mmap st2)) = 2" "q_totoalCnt (tqueue (p_mmap st3)) = 3"
    unfolding demo_calls_def by (auto split: sum.splits option.splits if_splits simp del: process_exec.simps)
  have l: "[7, 8, 9 :: u8] \<noteq> []" "length [7, 8, 9 :: u8] < 2 ^ 32" "(3 :: u32) = word_of_nat (length [7, 8, 9 :: u8])"
    "CHR 0x00 \<notin> set ''in''" "length ''in'' < MAX_FILE_NAME_LEN" "CHR 0x00 \<notin> set ''out''" "length ''out'' < MAX_FILE_NAME_LEN"
    by (simp_all add: MAX_FILE_NAME_LEN_def)
  have "totaln (in_mmap pool_world) < LIST_LIMIT" using w(2) by (simp add: idle_pool_def)
  from session.reads [OF session.start w(3) l(1,2,4,5) this c1]
  have 1: "session pool_world [(b1, ''in'', [7, 8, 9])] [] st1" .
  note 2 = session.thread [OF 1 c2]
  have "totaln (in_mmap st2) < LIST_LIMIT" using k(3) by (simp add: LIST_LIMIT_def in_mmap_def)
  from session.reads [OF 2 k(1) l(1,2,4,5) this c3]
  have 3: "session pool_world [(b2, ''in'', [7, 8, 9]), (b1, ''in'', [7, 8, 9])] [] st3" .
  have "totaln (in_mmap st3) < LIST_LIMIT" using k(4) by (simp add: LIST_LIMIT_def in_mmap_def)
  from session.writes [OF 3 k(2) l(1-3,6,7) this _ _ c4] show ?thesis by auto
qed

theorem requests_in_flight_are_served_witness:
  "\<exists>b1 b2 st. b1 \<noteq> b2 \<and> content (p_os st) ''out'' = Some [7, 8, 9] \<and>
     (\<forall>i x. process_exec (MmapEvent (EvWorker i)) st \<noteq> Some (Inl x)) \<and>
     (\<exists>q r. get_req (Addr q) (in_mmap st) = Inr r \<and> r_buf r = b1) \<and>
     (\<exists>q r. get_req (Addr q) (in_mmap st) = Inr r \<and> r_buf r = b2)"
proof -
  note w = pool_world_state
  have "\<forall>t. tasks (p_mmap pool_world) t \<noteq> None \<longrightarrow> t < brk (p_os pool_world)"
    by (simp add: pool_world_def demo_at_def demo_os_done_def demo_os_copied_def demo_os_queued_def demo_queued_def demo_prepared_def)
  with w have e: "at_ease pool_world" by (simp add: at_ease_def)
  from demo_session obtain b1 b2 st where
    s: "session pool_world [(b2, ''in'', [7, 8, 9]), (b1, ''in'', [7, 8, 9])] [(''out'', [7, 8, 9])] st" by blast
  from requests_in_flight_are_served [OF e s]
  have "b1 \<noteq> b2" "content (p_os st) ''out'' = Some [7, 8, 9]"
    "\<forall>i x. process_exec (MmapEvent (EvWorker i)) st \<noteq> Some (Inl x)"
    "\<exists>q r. get_req (Addr q) (in_mmap st) = Inr r \<and> r_buf r = b1"
    "\<exists>q r. get_req (Addr q) (in_mmap st) = Inr r \<and> r_buf r = b2"
    by (auto simp del: process_exec.simps)
  then show ?thesis by blast
qed

end
