(* ===== verification/Two_Accessors.thy ===== *)
theory Two_Accessors
  imports Interface Mmap_Demo Aio_Release
begin

text \<open>
  Both accessors at work in one process, on the memory of one operating system: the events of each
  leave the structures of the other alone, in particular its array of pointers, which both reallocate,
  so that every interleaving of the events of both keeps the invariants of both.
\<close>

section \<open>Whose array changes\<close>

text \<open>
  What an event of the accessor whose array is \<open>q\<close> may do to the arrays of the process: change or free
  its own, and make new ones above the allocation frontier, where its array may move.
\<close>

definition array_frame :: "ptr \<Rightarrow> world \<Rightarrow> ptr \<Rightarrow> world \<Rightarrow> bool" where
  "array_frame q w q' w' \<longleftrightarrow>
     brk w \<le> brk w' \<and>
     (\<forall>a. Addr a \<noteq> q \<longrightarrow> a < brk w \<longrightarrow> parrs w' a = parrs w a) \<and>
     (\<forall>a. parrs w' a \<noteq> None \<longrightarrow> parrs w a \<noteq> None \<or> a < brk w') \<and>
     (q' = q \<or> (\<exists>b. q' = Addr b \<and> brk w \<le> b \<and> b < brk w'))"

lemma array_frame_same: "parrs w' = parrs w \<Longrightarrow> brk w \<le> brk w' \<Longrightarrow> array_frame q w q w'"
  by (simp add: array_frame_def)

lemma array_frame_trans:
  assumes "array_frame p u q v" "array_frame q v r w"
  shows "array_frame p u r w"
proof -
  have "parrs w a = parrs u a" if a: "Addr a \<noteq> p" "a < brk u" for a
  proof -
    from assms(1) a have "Addr a \<noteq> q" "a < brk v" "parrs v a = parrs u a" by (auto simp: array_frame_def)
    with assms(2) show ?thesis by (simp add: array_frame_def)
  qed
  moreover have "parrs u a \<noteq> None \<or> a < brk w" if "parrs w a \<noteq> None" for a
    using assms that unfolding array_frame_def by (meson less_le_trans)
  ultimately show ?thesis using assms unfolding array_frame_def by (auto intro: less_le_trans)
qed

lemma realloc_array_frame:
  assumes "c_realloc_arr q n w = Inr (p, w')"
  shows "array_frame q w (if p = Null then q else p) w'"
  using assms by (cases rule: realloc_arr_cases) (auto simp: array_frame_def)

lemma arr_set_array_frame: "arr_set q i x w = Inr w' \<Longrightarrow> array_frame q w q w'"
  by (auto simp: array_frame_def elim!: arr_set_cases split: if_splits)

section \<open>The events of the mmap accessor\<close>

abbreviation queue_frame :: "mmap_sys \<Rightarrow> mmap_sys \<Rightarrow> bool" where
  "queue_frame s s' \<equiv> array_frame (request_queue (tqueue s)) (os s) (request_queue (tqueue s')) (os s')"

lemma quiet_queue_frame: "quiet s s' \<Longrightarrow> queue_frame s s'"
  by (simp add: quiet_same(1) array_frame_same [OF quiet_same(2,6)])

lemma enqueue_queue_frame:
  assumes "enqueue_task t s = Inr (res, s')"
  shows "queue_frame s s'"
proof -
  from assms obtain s1 w where g: "grow_queue s = Inr (res, s1)"
    and a: "arr_set (request_queue (tqueue s1)) (tailn s1) t (os s1) = Inr w"
    and s': "os s' = w" "request_queue (tqueue s') = request_queue (tqueue s1)"
    by (auto simp: enqueue_task_def Let_def)
  have "queue_frame s s1"
    using g by (auto simp: grow_queue_def Let_def array_frame_same dest!: realloc_array_frame split: if_splits)
  with arr_set_array_frame [OF a] show ?thesis unfolding s' by (rule array_frame_trans [rotated])
qed

lemma submit_queue_frame:
  assumes "submit_new_task tk s = Inr (res, s')"
  shows "queue_frame s s'"
proof -
  obtain t v where n: "c_new (os s) = (t, v)" by fastforce
  let ?s = "s\<lparr>os := v, tasks := (tasks s)(addr_of t := Some tk)\<rparr>"
  from n have 1: "queue_frame s ?s"
    using keeps_c_new [OF n] by (simp add: array_frame_same keeps_def)
  from assms n have "thread_pool_submit t ?s = Inr (res, s')" by (simp add: submit_new_task_def split: if_splits)
  then have "s' = ?s \<or> queue_frame ?s s'"
    by (auto simp: thread_pool_submit_def dest: enqueue_queue_frame split: if_splits)
  with 1 show ?thesis by (auto intro: array_frame_trans)
qed

lemma put_submit_queue_frame: "mmap_put_submit p s = Inr (res, s') \<Longrightarrow> queue_frame s s'"
  by (auto simp: mmap_put_submit_def dest: submit_queue_frame)

lemma put_task_queue_frame:
  assumes "mmap_put_task p s = Inr (res, t, s')"
  shows "queue_frame s s'"
  using assms
proof (cases rule: put_task_cases)
  case refused
  then show ?thesis by (auto dest: quiet_check quiet_queue_frame)
next
  case (filled s1 r w)
  have "queue_frame s1 s'" using keeps_c_new [OF filled(4)] by (simp add: filled(6) keeps_def array_frame_same)
  with quiet_queue_frame [OF quiet_check [OF filled(1)]] show ?thesis by (rule array_frame_trans)
qed

lemma put_finish_queue_frame:
  assumes "mmap_put_finish p res s = Inr (res', s')"
  shows "queue_frame s s'"
  using assms by (cases rule: put_finish_cases) (auto dest: quiet_queue_frame simp: array_frame_same)

lemma put_queue_frame:
  assumes "mmap_put_request p s = Inr (res, s')"
  shows "queue_frame s s'"
  using assms
  by (auto simp: mmap_put_request_def split: if_splits dest!: quiet_check quiet_queue_frame
      put_submit_queue_frame put_finish_queue_frame intro: array_frame_trans)

lemma worker_queue_frame:
  assumes "worker_step i s = Some (Inr s')"
  shows "queue_frame s s'"
proof -
  from assms have i: "i < length (threads s)" and w: "worker_at i (threads s ! i) s = Some (Inr s')"
    by (auto simp: worker_step_def split: if_splits)
  then show ?thesis
    by (cases "threads s ! i")
      (auto simp: count_alive_def count_busy_def count_idle_def acquire_task_def Let_def array_frame_same
         dest!: quiet_enter quiet_io quiet_record quiet_cleanup dest: quiet_queue_frame split: if_splits)
qed

lemma mmap_queue_frame:
  assumes e: "mmap_exec e s = Some (Inr s')"
  shows "queue_frame s s'"
proof (cases e)
  case (EvWorker i)
  with e worker_queue_frame show ?thesis by simp
next
  case (EvPut p)
  with e put_queue_frame show ?thesis by (auto simp: only_state_def)
next
  case (EvPutSubmit p)
  with e put_submit_queue_frame show ?thesis by (auto simp: only_state_def)
next
  case (EvPutFinish p res)
  with e put_finish_queue_frame show ?thesis by (auto simp: only_state_def)
next
  case (EvPutTask p)
  with e put_task_queue_frame show ?thesis by auto
next
  case (EvEnqueue t)
  with e enqueue_queue_frame show ?thesis by (auto simp: only_state_def)
next
  case EvSentinel
  with e submit_queue_frame show ?thesis by (auto simp: only_state_def)
next
  case EvStop
  with e show ?thesis by (auto simp: set_running_def array_frame_same)
next
  case (EvJoin i)
  with e show ?thesis by (auto simp: join_thread_def array_frame_same split: if_splits wpc.splits)
next
  case (EvStoreIdle v)
  with e show ?thesis by (auto simp: store_idle_def array_frame_same)
next
  case (EvStoreAlive v)
  with e show ?thesis by (auto simp: store_alive_def array_frame_same)
next
  case EvTurn
  with e show ?thesis by (simp add: array_frame_same)
next
  case (EvMalloc k)
  with e show ?thesis using keeps_malloc [of "os s" k] by (auto simp: keeps_def array_frame_same)
next
  case (EvStore p bs)
  with e show ?thesis by (auto simp: array_frame_same dest: mem_store_frame)
qed (use e in \<open>auto simp: only_state_def dest!: quiets intro: quiet_queue_frame\<close>)

section \<open>The events of the AIO accessor\<close>

abbreviation list_frame :: "aio_sys \<Rightarrow> aio_sys \<Rightarrow> bool" where
  "list_frame s s' \<equiv> array_frame (req_list s) (aos s) (req_list s') (aos s')"

text \<open>The list itself is as before, and memory only grows.\<close>

definition list_kept :: "aio_sys \<Rightarrow> aio_sys \<Rightarrow> bool" where
  "list_kept s s' \<longleftrightarrow> req_list s' = req_list s \<and> keeps (aos s) (aos s')"

lemma list_kept_refl [simp]: "list_kept s s"
  by (simp add: list_kept_def keeps_def)

lemma list_kept_trans: "list_kept s t \<Longrightarrow> list_kept t u \<Longrightarrow> list_kept s u"
  by (auto simp: list_kept_def intro: keeps_trans)

lemma list_kept_frame: "list_kept s s' \<Longrightarrow> list_frame s s'"
  by (simp add: list_kept_def keeps_def array_frame_same)

lemma list_kept_put: "keeps (aos s) w \<Longrightarrow> list_kept s (aput p r (s\<lparr>aos := w\<rparr>))"
  by (simp add: list_kept_def)

lemma keeps_refl [simp]: "keeps w w"
  by (simp add: keeps_def)

lemma keeps_free: "c_free p w = Inr w' \<Longrightarrow> keeps w w'"
  by (simp add: keeps_def free_parrs free_brk)

lemma keeps_open: "sys_open p m w = (fd, w') \<Longrightarrow> keeps w w'"
  by (auto simp: keeps_def dest: sys_open_frame)

lemma keeps_open_close: "sys_open p m w = (fd, w') \<Longrightarrow> keeps w (snd (sys_close fd w'))"
  by (rule keeps_trans [OF keeps_open keeps_close])

lemma kept_check:
  assumes "aio_check_request_valid p s = Inr (res, s')"
  shows "list_kept s s'"
  using assms
proof (cases rule: acheck_cases)
  case (invalid w)
  then show ?thesis by (simp add: list_kept_def keeps_same_store)
qed (auto simp: list_kept_def intro: keeps_open_close)

lemma keeps_malloc_retry:
  assumes "retry_do (c_malloc k) (\<lambda>b. b = Null) l j w = (q, w')"
  shows "keeps w w'"
proof (rule retry_do_rule [OF assms, where P = "keeps w"])
  fix v x v' assume "keeps w v" "c_malloc k v = (x, v')"
  with keeps_malloc [of v k] show "keeps w v'" by (auto intro: keeps_trans)
qed auto

lemma kept_alloc:
  assumes "aio_request_alloc_write_buffer p b0 s = Inr (res, b, s')"
  shows "list_kept s s'"
proof -
  from assms obtain res1 s1 where k: "aio_check_request_valid p s = Inr (res1, s1)"
    by (auto simp: aio_request_alloc_write_buffer_def)
  note 1 = kept_check [OF k]
  show ?thesis
  proof (cases "s' = s1")
    case True
    with 1 show ?thesis by simp
  next
    case False
    with assms k obtain r where r: "aget p s1 = Inr r" by (auto simp: aio_request_alloc_write_buffer_def split: if_splits)
    obtain q w where m: "retry_do (c_malloc (aio_nbytes (ar_cb r))) (\<lambda>b. b = Null) MAX_RETRY_TIMES 0 (aos s1) = (q, w)"
      by fastforce
    from assms k r m False have "s' = aput p (r\<lparr>ar_buf := q, ar_cb := ar_cb r\<lparr>aio_buf := q\<rparr>, ar_isAlloced := True\<rparr>)
        (s1\<lparr>aos := w\<rparr>)"
      by (auto simp: aio_request_alloc_write_buffer_def retry_for_eq_do split: if_splits)
    with list_kept_trans [OF 1 list_kept_put [OF keeps_malloc_retry [OF m]]] show ?thesis by simp
  qed
qed

lemma kept_import:
  "aio_request_import_read_buffer p b s = Inr (res, s') \<Longrightarrow> list_kept s s'"
  by (auto simp: aio_request_import_read_buffer_def list_kept_def split: if_splits dest!: kept_check)

lemma kept_setup: "aio_request_setup ci fd r w = (r', w') \<Longrightarrow> keeps w w'"
  by (auto simp: aio_request_setup_def sys_lseek_cur_def keeps_def split: option.splits prod.splits)

lemma kept_get:
  assumes c: "aio_get_request ci s = Inr (res, p, s')"
  shows "list_kept s s'"
proof -
  obtain q w1 where n: "c_new (aos s) = (q, w1)" by fastforce
  from c n have q: "q \<noteq> Null" by (auto simp: aio_get_request_def split: if_splits)
  let ?s1 = "aput q (zero_aio_request\<lparr>ar_info := aio_copied_info ci\<rparr>) (s\<lparr>aos := w1\<rparr>)"
  have 1: "list_kept s ?s1" by (rule list_kept_put [OF keeps_c_new [OF n]])
  from c n q obtain res2 s2 where c2: "aio_check_request_valid q ?s1 = Inr (res2, s2)"
    by (auto simp: aio_get_request_def)
  note 2 = list_kept_trans [OF 1 kept_check [OF c2]]
  show ?thesis
  proof (cases "res2 = RET_OK")
    case False
    with c n q c2 2 show ?thesis by (auto simp: aio_get_request_def)
  next
    case True
    with c n q c2 obtain path r where path: "file_name (fn ci) = Inr path" and r: "aget q s2 = Inr r"
      by (auto simp: aio_get_request_def)
    obtain fd w2 where o: "retry_for (sys_open path (aio_open_mode ci)) (\<lambda>fd. fd = - 1)
        MAX_RETRY_TIMES (aos s2) = (fd, w2)" by fastforce
    obtain r2 w3 where st: "aio_request_setup ci fd r w2 = (r2, w3)" by fastforce
    from c n q c2 True path r o st have s': "s' = aput q r2 (s2\<lparr>aos := w3\<rparr>)"
      by (auto simp: aio_get_request_def)
    from open_retry_spec [OF o [unfolded retry_for_eq_do]] have "keeps (aos s2) w2"
      by (auto intro: keeps_same_store)
    with kept_setup [OF st] have "keeps (aos s2) w3" by (rule keeps_trans [rotated])
    from list_kept_trans [OF 2 list_kept_put [OF this]] show ?thesis unfolding s' .
  qed
qed

lemma kept_free_buffer: "aio_free_buffer p s = Inr s' \<Longrightarrow> list_kept s s'"
  by (auto simp: aio_free_buffer_def dest!: keeps_free intro: list_kept_put)

lemma kept_submit: "list_kept s (snd (sys_aio_submit wr p s))"
  by (auto simp: sys_aio_submit_def ask_def Let_def list_kept_def keeps_def)

lemma kept_put_submit:
  assumes c: "aio_put_submit p s = Inr (res, s')"
  shows "list_kept s s'"
proof -
  from c obtain r where r: "aget p s = Inr r" by (auto simp: aio_put_submit_def)
  let ?s1 = "aput p (r\<lparr>ar_cb := (ar_cb r)\<lparr>aio_sival := p\<rparr>\<rparr>) s"
  obtain res2 s2 where su: "sys_aio_submit (ASYNC_FILE_ACCESS_WRITE = direction (ar_info r)) p ?s1 = (res2, s2)"
    by fastforce
  have "list_kept s ?s1" by (simp add: list_kept_def)
  then have "list_kept s s2" using kept_submit su by (metis list_kept_trans snd_conv)
  with c r su show ?thesis
    by (auto simp: aio_put_submit_def split: if_splits dest!: kept_free_buffer intro: list_kept_trans)
qed

lemma list_request_frame':
  assumes "aio_list_request p s = Inr (res, s')"
  shows "list_frame s s'"
proof -
  from assms obtain res1 s1 where g: "aio_grow_list s = Inr (res1, s1)"
    by (auto simp: aio_list_request_def)
  then have 1: "list_frame s s1"
    by (auto simp: aio_grow_list_def array_frame_same dest!: realloc_array_frame split: if_splits)
  from assms g have "s' = s1 \<or> (req_list s' = req_list s1 \<and> array_frame (req_list s1) (aos s1) (req_list s1) (aos s'))"
    by (auto simp: aio_list_request_def split: if_splits dest!: arr_set_array_frame)
  with 1 show ?thesis by (auto intro: array_frame_trans)
qed

lemma put_finish_list_frame:
  assumes "aio_put_finish p res s = Inr (res', s')"
  shows "list_frame s s'"
proof -
  from assms obtain s1 where m: "aio_put_mark p s = Inr s1" by (auto simp: aio_put_finish_def)
  then have 1: "list_frame s s1" by (auto simp: aio_put_mark_def array_frame_same)
  from assms m have "s' = s1 \<or> list_frame s1 s'"
    by (auto simp: aio_put_finish_def split: if_splits dest!: list_request_frame')
  with 1 show ?thesis by (auto intro: array_frame_trans)
qed

lemma put_list_frame:
  "aio_put_request p s = Inr (res, s') \<Longrightarrow> list_frame s s'"
  by (auto simp: aio_put_request_def split: if_splits
      dest!: kept_check list_kept_frame kept_put_submit put_finish_list_frame intro: array_frame_trans)

lemma kept_callback_parts:
  "aio_callback_outcome p s = Inr s' \<Longrightarrow> list_kept s s'"
  "aio_callback_close1 p s = Inr s' \<Longrightarrow> list_kept s s'"
  "aio_callback_close2 p s = Inr s' \<Longrightarrow> list_kept s s'"
  by (auto simp: aio_callback_outcome_def aio_callback_close1_def aio_callback_close2_def Let_def
      list_kept_def keeps_close split: if_splits dest!: kept_free_buffer)

lemma kept_notify:
  assumes c: "aio_notify cb a s = Some (Inr s')" and cb: "\<And>p t u. cb p t = Inr u \<Longrightarrow> list_kept t u"
  shows "list_kept s s'"
proof -
  from c obtain x where x: "aops s a = Some x" "op_notify x"
    by (auto simp: aio_notify_def split: option.splits if_splits)
  with c obtain r :: aio_request where
    "cb (aio_sival (ar_cb r)) (s\<lparr>aops := (aops s)(a := Some (x\<lparr>op_notify := False\<rparr>))\<rparr>) = Inr s'"
    by (auto simp: aio_notify_def deref_Inr_iff)
  from cb [OF this] show ?thesis by (simp add: list_kept_def)
qed

lemma kept_complete: "aio_complete a s = Some (Inr s') \<Longrightarrow> list_kept s s'"
  by (auto simp: aio_complete_def list_kept_def keeps_def transfer_brk dest: transfer_parrs
      split: option.splits if_splits)

lemma kept_cancel_call: "list_kept s (snd (sys_aio_cancel fd p cb s))"
  by (auto simp: sys_aio_cancel_def ask_def Let_def list_kept_def keeps_def
      split: option.splits aio_progress.splits)

lemma kept_cancel:
  assumes c: "aio_cancel_request p s = Inr (res, s')"
  shows "list_kept s s'"
proof -
  from c obtain res1 s1 r where c1: "aio_check_request_valid p s = Inr (res1, s1)"
    and r: "aget p s1 = Inr r" by (auto simp: aio_cancel_request_def)
  obtain res2 s2 where k: "sys_aio_cancel (ar_fd r) p (ar_cb r) s1 = (res2, s2)" by fastforce
  note 1 = kept_check [OF c1]
  have 2: "list_kept s s2" using list_kept_trans [OF 1 kept_cancel_call] k by (metis snd_conv)
  have "list_kept s (aput p r' s3)" if "(if ar_isAlloced r then aio_free_buffer p s2 else Inr s2) = Inr s3" for r' s3
  proof -
    from that have "list_kept s2 s3" by (auto split: if_splits dest: kept_free_buffer)
    with 2 have "list_kept s s3" by (rule list_kept_trans)
    then show ?thesis by (simp add: list_kept_def)
  qed
  with c c1 r k 1 show ?thesis by (auto simp: aio_cancel_request_def simp del: if_split split: if_split_asm)
qed

lemma kept_cancel_one: "aio_cancel_one i s = Inr s' \<Longrightarrow> list_kept s s'"
  using kept_cancel_call by (auto simp: aio_cancel_one_def)

lemma kept_cancel_loop: "aio_cancel_loop is s = Inr s' \<Longrightarrow> list_kept s s'"
  by (induction "is" arbitrary: s) (auto dest: kept_cancel_one intro: list_kept_trans)

lemma release_one_frame:
  assumes c: "aio_release_one i s = Inr s'"
  shows "list_frame s s'"
proof -
  from c obtain p where p: "arr_get (req_list s) i (aos s) = Inr p" by (auto simp: aio_release_one_def)
  show ?thesis
  proof (cases "p = Null")
    case True
    with c p show ?thesis by (simp add: aio_release_one_def array_frame_same)
  next
    case False
    from c p False obtain r where r: "aget p s = Inr r" by (auto simp: aio_release_one_def)
    let ?s1 = "if ar_status r = REQUEST_STAT_SUBMITTED then snd (sys_aio_cancel (ar_fd r) p (ar_cb r) s) else s"
    let ?w1 = "if aio_fildes (ar_cb r) \<noteq> - 1 then snd (sys_close (aio_fildes (ar_cb r)) (aos ?s1)) else aos ?s1"
    from c p False r obtain w2 w3 where
      f: "(if ar_isAlloced r \<and> ar_buf r \<noteq> Null then c_free (ar_buf r) ?w1 else Inr ?w1) = Inr w2"
      and a: "arr_set (req_list s) i Null w2 = Inr w3"
      and s': "s' = ?s1\<lparr>aos := w3, areqs := (areqs ?s1)(aio_addr p := None)\<rparr>"
      by (auto simp: aio_release_one_def Let_def)
    have k1: "list_kept s ?s1" using kept_cancel_call by simp
    have "keeps (aos ?s1) ?w1" using keeps_close by simp
    moreover have "keeps ?w1 w2" using f by (auto split: if_splits dest: keeps_free)
    ultimately have "keeps (aos s) w2" using k1 by (auto simp: list_kept_def intro: keeps_trans)
    then have "array_frame (req_list s) (aos s) (req_list s) w2" by (simp add: keeps_def array_frame_same)
    with arr_set_array_frame [OF a] have "array_frame (req_list s) (aos s) (req_list s) w3"
      by (rule array_frame_trans [rotated])
    then show ?thesis using k1 unfolding s' by (simp add: list_kept_def)
  qed
qed

lemma release_loop_frame: "aio_release_loop is s = Inr s' \<Longrightarrow> list_frame s s'"
  by (induction "is" arbitrary: s) (auto simp: array_frame_same dest!: release_one_frame intro: array_frame_trans)

lemma aio_list_frame:
  assumes e: "aio_exec e s = Some (Inr s')"
  shows "list_frame s s'"
proof (cases e)
  case (AEvComplete a)
  with e show ?thesis by (auto intro: list_kept_frame kept_complete)
next
  case (AEvNotify a)
  with e have c: "aio_notify aio_callback a s = Some (Inr s')" by simp
  have "list_kept t u" if "aio_callback p t = Inr u" for p t u
    using that by (auto simp: aio_callback_def dest!: kept_callback_parts intro: list_kept_trans)
  from list_kept_frame [OF kept_notify [OF c this]] show ?thesis .
next
  case (AEvNotifyFirst a)
  with e have c: "aio_notify (\<lambda>p s. and_then (aio_callback_outcome p s) (aio_callback_close1 p)) a s =
      Some (Inr s')" by simp
  have "list_kept t u" if "and_then (aio_callback_outcome p t) (aio_callback_close1 p) = Inr u" for p t u
    using that by (auto dest!: kept_callback_parts intro: list_kept_trans)
  from list_kept_frame [OF kept_notify [OF c this]] show ?thesis .
next
  case (AEvNotifySecond p)
  with e show ?thesis by (auto intro: list_kept_frame kept_callback_parts)
next
  case (AEvGet ci)
  with e show ?thesis by (auto intro: list_kept_frame kept_get)
next
  case (AEvAlloc p)
  with e show ?thesis by (auto intro: list_kept_frame kept_alloc)
next
  case (AEvImport p b)
  with e show ?thesis by (auto simp: aio_only_state_def intro: list_kept_frame kept_import)
next
  case (AEvPut p)
  with e show ?thesis by (auto simp: aio_only_state_def intro: put_list_frame)
next
  case (AEvPutSubmit p)
  with e show ?thesis by (auto simp: aio_only_state_def intro: list_kept_frame kept_put_submit)
next
  case (AEvPutFinish p res)
  with e show ?thesis by (auto simp: aio_only_state_def intro: put_finish_list_frame)
next
  case (AEvCancel p)
  with e show ?thesis by (auto simp: aio_only_state_def intro: list_kept_frame kept_cancel)
next
  case AEvCancelAll
  with e show ?thesis
    by (auto simp: aio_only_state_def aio_cancel_all_requests_def array_frame_same split: if_splits
        dest!: kept_cancel_loop list_kept_frame)
next
  case AEvReleaseAll
  with e show ?thesis
    by (auto simp: aio_only_state_def aio_release_all_resources_def array_frame_same split: if_splits
        dest!: release_loop_frame)
next
  case (AEvMalloc n)
  with e show ?thesis using keeps_malloc [of "aos s" n] by (auto simp: keeps_def array_frame_same)
next
  case (AEvStore p bs)
  with e show ?thesis by (auto simp: array_frame_same dest: mem_store_frame)
next
  case AEvExpire
  with e show ?thesis by (simp add: array_frame_same)
qed

section \<open>The invariant of the process\<close>

text \<open>Memory changed by others, with the accessor's own array left alone.\<close>

lemma slot_frame:
  assumes wf: "queue_wf s" and f: "array_frame q (os s) q' w"
    and apart: "q \<noteq> request_queue (tqueue s) \<or> q = Null"
  shows "queue_arr (s\<lparr>os := w\<rparr>) = queue_arr s" "slot (s\<lparr>os := w\<rparr>) = slot s"
    "queue_wf (s\<lparr>os := w\<rparr>)"
proof -
  have same: "parrs w a = parrs (os s) a" if "request_queue (tqueue s) = Addr a" for a
  proof -
    from wf that have "parrs (os s) a \<noteq> None" "a < brk (os s)" by (auto simp: queue_wf_def)
    moreover from apart that have "Addr a \<noteq> q" by auto
    ultimately show ?thesis using f by (simp add: array_frame_def)
  qed
  then show arr: "queue_arr (s\<lparr>os := w\<rparr>) = queue_arr s"
    by (auto simp: queue_arr_def split: ptr.split)
  then show sl: "slot (s\<lparr>os := w\<rparr>) = slot s" by (simp add: slot_def fun_eq_iff)
  have "\<forall>a. parrs w a \<noteq> None \<longrightarrow> a < brk w"
    using wf f unfolding queue_wf_def array_frame_def by (meson less_le_trans)
  then show "queue_wf (s\<lparr>os := w\<rparr>)" using wf same arr sl by (auto simp: queue_wf_def)
qed

lemma mmap_inv_others:
  assumes inv: "mmap_inv n s" and f: "array_frame q (os s) q' w"
    and apart: "q \<noteq> request_queue (tqueue s) \<or> q = Null"
  shows "mmap_inv n (s\<lparr>os := w\<rparr>)"
proof -
  from inv have wf: "queue_wf s" by (simp add: mmap_inv_def tasks_inv_def)
  note sl = slot_frame [OF wf f apart]
  have st1: "slot_task (s\<lparr>os := w\<rparr>) j = slot_task s j" for j
    by (simp add: slot_task_def sl cong: option.case_cong ptr.case_cong)
  then have st: "slot_task (s\<lparr>os := w\<rparr>) = slot_task s" "sentinel_at (s\<lparr>os := w\<rparr>) = sentinel_at s"
    by (simp_all add: sentinel_at_def fun_eq_iff)
  have tw: "task_wf (s\<lparr>os := w\<rparr>) tk \<longleftrightarrow> task_wf s tk" for tk by (simp add: task_wf_def)
  from f have "brk (os s) \<le> brk w" by (simp add: array_frame_def)
  with inv sl(3) have "tasks_inv (s\<lparr>os := w\<rparr>)"
    by (auto simp: mmap_inv_def tasks_inv_def tw sl st intro: less_le_trans)
  moreover from inv have "threads_inv (s\<lparr>os := w\<rparr>)"
    by (simp add: mmap_inv_def threads_inv_def real_task_def sl st)
  moreover from inv have "status_inv (s\<lparr>os := w\<rparr>)"
    by (simp add: mmap_inv_def status_inv_def queued_for_def in_work_def st)
  ultimately show ?thesis using inv by (simp add: mmap_inv_def)
qed

definition arrays_apart :: "ptr \<Rightarrow> ptr \<Rightarrow> world \<Rightarrow> bool" where
  "arrays_apart q l w \<longleftrightarrow> (q \<noteq> l \<or> q = Null) \<and> (\<forall>a. q = Addr a \<or> l = Addr a \<longrightarrow> a < brk w)"

lemma apart_left: "arrays_apart q l w \<Longrightarrow> array_frame q w q' w' \<Longrightarrow> arrays_apart q' l w'"
  by (fastforce simp: arrays_apart_def array_frame_def)

lemma apart_right: "arrays_apart q l w \<Longrightarrow> array_frame l w l' w' \<Longrightarrow> arrays_apart q l' w'"
  by (fastforce simp: arrays_apart_def array_frame_def)

definition process_inv :: "nat \<Rightarrow> process \<Rightarrow> bool" where
  "process_inv n st \<longleftrightarrow> mmap_inv n (in_mmap st) \<and> aio_inv (in_aio st) \<and>
     arrays_apart (request_queue (tqueue (p_mmap st))) (req_list (p_aio st)) (p_os st)"

fun process_orderly :: "process_event \<Rightarrow> bool" where
  "process_orderly (MmapEvent e) = orderly e"
| "process_orderly (AioEvent e) = aio_orderly e"

lemma in_array_fields [simp]:
  "tqueue (in_mmap st) = tqueue (p_mmap st)" "req_list (in_aio st) = req_list (p_aio st)"
  by (simp_all add: in_mmap_def in_aio_def)

lemma others_view:
  "in_aio (of_mmap st s) = (in_aio st)\<lparr>aos := os s\<rparr>" "p_mmap (of_mmap st s) = s"
  "in_mmap (of_aio st t) = (in_mmap st)\<lparr>os := aos t\<rparr>" "p_aio (of_aio st t) = t"
  by (simp_all add: in_aio_def in_mmap_def of_mmap_def of_aio_def)

lemma process_inv_step:
  assumes inv: "process_inv n st" and lim: "n < LIST_LIMIT" and o: "process_orderly e"
    and e: "process_exec e st = Some (Inr st')"
  shows "process_inv (Suc n) st'"
proof (cases e)
  case (MmapEvent f)
  with e obtain s where f: "mmap_exec f (in_mmap st) = Some (Inr s)" and st': "st' = of_mmap st s"
    by auto
  note fr = mmap_queue_frame [OF f]
  from inv have i: "mmap_inv n (in_mmap st)" "aio_inv (in_aio st)"
    and a: "arrays_apart (request_queue (tqueue (p_mmap st))) (req_list (p_aio st)) (p_os st)"
    by (simp_all add: process_inv_def)
  from exec_inv [OF i(1) lim orderly_in_time f] o MmapEvent have "mmap_inv (Suc n) s" by simp
  moreover from fr i(2) have "aio_inv ((in_aio st)\<lparr>aos := os s\<rparr>)"
    by (intro ainv_os) (simp_all add: array_frame_def)
  moreover from apart_left [OF a] fr have "arrays_apart (request_queue (tqueue s)) (req_list (p_aio st)) (os s)"
    by simp
  ultimately show ?thesis unfolding st' process_inv_def by (simp add: others_view)
next
  case (AioEvent f)
  with e obtain s where f: "aio_exec f (in_aio st) = Some (Inr s)" and st': "st' = of_aio st s"
    by auto
  note fr = aio_list_frame [OF f]
  from inv have i: "mmap_inv n (in_mmap st)" "aio_inv (in_aio st)"
    and a: "arrays_apart (request_queue (tqueue (p_mmap st))) (req_list (p_aio st)) (p_os st)"
    by (simp_all add: process_inv_def)
  from ainv_exec [OF i(2) aio_orderly_in_time f] o AioEvent have "aio_inv s" by simp
  moreover have "mmap_inv n ((in_mmap st)\<lparr>os := aos s\<rparr>)"
    using mmap_inv_others [OF i(1)] fr a by (auto simp: arrays_apart_def)
  moreover from apart_right [OF a] fr have "arrays_apart (request_queue (tqueue (p_mmap st))) (req_list s) (aos s)"
    by simp
  ultimately show ?thesis unfolding st' process_inv_def
    by (simp add: others_view mmap_inv_Suc)
qed

interpretation process_runs: step_invariant process_exec process_inv process_orderly LIST_LIMIT
  by unfold_locales (rule process_inv_step)

text \<open>A process that has asked for both accessors.\<close>

definition both_started :: "world \<Rightarrow> process" where
  "both_started w = snd (Async_File_Accessor_Get_Instance ASYNC_FILE_ACCESSOR_AIO
     (snd (Async_File_Accessor_Get_Instance ASYNC_FILE_ACCESSOR_MMAP (process_start w))))"

lemma both_started_views:
  "in_mmap (both_started w) = mmap_start w"
  "in_aio (both_started w) = (g_aioFileAccessor w)\<lparr>aos := os (mmap_start w)\<rparr>"
  by (simp_all add: both_started_def Async_File_Accessor_Get_Instance_def ASYNC_FILE_ACCESSOR_AIO_def
      ASYNC_FILE_ACCESSOR_MMAP_def process_start_def in_mmap_def in_aio_def of_mmap_def of_aio_def
      AIO_File_Accessor_Get_Instance_def mmap_start_def g_mmapFileAccessor_def)

lemma started_inv: "clean_world w \<Longrightarrow> process_inv 0 (both_started w)"
proof -
  assume w: "clean_world w"
  note m = start_inv [OF w]
  then have "queue_wf (mmap_start w)" by (simp add: mmap_inv_def tasks_inv_def)
  then have "a < brk (os (mmap_start w))" if "request_queue (tqueue (mmap_start w)) = Addr a" for a
    using that by (auto simp: queue_wf_def)
  moreover have "req_list (p_aio (both_started w)) = Null"
    using arg_cong [OF both_started_views(2), of req_list w] by (simp add: g_aioFileAccessor_def)
  moreover have "p_os (both_started w) = os (mmap_start w)"
    unfolding both_started_views(1) [symmetric] by simp
  moreover have "tqueue (p_mmap (both_started w)) = tqueue (mmap_start w)"
    unfolding both_started_views(1) [symmetric] by simp
  moreover have "aio_inv (in_aio (both_started w))"
    unfolding both_started_views by (simp add: aio_inv_def g_aioFileAccessor_def)
  ultimately show ?thesis using m by (auto simp: process_inv_def arrays_apart_def both_started_views)
qed

text \<open>
  C16: both accessors at work in one process: whatever the order in which their events interleave on the
  shared memory, files and descriptors (calls kept in one piece), the task queue's array and the
  list of AIO requests never coincide, no slot of the queue is lost, every submitted mmap request still has a task
  waiting or in work, and every submitted AIO request with a known operation is unsettled.
\<close>
theorem accessors_keep_apart:
  assumes "clean_world w" "list_all process_orderly es" "length es \<le> LIST_LIMIT"
    and "run process_exec es (both_started w) = Some st"
  shows "(request_queue (tqueue (p_mmap st)) = req_list (p_aio st) \<longrightarrow> req_list (p_aio st) = Null) \<and>
    (\<forall>j < tailn (in_mmap st). \<exists>tk. slot_task (in_mmap st) j = Some tk \<and> task_wf (in_mmap st) tk) \<and>
    (\<forall>p r. requests (p_mmap st) p = Some r \<longrightarrow> r_status r = REQUEST_STAT_SUBMITTED \<longrightarrow>
       queued_for (in_mmap st) p \<or> in_work (in_mmap st) p) \<and>
    (\<forall>a r. areqs (p_aio st) a = Some r \<longrightarrow> ar_status r = REQUEST_STAT_SUBMITTED \<longrightarrow>
       unsettled (aops (p_aio st) a))"
proof -
  have "process_inv (0 + length es) st"
    using assms by (intro process_runs.inv_run [OF started_inv]) simp_all
  then show ?thesis
    by (auto simp: process_inv_def mmap_inv_def tasks_inv_def status_inv_def aio_inv_def request_inv_def
        arrays_apart_def)
qed

section \<open>Both accessors read the file\<close>

text \<open>
  The mmap accessor's request of theory \<open>Mmap_Demo\<close> is submitted first, then an AIO request for the same
  file (at 6), whose list is at 7.
\<close>

lemma mmap_events_run:
  "run mmap_exec es s = Some t \<Longrightarrow> run process_exec (map MmapEvent es) (of_mmap st s) = Some (of_mmap st t)"
proof (induction es arbitrary: s)
  case (Cons e es)
  then obtain u where u: "mmap_exec e s = Some (Inr u)" "run mmap_exec es u = Some t"
    by (auto split: option.splits sum.splits)
  have "of_mmap (of_mmap st s) u = of_mmap st u" by (simp add: of_mmap_def)
  with u Cons.IH [OF u(2)] show ?case by simp
qed simp

lemma started_eq: "of_mmap (both_started w) (mmap_start w) = both_started w"
  by (simp add: both_started_def Async_File_Accessor_Get_Instance_def ASYNC_FILE_ACCESSOR_AIO_def
      ASYNC_FILE_ACCESSOR_MMAP_def process_start_def in_mmap_def in_aio_def of_mmap_def of_aio_def
      AIO_File_Accessor_Get_Instance_def mmap_start_def g_mmapFileAccessor_def)

abbreviation both_queued :: process where
  "both_queued \<equiv> of_mmap (both_started demo_world) demo_submitted"

lemma both_queued_run: "run process_exec (map MmapEvent demo_events) (both_started demo_world) = Some both_queued"
  using mmap_events_run [OF demo_events_run, of "both_started demo_world"] by (simp only: started_eq)

lemma both_queued_aio: "in_aio both_queued = (g_aioFileAccessor demo_world)\<lparr>aos := os demo_submitted\<rparr>"
  by (simp add: others_view both_started_views)

definition both_request :: "ptr \<Rightarrow> request_stat \<Rightarrow> aio_request" where
  "both_request sv st =
     \<lparr>ar_info = read_info, ar_fd = 4, ar_fsb = 3,
      ar_cb = \<lparr>aio_fildes = 4, aio_buf = Null, aio_nbytes = 3, aio_offset = 0, aio_sival = sv\<rparr>,
      ar_buf = Null, ar_isValid = True, ar_isAlloced = False, ar_status = st,
      ar_lock = AioSyncReady, ar_isFinished = AioSyncReady\<rparr>"

definition both_os :: world where
  "both_os = demo_os\<lparr>calls := 14, brk := 7, parrs := [5 \<mapsto> demo_arr],
     fds := fds demo_os @ [Some \<lparr>o_path = ''in'', o_mode = Rdonly, o_pos = 0\<rparr>]\<rparr>"

definition both_got :: aio_sys where
  "both_got = \<lparr>aos = both_os, areqs = [6 \<mapsto> both_request Null REQUEST_STAT_INIT],
     aops = (\<lambda>_. None), req_list = Null, req_count = 0\<rparr>"

lemma both_get:
  "aio_exec (AEvGet read_info) (in_aio both_queued) = Some (Inr both_got)"
  unfolding both_queued_aio
  by (simp add: aio_get_request_def c_new_def ask_def fresh_addr_def g_aioFileAccessor_def
      aio_check_request_valid_def aget_def aput_def aio_read_info read_info_fields zero_aio_request_def
      zero_aiocb_def file_name_def sys_open_def opened_file_def retry_for_def retry_for_loop.simps
      demo_files sys_close_def fd_lookup_def fd_at_def aio_request_setup_def sys_lseek_cur_def
      sys_fstat_def Let_def both_got_def both_os_def both_request_def demo_queued_def demo_prepared_def demo_os_def)
     (simp add: demo_file_def numeral_3_eq_3 ASYNC_FILE_ACCESS_MAX_def ASYNC_FILE_ACCESS_READ_def)

definition both_submitted :: aio_sys where
  "both_submitted = \<lparr>aos = both_os\<lparr>calls := 16, brk := 8,
       parrs := [5 \<mapsto> demo_arr, 7 \<mapsto> \<lparr>a_len = 1024, a_at = [0 \<mapsto> Addr 6]\<rparr>]\<rparr>,
     areqs = [6 \<mapsto> both_request (Addr 6) REQUEST_STAT_SUBMITTED],
     aops = [6 \<mapsto> \<lparr>op_write = False, op_progress = InProgress, op_notify = False\<rparr>],
     req_list = Addr 7, req_count = 1\<rparr>"

lemma both_put: "aio_put_request (Addr 6) both_got = Inr (RET_OK, both_submitted)"
proof -
  let ?r = "both_request (Addr 6) REQUEST_STAT_INIT"
  let ?op = "[6 \<mapsto> \<lparr>op_write = False, op_progress = InProgress, op_notify = False\<rparr>]"
  let ?s2 = "both_got\<lparr>areqs := [6 \<mapsto> ?r], aos := both_os\<lparr>calls := 15\<rparr>, aops := ?op\<rparr>"
  let ?s3 = "?s2\<lparr>areqs := [6 \<mapsto> both_request (Addr 6) REQUEST_STAT_SUBMITTED]\<rparr>"
  have v: "aio_check_request_valid (Addr 6) both_got = Inr (RET_OK, both_got)"
    by (simp add: aio_check_request_valid_def aget_def both_got_def both_request_def)
  have p: "aio_put_submit (Addr 6) both_got = Inr (RET_OK, ?s2)"
    by (simp add: aio_put_submit_def aget_def aput_def sys_aio_submit_def ask_def both_got_def
        both_request_def both_os_def demo_os_def read_info_fields RET_OK_def)
  have m: "aio_put_mark (Addr 6) ?s2 = Inr ?s3"
    by (simp add: aio_put_mark_def aget_def aput_def both_request_def)
  have "unat (new_list_bufsize 0) div 8 = 1024" by (simp add: new_list_bufsize_unat LIST_LIMIT_def)
  then have g: "aio_grow_list ?s3 = Inr (RET_OK, ?s3\<lparr>req_list := Addr 7, aos := both_os
      \<lparr>calls := 16, brk := 8, parrs := [5 \<mapsto> demo_arr, 7 \<mapsto> \<lparr>a_len = 1024, a_at = (\<lambda>_. None)\<rparr>]\<rparr>\<rparr>)"
    by (simp add: aio_grow_list_def c_realloc_arr_def c_malloc_arr_def ask_def Let_def both_got_def
        both_os_def demo_os_def)
  have "aio_list_request (Addr 6) ?s3 = Inr (RET_OK, both_submitted)"
    unfolding aio_list_request_def g
    by (simp add: arr_set_def both_submitted_def both_got_def both_os_def demo_os_def fun_eq_iff)
  with v p m show ?thesis by (simp add: aio_put_request_def aio_put_finish_def)
qed

abbreviation both_busy :: process where "both_busy \<equiv> of_aio (of_aio both_queued both_got) both_submitted"

definition both_events :: "process_event list" where
  "both_events = map MmapEvent demo_events @ [AioEvent (AEvGet read_info), AioEvent (AEvPut (Addr 6))]"

lemma both_run: "run process_exec both_events (both_started demo_world) = Some both_busy"
proof -
  have "process_exec (AioEvent (AEvGet read_info)) both_queued = Some (Inr (of_aio both_queued both_got))"
    unfolding process_exec.simps both_get by simp
  moreover have "process_exec (AioEvent (AEvPut (Addr 6))) (of_aio both_queued both_got) = Some (Inr both_busy)"
    unfolding process_exec.simps in_of_aio aio_exec.simps aio_only_state_def both_put and_then_simps by simp
  ultimately show ?thesis
    unfolding both_events_def run_append both_queued_run by (simp del: process_exec.simps)
qed

theorem accessors_keep_apart_witness:
  "request_queue (tqueue (p_mmap both_busy)) \<noteq> req_list (p_aio both_busy) \<and>
   (queued_for (in_mmap both_busy) 2 \<or> in_work (in_mmap both_busy) 2) \<and>
   ar_status (both_request (Addr 6) REQUEST_STAT_SUBMITTED) = REQUEST_STAT_SUBMITTED \<and>
   unsettled (aops (p_aio both_busy) 6)"
proof -
  have l: "list_all process_orderly both_events" "length both_events \<le> LIST_LIMIT"
    by (simp_all add: both_events_def demo_events_def demo_prepare_def LIST_LIMIT_def)
  have m: "requests (p_mmap both_busy) 2 = Some (demo_request\<lparr>r_status := REQUEST_STAT_SUBMITTED\<rparr>)"
    "p_aio both_busy = both_submitted"
    by (simp_all add: demo_queued_def of_mmap_def of_aio_def)
  have a: "areqs both_submitted 6 = Some (both_request (Addr 6) REQUEST_STAT_SUBMITTED)" "req_list both_submitted \<noteq> Null"
    "ar_status (both_request (Addr 6) REQUEST_STAT_SUBMITTED) = REQUEST_STAT_SUBMITTED"
    by (simp_all add: both_submitted_def both_request_def)
  have r: "r_status (demo_request\<lparr>r_status := REQUEST_STAT_SUBMITTED\<rparr>) = REQUEST_STAT_SUBMITTED" by simp
  note x = accessors_keep_apart [OF demo_world_clean l both_run]
  from x m(1) r have "queued_for (in_mmap both_busy) 2 \<or> in_work (in_mmap both_busy) 2" by blast
  moreover from x a m(2) have "unsettled (aops (p_aio both_busy) 6)" by metis
  moreover from x a(2) m(2) have "request_queue (tqueue (p_mmap both_busy)) \<noteq> req_list (p_aio both_busy)" by metis
  ultimately show ?thesis using a(3) by blast
qed

end
